(* ===== verification/Prelude.thy ===== *)
theory Prelude imports Main "HOL-Library.Word" "HOL-Library.State_Monad" begin

text \<open>
  What every component shares: the machine integers of the i386 build, byte buffers and the
  two ways C code addresses them (a chunk that is read, a patch that is written), the
  little-endian layout of a 32-bit field, and the evaluation relation of the state monad
  over an abstraction of the state, with its rules in the collection \<open>evals_rules\<close>.
\<close>

unbundle bit_operations_syntax

named_theorems evals_rules "one rule per construct of the state monad, and one per verified operation"
named_theorems buffer_simps "lengths, slices and patches of byte buffers"
named_theorems layout_defs "definitions of constants and of the on-disk geometry"

section \<open>Machine integers and bytes\<close>

type_synonym u8 = "8 word"
type_synonym u16 = "16 word"
type_synonym u32 = "32 word"
type_synonym u64 = "64 word"
type_synonym bytes = "8 word list"

text \<open>A string literal of the source as the bytes its array holds, without the final NUL.\<close>

definition str :: "string \<Rightarrow> bytes" where
  "str s = map of_char s"

lemma str_Nil [simp]: "str [] = []"
  by (simp add: str_def)

lemma str_Cons [simp]: "str (c # s) = of_char c # str s"
  by (simp add: str_def)

lemma length_str [simp]: "length (str s) = length s"
  by (simp add: str_def)

section \<open>Buffers\<close>

text \<open>
  \<open>chunk off n xs\<close> is what \<open>memcpy(dst, xs + off, n)\<close> reads and \<open>patch off src xs\<close> is
  \<open>xs\<close> after \<open>memcpy(xs + off, src, length src)\<close>.
\<close>

definition chunk :: "nat \<Rightarrow> nat \<Rightarrow> 'a list \<Rightarrow> 'a list" where
  "chunk off n xs = take n (drop off xs)"

definition patch :: "nat \<Rightarrow> 'a list \<Rightarrow> 'a list \<Rightarrow> 'a list" where
  "patch off src xs = take off xs @ src @ drop (off + length src) xs"

lemma length_chunk [buffer_simps]: "length (chunk off n xs) = min n (length xs - off)"
  by (simp add: chunk_def)

lemma length_chunk_exact [simp]: "off + n \<le> length xs \<Longrightarrow> length (chunk off n xs) = n"
  by (simp add: chunk_def)

lemma length_patch [simp]: "off + length src \<le> length xs \<Longrightarrow> length (patch off src xs) = length xs"
  by (simp add: patch_def)

lemma nth_chunk [buffer_simps]: "i < n \<Longrightarrow> off + i < length xs \<Longrightarrow> chunk off n xs ! i = xs ! (off + i)"
  by (simp add: chunk_def)

lemma nth_patch [buffer_simps]:
  assumes "off + length src \<le> length xs" and "i < length xs"
  shows "patch off src xs ! i =
    (if off \<le> i \<and> i < off + length src then src ! (i - off) else xs ! i)"
  using assms by (auto simp: patch_def nth_append)

lemma chunk_patch_same [simp]:
  "off + length src \<le> length xs \<Longrightarrow> n = length src \<Longrightarrow> chunk off n (patch off src xs) = src"
  by (simp add: chunk_def patch_def)

lemma chunk_patch_other [buffer_simps]:
  assumes "off + length src \<le> length xs" and "o2 + n \<le> length xs"
    and "o2 + n \<le> off \<or> off + length src \<le> o2"
  shows "chunk o2 n (patch off src xs) = chunk o2 n xs"
  using assms by (intro nth_equalityI) (auto simp: buffer_simps)

lemma patch_chunk_id [simp]:
  assumes "off + n \<le> length xs"
  shows "patch off (chunk off n xs) xs = xs"
  using assms by (intro nth_equalityI) (auto simp: buffer_simps)

lemma patch_patch_same [simp]:
  assumes "off + length a \<le> length xs" and "length a = length b"
  shows "patch off a (patch off b xs) = patch off a xs"
  using assms by (intro nth_equalityI) (auto simp: buffer_simps)

lemma patch_Nil [simp]: "patch off [] xs = xs"
  by (simp add: patch_def)

lemma patch_append:
  assumes "off + length a + length b \<le> length xs"
  shows "patch (off + length a) b (patch off a xs) = patch off (a @ b) xs"
  using assms by (intro nth_equalityI) (auto simp: buffer_simps nth_append)

lemma patch_all: "length src = length xs \<Longrightarrow> patch 0 src xs = src"
  by (simp add: patch_def)

lemma chunk_replicate [simp]: "off + n \<le> m \<Longrightarrow> chunk off n (replicate m x) = replicate n x"
  by (intro nth_equalityI) (auto simp: buffer_simps)

section \<open>Little-endian 32-bit fields\<close>

definition le32 :: "u32 \<Rightarrow> bytes" where
  "le32 w = [ucast w, ucast (drop_bit 8 w), ucast (drop_bit 16 w), ucast (drop_bit 24 w)]"

definition rd32 :: "bytes \<Rightarrow> nat \<Rightarrow> u32" where
  "rd32 bs off = (ucast (bs ! off) OR push_bit 8 (ucast (bs ! (off + 1))) OR
     push_bit 16 (ucast (bs ! (off + 2))) OR push_bit 24 (ucast (bs ! (off + 3))))"

lemma length_le32 [simp]: "length (le32 w) = 4"
  by (simp add: le32_def)

lemma join_bytes32:
  fixes w :: u32
  shows "(ucast (ucast w :: u8) OR push_bit 8 (ucast (ucast (drop_bit 8 w) :: u8)) OR
     push_bit 16 (ucast (ucast (drop_bit 16 w) :: u8)) OR
     push_bit 24 (ucast (ucast (drop_bit 24 w) :: u8))) = w"
proof (rule bit_word_eqI)
  fix n :: nat
  assume "n < LENGTH(32)"
  then consider "n < 8" | "8 \<le> n \<and> n < 16" | "16 \<le> n \<and> n < 24" | "24 \<le> n \<and> n < 32"
    by fastforce
  then show "bit (ucast (ucast w :: u8) OR push_bit 8 (ucast (ucast (drop_bit 8 w) :: u8)) OR
     push_bit 16 (ucast (ucast (drop_bit 16 w) :: u8)) OR
     push_bit 24 (ucast (ucast (drop_bit 24 w) :: u8)) :: u32) n = bit w n"
    by cases (auto simp: bit_simps)
qed

lemma rd32_patch_same [simp]:
  assumes "off + 4 \<le> length xs"
  shows "rd32 (patch off (le32 w) xs) off = w"
  using assms by (simp add: rd32_def nth_patch le32_def join_bytes32)

lemma rd32_patch_other [buffer_simps]:
  assumes "off + length src \<le> length xs" and "o2 + 4 \<le> length xs"
    and "o2 + 4 \<le> off \<or> off + length src \<le> o2"
  shows "rd32 (patch off src xs) o2 = rd32 xs o2"
  using assms by (auto simp: rd32_def nth_patch)

lemma rd32_append [simp]: "rd32 (le32 w @ xs) 0 = w"
  by (simp add: rd32_def le32_def join_bytes32)

lemma rd32_chunk [buffer_simps]:
  "o2 + 4 \<le> n \<Longrightarrow> off + n \<le> length xs \<Longrightarrow> rd32 (chunk off n xs) o2 = rd32 xs (off + o2)"
  by (simp add: rd32_def nth_chunk add.assoc)

lemma rd32_skip: "off = length ys + o2 \<Longrightarrow> rd32 (ys @ xs) off = rd32 xs o2"
  by (simp add: rd32_def nth_append)

lemma rd32_zeros [simp]: "off + 4 \<le> n \<Longrightarrow> rd32 (replicate n 0) off = 0"
  by (simp add: rd32_def)

text \<open>The 16-bit words the PIO data port moves, low byte first.\<close>

definition le16 :: "u16 \<Rightarrow> bytes" where
  "le16 w = [ucast w, ucast (drop_bit 8 w)]"

definition rd16 :: "bytes \<Rightarrow> nat \<Rightarrow> u16" where
  "rd16 bs off = (ucast (bs ! off) OR push_bit 8 (ucast (bs ! (off + 1))))"

lemma length_le16 [simp]: "length (le16 w) = 2"
  by (simp add: le16_def)

lemma le16_rd16: "le16 (ucast (a :: u8) OR push_bit 8 (ucast (b :: u8))) = [a, b]"
proof -
  have "(ucast (ucast a OR push_bit 8 (ucast b) :: u16) :: u8) = a"
    by (rule bit_word_eqI) (auto simp: bit_simps)
  moreover have "(ucast (drop_bit 8 (ucast a OR push_bit 8 (ucast b) :: u16)) :: u8) = b"
    by (rule bit_word_eqI) (auto simp: bit_simps dest: bit_imp_le_length)
  ultimately show ?thesis by (simp add: le16_def)
qed

section \<open>Splitting at a separator\<close>

primrec split_on :: "'a \<Rightarrow> 'a list \<Rightarrow> 'a list list" where
  "split_on x [] = [[]]"
| "split_on x (c # cs) = (if c = x then [] # split_on x cs else (c # hd (split_on x cs)) # tl (split_on x cs))"

lemma split_on_not_Nil [simp]: "split_on x cs \<noteq> []"
  by (cases cs) auto

lemma split_on_first:
  "split_on x cs = takeWhile (\<lambda>c. c \<noteq> x) cs #
     (case dropWhile (\<lambda>c. c \<noteq> x) cs of [] \<Rightarrow> [] | _ # r \<Rightarrow> split_on x r)"
  by (induction cs) auto

lemma split_on_cases: "\<exists>t ts. split_on x cs = t # ts"
  by (cases "split_on x cs") auto

lemma split_on_notin: "t \<in> set (split_on x cs) \<Longrightarrow> x \<notin> set t"
proof (induction cs arbitrary: t)
  case (Cons c cs)
  then show ?case using split_on_cases [of x cs] by (auto split: if_splits)
qed simp

lemma split_on_subset: "t \<in> set (split_on x cs) \<Longrightarrow> set t \<subseteq> set cs"
proof (induction cs arbitrary: t)
  case (Cons c cs)
  obtain u us where u: "split_on x cs = u # us" using split_on_cases [of x cs] by blast
  show ?case using Cons.IH [of t] Cons.IH [of u] Cons.prems u by (auto split: if_splits)
qed simp

lemma split_on_length: "sum_list (map (\<lambda>t. Suc (length t)) (split_on x cs)) = Suc (length cs)"
proof (induction cs)
  case (Cons c cs)
  then show ?case by (cases "split_on x cs") auto
qed simp

section \<open>The state monad\<close>

text \<open>
  Stateful code is a value of \<open>('s, 'a) state\<close>; every function is total, so a statement about
  its run is about total correctness. \<open>valid P m Q\<close> is the Hoare triple. \<open>evals W A v m r v'\<close>
  says what a run does over an abstraction \<open>A\<close> of the states that satisfy \<open>W\<close>: from every
  such state whose abstraction is \<open>v\<close>, \<open>m\<close> returns \<open>r\<close> in a state that satisfies \<open>W\<close> and has
  the abstraction \<open>v'\<close>.
\<close>

definition valid :: "('s \<Rightarrow> bool) \<Rightarrow> ('s, 'a) state \<Rightarrow> ('a \<Rightarrow> 's \<Rightarrow> bool) \<Rightarrow> bool" where
  "valid P m Q \<longleftrightarrow> (\<forall>s r s'. P s \<longrightarrow> run_state m s = (r, s') \<longrightarrow> Q r s')"

lemma validI: "(\<And>s r s'. P s \<Longrightarrow> run_state m s = (r, s') \<Longrightarrow> Q r s') \<Longrightarrow> valid P m Q"
  by (simp add: valid_def)

lemma validD: "valid P m Q \<Longrightarrow> P s \<Longrightarrow> run_state m s = (r, s') \<Longrightarrow> Q r s'"
  by (auto simp: valid_def)

lemma valid_return: "(\<And>s. P s \<Longrightarrow> Q x s) \<Longrightarrow> valid P (State_Monad.return x) Q"
  by (simp add: valid_def)

lemma valid_bind:
  "valid P m R \<Longrightarrow> (\<And>x. valid (R x) (f x) Q) \<Longrightarrow> valid P (State_Monad.bind m f) Q"
  by (fastforce simp: valid_def split: prod.splits)

lemma valid_weaken:
  "valid P' m Q' \<Longrightarrow> (\<And>s. P s \<Longrightarrow> P' s) \<Longrightarrow> (\<And>r s. Q' r s \<Longrightarrow> Q r s) \<Longrightarrow> valid P m Q"
  unfolding valid_def by blast

lemma valid_if:
  "(b \<Longrightarrow> valid P m Q) \<Longrightarrow> (\<not> b \<Longrightarrow> valid P n Q) \<Longrightarrow> valid P (if b then m else n) Q"
  by simp

lemma valid_False: "valid (\<lambda>_. False) m Q"
  by (simp add: valid_def)

lemma valid_pre_fact: "(C \<Longrightarrow> valid P m Q) \<Longrightarrow> valid (\<lambda>s. C \<and> P s) m Q"
  by (auto simp: valid_def)

definition evals :: "('s \<Rightarrow> bool) \<Rightarrow> ('s \<Rightarrow> 'v) \<Rightarrow> 'v \<Rightarrow> ('s, 'a) state \<Rightarrow> 'a \<Rightarrow> 'v \<Rightarrow> bool" where
  "evals W A v m r v' \<longleftrightarrow>
     (\<forall>s. W s \<and> A s = v \<longrightarrow> (\<exists>s'. run_state m s = (r, s') \<and> W s' \<and> A s' = v'))"

lemma evalsI:
  "(\<And>s. W s \<Longrightarrow> A s = v \<Longrightarrow> \<exists>s'. run_state m s = (r, s') \<and> W s' \<and> A s' = v') \<Longrightarrow> evals W A v m r v'"
  by (simp add: evals_def)

lemma evalsD:
  "evals W A v m r v' \<Longrightarrow> W s \<Longrightarrow> A s = v \<Longrightarrow> \<exists>s'. run_state m s = (r, s') \<and> W s' \<and> A s' = v'"
  by (simp add: evals_def)

lemma evals_valid:
  "evals W A v m r v' \<longleftrightarrow> valid (\<lambda>s. W s \<and> A s = v) m (\<lambda>x s. x = r \<and> W s \<and> A s = v')"
proof
  assume "valid (\<lambda>s. W s \<and> A s = v) m (\<lambda>x s. x = r \<and> W s \<and> A s = v')"
  then show "evals W A v m r v'"
    unfolding evals_def valid_def by (metis surj_pair)
qed (fastforce simp: evals_def valid_def)

lemma evals_return [evals_rules]: "evals W A v (State_Monad.return x) x v"
  by (simp add: evals_def)

lemma evals_bind [evals_rules]:
  "evals W A v m r v' \<Longrightarrow> evals W A v' (f r) r' v'' \<Longrightarrow> evals W A v (State_Monad.bind m f) r' v''"
  by (fastforce simp: evals_def)

lemma evals_if [evals_rules]:
  "(b \<Longrightarrow> evals W A v m r v') \<Longrightarrow> (\<not> b \<Longrightarrow> evals W A v n r v') \<Longrightarrow> evals W A v (if b then m else n) r v'"
  by simp

lemma evals_cong:
  "evals W A v m r v' \<Longrightarrow> r = q \<Longrightarrow> v' = w \<Longrightarrow> evals W A v m q w"
  by simp

text \<open>Running an operation of a component on the field that holds the component's state.\<close>

definition on_field :: "('s \<Rightarrow> 'c) \<Rightarrow> ('c \<Rightarrow> 's \<Rightarrow> 's) \<Rightarrow> ('c, 'a) state \<Rightarrow> ('s, 'a) state" where
  "on_field getter setter m = State (\<lambda>s. case run_state m (getter s) of (r, c) \<Rightarrow> (r, setter c s))"

lemma run_on_field [simp]:
  "run_state (on_field getter setter m) s = (case run_state m (getter s) of (r, c) \<Rightarrow> (r, setter c s))"
  by (simp add: on_field_def)

text \<open>Reading a component of the state.\<close>

definition gets :: "('s \<Rightarrow> 'a) \<Rightarrow> ('s, 'a) state" where
  "gets f = State (\<lambda>s. (f s, s))"

definition modify :: "('s \<Rightarrow> 's) \<Rightarrow> ('s, unit) state" where
  "modify f = State (\<lambda>s. ((), f s))"

lemma run_gets [simp]: "run_state (gets f) s = (f s, s)"
  by (simp add: gets_def)

lemma run_modify [simp]: "run_state (modify f) s = ((), f s)"
  by (simp add: modify_def)

end
