(* ===== verification/Ioport.thy ===== *)
theory Ioport imports Prelude begin

text \<open>
  The port instructions of \<open>lib/asm/ioport.asm\<close>. They act on hardware, which is a parameter of
  the model: a record of functions on an unknown machine state. Its last field is what an
  uninitialised 512-byte local array holds, which C leaves indeterminate. The drivers state what
  they rely on of the device behind their ports in locales over this record.
\<close>

record 'd machine =
  inb :: "u16 \<Rightarrow> 'd \<Rightarrow> u8 \<times> 'd"
  outb :: "u16 \<Rightarrow> u8 \<Rightarrow> 'd \<Rightarrow> 'd"
  inw :: "u16 \<Rightarrow> 'd \<Rightarrow> u16 \<times> 'd"
  outw :: "u16 \<Rightarrow> u16 \<Rightarrow> 'd \<Rightarrow> 'd"
  uninit :: "'d \<Rightarrow> bytes"

text \<open>\<open>io_wait\<close> writes to an unused port to let time pass.\<close>

definition io_wait :: "'d machine \<Rightarrow> 'd \<Rightarrow> 'd" where
  "io_wait io = outb io 0x80 0"

end
