(* ===== verification/Ata.thy ===== *)
theory Ata imports Ioport begin

text \<open>
  The ATA driver, \<open>lib/c/driver/ata.c\<close>: device discovery and the PIO transfer of sectors by
  LBA28 address. The port instructions act on the \<open>machine\<close> of the theory Ioport.
\<close>

section \<open>Ports and driver state\<close>

datatype ata_device_type = ATA_DEVICE_NONE | ATA_DEVICE_PATA | ATA_DEVICE_PATAPI

record ata_device =
  present :: u8
  channel :: u8
  drive :: u8
  dev_type :: ata_device_type
  cylinders :: u16
  heads :: u16
  sectors :: u16
  capacity_sectors :: u64
  model :: bytes
  serial :: bytes

text \<open>The driver's static variables and, in \<open>hw\<close>, the hardware.\<close>

record 'd ata =
  ata_devices :: "ata_device list"
  ata_device_count :: u8
  identify_buf :: "u16 list"
  hw :: 'd

definition in8 :: "'d machine \<Rightarrow> u16 \<Rightarrow> ('d ata, u8) state" where
  "in8 io p = State (\<lambda>s. case inb io p (hw s) of (x, d) \<Rightarrow> (x, s\<lparr>hw := d\<rparr>))"

definition out8 :: "'d machine \<Rightarrow> u16 \<Rightarrow> u8 \<Rightarrow> ('d ata, unit) state" where
  "out8 io p x = State (\<lambda>s. ((), s\<lparr>hw := outb io p x (hw s)\<rparr>))"

definition in16 :: "'d machine \<Rightarrow> u16 \<Rightarrow> ('d ata, u16) state" where
  "in16 io p = State (\<lambda>s. case inw io p (hw s) of (x, d) \<Rightarrow> (x, s\<lparr>hw := d\<rparr>))"

definition out16 :: "'d machine \<Rightarrow> u16 \<Rightarrow> u16 \<Rightarrow> ('d ata, unit) state" where
  "out16 io p x = State (\<lambda>s. ((), s\<lparr>hw := outw io p x (hw s)\<rparr>))"

abbreviation (input) "ATA_PRIMARY_BASE \<equiv> (0x1F0 :: u16)"
abbreviation (input) "ATA_PRIMARY_CTRL \<equiv> (0x3F6 :: u16)"
abbreviation (input) "ATA_REG_DATA \<equiv> (0x1F0 :: u16)"
abbreviation (input) "ATA_REG_SECCOUNT0 \<equiv> (0x1F2 :: u16)"
abbreviation (input) "ATA_REG_LBA0 \<equiv> (0x1F3 :: u16)"
abbreviation (input) "ATA_REG_LBA1 \<equiv> (0x1F4 :: u16)"
abbreviation (input) "ATA_REG_LBA2 \<equiv> (0x1F5 :: u16)"
abbreviation (input) "ATA_REG_HDDEVSEL \<equiv> (0x1F6 :: u16)"
abbreviation (input) "ATA_REG_STATUS \<equiv> (0x1F7 :: u16)"
abbreviation (input) "ATA_REG_COMMAND \<equiv> (0x1F7 :: u16)"

abbreviation (input) "ATA_SR_BSY \<equiv> (0x80 :: u8)"
abbreviation (input) "ATA_SR_DRQ \<equiv> (0x08 :: u8)"
abbreviation (input) "ATA_SR_ERR \<equiv> (0x01 :: u8)"

section \<open>Waiting for the device\<close>

definition ata_io_wait :: "'d machine \<Rightarrow> ('d ata, unit) state" where
  "ata_io_wait io = do {
     _ \<leftarrow> in8 io ATA_PRIMARY_CTRL;
     _ \<leftarrow> in8 io ATA_PRIMARY_CTRL;
     _ \<leftarrow> in8 io ATA_PRIMARY_CTRL;
     _ \<leftarrow> in8 io ATA_PRIMARY_CTRL;
     State_Monad.return ()
   }"

text \<open>The polling loops count down the iterations that are left.\<close>

primrec bsy_loop :: "'d machine \<Rightarrow> nat \<Rightarrow> ('d ata, bool) state" where
  "bsy_loop io 0 = State_Monad.return False"
| "bsy_loop io (Suc n) = do {
     st \<leftarrow> in8 io ATA_REG_STATUS;
     if st AND ATA_SR_BSY = 0 then State_Monad.return True else bsy_loop io n
   }"

definition ata_wait_bsy_clear :: "'d machine \<Rightarrow> ('d ata, bool) state" where
  "ata_wait_bsy_clear io = bsy_loop io 100000"

primrec drq_loop :: "'d machine \<Rightarrow> nat \<Rightarrow> ('d ata, bool) state" where
  "drq_loop io 0 = do { _ \<leftarrow> in8 io ATA_REG_STATUS; State_Monad.return False }"
| "drq_loop io (Suc n) = do {
     st \<leftarrow> in8 io ATA_REG_STATUS;
     if st AND ATA_SR_ERR \<noteq> 0 then State_Monad.return False
     else if st AND ATA_SR_DRQ \<noteq> 0 then State_Monad.return True
     else do { _ \<leftarrow> ata_io_wait io; drq_loop io n }
   }"

definition ata_wait_drq :: "'d machine \<Rightarrow> ('d ata, bool) state" where
  "ata_wait_drq io = drq_loop io 100000"

section \<open>Identification\<close>

text \<open>The loop of \<open>ata_read_string\<close> that turns the trailing blanks into NULs, from the end.\<close>

fun blank_tail :: "bytes \<Rightarrow> bytes" where
  "blank_tail [] = []"
| "blank_tail (c # cs) = (if c = 0x20 then 0 # blank_tail cs else c # cs)"

definition ata_read_string :: "u16 list \<Rightarrow> nat \<Rightarrow> nat \<Rightarrow> bytes" where
  "ata_read_string ibuf offset words =
     (let cs = concat (map (\<lambda>i. let w = ibuf ! (offset + i) in [ucast (drop_bit 8 w), ucast w]) [0..<words])
      in rev (blank_tail (rev cs)) @ [0])"

primrec read_words :: "'d machine \<Rightarrow> nat \<Rightarrow> ('d ata, u16 list) state" where
  "read_words io 0 = State_Monad.return []"
| "read_words io (Suc n) = do {
     w \<leftarrow> in16 io ATA_REG_DATA;
     ws \<leftarrow> read_words io n;
     State_Monad.return (w # ws)
   }"

definition identify_capacity :: "u16 list \<Rightarrow> u64" where
  "identify_capacity b =
     (if b ! 83 AND push_bit 10 1 \<noteq> 0
      then ucast (b ! 100) OR push_bit 16 (ucast (b ! 101)) OR
           push_bit 32 (ucast (b ! 102)) OR push_bit 48 (ucast (b ! 103))
      else ucast ((ucast (b ! 60) :: u32) OR push_bit 16 (ucast (b ! 61))))"

definition identified_device :: "u8 \<Rightarrow> u16 list \<Rightarrow> ata_device" where
  "identified_device drv b =
     \<lparr>present = 1, channel = 0, drive = drv, dev_type = ATA_DEVICE_PATA,
      cylinders = 0, heads = 0, sectors = 0,
      capacity_sectors = identify_capacity b,
      model = ata_read_string b 27 20, serial = ata_read_string b 10 10\<rparr>"

definition ata_identify :: "'d machine \<Rightarrow> u8 \<Rightarrow> ('d ata, bool) state" where
  "ata_identify io drv = do {
     _ \<leftarrow> out8 io ATA_REG_HDDEVSEL (if drv \<noteq> 0 then 0xB0 else 0xA0);
     _ \<leftarrow> ata_io_wait io;
     _ \<leftarrow> out8 io ATA_REG_SECCOUNT0 0;
     _ \<leftarrow> out8 io ATA_REG_LBA0 0;
     _ \<leftarrow> out8 io ATA_REG_LBA1 0;
     _ \<leftarrow> out8 io ATA_REG_LBA2 0;
     _ \<leftarrow> out8 io ATA_REG_COMMAND 0xEC;
     _ \<leftarrow> ata_io_wait io;
     status \<leftarrow> in8 io ATA_REG_STATUS;
     if status = 0 then State_Monad.return False
     else do {
       bsy \<leftarrow> ata_wait_bsy_clear io;
       if \<not> bsy then State_Monad.return False
       else do {
         drq \<leftarrow> ata_wait_drq io;
         if \<not> drq then State_Monad.return False
         else do {
           ws \<leftarrow> read_words io 256;
           _ \<leftarrow> modify (\<lambda>s. s\<lparr>identify_buf := ws,
                  ata_devices := (ata_devices s)[unat (ata_device_count s) := identified_device drv ws],
                  ata_device_count := ata_device_count s + 1\<rparr>);
           State_Monad.return True
         }
       }
     }
   }"

definition ata_init :: "'d machine \<Rightarrow> ('d ata, unit) state" where
  "ata_init io = do {
     _ \<leftarrow> modify (\<lambda>s. s\<lparr>ata_device_count := 0\<rparr>);
     _ \<leftarrow> ata_identify io 0;
     _ \<leftarrow> ata_identify io 1;
     State_Monad.return ()
   }"

definition ata_get_device_count :: "('d ata, u8) state" where
  "ata_get_device_count = gets ata_device_count"

definition ata_get_device :: "u8 \<Rightarrow> ('d ata, ata_device option) state" where
  "ata_get_device index =
     gets (\<lambda>s. if ata_device_count s \<le> index then None else Some (ata_devices s ! unat index))"

section \<open>Sector transfer\<close>

text \<open>
  The buffer argument is the caller's array. A transfer of 256 words to \<open>wptr\<close> is one patch of
  512 bytes: nothing reads the buffer between two words.
\<close>

definition bytes_of :: "u16 list \<Rightarrow> bytes" where
  "bytes_of ws = concat (map le16 ws)"

definition words_of :: "bytes \<Rightarrow> u16 list" where
  "words_of bs = map (\<lambda>i. rd16 bs (2 * i)) [0..<256]"

definition select_lba :: "'d machine \<Rightarrow> u32 \<Rightarrow> u8 \<Rightarrow> ('d ata, unit) state" where
  "select_lba io lba count = do {
     n \<leftarrow> gets ata_device_count;
     let drive_bit = (if 1 < n then 0x10 else 0x00);
     _ \<leftarrow> out8 io ATA_REG_HDDEVSEL (0xE0 OR drive_bit OR (ucast (drop_bit 24 lba) AND 0x0F));
     _ \<leftarrow> ata_io_wait io;
     _ \<leftarrow> out8 io ATA_REG_SECCOUNT0 count;
     _ \<leftarrow> out8 io ATA_REG_LBA0 (ucast (lba AND 0xFF));
     _ \<leftarrow> out8 io ATA_REG_LBA1 (ucast (drop_bit 8 lba AND 0xFF));
     out8 io ATA_REG_LBA2 (ucast (drop_bit 16 lba AND 0xFF))
   }"

primrec read_sectors :: "'d machine \<Rightarrow> nat \<Rightarrow> nat \<Rightarrow> bytes \<Rightarrow> ('d ata, bool \<times> bytes) state" where
  "read_sectors io off 0 buf = State_Monad.return (True, buf)"
| "read_sectors io off (Suc n) buf = do {
     drq \<leftarrow> ata_wait_drq io;
     if \<not> drq then State_Monad.return (False, buf)
     else do {
       ws \<leftarrow> read_words io 256;
       read_sectors io (off + 512) n (patch off (bytes_of ws) buf)
     }
   }"

definition ata_read_sectors_lba28 :: "'d machine \<Rightarrow> u32 \<Rightarrow> u8 \<Rightarrow> bytes \<Rightarrow> ('d ata, bool \<times> bytes) state" where
  "ata_read_sectors_lba28 io lba count buf =
     (if count = 0 then State_Monad.return (False, buf)
      else do {
        n \<leftarrow> gets ata_device_count;
        if n = 0 then State_Monad.return (False, buf)
        else do {
          _ \<leftarrow> select_lba io lba count;
          bsy \<leftarrow> ata_wait_bsy_clear io;
          if \<not> bsy then State_Monad.return (False, buf)
          else do {
            _ \<leftarrow> out8 io ATA_REG_COMMAND 0x20;
            read_sectors io 0 (unat count) buf
          }
        }
      })"

primrec write_words :: "'d machine \<Rightarrow> nat \<Rightarrow> u16 list \<Rightarrow> ('d ata, unit) state" where
  "write_words io 0 ws = State_Monad.return ()"
| "write_words io (Suc n) ws = do {
     _ \<leftarrow> out16 io ATA_REG_DATA (hd ws);
     write_words io n (tl ws)
   }"

primrec drq_retry :: "'d machine \<Rightarrow> nat \<Rightarrow> ('d ata, bool) state" where
  "drq_retry io 0 = State_Monad.return False"
| "drq_retry io (Suc n) = do {
     drq \<leftarrow> ata_wait_drq io;
     if drq then State_Monad.return True
     else do { _ \<leftarrow> ata_io_wait io; drq_retry io n }
   }"

primrec write_sectors :: "'d machine \<Rightarrow> nat \<Rightarrow> nat \<Rightarrow> bytes \<Rightarrow> ('d ata, bool) state" where
  "write_sectors io off 0 buf = State_Monad.return True"
| "write_sectors io off (Suc n) buf = do {
     drq \<leftarrow> ata_wait_drq io;
     drq' \<leftarrow> (if drq then State_Monad.return True else drq_retry io 5);
     if \<not> drq' then State_Monad.return False
     else do {
       _ \<leftarrow> write_words io 256 (words_of (drop off buf));
       _ \<leftarrow> ata_io_wait io;
       write_sectors io (off + 512) n buf
     }
   }"

definition ata_write_sectors_lba28 :: "'d machine \<Rightarrow> u32 \<Rightarrow> u8 \<Rightarrow> bytes \<Rightarrow> ('d ata, bool) state" where
  "ata_write_sectors_lba28 io lba count buf =
     (if count = 0 then State_Monad.return False
      else do {
        n \<leftarrow> gets ata_device_count;
        if n = 0 then State_Monad.return False
        else do {
          _ \<leftarrow> select_lba io lba count;
          bsy \<leftarrow> ata_wait_bsy_clear io;
          if \<not> bsy then State_Monad.return False
          else do {
            _ \<leftarrow> out8 io ATA_REG_COMMAND 0x30;
            ok \<leftarrow> write_sectors io 0 (unat count) buf;
            if \<not> ok then State_Monad.return False
            else do {
              _ \<leftarrow> out8 io ATA_REG_COMMAND 0xE7;
              _ \<leftarrow> ata_io_wait io;
              flushed \<leftarrow> ata_wait_bsy_clear io;
              if \<not> flushed then State_Monad.return False
              else do {
                st \<leftarrow> in8 io ATA_REG_STATUS;
                State_Monad.return (st AND ATA_SR_ERR = 0)
              }
            }
          }
        }
      })"

end
