(* ===== verification/AtaDevice.thy ===== *)
theory AtaDevice imports Ata begin

text \<open>
  What the driver relies on: an ATA drive in the documented PIO protocol, as a view of the
  unknown hardware state and the laws of the locale \<open>ata_drive\<close>. The driver's lemmas are
  proved inside it; \<open>pio_io\<close>, the protocol executed on the view itself, interprets it.
\<close>

section \<open>The protocol\<close>

datatype pio_phase = Idle | Reading "u16 list" | Writing u32 nat "u16 list"

text \<open>
  The task file registers, the phase of the transfer, how many more status reads show BSY, the
  capacity of a drive in sectors, and the sectors of the two drives of the channel.
\<close>

record pio =
  reg_count :: u8
  reg_lba0 :: u8
  reg_lba1 :: u8
  reg_lba2 :: u8
  reg_select :: u8
  phase :: pio_phase
  busy :: nat
  capacity :: nat
  platters :: "bool \<Rightarrow> u32 \<Rightarrow> bytes"

definition pio_lba :: "pio \<Rightarrow> u32" where
  "pio_lba p = (ucast (reg_lba0 p) OR push_bit 8 (ucast (reg_lba1 p)) OR
     push_bit 16 (ucast (reg_lba2 p)) OR push_bit 24 (ucast (reg_select p AND 0x0F)))"

definition pio_slave :: "pio \<Rightarrow> bool" where
  "pio_slave p \<longleftrightarrow> reg_select p AND 0x10 \<noteq> 0"

definition pio_count :: "pio \<Rightarrow> nat" where
  "pio_count p = (if reg_count p = 0 then 256 else unat (reg_count p))"

definition in_capacity :: "pio \<Rightarrow> bool" where
  "in_capacity p \<longleftrightarrow> unat (pio_lba p) + pio_count p \<le> capacity p"

definition set_reg :: "u16 \<Rightarrow> u8 \<Rightarrow> pio \<Rightarrow> pio" where
  "set_reg q x p =
     (if q = 0x1F2 then p\<lparr>reg_count := x\<rparr>
      else if q = 0x1F3 then p\<lparr>reg_lba0 := x\<rparr>
      else if q = 0x1F4 then p\<lparr>reg_lba1 := x\<rparr>
      else if q = 0x1F5 then p\<lparr>reg_lba2 := x\<rparr>
      else p\<lparr>reg_select := x\<rparr>)"

definition addressed_sectors :: "pio \<Rightarrow> bytes list" where
  "addressed_sectors p = map (\<lambda>k. platters p (pio_slave p) (pio_lba p + of_nat k)) [0..<pio_count p]"

definition reading :: "u16 list \<Rightarrow> pio_phase" where
  "reading ws = (if ws = [] then Idle else Reading ws)"

definition start_command :: "u8 \<Rightarrow> pio \<Rightarrow> pio" where
  "start_command c p =
     p\<lparr>phase := (if c = 0x20 then reading (concat (map words_of (addressed_sectors p)))
                 else Writing (pio_lba p) (pio_count p) [])\<rparr>"

definition store_sector :: "u32 \<Rightarrow> bytes \<Rightarrow> pio \<Rightarrow> pio" where
  "store_sector l b p = p\<lparr>platters := (platters p)(pio_slave p := (platters p (pio_slave p))(l := b))\<rparr>"

definition accept_word :: "u16 \<Rightarrow> u32 \<Rightarrow> nat \<Rightarrow> u16 list \<Rightarrow> pio \<Rightarrow> pio" where
  "accept_word x l n ws p =
     (if length ws + 1 < 256 then p\<lparr>phase := Writing l n (ws @ [x])\<rparr>
      else (store_sector l (bytes_of (ws @ [x])) p)
             \<lparr>phase := (if n \<le> 1 then Idle else Writing (l + 1) (n - 1) [])\<rparr>)"

text \<open>
  The laws. A status read shows BSY, and nothing else, while the drive is busy, and otherwise
  DRQ exactly during a transfer and no error; it lets the busy time run down, as the other
  reads may. Registers are latched when the drive is idle. A read or write command within the
  capacity starts the transfer after a busy time shorter than the driver's polling bound, and
  the data port moves one word, with such a busy time only between sectors. The flush command
  changes no sector.
\<close>

locale ata_drive =
  fixes io :: "'d machine" and view :: "'d \<Rightarrow> pio"
  assumes status_runs_down: "inb io 0x1F7 d = (st, d') \<Longrightarrow>
      \<exists>b \<le> busy (view d) - 1. view d' = (view d)\<lparr>busy := b\<rparr>"
    and status_busy: "inb io 0x1F7 d = (st, d') \<Longrightarrow> 0 < busy (view d) \<Longrightarrow>
      st AND 0x80 \<noteq> 0 \<and> st AND 0x08 = 0 \<and> st AND 0x01 = 0"
    and status_free: "inb io 0x1F7 d = (st, d') \<Longrightarrow> busy (view d) = 0 \<Longrightarrow>
      st AND 0x80 = 0 \<and> st AND 0x01 = 0 \<and> (st AND 0x08 \<noteq> 0 \<longleftrightarrow> phase (view d) \<noteq> Idle)"
    and delay_read: "q = 0x3F6 \<or> q = 0x80 \<Longrightarrow> inb io q d = (x, d') \<Longrightarrow>
      \<exists>b \<le> busy (view d). view d' = (view d)\<lparr>busy := b\<rparr>"
    and register_write: "phase (view d) = Idle \<Longrightarrow> busy (view d) = 0 \<Longrightarrow> 0x1F2 \<le> q \<Longrightarrow> q \<le> 0x1F6 \<Longrightarrow>
      view (outb io q v d) = set_reg q v (view d)"
    and transfer_command: "phase (view d) = Idle \<Longrightarrow> busy (view d) = 0 \<Longrightarrow> c = 0x20 \<or> c = 0x30 \<Longrightarrow>
      in_capacity (view d) \<Longrightarrow>
      \<exists>b < 100000. view (outb io 0x1F7 c d) = (start_command c (view d))\<lparr>busy := b\<rparr>"
    and flush_command: "phase (view d) = Idle \<Longrightarrow>
      \<exists>b < 100000. view (outb io 0x1F7 0xE7 d) = (view d)\<lparr>busy := b\<rparr>"
    and data_in: "phase (view d) = Reading (w # ws) \<Longrightarrow> busy (view d) = 0 \<Longrightarrow>
      inw io 0x1F0 d = (u, d') \<Longrightarrow>
      u = w \<and> (\<exists>b < 100000. view d' = (view d)\<lparr>phase := reading ws, busy := b\<rparr> \<and>
        (b \<noteq> 0 \<longrightarrow> ws \<noteq> [] \<and> 256 dvd length ws))"
    and data_out: "phase (view d) = Writing l n us \<Longrightarrow> busy (view d) = 0 \<Longrightarrow>
      \<exists>b < 100000. view (outw io 0x1F0 u d) = (accept_word u l n us (view d))\<lparr>busy := b\<rparr> \<and>
        (length us + 1 < 256 \<longrightarrow> b = 0)"
    and uninit_length: "length (uninit io d) = 512"

section \<open>The protocol itself as a drive\<close>

definition pio_io :: "pio machine" where
  "pio_io = \<lparr>inb = (\<lambda>q p. (if phase p = Idle then 0x50 else 0x58, p)),
     outb = (\<lambda>q x p. if q = 0x1F7 then (if x = 0x20 \<or> x = 0x30 then start_command x p else p)
                     else set_reg q x p),
     inw = (\<lambda>q p. case phase p of Reading (w # ws) \<Rightarrow> (w, p\<lparr>phase := reading ws\<rparr>) | _ \<Rightarrow> (0, p)),
     outw = (\<lambda>q x p. case phase p of Writing l n ws \<Rightarrow> accept_word x l n ws p | _ \<Rightarrow> p),
     uninit = (\<lambda>_. replicate 512 0)\<rparr>"

text \<open>The view keeps no busy time: this drive is always ready.\<close>

definition prompt :: "pio \<Rightarrow> pio" where
  "prompt p = p\<lparr>busy := 0\<rparr>"

end
