(* ===== verification/AtaProof.thy ===== *)
theory AtaProof imports AtaDevice begin

text \<open>
  The driver over a conforming drive: every polling loop ends in time, and a read or write of
  sectors within the capacity succeeds and moves exactly those sectors.
\<close>

section \<open>Bytes and words of a sector\<close>

lemma length_bytes_of [simp]: "length (bytes_of ws) = 2 * length ws"
  by (induction ws) (auto simp: bytes_of_def)

lemma length_words_of [simp]: "length (words_of bs) = 256"
  by (simp add: words_of_def)

lemma words_of_not_Nil [simp]: "words_of bs \<noteq> []"
  by (simp add: words_of_def)

lemma bytes_of_pairs:
  "length bs = 2 * n \<Longrightarrow> concat (map (\<lambda>i. le16 (rd16 bs (2 * i))) [0..<n]) = bs"
proof (induction n arbitrary: bs)
  case 0
  then show ?case by simp
next
  case (Suc n)
  then obtain a b cs where bs: "bs = a # b # cs" and cs: "length cs = 2 * n"
    by (auto simp: length_Suc_conv numeral_2_eq_2)
  have "rd16 bs (2 * Suc i) = rd16 cs (2 * i)" for i
    by (simp add: bs rd16_def)
  then have "map (\<lambda>i. le16 (rd16 bs (2 * i))) [1..<Suc n] = map (\<lambda>i. le16 (rd16 cs (2 * i))) [0..<n]"
    by (simp add: map_Suc_upt [symmetric] o_def del: map_Suc_upt upt_Suc)
  moreover have "[0..<Suc n] = 0 # [1..<Suc n]"
    by (simp add: upt_rec)
  ultimately show ?case
    using Suc.IH [OF cs] by (simp add: bs rd16_def le16_rd16 del: upt_Suc)
qed

lemma bytes_of_words_of [simp]: "length bs = 512 \<Longrightarrow> bytes_of (words_of bs) = bs"
  using bytes_of_pairs [of bs 256] by (simp add: bytes_of_def words_of_def o_def)

lemma words_of_take: "words_of (take 512 bs) = words_of bs" if "512 \<le> length bs"
  using that by (simp add: words_of_def rd16_def)

lemma length_concat_blocks: "(\<And>b. b \<in> set bs \<Longrightarrow> length b = k) \<Longrightarrow> length (concat bs) = k * length bs"
  by (induction bs) auto

section \<open>The address registers\<close>

lemma bit_15: "bit (0x0F :: int) n \<longleftrightarrow> n < 4"
proof -
  have "(0x0F :: int) = mask 4" by (simp add: mask_eq_exp_minus_1)
  then show ?thesis by (simp only: bit_mask_iff possible_bit_int simp_thms)
qed

lemma bit_255: "bit (0xFF :: int) n \<longleftrightarrow> n < 8"
proof -
  have "(0xFF :: int) = mask 8" by (simp add: mask_eq_exp_minus_1)
  then show ?thesis by (simp only: bit_mask_iff possible_bit_int simp_thms)
qed

lemma select_low_bits:
  fixes w db :: u8
  assumes "db = 0x10 \<or> db = 0x00"
  shows "(0xE0 OR db OR (w AND 0x0F)) AND 0x0F = w AND 0x0F" 
    and "(0xE0 OR db OR (w AND 0x0F)) AND 0x10 = db"
  using assms by (auto simp: bit.conj_disj_distrib2 and.assoc)

lemma lba28_bytes:
  fixes lba :: u32
  assumes "unat lba < 2 ^ 28"
  shows "(ucast (ucast (lba AND 0xFF) :: u8) OR push_bit 8 (ucast (ucast (drop_bit 8 lba AND 0xFF) :: u8)) OR
     push_bit 16 (ucast (ucast (drop_bit 16 lba AND 0xFF) :: u8)) OR
     push_bit 24 (ucast (ucast (drop_bit 24 lba) AND 0x0F :: u8))) = lba"
proof (rule bit_word_eqI)
  have "unat (take_bit 28 lba) = unat lba"
    using assms by (simp add: unsigned_take_bit_eq take_bit_nat_eq_self_iff)
  then have "take_bit 28 lba = lba" by (simp only: word_unat_eq_iff)
  then have hi: "\<not> bit lba n" if "28 \<le> n" for n
    using that by (metis bit_take_bit_iff not_less)
  fix n :: nat
  assume "n < LENGTH(32)"
  then consider "n < 8" | "8 \<le> n \<and> n < 16" | "16 \<le> n \<and> n < 24" | "24 \<le> n \<and> n < 28" | "28 \<le> n \<and> n < 32"
    by fastforce
  then show "bit (ucast (ucast (lba AND 0xFF) :: u8) OR push_bit 8 (ucast (ucast (drop_bit 8 lba AND 0xFF) :: u8)) OR
     push_bit 16 (ucast (ucast (drop_bit 16 lba AND 0xFF) :: u8)) OR
     push_bit 24 (ucast (ucast (drop_bit 24 lba) AND 0x0F :: u8)) :: u32) n = bit lba n"
    by cases (auto simp: bit_simps bit_15 bit_255 hi)
qed

section \<open>States of the driver\<close>

definition driver_vars :: "'d ata \<Rightarrow> ata_device list \<times> u8 \<times> u16 list" where
  "driver_vars s = (ata_devices s, ata_device_count s, identify_buf s)"

text \<open>The view is \<open>p\<close> up to a busy time of at most \<open>k\<close>; the driver's variables are \<open>R\<close>.\<close>

definition near :: "('d \<Rightarrow> pio) \<Rightarrow> nat \<Rightarrow> pio \<Rightarrow> ata_device list \<times> u8 \<times> u16 list \<Rightarrow> 'd ata \<Rightarrow> bool" where
  "near view k p R s \<longleftrightarrow> driver_vars s = R \<and> (\<exists>b \<le> k. view (hw s) = p\<lparr>busy := b\<rparr>)"

lemma near_mono: "near view k p R s \<Longrightarrow> k \<le> k' \<Longrightarrow> near view k' p R s"
  unfolding near_def by (meson order_trans)

lemma driver_vars_hw [simp]: "driver_vars (s\<lparr>hw := d\<rparr>) = driver_vars s"
  by (simp add: driver_vars_def)

lemma near_0: "near view 0 p R s \<longleftrightarrow> driver_vars s = R \<and> view (hw s) = p\<lparr>busy := 0\<rparr>"
  by (simp add: near_def)

lemma reading_simps [simp]: "reading [] = Idle" "ws \<noteq> [] \<Longrightarrow> reading ws = Reading ws"
  by (simp_all add: reading_def)

primrec store_sectors :: "u32 \<Rightarrow> bytes list \<Rightarrow> pio \<Rightarrow> pio" where
  "store_sectors l [] p = p"
| "store_sectors l (b # bs) p = store_sectors (l + 1) bs (store_sector l b p)"

lemma pio_busy_frame [simp]:
  "pio_lba (p\<lparr>busy := b\<rparr>) = pio_lba p"
  "pio_count (p\<lparr>busy := b\<rparr>) = pio_count p"
  "pio_slave (p\<lparr>busy := b\<rparr>) = pio_slave p"
  by (simp_all add: pio_lba_def pio_count_def pio_slave_def)

lemma store_sector_frame [simp]:
  "phase (store_sector l b p) = phase p"
  "capacity (store_sector l b p) = capacity p"
  "pio_slave (store_sector l b p) = pio_slave p"
  "store_sector l b (p\<lparr>phase := ph\<rparr>) = (store_sector l b p)\<lparr>phase := ph\<rparr>"
  "store_sector l b (p\<lparr>busy := k\<rparr>) = (store_sector l b p)\<lparr>busy := k\<rparr>"
  by (simp_all add: store_sector_def pio_slave_def)

lemma store_sectors_frame [simp]:
  "phase (store_sectors l bs p) = phase p"
  "capacity (store_sectors l bs p) = capacity p"
  "pio_slave (store_sectors l bs p) = pio_slave p"
  by (induction bs arbitrary: l p) simp_all

context ata_drive begin

lemma delay_near:
  assumes "near view k p R s" and "q = 0x3F6 \<or> q = 0x80"
  shows "\<exists>x s'. run_state (in8 io q) s = (x, s') \<and> near view k p R s'"
proof -
  obtain x d where i: "inb io q (hw s) = (x, d)" by fastforce
  from assms(1) obtain b where R: "driver_vars s = R" and b: "b \<le> k" "view (hw s) = p\<lparr>busy := b\<rparr>"
    by (auto simp: near_def)
  from delay_read [OF assms(2) i] b obtain b' where "b' \<le> b" "view d = p\<lparr>busy := b'\<rparr>"
    by auto
  then have "near view k p R (s\<lparr>hw := d\<rparr>)"
    using R b by (auto simp: near_def intro!: exI [of _ b'])
  then show ?thesis by (simp add: in8_def i)
qed

lemma io_wait_near:
  assumes "near view k p R s"
  shows "\<exists>s'. run_state (ata_io_wait io) s = ((), s') \<and> near view k p R s'"
proof -
  have delay: "\<exists>x s'. run_state (in8 io 0x3F6) s = (x, s') \<and> near view k p R s'"
    if "near view k p R s" for s using delay_near [OF that] by simp
  from delay [OF assms] obtain x1 s1 where 1: "run_state (in8 io 0x3F6) s = (x1, s1)" "near view k p R s1"
    by blast
  from delay [OF 1(2)] obtain x2 s2 where 2: "run_state (in8 io 0x3F6) s1 = (x2, s2)" "near view k p R s2"
    by blast
  from delay [OF 2(2)] obtain x3 s3 where 3: "run_state (in8 io 0x3F6) s2 = (x3, s3)" "near view k p R s3"
    by blast
  from delay [OF 3(2)] obtain x4 s4 where 4: "run_state (in8 io 0x3F6) s3 = (x4, s4)" "near view k p R s4"
    by blast
  show ?thesis by (simp add: ata_io_wait_def 1 2 3 4)
qed

lemma status_near:
  assumes "near view k p R s"
  obtains st s' where "run_state (in8 io 0x1F7) s = (st, s')" and
    "(st AND 0x80 = 0 \<and> st AND 0x01 = 0 \<and> (st AND 0x08 \<noteq> 0 \<longleftrightarrow> phase p \<noteq> Idle) \<and> near view 0 p R s') \<or>
     (0 < k \<and> st AND 0x80 \<noteq> 0 \<and> st AND 0x01 = 0 \<and> st AND 0x08 = 0 \<and> near view (k - 1) p R s')"
proof -
  obtain st d where i: "inb io 0x1F7 (hw s) = (st, d)" by fastforce
  from assms obtain b where R: "driver_vars s = R" and b: "b \<le> k" "view (hw s) = p\<lparr>busy := b\<rparr>"
    by (auto simp: near_def)
  from status_runs_down [OF i] b obtain b' where b': "b' \<le> b - 1" "view d = p\<lparr>busy := b'\<rparr>"
    by auto
  have r: "run_state (in8 io 0x1F7) s = (st, s\<lparr>hw := d\<rparr>)" by (simp add: in8_def i)
  show thesis
  proof (cases "b = 0")
    case True
    then show thesis using status_free [OF i] b b' R by (intro that [OF r]) (auto simp: near_def)
  next
    case False
    then have "near view (k - 1) p R (s\<lparr>hw := d\<rparr>)" "0 < k"
      using R b b' by (auto simp: near_def intro!: exI [of _ b'])
    then show thesis using status_busy [OF i] False b by (intro that [OF r]) auto
  qed
qed

lemma bsy_loop_near:
  "k < n \<Longrightarrow> near view k p R s \<Longrightarrow> \<exists>s'. run_state (bsy_loop io n) s = (True, s') \<and> near view 0 p R s'"
proof (induction n arbitrary: k s)
  case 0
  then show ?case by simp
next
  case (Suc n)
  from Suc.prems(2) obtain st s1 where r: "run_state (in8 io 0x1F7) s = (st, s1)" and
    c: "(st AND 0x80 = 0 \<and> near view 0 p R s1) \<or> (0 < k \<and> st AND 0x80 \<noteq> 0 \<and> near view (k - 1) p R s1)"
    by (rule status_near) blast
  show ?case
  proof (cases "st AND 0x80 = 0")
    case True
    then show ?thesis using c r by auto
  next
    case False
    then have "near view (k - 1) p R s1" "k - 1 < n" using c Suc.prems(1) by auto
    then show ?thesis using Suc.IH False r by simp
  qed
qed

lemma drq_loop_near:
  "k < n \<Longrightarrow> phase p \<noteq> Idle \<Longrightarrow> near view k p R s \<Longrightarrow>
   \<exists>s'. run_state (drq_loop io n) s = (True, s') \<and> near view 0 p R s'"
proof (induction n arbitrary: k s)
  case 0
  then show ?case by simp
next
  case (Suc n)
  from Suc.prems(3) obtain st s1 where r: "run_state (in8 io 0x1F7) s = (st, s1)" and
    c: "st AND 0x01 = 0 \<and> ((st AND 0x08 \<noteq> 0 \<and> near view 0 p R s1) \<or>
        (0 < k \<and> st AND 0x08 = 0 \<and> near view (k - 1) p R s1))"
    by (rule status_near) (use Suc.prems(2) in blast)
  show ?case
  proof (cases "st AND 0x08 = 0")
    case True
    then have "near view (k - 1) p R s1" and k: "k - 1 < n" using c Suc.prems(1) by auto
    from io_wait_near [OF this(1)] obtain s2
      where w: "run_state (ata_io_wait io) s1 = ((), s2)" "near view (k - 1) p R s2" by blast
    from Suc.IH [OF k Suc.prems(2) w(2)] show ?thesis using True c r w(1) by auto
  next
    case False
    then show ?thesis using c r by auto
  qed
qed

lemmas wait_bsy_near = bsy_loop_near [of _ 100000, folded ata_wait_bsy_clear_def]
lemmas wait_drq_near = drq_loop_near [of _ 100000, folded ata_wait_drq_def]

lemma out8_near:
  assumes "near view 0 p R s" and "phase p = Idle" and "0x1F2 \<le> q" and "q \<le> 0x1F6"
  shows "\<exists>s'. run_state (out8 io q x) s = ((), s') \<and> near view 0 (set_reg q x p) R s'"
proof -
  have "view (outb io q x (hw s)) = set_reg q x (p\<lparr>busy := 0\<rparr>)"
    using register_write [of "hw s" q x] assms by (simp add: near_0)
  also have "\<dots> = (set_reg q x p)\<lparr>busy := 0\<rparr>"
    by (simp add: set_reg_def)
  finally show ?thesis using assms(1) by (simp add: out8_def near_0)
qed

lemma select_lba_near:
  assumes "near view 0 p R s" and "phase p = Idle" and "unat lba < 2 ^ 28"
  shows "\<exists>s' p'. run_state (select_lba io lba count) s = ((), s') \<and> near view 0 p' R s' \<and>
    phase p' = Idle \<and> pio_lba p' = lba \<and> (pio_slave p' \<longleftrightarrow> 1 < fst (snd R)) \<and> reg_count p' = count \<and>
    capacity p' = capacity p \<and> platters p' = platters p"
proof -
  define db :: u8 where "db = (if 1 < fst (snd R) then 0x10 else 0x00)"
  define sel where "sel = 0xE0 OR db OR (ucast (drop_bit 24 lba) AND 0x0F)"
  have n: "ata_device_count s = fst (snd R)"
    using assms(1) by (auto simp: near_def driver_vars_def)
  from out8_near [OF assms(1,2), where q = "0x1F6" and x = sel] obtain s1 where
    1: "run_state (out8 io 0x1F6 sel) s = ((), s1)" "near view 0 (set_reg 0x1F6 sel p) R s1" by auto
  from io_wait_near [OF 1(2)] obtain s2 where
    2: "run_state (ata_io_wait io) s1 = ((), s2)" "near view 0 (set_reg 0x1F6 sel p) R s2" by auto
  from out8_near [OF 2(2), where q = "0x1F2" and x = count] assms(2) obtain s3 where
    3: "run_state (out8 io 0x1F2 count) s2 = ((), s3)"
       "near view 0 (set_reg 0x1F2 count (set_reg 0x1F6 sel p)) R s3" by (auto simp: set_reg_def)
  from out8_near [OF 3(2), where q = "0x1F3" and x = "ucast (lba AND 0xFF)"] assms(2) obtain s4 where
    4: "run_state (out8 io 0x1F3 (ucast (lba AND 0xFF))) s3 = ((), s4)"
       "near view 0 (set_reg 0x1F3 (ucast (lba AND 0xFF)) (set_reg 0x1F2 count (set_reg 0x1F6 sel p))) R s4"
    by (auto simp: set_reg_def)
  from out8_near [OF 4(2), where q = "0x1F4" and x = "ucast (drop_bit 8 lba AND 0xFF)"] assms(2) obtain s5 where
    5: "run_state (out8 io 0x1F4 (ucast (drop_bit 8 lba AND 0xFF))) s4 = ((), s5)"
       "near view 0 (set_reg 0x1F4 (ucast (drop_bit 8 lba AND 0xFF))
          (set_reg 0x1F3 (ucast (lba AND 0xFF)) (set_reg 0x1F2 count (set_reg 0x1F6 sel p)))) R s5"
    by (auto simp: set_reg_def)
  from out8_near [OF 5(2), where q = "0x1F5" and x = "ucast (drop_bit 16 lba AND 0xFF)"] assms(2) obtain s6 where
    6: "run_state (out8 io 0x1F5 (ucast (drop_bit 16 lba AND 0xFF))) s5 = ((), s6)"
       "near view 0 (set_reg 0x1F5 (ucast (drop_bit 16 lba AND 0xFF))
          (set_reg 0x1F4 (ucast (drop_bit 8 lba AND 0xFF))
          (set_reg 0x1F3 (ucast (lba AND 0xFF)) (set_reg 0x1F2 count (set_reg 0x1F6 sel p))))) R s6"
    by (auto simp: set_reg_def)
  have db: "db = 0x10 \<or> db = 0x00" by (simp add: db_def)
  have run: "run_state (select_lba io lba count) s = ((), s6)"
    using 1 2 3 4 5 6 by (simp add: select_lba_def Let_def n db_def sel_def)
  have "sel AND 0x0F = ucast (drop_bit 24 lba) AND 0x0F" "sel AND 0x10 = db"
    by (simp_all add: sel_def select_low_bits [OF db])
  then show ?thesis
    by (intro exI conjI) (rule run, rule 6(2), simp_all add: set_reg_def pio_lba_def pio_slave_def
      lba28_bytes [OF assms(3)] assms(2) db_def)
qed

lemma read_words_near:
  assumes "length ws = m" and "0 < m" and "m \<le> 256" and "256 dvd length rest"
    and "near view 0 (p\<lparr>phase := reading (ws @ rest)\<rparr>) R s"
  shows "\<exists>s'. run_state (read_words io m) s = (ws, s') \<and>
    near view (if rest = [] then 0 else 99999) (p\<lparr>phase := reading rest\<rparr>) R s'"
  using assms
proof (induction m arbitrary: ws s)
  case 0
  then show ?case by simp
next
  case (Suc m)
  then obtain w vs where ws: "ws = w # vs" and m: "length vs = m" by (cases ws) auto
  obtain u d where i: "inw io 0x1F0 (hw s) = (u, d)" by fastforce
  have v: "view (hw s) = p\<lparr>phase := Reading (w # vs @ rest), busy := 0\<rparr>"
    using Suc.prems(5) by (simp add: near_0 ws)
  with data_in [OF _ _ i, of w "vs @ rest"] obtain b where u: "u = w" and b: "b < 100000"
    and d: "view d = p\<lparr>phase := reading (vs @ rest), busy := b\<rparr>"
    and z: "b \<noteq> 0 \<longrightarrow> vs @ rest \<noteq> [] \<and> 256 dvd length (vs @ rest)" by auto
  have run: "run_state (in16 io 0x1F0) s = (w, s\<lparr>hw := d\<rparr>)" by (simp add: in16_def i u)
  have R: "driver_vars (s\<lparr>hw := d\<rparr>) = R" using Suc.prems(5) by (simp add: near_def)
  show ?case
  proof (cases "m = 0")
    case True
    then have "near view (if rest = [] then 0 else 99999) (p\<lparr>phase := reading rest\<rparr>) R (s\<lparr>hw := d\<rparr>)"
      using b d z R m by (auto simp: near_def intro!: exI [of _ b])
    then show ?thesis using run True m by (simp add: ws)
  next
    case False
    have "\<not> 256 dvd length vs" using False m Suc.prems(3) by (auto dest!: dvd_imp_le)
    then have "b = 0" using z Suc.prems(4) by (auto simp: dvd_add_left_iff)
    then have "near view 0 (p\<lparr>phase := reading (vs @ rest)\<rparr>) R (s\<lparr>hw := d\<rparr>)"
      using d R by (simp add: near_0)
    from Suc.IH [OF m _ _ Suc.prems(4) this] False Suc.prems(3) show ?thesis
      using run by (auto simp: ws)
  qed
qed

lemma read_sectors_near:
  assumes "length secs = n" and "\<And>b. b \<in> set secs \<Longrightarrow> length b = 512"
    and "off + 512 * n \<le> length buf" and "k < 100000" and "n = 0 \<Longrightarrow> k = 0"
    and "near view k (p\<lparr>phase := reading (concat (map words_of secs))\<rparr>) R s"
  shows "\<exists>s'. run_state (read_sectors io off n buf) s = ((True, patch off (concat secs) buf), s') \<and>
    near view 0 (p\<lparr>phase := Idle\<rparr>) R s'"
  using assms
proof (induction n arbitrary: secs off buf k s)
  case 0
  then show ?case by simp
next
  case (Suc n)
  then obtain b bs where secs: "secs = b # bs" and bs: "length bs = n" and b: "length b = 512"
    by (cases secs) auto
  define rest where "rest = concat (map words_of bs)"
  have start: "near view k (p\<lparr>phase := reading (words_of b @ rest)\<rparr>) R s"
    using Suc.prems(6) by (simp add: secs rest_def)
  from wait_drq_near [OF Suc.prems(4) _ start] obtain s1 where
    1: "run_state (ata_wait_drq io) s = (True, s1)" "near view 0 (p\<lparr>phase := reading (words_of b @ rest)\<rparr>) R s1"
    by auto
  have dvd: "256 dvd length rest" unfolding rest_def by (induction bs) auto
  from read_words_near [OF _ _ _ dvd 1(2), of 256] obtain s2 where
    2: "run_state (read_words io 256) s1 = (words_of b, s2)"
       "near view (if rest = [] then 0 else 99999) (p\<lparr>phase := reading rest\<rparr>) R s2" by auto
  have "rest = [] \<longleftrightarrow> n = 0" using bs by (cases bs) (auto simp: rest_def)
  with Suc.IH [of bs "off + 512" "patch off b buf" "if rest = [] then 0 else 99999" s2]
    bs Suc.prems(2,3) 2(2) obtain s3 where
    3: "run_state (read_sectors io (off + 512) n (patch off b buf)) s2 =
          ((True, patch (off + 512) (concat bs) (patch off b buf)), s3)"
       "near view 0 (p\<lparr>phase := Idle\<rparr>) R s3"
    by (auto simp: secs rest_def)
  have len: "length (concat bs) = 512 * n"
    using length_concat_blocks [of bs] bs Suc.prems(2) by (simp add: secs)
  have "patch (off + 512) (concat bs) (patch off b buf) = patch off (concat secs) buf"
    using patch_append [of off b "concat bs" buf] Suc.prems(3) b len by (simp add: secs)
  then show ?case using 1(1) 2(1) 3 b by simp
qed

lemma write_words_near:
  assumes "length ws = m" and "0 < m" and "length us + m = 256"
    and "near view 0 (p\<lparr>phase := Writing l n us\<rparr>) R s"
  shows "\<exists>s'. run_state (write_words io m ws) s = ((), s') \<and>
    near view 99999 ((store_sector l (bytes_of (us @ ws)) p)
      \<lparr>phase := (if n \<le> 1 then Idle else Writing (l + 1) (n - 1) [])\<rparr>) R s'"
  using assms
proof (induction m arbitrary: ws us s)
  case 0
  then show ?case by simp
next
  case (Suc m)
  then obtain w vs where ws: "ws = w # vs" and m: "length vs = m" by (cases ws) auto
  have v: "view (hw s) = p\<lparr>phase := Writing l n us, busy := 0\<rparr>"
    using Suc.prems(4) by (simp add: near_0)
  with data_out [of "hw s" l n us w] obtain b where b: "b < 100000" "length us + 1 < 256 \<longrightarrow> b = 0"
    and d: "view (outw io 0x1F0 w (hw s)) =
      (accept_word w l n us (p\<lparr>phase := Writing l n us, busy := 0\<rparr>))\<lparr>busy := b\<rparr>" by auto
  let ?s = "s\<lparr>hw := outw io 0x1F0 w (hw s)\<rparr>"
  have run: "run_state (out16 io 0x1F0 w) s = ((), ?s)" by (simp add: out16_def)
  have R: "driver_vars ?s = R" using Suc.prems(4) by (simp add: near_def)
  show ?case
  proof (cases "m = 0")
    case True
    then have "near view 99999 ((store_sector l (bytes_of (us @ ws)) p)
      \<lparr>phase := (if n \<le> 1 then Idle else Writing (l + 1) (n - 1) [])\<rparr>) R ?s"
      using b d R m Suc.prems(3) by (auto simp: near_def accept_word_def ws intro!: exI [of _ b])
    then show ?thesis using run True by (simp add: ws)
  next
    case False
    then have "near view 0 (p\<lparr>phase := Writing l n (us @ [w])\<rparr>) R ?s"
      using b d R Suc.prems(3) by (simp add: near_0 accept_word_def)
    from Suc.IH [OF m _ _ this] False Suc.prems(3) show ?thesis
      using run by (auto simp: ws)
  qed
qed

lemma write_sectors_near:
  assumes "k < 100000" and "off + 512 * Suc n \<le> length buf"
    and "near view k (p\<lparr>phase := Writing l (Suc n) []\<rparr>) R s"
  shows "\<exists>s'. run_state (write_sectors io off (Suc n) buf) s = (True, s') \<and>
    near view 99999 ((store_sectors l (map (\<lambda>i. chunk (off + 512 * i) 512 buf) [0..<Suc n]) p)
      \<lparr>phase := Idle\<rparr>) R s'"
  using assms
proof (induction n arbitrary: off k l p s)
  case (0 off k l p s)
  from wait_drq_near [OF 0(1) _ 0(3)] obtain s1 where
    1: "run_state (ata_wait_drq io) s = (True, s1)" "near view 0 (p\<lparr>phase := Writing l (Suc 0) []\<rparr>) R s1"
    by auto
  let ?ws = "words_of (drop off buf)"
  have ch: "bytes_of ?ws = chunk off 512 buf"
    using 0(2) words_of_take [of "drop off buf"] bytes_of_words_of [of "take 512 (drop off buf)"]
    by (simp add: chunk_def)
  from write_words_near [of ?ws 256 "[]", OF _ _ _ 1(2)] obtain s2 where
    2: "run_state (write_words io 256 ?ws) s1 = ((), s2)"
       "near view 99999 ((store_sector l (chunk off 512 buf) p)\<lparr>phase := Idle\<rparr>) R s2"
    by (auto simp: ch)
  from io_wait_near [OF 2(2)] obtain s3 where
    3: "run_state (ata_io_wait io) s2 = ((), s3)"
       "near view 99999 ((store_sector l (chunk off 512 buf) p)\<lparr>phase := Idle\<rparr>) R s3" by auto
  show ?case using 1 2 3 by simp
next
  case (Suc n off k l p s)
  from wait_drq_near [OF Suc.prems(1) _ Suc.prems(3)] obtain s1 where
    1: "run_state (ata_wait_drq io) s = (True, s1)"
       "near view 0 (p\<lparr>phase := Writing l (Suc (Suc n)) []\<rparr>) R s1"
    by auto
  let ?ws = "words_of (drop off buf)"
  have ch: "bytes_of ?ws = chunk off 512 buf"
    using Suc.prems(2) words_of_take [of "drop off buf"] bytes_of_words_of [of "take 512 (drop off buf)"]
    by (simp add: chunk_def)
  from write_words_near [of ?ws 256 "[]", OF _ _ _ 1(2)] obtain s2 where
    2: "run_state (write_words io 256 ?ws) s1 = ((), s2)"
       "near view 99999 ((store_sector l (chunk off 512 buf) p)\<lparr>phase := Writing (l + 1) (Suc n) []\<rparr>) R s2"
    by (auto simp: ch)
  from io_wait_near [OF 2(2)] obtain s3 where
    3: "run_state (ata_io_wait io) s2 = ((), s3)"
       "near view 99999 ((store_sector l (chunk off 512 buf) p)\<lparr>phase := Writing (l + 1) (Suc n) []\<rparr>) R s3"
    by auto
  from Suc.IH [of 99999 "off + 512", OF _ _ 3(2)] Suc.prems(2) obtain s4 where
    4: "run_state (write_sectors io (off + 512) (Suc n) buf) s3 = (True, s4)"
       "near view 99999 ((store_sectors (l + 1) (map (\<lambda>i. chunk (off + 512 + 512 * i) 512 buf) [0..<Suc n])
          (store_sector l (chunk off 512 buf) p))\<lparr>phase := Idle\<rparr>) R s4"
    by auto
  have "map (\<lambda>i. chunk (off + 512 * i) 512 buf) [0..<Suc (Suc n)] =
    chunk off 512 buf # map (\<lambda>i. chunk (off + 512 + 512 * i) 512 buf) [0..<Suc n]"
    by (simp add: upt_rec [of 0] map_Suc_upt [symmetric] o_def algebra_simps del: upt_Suc)
  then have "store_sectors l (map (\<lambda>i. chunk (off + 512 * i) 512 buf) [0..<Suc (Suc n)]) p =
    store_sectors (l + 1) (map (\<lambda>i. chunk (off + 512 + 512 * i) 512 buf) [0..<Suc n])
          (store_sector l (chunk off 512 buf) p)"
    by (simp del: upt_Suc)
  then show ?case using 1(1) 2(1) 3(1) 4 by (simp del: upt_Suc write_sectors.simps add: write_sectors.simps(2) [of io off "Suc n"])
qed

lemma addressed_sectors_count:
  "reg_count p \<noteq> 0 \<Longrightarrow> addressed_sectors p =
     map (\<lambda>i. platters p (pio_slave p) (pio_lba p + of_nat i)) [0..<unat (reg_count p)]"
  by (simp add: addressed_sectors_def pio_count_def)

text \<open>A command is issued on an idle drive and starts its transfer.\<close>

lemma command_near:
  assumes "near view 0 p R s" and "phase p = Idle" and "c = 0x20 \<or> c = 0x30" and "in_capacity p"
  shows "\<exists>s'. run_state (out8 io 0x1F7 c) s = ((), s') \<and> near view 99999 (start_command c p) R s'"
proof -
  have v: "view (hw s) = p\<lparr>busy := 0\<rparr>" and R: "driver_vars s = R" using assms(1) by (simp_all add: near_0)
  have cap: "in_capacity (view (hw s))"
    using assms(4) by (simp add: v in_capacity_def)
  from transfer_command [OF _ _ assms(3) cap] v assms(2) obtain b where
    "b < 100000" "view (outb io 0x1F7 c (hw s)) = (start_command c (p\<lparr>busy := 0\<rparr>))\<lparr>busy := b\<rparr>" by auto
  then have "near view 99999 (start_command c p) R (s\<lparr>hw := outb io 0x1F7 c (hw s)\<rparr>)"
    using R by (auto simp: near_def start_command_def addressed_sectors_def intro!: exI [of _ b])
  then show ?thesis by (simp add: out8_def)
qed

lemma flush_near:
  assumes "near view k p R s" and "phase p = Idle"
  shows "\<exists>s'. run_state (out8 io 0x1F7 0xE7) s = ((), s') \<and> near view 99999 p R s'"
proof -
  obtain j where v: "view (hw s) = p\<lparr>busy := j\<rparr>" and R: "driver_vars s = R"
    using assms(1) by (auto simp: near_def)
  from flush_command [of "hw s"] assms(2) obtain b where
    "b < 100000" "view (outb io 0x1F7 0xE7 (hw s)) = p\<lparr>busy := b\<rparr>" by (auto simp: v)
  then have "near view 99999 p R (s\<lparr>hw := outb io 0x1F7 0xE7 (hw s)\<rparr>)"
    using R by (auto simp: near_def intro!: exI [of _ b])
  then show ?thesis by (simp add: out8_def)
qed

lemma ata_read_near:
  assumes "near view 0 p R s" and "phase p = Idle" and "fst (snd R) \<noteq> 0" and "count \<noteq> 0"
    and "unat lba + unat count \<le> capacity p" and "capacity p \<le> 2 ^ 28"
    and "\<And>b l. length (platters p b l) = 512" and "512 * unat count \<le> length buf"
  shows "\<exists>s' p'. run_state (ata_read_sectors_lba28 io lba count buf) s =
      ((True, patch 0 (concat (map (\<lambda>i. platters p (1 < fst (snd R)) (lba + of_nat i)) [0..<unat count])) buf), s') \<and>
    near view 0 p' R s' \<and> phase p' = Idle \<and> capacity p' = capacity p \<and> platters p' = platters p"
proof -
  have pos: "0 < unat count" using assms(4) by (simp add: unat_gt_0)
  have n: "ata_device_count s = fst (snd R)"
    using assms(1) by (auto simp: near_def driver_vars_def)
  from select_lba_near [OF assms(1,2), of lba count] assms(5,6) pos obtain s1 p1 where
    1: "run_state (select_lba io lba count) s = ((), s1)" "near view 0 p1 R s1" "phase p1 = Idle"
       "pio_lba p1 = lba" "pio_slave p1 \<longleftrightarrow> 1 < fst (snd R)" "reg_count p1 = count"
       "capacity p1 = capacity p" "platters p1 = platters p" by auto
  from wait_bsy_near [OF _ 1(2)] obtain s2 where
    2: "run_state (ata_wait_bsy_clear io) s1 = (True, s2)" "near view 0 p1 R s2" by auto
  have cap: "in_capacity p1" using 1 assms(4,5) by (simp add: in_capacity_def pio_count_def)
  from command_near [OF 2(2) 1(3) _ cap] obtain s3 where
    3: "run_state (out8 io 0x1F7 0x20) s2 = ((), s3)" "near view 99999 (start_command 0x20 p1) R s3" by auto
  let ?secs = "map (\<lambda>i. platters p (1 < fst (snd R)) (lba + of_nat i)) [0..<unat count]"
  have secs: "addressed_sectors p1 = ?secs"
    using addressed_sectors_count [of p1] 1 assms(4) by simp
  have st: "near view 99999 (p1\<lparr>phase := reading (concat (map words_of ?secs))\<rparr>) R s3"
    using 3(2) secs by (simp add: start_command_def)
  from read_sectors_near [of ?secs "unat count" 0 buf 99999, OF _ _ _ _ _ st] assms(7,8) pos obtain s4 where
    4: "run_state (read_sectors io 0 (unat count) buf) s3 = ((True, patch 0 (concat ?secs) buf), s4)"
       "near view 0 (p1\<lparr>phase := Idle\<rparr>) R s4" by auto
  have "run_state (ata_read_sectors_lba28 io lba count buf) s = ((True, patch 0 (concat ?secs) buf), s4)"
    using 1(1) 2(1) 3(1) 4(1) assms(3,4) n by (simp add: ata_read_sectors_lba28_def)
  then show ?thesis using 4(2) 1 by fastforce
qed

lemma ata_write_near:
  assumes "near view 0 p R s" and "phase p = Idle" and "fst (snd R) \<noteq> 0" and "count \<noteq> 0"
    and "unat lba + unat count \<le> capacity p" and "capacity p \<le> 2 ^ 28"
    and "512 * unat count \<le> length buf"
  shows "\<exists>s' p'. run_state (ata_write_sectors_lba28 io lba count buf) s = (True, s') \<and>
    near view 0 p' R s' \<and> phase p' = Idle \<and> capacity p' = capacity p \<and>
    platters p' = platters (store_sectors lba (map (\<lambda>i. chunk (512 * i) 512 buf) [0..<unat count])
      (p\<lparr>reg_select := if 1 < fst (snd R) then 0x10 else 0\<rparr>))"
proof -
  obtain m where m: "unat count = Suc m" using assms(4) by (cases "unat count") (auto simp: unat_eq_0)
  have n: "ata_device_count s = fst (snd R)"
    using assms(1) by (auto simp: near_def driver_vars_def)
  from select_lba_near [OF assms(1,2), of lba count] assms(5,6) m obtain s1 p1 where
    1: "run_state (select_lba io lba count) s = ((), s1)" "near view 0 p1 R s1" "phase p1 = Idle"
       "pio_lba p1 = lba" "pio_slave p1 \<longleftrightarrow> 1 < fst (snd R)" "reg_count p1 = count"
       "capacity p1 = capacity p" "platters p1 = platters p" by auto
  from wait_bsy_near [OF _ 1(2)] obtain s2 where
    2: "run_state (ata_wait_bsy_clear io) s1 = (True, s2)" "near view 0 p1 R s2" by auto
  have cap: "in_capacity p1" using 1 assms(4,5) by (simp add: in_capacity_def pio_count_def)
  from command_near [OF 2(2) 1(3) _ cap] obtain s3 where
    3: "run_state (out8 io 0x1F7 0x30) s2 = ((), s3)" "near view 99999 (start_command 0x30 p1) R s3" by auto
  have "start_command 0x30 p1 = p1\<lparr>phase := Writing lba (Suc m) []\<rparr>"
    using 1 m assms(4) by (simp add: start_command_def pio_count_def)
  with 3(2) have "near view 99999 (p1\<lparr>phase := Writing lba (Suc m) []\<rparr>) R s3" by simp
  from write_sectors_near [of 99999 0 m buf, OF _ _ this] assms(7) m obtain s4 where
    4: "run_state (write_sectors io 0 (unat count) buf) s3 = (True, s4)"
       "near view 99999 ((store_sectors lba (map (\<lambda>i. chunk (512 * i) 512 buf) [0..<Suc m]) p1)
          \<lparr>phase := Idle\<rparr>) R s4"
    by (auto simp del: upt_Suc write_sectors.simps)
  define p2 where "p2 = (store_sectors lba (map (\<lambda>i. chunk (512 * i) 512 buf) [0..<Suc m]) p1)\<lparr>phase := Idle\<rparr>"
  from flush_near [OF 4(2)] obtain s5 where
    5: "run_state (out8 io 0x1F7 0xE7) s4 = ((), s5)" "near view 99999 p2 R s5"
    by (auto simp: p2_def simp del: upt_Suc)
  from io_wait_near [OF 5(2)] obtain s6 where
    6: "run_state (ata_io_wait io) s5 = ((), s6)" "near view 99999 p2 R s6" by auto
  from wait_bsy_near [OF _ 6(2)] obtain s7 where
    7: "run_state (ata_wait_bsy_clear io) s6 = (True, s7)" "near view 0 p2 R s7" by auto
  obtain st s8 where
    8: "run_state (in8 io 0x1F7) s7 = (st, s8)" "st AND 0x01 = 0" "near view 0 p2 R s8"
    by (rule status_near [OF 7(2)]) blast
  have run: "run_state (ata_write_sectors_lba28 io lba count buf) s = (True, s8)"
    using 1(1) 2(1) 3(1) 4(1) 5(1) 6(1) 7(1) 8 assms(3,4) n by (simp add: ata_write_sectors_lba28_def)
  have eq: "platters (store_sectors l bs q) = platters (store_sectors l bs q')"
    if "platters q = platters q'" "pio_slave q = pio_slave q'" for l bs q q'
    using that by (induction bs arbitrary: l q q') (auto simp: store_sector_def pio_slave_def)
  have "pio_slave p1 = pio_slave (p\<lparr>reg_select := if 1 < fst (snd R) then 0x10 else 0\<rparr>)"
    using 1(5) by (simp add: pio_slave_def)
  from eq [OF _ this] 1(8) have
    "platters p2 = platters (store_sectors lba (map (\<lambda>i. chunk (512 * i) 512 buf) [0..<unat count])
      (p\<lparr>reg_select := if 1 < fst (snd R) then 0x10 else 0\<rparr>))" by (simp add: p2_def m del: upt_Suc)
  moreover have "phase p2 = Idle" "capacity p2 = capacity p" using 1(7) by (simp_all add: p2_def del: upt_Suc)
  ultimately show ?thesis using run 8(3) by blast
qed

end

section \<open>The protocol is a conforming drive\<close>

interpretation pio: ata_drive pio_io prompt
proof (unfold_locales, goal_cases)
  case (5 d q v)
  then show ?case by (auto simp: pio_io_def prompt_def set_reg_def)
next
  case (6 d c)
  then show ?case
    by (auto simp: pio_io_def prompt_def start_command_def addressed_sectors_def intro!: exI [of _ 0])
next
  case (7 d)
  then show ?case by (auto simp: pio_io_def prompt_def intro!: exI [of _ 0])
next
  case (8 d w ws u d')
  then show ?case by (auto simp: pio_io_def prompt_def intro!: exI [of _ 0])
next
  case (9 d l n us u)
  then show ?case
    by (auto simp: pio_io_def prompt_def accept_word_def store_sector_def pio_slave_def intro!: exI [of _ 0])
qed (auto simp: pio_io_def prompt_def split: if_splits)

end
