(* ===== verification/AtaProps.thy ===== *)
theory AtaProps imports AtaProof begin

text \<open>
  The properties of the ATA driver over a conforming drive, and the bound on the devices that
  hold on any hardware.
\<close>

section \<open>Frames on any hardware\<close>

lemma valid_frame_bind:
  "valid (\<lambda>s. f s = c) m (\<lambda>_ s. f s = c) \<Longrightarrow> (\<And>x. valid (\<lambda>s. f s = c) (g x) (\<lambda>_ s. f s = c)) \<Longrightarrow>
   valid (\<lambda>s. f s = c) (State_Monad.bind m g) (\<lambda>_ s. f s = c)"
  by (rule valid_bind)

lemma ports_keep:
  "valid (\<lambda>s. driver_vars s = c) (in8 io p) (\<lambda>_ s. driver_vars s = c)"
  "valid (\<lambda>s. driver_vars s = c) (out8 io p x) (\<lambda>_ s. driver_vars s = c)"
  "valid (\<lambda>s. driver_vars s = c) (in16 io p) (\<lambda>_ s. driver_vars s = c)"
  "valid (\<lambda>s. driver_vars s = c) (State_Monad.return y) (\<lambda>_ s. driver_vars s = c)"
  by (auto simp: valid_def in8_def out8_def in16_def driver_vars_def split: prod.splits)

lemma io_wait_keeps: "valid (\<lambda>s. driver_vars s = c) (ata_io_wait io) (\<lambda>_ s. driver_vars s = c)"
  unfolding ata_io_wait_def by (intro valid_frame_bind ports_keep)

lemma bsy_loop_keeps: "valid (\<lambda>s. driver_vars s = c) (bsy_loop io n) (\<lambda>_ s. driver_vars s = c)"
  by (induction n) (auto intro!: valid_frame_bind ports_keep valid_if)

lemma drq_loop_keeps: "valid (\<lambda>s. driver_vars s = c) (drq_loop io n) (\<lambda>_ s. driver_vars s = c)"
  by (induction n) (auto intro!: valid_frame_bind ports_keep valid_if io_wait_keeps)

lemma read_words_keep: "valid (\<lambda>s. driver_vars s = c) (read_words io n) (\<lambda>_ s. driver_vars s = c)"
  by (induction n) (auto intro!: valid_frame_bind ports_keep)

text \<open>Identifying one drive adds at most one device.\<close>

lemma ata_identify_count:
  "valid (\<lambda>s. driver_vars s = (ds, n, b)) (ata_identify io drv)
     (\<lambda>r s. ata_device_count s = (if r then n + 1 else n))"
proof -
  let ?P = "\<lambda>s. driver_vars s = (ds, n, b)"
  have no: "valid ?P (State_Monad.return False) (\<lambda>r s. ata_device_count s = (if r then n + 1 else n))"
    by (auto simp: valid_def driver_vars_def)
  show ?thesis
    unfolding ata_identify_def ata_wait_bsy_clear_def ata_wait_drq_def
    by (intro valid_bind [OF ports_keep(1)] valid_bind [OF ports_keep(2)] valid_bind [OF io_wait_keeps] valid_if no
        valid_bind [OF bsy_loop_keeps] valid_bind [OF drq_loop_keeps] valid_bind [OF read_words_keep])
       (auto simp: valid_def driver_vars_def)
qed

text \<open>
  Device discovery never overruns the table of two devices: on any hardware, whatever the
  ports return, \<open>ata_init\<close> ends with at most two devices.
\<close>

theorem ata_init_at_most_two:
  "unat (ata_device_count (snd (run_state (ata_init io) s))) \<le> 2"
proof -
  define s0 where "s0 = s\<lparr>ata_device_count := 0\<rparr>"
  obtain r1 s1 where 1: "run_state (ata_identify io 0) s0 = (r1, s1)" by fastforce
  obtain r2 s2 where 2: "run_state (ata_identify io 1) s1 = (r2, s2)" by fastforce
  have "driver_vars s0 = (ata_devices s, 0, identify_buf s)" by (simp add: s0_def driver_vars_def)
  from validD [OF ata_identify_count this 1] have c1: "ata_device_count s1 = (if r1 then 1 else 0)" by simp
  from validD [OF ata_identify_count _ 2] have "ata_device_count s2 = (if r2 then ata_device_count s1 + 1 else ata_device_count s1)"
    by (simp add: driver_vars_def)
  then show ?thesis using 1 2 c1 by (simp add: ata_init_def s0_def)
qed

section \<open>Transfers\<close>

definition idle_drive :: "('d \<Rightarrow> pio) \<Rightarrow> 'd ata \<Rightarrow> bool" where
  "idle_drive view s \<longleftrightarrow> phase (view (hw s)) = Idle \<and> busy (view (hw s)) = 0 \<and> ata_device_count s \<noteq> 0 \<and>
     capacity (view (hw s)) \<le> 2 ^ 28 \<and> (\<forall>b l. length (platters (view (hw s)) b l) = 512)"

text \<open>The sectors of the drive that the driver addresses: the second one as soon as two were found.\<close>

definition disk :: "('d \<Rightarrow> pio) \<Rightarrow> 'd ata \<Rightarrow> u32 \<Rightarrow> bytes" where
  "disk view s = platters (view (hw s)) (1 < ata_device_count s)"

lemma near_start: "busy (view (hw s)) = 0 \<Longrightarrow> near view 0 (view (hw s)) (driver_vars s) s"
  by (simp add: near_0)

text \<open>
  C10. Reading sectors from a conforming drive: for every number of sectors from 1 to 255 within
  the capacity, \<open>ata_read_sectors_lba28\<close> succeeds, the sectors are at the start of the buffer, and
  the driver's variables and the disk are unchanged. The drive may be busy for any time below the
  polling bound before each sector.
\<close>

theorem ata_read_correct:
  assumes "ata_drive io view" and "idle_drive view s" and "count \<noteq> 0"
    and "unat lba + unat count \<le> capacity (view (hw s))" and "512 * unat count \<le> length buf"
  shows "\<exists>s'. run_state (ata_read_sectors_lba28 io lba count buf) s =
      ((True, concat (map (\<lambda>i. disk view s (lba + of_nat i)) [0..<unat count]) @ drop (512 * unat count) buf), s') \<and>
    driver_vars s' = driver_vars s \<and> idle_drive view s' \<and> disk view s' = disk view s"
proof -
  let ?p = "view (hw s)" and ?R = "driver_vars s"
  have i: "phase ?p = Idle" "busy ?p = 0" "ata_device_count s \<noteq> 0" "capacity ?p \<le> 2 ^ 28"
    "\<And>b l. length (platters ?p b l) = 512" using assms(2) by (auto simp: idle_drive_def)
  have R: "fst (snd ?R) = ata_device_count s" by (simp add: driver_vars_def)
  let ?secs = "concat (map (\<lambda>i. disk view s (lba + of_nat i)) [0..<unat count])"
  have len: "length ?secs = 512 * unat count" using i(5) by (simp add: disk_def length_concat comp_def sum_list_triv)
  from ata_drive.ata_read_near [OF assms(1) near_start i(1) _ assms(3,4) i(4,5) assms(5)] R i(2,3) obtain s' p' where
    "run_state (ata_read_sectors_lba28 io lba count buf) s = ((True, patch 0 ?secs buf), s')"
    and n: "near view 0 p' ?R s'" "phase p' = Idle" "capacity p' = capacity ?p" "platters p' = platters ?p"
    unfolding disk_def by auto
  moreover have "patch 0 ?secs buf = ?secs @ drop (512 * unat count) buf" by (simp add: patch_def len)
  moreover have "driver_vars s' = ?R" "view (hw s') = p'\<lparr>busy := 0\<rparr>" using n(1) by (simp_all add: near_0)
  ultimately show ?thesis using n i by (auto simp: idle_drive_def disk_def driver_vars_def)
qed

lemma platters_store_sectors:
  assumes "length bs < 2 ^ 32"
  shows "platters (store_sectors l bs p) c x =
    (if c = pio_slave p \<and> unat (x - l) < length bs then bs ! unat (x - l) else platters p c x)"
  using assms
proof (induction bs arbitrary: l p)
  case (Cons b bs)
  have slave: "pio_slave (store_sector l b p) = pio_slave p" by (simp add: store_sector_def pio_slave_def)
  show ?case
  proof (cases "x = l")
    case True
    have "unat (x - (l + 1)) = 2 ^ 32 - 1" using True by (simp add: unsigned_minus_1_eq_mask mask_eq_exp_minus_1)
    then show ?thesis using Cons True slave by (simp add: store_sector_def)
  next
    case False
    have d: "x - (l + 1) = (x - l) - 1" by simp
    have "x - l \<noteq> 0" using False by simp
    then have "unat (x - (l + 1)) = unat (x - l) - 1" "unat (x - l) \<noteq> 0"
      unfolding d by (simp_all add: unat_minus_one unat_eq_0)
    then show ?thesis using Cons False slave by (auto simp: store_sector_def nth_Cons')
  qed
qed simp

text \<open>
  C11. Writing sectors to a conforming drive: \<open>ata_write_sectors_lba28\<close> succeeds, exactly the
  addressed sectors get the bytes of the buffer, in order, and every other sector of the disk
  and the driver's variables are unchanged.
\<close>

theorem ata_write_correct:
  assumes "ata_drive io view" and "idle_drive view s" and "count \<noteq> 0"
    and "unat lba + unat count \<le> capacity (view (hw s))" and "512 * unat count \<le> length buf"
  shows "\<exists>s'. run_state (ata_write_sectors_lba28 io lba count buf) s = (True, s') \<and>
    driver_vars s' = driver_vars s \<and> idle_drive view s' \<and>
    disk view s' = (\<lambda>l. if unat (l - lba) < unat count then chunk (512 * unat (l - lba)) 512 buf else disk view s l)"
proof -
  let ?p = "view (hw s)" and ?R = "driver_vars s" and ?c = "1 < ata_device_count s"
  have i: "phase ?p = Idle" "busy ?p = 0" "ata_device_count s \<noteq> 0" "capacity ?p \<le> 2 ^ 28"
    "\<And>b l. length (platters ?p b l) = 512" using assms(2) by (auto simp: idle_drive_def)
  have R: "fst (snd ?R) = ata_device_count s" by (simp add: driver_vars_def)
  let ?bs = "map (\<lambda>i. chunk (512 * i) 512 buf) [0..<unat count]"
  from ata_drive.ata_write_near [OF assms(1) near_start i(1) _ assms(3,4) i(4) assms(5)] R i(2,3) obtain s' p' where
    run: "run_state (ata_write_sectors_lba28 io lba count buf) s = (True, s')"
    and n: "near view 0 p' ?R s'" "phase p' = Idle" "capacity p' = capacity ?p"
    and pl: "platters p' = platters (store_sectors lba ?bs (?p\<lparr>reg_select := if ?c then 0x10 else 0\<rparr>))"
    by auto
  have len: "length ?bs < 2 ^ 32" using unsigned_less [of count, where ?'a = nat] by simp
  have sl: "pio_slave (?p\<lparr>reg_select := if ?c then 0x10 else 0\<rparr>) = ?c" by (simp add: pio_slave_def)
  have P: "platters p' c x = (if c = ?c \<and> unat (x - lba) < unat count then chunk (512 * unat (x - lba)) 512 buf
      else platters ?p c x)" for c x
    unfolding pl platters_store_sectors [OF len] sl by simp
  have "length (platters p' c x) = 512" for c x
    unfolding P using i(5) assms(5) by auto
  moreover have v: "driver_vars s' = ?R" "view (hw s') = p'\<lparr>busy := 0\<rparr>" using n(1) by (simp_all add: near_0)
  moreover from v(1) have "ata_device_count s' = ata_device_count s" by (simp add: driver_vars_def)
  ultimately show ?thesis using run n i P by (auto simp: idle_drive_def disk_def)
qed

text \<open>A demonstration drive of four sectors, each filled with its number.\<close>

definition demo_ata :: "pio ata" where
  "demo_ata = \<lparr>ata_devices = [], ata_device_count = 1, identify_buf = [],
     hw = \<lparr>reg_count = 0, reg_lba0 = 0, reg_lba1 = 0, reg_lba2 = 0, reg_select = 0, phase = Idle, busy = 0,
       capacity = 4, platters = (\<lambda>_ l. replicate 512 (ucast l))\<rparr>\<rparr>"

lemma demo_idle: "idle_drive prompt demo_ata"
  by (simp add: idle_drive_def demo_ata_def prompt_def)

theorem ata_read_correct_witness:
  "\<exists>s'. run_state (ata_read_sectors_lba28 pio_io 1 2 (replicate 1024 0)) demo_ata =
     ((True, replicate 512 1 @ replicate 512 2), s')"
  using ata_read_correct [OF pio.ata_drive_axioms demo_idle, of 2 1 "replicate 1024 0"]
  by (auto simp: demo_ata_def prompt_def disk_def upt_rec)

theorem ata_write_correct_witness:
  "\<exists>s'. run_state (ata_write_sectors_lba28 pio_io 1 1 (replicate 512 7)) demo_ata = (True, s') \<and>
     disk prompt s' 1 = replicate 512 7 \<and> disk prompt s' 2 = replicate 512 2"
proof -
  obtain s' where s': "run_state (ata_write_sectors_lba28 pio_io 1 1 (replicate 512 7)) demo_ata = (True, s')"
    "disk prompt s' = (\<lambda>l. if unat (l - 1) < unat (1 :: u8) then chunk (512 * unat (l - 1)) 512 (replicate 512 7)
       else disk prompt demo_ata l)"
    using ata_write_correct [OF pio.ata_drive_axioms demo_idle, of 1 1 "replicate 512 7"]
    by (auto simp: demo_ata_def prompt_def)
  then show ?thesis by (auto simp: disk_def demo_ata_def prompt_def)
qed

end
