(* ===== verification/FsTypes.thy ===== *)
theory FsTypes imports AtaProof begin

text \<open>
  The data model of the file system: \<open>lib/h/file_system/ipo_fs.h\<close> and
  \<open>lib/c/file_system/ipo_state.c\<close>. The three on-disk structures are records; the C code moves
  them with \<open>memcpy\<close>, so each has an encoding to the bytes of its layout (i386, packed by
  natural alignment) and a decoding, and the two are inverse to each other.
\<close>

section \<open>Constants\<close>

abbreviation (input) "IPO_INODE_TYPE_DIR \<equiv> (0x1 :: u32)"
abbreviation (input) "IPO_INODE_TYPE_FILE \<equiv> (0x2 :: u32)"
abbreviation (input) "IPO_INODE_FLAG_PROTECTED \<equiv> (0x80000000 :: u32)"
abbreviation (input) "IPO_MAX_FDS \<equiv> (32 :: nat)"

text \<open>\<open>sizeof\<close> of the two table entries and how many fit a block of 512 bytes.\<close>

abbreviation (input) "INODE_SIZE \<equiv> (76 :: nat)"
abbreviation (input) "INODES_PER_BLOCK \<equiv> (6 :: u32)"
abbreviation (input) "DIR_ENTRY_SIZE \<equiv> (72 :: nat)"
abbreviation (input) "DIR_ENTRIES_PER_BLOCK \<equiv> (7 :: u32)"

definition zero_block :: bytes where
  "zero_block = replicate 512 0"

lemma length_zero_block [simp]: "length zero_block = 512"
  by (simp add: zero_block_def)

section \<open>Superblock\<close>

record superblock =
  magic :: bytes
  fs_size_blocks :: u32
  block_size :: u32
  inode_count :: u32
  inode_bitmap_start :: u32
  block_bitmap_start :: u32
  inode_table_start :: u32
  data_blocks_start :: u32

definition enc_superblock :: "superblock \<Rightarrow> bytes" where
  "enc_superblock s = magic s @ le32 (fs_size_blocks s) @ le32 (block_size s) @ le32 (inode_count s) @
     le32 (inode_bitmap_start s) @ le32 (block_bitmap_start s) @ le32 (inode_table_start s) @
     le32 (data_blocks_start s)"

definition dec_superblock :: "bytes \<Rightarrow> superblock" where
  "dec_superblock b =
     \<lparr>magic = take 8 b, fs_size_blocks = rd32 b 8, block_size = rd32 b 12, inode_count = rd32 b 16,
      inode_bitmap_start = rd32 b 20, block_bitmap_start = rd32 b 24, inode_table_start = rd32 b 28,
      data_blocks_start = rd32 b 32\<rparr>"

definition wf_superblock :: "superblock \<Rightarrow> bool" where
  "wf_superblock s \<longleftrightarrow> length (magic s) = 8"

lemma length_enc_superblock: "wf_superblock s \<Longrightarrow> length (enc_superblock s) = 36"
  by (simp add: enc_superblock_def wf_superblock_def)

lemma dec_enc_superblock: "wf_superblock s \<Longrightarrow> dec_superblock (enc_superblock s @ rest) = s"
  by (cases s) (simp add: dec_superblock_def enc_superblock_def wf_superblock_def rd32_def nth_append
      le32_def join_bytes32)

section \<open>Inode\<close>

record ipo_inode =
  mode :: u32
  i_size :: u32
  links_count :: u32
  direct :: "u32 list"
  indirect :: u32
  double_indirect :: u32
  pad :: bytes

definition enc_inode :: "ipo_inode \<Rightarrow> bytes" where
  "enc_inode n = le32 (mode n) @ le32 (i_size n) @ le32 (links_count n) @ concat (map le32 (direct n)) @
     le32 (indirect n) @ le32 (double_indirect n) @ pad n"

definition dec_inode :: "bytes \<Rightarrow> ipo_inode" where
  "dec_inode b =
     \<lparr>mode = rd32 b 0, i_size = rd32 b 4, links_count = rd32 b 8,
      direct = [rd32 b 12, rd32 b 16, rd32 b 20, rd32 b 24, rd32 b 28, rd32 b 32],
      indirect = rd32 b 36, double_indirect = rd32 b 40, pad = drop 44 b\<rparr>"

definition wf_inode :: "ipo_inode \<Rightarrow> bool" where
  "wf_inode n \<longleftrightarrow> length (direct n) = 6 \<and> length (pad n) = 32"

text \<open>\<open>memset(&inode, 0, sizeof(inode))\<close>.\<close>

definition zero_inode :: ipo_inode where
  "zero_inode = \<lparr>mode = 0, i_size = 0, links_count = 0, direct = replicate 6 0, indirect = 0,
     double_indirect = 0, pad = replicate 32 0\<rparr>"

lemma length_concat_le32 [simp]: "length (concat (map le32 xs)) = 4 * length xs"
  by (induction xs) auto

lemma length_enc_inode: "wf_inode n \<Longrightarrow> length (enc_inode n) = INODE_SIZE"
  by (simp add: enc_inode_def wf_inode_def)

lemma length6: "length xs = 6 \<Longrightarrow> \<exists>a b c d e f. xs = [a, b, c, d, e, f]"
  by (auto simp: length_Suc_conv numeral_eq_Suc)

lemma dec_enc_inode: "wf_inode n \<Longrightarrow> dec_inode (enc_inode n) = n"
proof -
  assume "wf_inode n"
  then obtain a b c d e f where "direct n = [a, b, c, d, e, f]"
    using length6 [of "direct n"] by (auto simp: wf_inode_def)
  then show ?thesis
    by (cases n) (simp add: dec_inode_def enc_inode_def rd32_def nth_append le32_def join_bytes32)
qed

lemma wf_dec_inode: "length b = INODE_SIZE \<Longrightarrow> wf_inode (dec_inode b)"
  by (simp add: wf_inode_def dec_inode_def)

lemma wf_zero_inode [simp]: "wf_inode zero_inode"
  by (simp add: wf_inode_def zero_inode_def)

section \<open>Directory entry\<close>

record dir_entry =
  d_inode :: u32
  d_type :: u8
  d_name_len :: u8
  d_reserved :: bytes
  d_name :: bytes

definition enc_dir_entry :: "dir_entry \<Rightarrow> bytes" where
  "enc_dir_entry e = le32 (d_inode e) @ [d_type e, d_name_len e] @ d_reserved e @ d_name e"

definition dec_dir_entry :: "bytes \<Rightarrow> dir_entry" where
  "dec_dir_entry b = \<lparr>d_inode = rd32 b 0, d_type = b ! 4, d_name_len = b ! 5,
     d_reserved = take 2 (drop 6 b), d_name = drop 8 b\<rparr>"

definition wf_dir_entry :: "dir_entry \<Rightarrow> bool" where
  "wf_dir_entry e \<longleftrightarrow> length (d_reserved e) = 2 \<and> length (d_name e) = 64"

lemma length_enc_dir_entry: "wf_dir_entry e \<Longrightarrow> length (enc_dir_entry e) = DIR_ENTRY_SIZE"
  by (simp add: enc_dir_entry_def wf_dir_entry_def)

lemma dec_enc_dir_entry: "wf_dir_entry e \<Longrightarrow> dec_dir_entry (enc_dir_entry e) = e"
  by (cases e) (simp add: dec_dir_entry_def enc_dir_entry_def wf_dir_entry_def rd32_def nth_append
      le32_def join_bytes32)

lemma wf_dec_dir_entry: "length b = DIR_ENTRY_SIZE \<Longrightarrow> wf_dir_entry (dec_dir_entry b)"
  by (simp add: wf_dir_entry_def dec_dir_entry_def)

section \<open>State\<close>

record ipo_fd =
  used :: int
  fd_inode :: u32
  fd_offset :: u32
  fd_flags :: int

text \<open>The globals of \<open>ipo_state.c\<close>, and the driver below the file system.\<close>

record 'd fs =
  sb :: superblock
  fs_start_lba :: u32
  fs_mounted :: bool
  fds :: "ipo_fd list"
  ata :: "'d ata"

definition on_ata :: "('d ata, 'a) state \<Rightarrow> ('d fs, 'a) state" where
  "on_ata = on_field ata (\<lambda>a s. s\<lparr>ata := a\<rparr>)"

definition zero_superblock :: superblock where
  "zero_superblock = dec_superblock (replicate 36 0)"

definition ipo_fs_init :: "('d fs, unit) state" where
  "ipo_fs_init = modify (\<lambda>s. s\<lparr>sb := zero_superblock, fs_mounted := False,
     fds := map (\<lambda>f. f\<lparr>used := 0\<rparr>) (fds s)\<rparr>)"

text \<open>A local array of 512 bytes before anything is stored in it.\<close>

definition uninit_block :: "'d machine \<Rightarrow> ('d fs, bytes) state" where
  "uninit_block io = gets (\<lambda>s. uninit io (hw (ata s)))"

end
