(* ===== verification/FsBlock.thy ===== *)
theory FsBlock imports FsTypes begin

text \<open>
  The block layer and the bitmaps: \<open>ipo_block.c\<close> and \<open>ipo_bitmap.c\<close>. The locale \<open>fs_store\<close> is
  the interface the upper layers use, a store of blocks under an abstraction of the state; the
  ATA driver over a conforming drive provides it.
\<close>

section \<open>Blocks\<close>

definition block_read :: "'d machine \<Rightarrow> u32 \<Rightarrow> bytes \<Rightarrow> ('d fs, bool \<times> bytes) state" where
  "block_read io fs_block_index buffer = do {
     start \<leftarrow> gets fs_start_lba;
     on_ata (ata_read_sectors_lba28 io (start + fs_block_index) 1 buffer)
   }"

definition block_write :: "'d machine \<Rightarrow> u32 \<Rightarrow> bytes \<Rightarrow> ('d fs, bool) state" where
  "block_write io fs_block_index buffer = do {
     start \<leftarrow> gets fs_start_lba;
     on_ata (ata_write_sectors_lba28 io (start + fs_block_index) 1 buffer)
   }"

section \<open>Bitmaps\<close>

text \<open>The delay between two tries: a thousand reads of port 0x80.\<close>

primrec delay_reads :: "'d machine \<Rightarrow> nat \<Rightarrow> ('d fs, unit) state" where
  "delay_reads io 0 = State_Monad.return ()"
| "delay_reads io (Suc n) = do { _ \<leftarrow> on_ata (in8 io 0x80); delay_reads io n }"

primrec read_tries :: "'d machine \<Rightarrow> u32 \<Rightarrow> nat \<Rightarrow> bytes \<Rightarrow> ('d fs, bool \<times> bytes) state" where
  "read_tries io lba 0 buf = State_Monad.return (False, buf)"
| "read_tries io lba (Suc n) buf = do {
     (ok, buf') \<leftarrow> block_read io lba buf;
     if ok then State_Monad.return (True, buf')
     else do { _ \<leftarrow> delay_reads io 1000; read_tries io lba n buf' }
   }"

primrec write_tries :: "'d machine \<Rightarrow> u32 \<Rightarrow> nat \<Rightarrow> bytes \<Rightarrow> ('d fs, bool) state" where
  "write_tries io lba 0 buf = State_Monad.return False"
| "write_tries io lba (Suc n) buf = do {
     ok \<leftarrow> block_write io lba buf;
     if ok then State_Monad.return True
     else do { _ \<leftarrow> delay_reads io 1000; write_tries io lba n buf }
   }"

text \<open>Block, byte in the block and bit in the byte of a bit of a bitmap.\<close>

definition bit_block :: "u32 \<Rightarrow> u32 \<Rightarrow> u32" where
  "bit_block bitmap_start bit_index = bitmap_start + bit_index div 8 div 512"

definition bit_byte :: "u32 \<Rightarrow> nat" where
  "bit_byte bit_index = unat (bit_index div 8 mod 512)"

definition bit_pos :: "u32 \<Rightarrow> nat" where
  "bit_pos bit_index = unat (bit_index AND 7)"

definition bitmap_get :: "'d machine \<Rightarrow> u32 \<Rightarrow> u32 \<Rightarrow> ('d fs, bool) state" where
  "bitmap_get io bitmap_start bit_index = do {
     buf0 \<leftarrow> uninit_block io;
     (ok, buf) \<leftarrow> read_tries io (bit_block bitmap_start bit_index) 5 buf0;
     if \<not> ok then State_Monad.return False
     else State_Monad.return (drop_bit (bit_pos bit_index) (buf ! bit_byte bit_index) AND 1 \<noteq> 0)
   }"

definition set_bit_in :: "u8 \<Rightarrow> nat \<Rightarrow> bool \<Rightarrow> u8" where
  "set_bit_in x k v = (if v then x OR push_bit k 1 else x AND NOT (push_bit k 1))"

definition bitmap_set :: "'d machine \<Rightarrow> u32 \<Rightarrow> u32 \<Rightarrow> bool \<Rightarrow> ('d fs, bool) state" where
  "bitmap_set io bitmap_start bit_index value = do {
     let lba = bit_block bitmap_start bit_index;
     buf0 \<leftarrow> uninit_block io;
     (ok, buf) \<leftarrow> read_tries io lba 5 buf0;
     if \<not> ok then State_Monad.return False
     else write_tries io lba 5
       (buf[bit_byte bit_index := set_bit_in (buf ! bit_byte bit_index) (bit_pos bit_index) value])
   }"

section \<open>The volume\<close>

text \<open>
  What the upper layers see of a state: the globals and the blocks of the partition, of which
  there are \<open>N\<close>. Blocks past the end read as no bytes at all.
\<close>

record vol =
  v_sb :: superblock
  v_start :: u32
  v_mounted :: bool
  v_fds :: "ipo_fd list"
  blk :: "u32 \<Rightarrow> bytes"

definition volume :: "('d \<Rightarrow> pio) \<Rightarrow> nat \<Rightarrow> 'd fs \<Rightarrow> vol" where
  "volume view N s =
     \<lparr>v_sb = sb s, v_start = fs_start_lba s, v_mounted = fs_mounted s, v_fds = fds s,
      blk = (\<lambda>i. if unat i < N
        then platters (view (hw (ata s))) (1 < ata_device_count (ata s)) (fs_start_lba s + i) else [])\<rparr>"

text \<open>An idle drive that holds the partition, with sectors of 512 bytes.\<close>

definition attached :: "('d \<Rightarrow> pio) \<Rightarrow> nat \<Rightarrow> 'd fs \<Rightarrow> bool" where
  "attached view N s \<longleftrightarrow>
     (let p = view (hw (ata s)) in
      phase p = Idle \<and> busy p = 0 \<and> ata_device_count (ata s) \<noteq> 0 \<and>
      unat (fs_start_lba s) + N \<le> capacity p \<and> capacity p \<le> 2 ^ 28 \<and>
      (\<forall>b l. length (platters p b l) = 512))"

definition set_blk :: "u32 \<Rightarrow> bytes \<Rightarrow> vol \<Rightarrow> vol" where
  "set_blk i b v = v\<lparr>blk := (blk v)(i := b)\<rparr>"

lemma set_blk_simps [simp]:
  "v_sb (set_blk i b v) = v_sb v"
  "v_start (set_blk i b v) = v_start v"
  "v_mounted (set_blk i b v) = v_mounted v"
  "v_fds (set_blk i b v) = v_fds v"
  "blk (set_blk i b v) = (blk v)(i := b)"
  "set_blk i b (set_blk i c v) = set_blk i b v"
  by (simp_all add: set_blk_def)

lemma set_blk_same [simp]: "set_blk i (blk v i) v = v"
  by (simp add: set_blk_def)

text \<open>
  The interface: \<open>W\<close> is kept by every operation, \<open>A\<close> abstracts, and below the limit \<open>N\<close> a block
  read returns the abstract block and a block write replaces it. The last laws say that the
  globals are part of the abstraction.
\<close>

locale fs_store =
  fixes io :: "'d machine" and W :: "'d fs \<Rightarrow> bool" and A :: "'d fs \<Rightarrow> vol" and N :: nat
  assumes store_read: "unat i < N \<Longrightarrow> length buf = 512 \<Longrightarrow>
      evals W A v (block_read io i buf) (True, blk v i) v"
    and store_write: "unat i < N \<Longrightarrow> length b = 512 \<Longrightarrow>
      evals W A v (block_write io i b) True (set_blk i b v)"
    and store_length: "W s \<Longrightarrow> unat i < N \<Longrightarrow> length (blk (A s) i) = 512"
    and store_sb: "v_sb (A s) = sb s"
    and store_fds: "v_fds (A s) = fds s"
    and store_mounted: "v_mounted (A s) = fs_mounted s"
    and store_set_fds: "W s \<Longrightarrow> W (s\<lparr>fds := f\<rparr>) \<and> A (s\<lparr>fds := f\<rparr>) = (A s)\<lparr>v_fds := f\<rparr>"
    and store_set_sb: "W s \<Longrightarrow> W (s\<lparr>sb := x\<rparr>) \<and> A (s\<lparr>sb := x\<rparr>) = (A s)\<lparr>v_sb := x\<rparr>"
    and store_set_mounted: "W s \<Longrightarrow> W (s\<lparr>fs_mounted := m\<rparr>) \<and> A (s\<lparr>fs_mounted := m\<rparr>) = (A s)\<lparr>v_mounted := m\<rparr>"
    and store_uninit: "length (uninit io d) = 512"

text \<open>The bits of a bitmap on the abstract blocks.\<close>

definition bit_at :: "vol \<Rightarrow> u32 \<Rightarrow> u32 \<Rightarrow> bool" where
  "bit_at v bitmap_start i = bit (blk v (bit_block bitmap_start i) ! bit_byte i) (bit_pos i)"

definition set_bit_at :: "u32 \<Rightarrow> u32 \<Rightarrow> bool \<Rightarrow> vol \<Rightarrow> vol" where
  "set_bit_at bitmap_start i value v =
     (let b = blk v (bit_block bitmap_start i)
      in set_blk (bit_block bitmap_start i) (b[bit_byte i := set_bit_in (b ! bit_byte i) (bit_pos i) value]) v)"

lemma bit_pos_unat: "bit_pos i = unat i mod 8"
proof -
  have "(7 :: u32) = mask 3" by (simp add: mask_eq_exp_minus_1)
  then have "i AND 7 = take_bit 3 i" by (simp only: take_bit_eq_mask)
  then show ?thesis by (simp add: bit_pos_def take_bit_eq_mod unat_mod)
qed

lemma bit_byte_unat: "bit_byte i = unat i div 8 mod 512"
  by (simp add: bit_byte_def unat_mod unat_div)

lemma bit_pos_less [simp]: "bit_pos i < 8"
  by (simp add: bit_pos_unat)

lemma bit_byte_less [simp]: "bit_byte i < 512"
  by (simp add: bit_byte_unat)

text \<open>Block, byte and position determine the bit.\<close>

lemma bit_address_inj:
  assumes "bit_block st i = bit_block st j" and "bit_byte i = bit_byte j" and "bit_pos i = bit_pos j"
  shows "i = j"
proof -
  have "i div 8 div 512 = j div 8 div 512" using assms(1) by (simp add: bit_block_def)
  then have "unat (i div 8 div 512) = unat (j div 8 div 512)" by simp
  then have 1: "unat i div 8 div 512 = unat j div 8 div 512" by (simp add: unat_div)
  have "unat i div 8 = unat j div 8"
    using 1 assms(2) unfolding bit_byte_unat by (metis div_mult_mod_eq)
  then have "unat i = unat j"
    using assms(3) unfolding bit_pos_unat by (metis div_mult_mod_eq)
  then show ?thesis by (simp add: word_unat_eq_iff)
qed

lemma bit_set_bit_in: "k < 8 \<Longrightarrow> j < 8 \<Longrightarrow> bit (set_bit_in x k b) j \<longleftrightarrow> (if j = k then b else bit x j)"
  by (auto simp: set_bit_in_def bit_simps)

lemma bit_at_set_bit_at [simp]:
  assumes "length (blk v (bit_block st i)) = 512"
  shows "bit_at (set_bit_at st i b v) st j \<longleftrightarrow> (if j = i then b else bit_at v st j)"
  using bit_address_inj [of st j i] assms
  by (auto simp: bit_at_def set_bit_at_def Let_def bit_set_bit_in nth_list_update)

lemma bit_at_other_block:
  "bit_block st' i \<noteq> bit_block st j \<Longrightarrow> bit_at (set_bit_at st' i b v) st j = bit_at v st j"
  by (simp add: bit_at_def set_bit_at_def Let_def)

lemma bit_at_set_blk [simp]:
  "bit_block st j \<noteq> i \<Longrightarrow> bit_at (set_blk i b v) st j = bit_at v st j"
  by (simp add: bit_at_def)

lemma blk_set_bit_at [simp]: "k \<noteq> bit_block st i \<Longrightarrow> blk (set_bit_at st i b v) k = blk v k"
  by (simp add: set_bit_at_def Let_def)

lemma set_bit_at_frame [simp]:
  "v_sb (set_bit_at st i b v) = v_sb v"
  "v_start (set_bit_at st i b v) = v_start v"
  "v_mounted (set_bit_at st i b v) = v_mounted v"
  "v_fds (set_bit_at st i b v) = v_fds v"
  by (simp_all add: set_bit_at_def Let_def)

context fs_store begin

abbreviation (input) "runs \<equiv> evals W A"

text \<open>In a proof about a run, the abstract blocks may be taken to have their size.\<close>

lemma runs_blocks:
  "((\<And>i. unat i < N \<Longrightarrow> length (blk v i) = 512) \<Longrightarrow> runs v m r v') \<Longrightarrow> runs v m r v'"
  using store_length unfolding evals_def by blast

lemma runs_sb [evals_rules]: "runs v (gets sb) (v_sb v) v"
  using store_sb by (auto simp: evals_def)

lemma runs_fds [evals_rules]: "runs v (gets fds) (v_fds v) v"
  using store_fds by (auto simp: evals_def)

lemma runs_mounted [evals_rules]: "runs v (gets fs_mounted) (v_mounted v) v"
  using store_mounted by (auto simp: evals_def)

lemma runs_set_fds [evals_rules]: "runs v (modify (\<lambda>s. s\<lparr>fds := f\<rparr>)) () (v\<lparr>v_fds := f\<rparr>)"
  using store_set_fds by (auto simp: evals_def)

lemma runs_set_mounted [evals_rules]: "runs v (modify (\<lambda>s. s\<lparr>fs_mounted := f\<rparr>)) () (v\<lparr>v_mounted := f\<rparr>)"
  using store_set_mounted by (auto simp: evals_def)

lemma runs_set_sb [evals_rules]: "runs v (modify (\<lambda>s. s\<lparr>sb := f\<rparr>)) () (v\<lparr>v_sb := f\<rparr>)"
  using store_set_sb by (auto simp: evals_def)

lemma runs_uninit:
  "(\<And>junk. length junk = 512 \<Longrightarrow> runs v (f junk) r v') \<Longrightarrow>
   runs v (State_Monad.bind (uninit_block io) f) r v'"
  using store_uninit by (auto simp: evals_def uninit_block_def)

lemma runs_read_tries:
  "unat i < N \<Longrightarrow> length buf = 512 \<Longrightarrow> runs v (read_tries io i (Suc n) buf) (True, blk v i) v"
  unfolding read_tries.simps
  by (rule evals_bind [OF store_read]) (auto intro: evals_rules)

lemma runs_write_tries:
  "unat i < N \<Longrightarrow> length b = 512 \<Longrightarrow> runs v (write_tries io i (Suc n) b) True (set_blk i b v)"
  unfolding write_tries.simps
  by (rule evals_bind [OF store_write]) (auto intro: evals_rules)

lemma runs_bitmap_get [evals_rules]:
  assumes "unat (bit_block st i) < N"
  shows "runs v (bitmap_get io st i) (bit_at v st i) v"
  unfolding bitmap_get_def
proof (rule runs_uninit, rule evals_bind)
  fix junk :: bytes
  assume "length junk = 512"
  then show "runs v (read_tries io (bit_block st i) 5 junk) (True, blk v (bit_block st i)) v"
    using runs_read_tries [OF assms, of junk v 4] by (simp add: eval_nat_numeral)
qed (auto intro!: evals_cong [OF evals_return] simp: bit_at_def bit_iff_and_drop_bit_eq_1 and_one_eq)

lemma runs_bitmap_set [evals_rules]:
  assumes "unat (bit_block st i) < N"
  shows "runs v (bitmap_set io st i b) True (set_bit_at st i b v)"
proof (rule runs_blocks)
  assume len: "\<And>i. unat i < N \<Longrightarrow> length (blk v i) = 512"
  show ?thesis
    unfolding bitmap_set_def Let_def
  proof (rule runs_uninit, rule evals_bind)
    fix junk :: bytes
    assume "length junk = 512"
    then show "runs v (read_tries io (bit_block st i) 5 junk) (True, blk v (bit_block st i)) v"
      using runs_read_tries [OF assms, of junk v 4] by (simp add: eval_nat_numeral)
  qed (use runs_write_tries [OF assms, of _ v 4] len [OF assms] in
      \<open>simp add: set_bit_at_def Let_def eval_nat_numeral\<close>)
qed

end

section \<open>The driver provides the store\<close>

lemma attachedD:
  assumes "attached view N s"
  shows "near view 0 (view (hw (ata s))) (driver_vars (ata s)) (ata s)"
    and "phase (view (hw (ata s))) = Idle" and "ata_device_count (ata s) \<noteq> 0"
    and "unat (fs_start_lba s) + N \<le> capacity (view (hw (ata s)))"
    and "capacity (view (hw (ata s))) \<le> 2 ^ 28"
    and "length (platters (view (hw (ata s))) b l) = 512"
  using assms by (auto simp: attached_def Let_def near_0)

lemma unat_block_lba:
  assumes "unat (start :: u32) + N \<le> c" and "c \<le> 2 ^ 28" and "unat i < N"
  shows "unat (start + i) = unat start + unat i"
  using assms by (simp add: unat_word_ariths)

context ata_drive begin

lemma block_read_attached:
  assumes "attached view N s" and "unat i < N" and "length buf = 512"
  shows "\<exists>s'. run_state (block_read io i buf) s = ((True, blk (volume view N s) i), s') \<and>
    attached view N s' \<and> volume view N s' = volume view N s"
proof -
  let ?p = "view (hw (ata s))" and ?R = "driver_vars (ata s)"
  note a = attachedD [OF assms(1)]
  have lba: "unat (fs_start_lba s + i) + unat (1 :: u8) \<le> capacity ?p"
    using unat_block_lba [OF a(4,5) assms(2)] a(4) assms(2) by simp
  have R: "fst (snd ?R) = ata_device_count (ata s)" by (simp add: driver_vars_def)
  from ata_read_near [OF a(1,2) _ _ lba a(5,6), of buf] a(3) R assms(3) obtain s1 p1 where
    run: "run_state (ata_read_sectors_lba28 io (fs_start_lba s + i) 1 buf) (ata s) =
      ((True, patch 0 (platters ?p (1 < ata_device_count (ata s)) (fs_start_lba s + i)) buf), s1)"
    and s1: "near view 0 p1 ?R s1" "phase p1 = Idle" "capacity p1 = capacity ?p" "platters p1 = platters ?p"
    by auto
  have "patch 0 (platters ?p (1 < ata_device_count (ata s)) (fs_start_lba s + i)) buf = blk (volume view N s) i"
    using assms(2,3) a(6) by (simp add: patch_all volume_def)
  then have "run_state (block_read io i buf) s = ((True, blk (volume view N s) i), s\<lparr>ata := s1\<rparr>)"
    using run by (simp add: block_read_def on_ata_def)
  moreover have "attached view N (s\<lparr>ata := s1\<rparr>)" "volume view N (s\<lparr>ata := s1\<rparr>) = volume view N s"
    using s1 assms(1) by (auto simp: attached_def volume_def Let_def near_0 driver_vars_def)
  ultimately show ?thesis by blast
qed

lemma block_write_attached:
  assumes "attached view N s" and "unat i < N" and "length b = 512"
  shows "\<exists>s'. run_state (block_write io i b) s = (True, s') \<and>
    attached view N s' \<and> volume view N s' = set_blk i b (volume view N s)"
proof -
  let ?p = "view (hw (ata s))" and ?R = "driver_vars (ata s)" and ?c = "1 < ata_device_count (ata s)"
  note a = attachedD [OF assms(1)]
  have lba: "unat (fs_start_lba s + i) + unat (1 :: u8) \<le> capacity ?p"
    using unat_block_lba [OF a(4,5) assms(2)] a(4) assms(2) by simp
  have R: "fst (snd ?R) = ata_device_count (ata s)" by (simp add: driver_vars_def)
  from ata_write_near [OF a(1,2) _ _ lba a(5), of b] a(3) R assms(3) obtain s1 p1 where
    run: "run_state (ata_write_sectors_lba28 io (fs_start_lba s + i) 1 b) (ata s) = (True, s1)"
    and s1: "near view 0 p1 ?R s1" "phase p1 = Idle" "capacity p1 = capacity ?p"
    and pl: "platters p1 = platters (store_sector (fs_start_lba s + i) (chunk 0 512 b)
      (?p\<lparr>reg_select := if ?c then 0x10 else 0\<rparr>))"
    by auto
  have pl': "platters p1 = (platters ?p)(?c := (platters ?p ?c)(fs_start_lba s + i := b))"
    using assms(3) by (simp add: pl store_sector_def pio_slave_def chunk_def)
  have "run_state (block_write io i b) s = (True, s\<lparr>ata := s1\<rparr>)"
    using run by (simp add: block_write_def on_ata_def)
  moreover have "attached view N (s\<lparr>ata := s1\<rparr>)"
    using s1 pl' assms(1,3) by (auto simp: attached_def Let_def near_0 driver_vars_def)
  moreover have "volume view N (s\<lparr>ata := s1\<rparr>) = set_blk i b (volume view N s)"
    using s1 pl' assms(2) by (auto simp: volume_def set_blk_def near_0 driver_vars_def fun_eq_iff)
  ultimately show ?thesis by blast
qed

end

sublocale ata_drive \<subseteq> fs_store io "attached view N" "volume view N" N for N
proof (unfold_locales, goal_cases)
  case (1 i buf v)
  then show ?case using block_read_attached by (auto simp: evals_def)
next
  case (2 i b v)
  then show ?case using block_write_attached by (auto simp: evals_def)
next
  case (3 s i)
  then show ?case using attachedD(6) by (simp add: volume_def)
next
  case (10 d)
  then show ?case by (rule uninit_length)
qed (auto simp: volume_def attached_def Let_def)

end
