(* ===== verification/FsInode.thy ===== *)
theory FsInode imports FsBlock begin

text \<open>
  Inodes and block allocation, \<open>lib/c/file_system/ipo_inode.c\<close>: reading and writing an inode in
  the table, the two allocators, freeing an inode with its blocks, and the map from a logical
  block of a file to a block of the volume through direct, single and double indirect pointers.
  An \<open>int\<close> result keeps the C convention: negative for failure; a 32-bit value returned as
  \<open>int\<close> is read as two's complement.
\<close>

section \<open>The inode table\<close>

definition inode_block :: "superblock \<Rightarrow> u32 \<Rightarrow> u32" where
  "inode_block b inode_no = inode_table_start b + (inode_no - 1) div INODES_PER_BLOCK"

definition inode_offset :: "u32 \<Rightarrow> nat" where
  "inode_offset inode_no = unat ((inode_no - 1) mod INODES_PER_BLOCK) * INODE_SIZE"

definition read_inode :: "'d machine \<Rightarrow> u32 \<Rightarrow> ('d fs, ipo_inode option) state" where
  "read_inode io inode_no = do {
     b \<leftarrow> gets sb;
     if inode_no = 0 \<or> inode_count b < inode_no then State_Monad.return None
     else do {
       buf0 \<leftarrow> uninit_block io;
       (ok, buf) \<leftarrow> block_read io (inode_block b inode_no) buf0;
       if \<not> ok then State_Monad.return None
       else State_Monad.return (Some (dec_inode (chunk (inode_offset inode_no) INODE_SIZE buf)))
     }
   }"

definition write_inode :: "'d machine \<Rightarrow> u32 \<Rightarrow> ipo_inode \<Rightarrow> ('d fs, bool) state" where
  "write_inode io inode_no n = do {
     b \<leftarrow> gets sb;
     if inode_no = 0 \<or> inode_count b < inode_no then State_Monad.return False
     else do {
       buf0 \<leftarrow> uninit_block io;
       (ok, buf) \<leftarrow> block_read io (inode_block b inode_no) buf0;
       if \<not> ok then State_Monad.return False
       else block_write io (inode_block b inode_no) (patch (inode_offset inode_no) (enc_inode n) buf)
     }
   }"

section \<open>Allocation\<close>

text \<open>The loops over a bitmap, with the number of indices that are left and the next one.\<close>

primrec allocate_inode_from :: "'d machine \<Rightarrow> nat \<Rightarrow> u32 \<Rightarrow> ('d fs, int) state" where
  "allocate_inode_from io 0 i = State_Monad.return (-1)"
| "allocate_inode_from io (Suc n) i = do {
     b \<leftarrow> gets sb;
     used \<leftarrow> bitmap_get io (inode_bitmap_start b) i;
     if \<not> used then do {
       ok \<leftarrow> bitmap_set io (inode_bitmap_start b) i True;
       if \<not> ok then State_Monad.return (-1)
       else do {
         _ \<leftarrow> write_inode io (i + 1) zero_inode;
         State_Monad.return (sint (i + 1))
       }
     }
     else allocate_inode_from io n (i + 1)
   }"

definition allocate_inode :: "'d machine \<Rightarrow> ('d fs, int) state" where
  "allocate_inode io = do { b \<leftarrow> gets sb; allocate_inode_from io (unat (inode_count b)) 0 }"

primrec allocate_block_from :: "'d machine \<Rightarrow> nat \<Rightarrow> u32 \<Rightarrow> ('d fs, int) state" where
  "allocate_block_from io 0 i = State_Monad.return (-1)"
| "allocate_block_from io (Suc n) i = do {
     b \<leftarrow> gets sb;
     used \<leftarrow> bitmap_get io (block_bitmap_start b) i;
     if \<not> used then do {
       ok \<leftarrow> bitmap_set io (block_bitmap_start b) i True;
       if \<not> ok then State_Monad.return (-1)
       else do {
         cleared \<leftarrow> block_write io (data_blocks_start b + i) zero_block;
         if \<not> cleared then State_Monad.return (-1)
         else State_Monad.return (sint (data_blocks_start b + i))
       }
     }
     else allocate_block_from io n (i + 1)
   }"

definition allocate_block :: "'d machine \<Rightarrow> ('d fs, int) state" where
  "allocate_block io = do {
     b \<leftarrow> gets sb;
     allocate_block_from io (unat (fs_size_blocks b - data_blocks_start b)) 0
   }"

definition free_block :: "'d machine \<Rightarrow> u32 \<Rightarrow> ('d fs, bool) state" where
  "free_block io phys_block = do {
     b \<leftarrow> gets sb;
     if phys_block < data_blocks_start b then State_Monad.return False
     else bitmap_set io (block_bitmap_start b) (phys_block - data_blocks_start b) False
   }"

section \<open>Freeing an inode\<close>

primrec free_direct :: "'d machine \<Rightarrow> u32 \<Rightarrow> nat \<Rightarrow> u32 \<Rightarrow> ipo_inode \<Rightarrow> ('d fs, ipo_inode) state" where
  "free_direct io nblocks 0 i n = State_Monad.return n"
| "free_direct io nblocks (Suc k) i n =
     (if i < nblocks then do {
        b \<leftarrow> gets sb;
        let p = direct n ! unat i;
        n' \<leftarrow> (if p \<noteq> 0 then do {
                  _ \<leftarrow> bitmap_set io (block_bitmap_start b) (p - data_blocks_start b) False;
                  State_Monad.return (n\<lparr>direct := (direct n)[unat i := 0]\<rparr>)
                }
                else State_Monad.return n);
        free_direct io nblocks k (i + 1) n'
      }
      else State_Monad.return n)"

primrec free_pointers :: "'d machine \<Rightarrow> bytes \<Rightarrow> nat \<Rightarrow> nat \<Rightarrow> ('d fs, unit) state" where
  "free_pointers io ibuf 0 i = State_Monad.return ()"
| "free_pointers io ibuf (Suc k) i = do {
     b \<leftarrow> gets sb;
     let p = rd32 ibuf (4 * i);
     _ \<leftarrow> (if p \<noteq> 0 then bitmap_set io (block_bitmap_start b) (p - data_blocks_start b) False
            else State_Monad.return True);
     free_pointers io ibuf k (Suc i)
   }"

definition free_inode :: "'d machine \<Rightarrow> u32 \<Rightarrow> ('d fs, bool) state" where
  "free_inode io inode_no = do {
     b \<leftarrow> gets sb;
     if inode_no = 0 \<or> inode_count b < inode_no then State_Monad.return False
     else do {
       r \<leftarrow> read_inode io inode_no;
       (case r of
          None \<Rightarrow> State_Monad.return False
        | Some n0 \<Rightarrow> do {
            let nblocks = (i_size n0 + 512 - 1) div 512;
            n1 \<leftarrow> free_direct io nblocks 6 0 n0;
            n2 \<leftarrow> (if indirect n1 \<noteq> 0 then do {
                       ibuf0 \<leftarrow> uninit_block io;
                       (_, ibuf) \<leftarrow> block_read io (indirect n1) ibuf0;
                       _ \<leftarrow> free_pointers io ibuf 128 0;
                       _ \<leftarrow> bitmap_set io (block_bitmap_start b) (indirect n1 - data_blocks_start b) False;
                       State_Monad.return (n1\<lparr>indirect := 0\<rparr>)
                     }
                     else State_Monad.return n1);
            _ \<leftarrow> bitmap_set io (inode_bitmap_start b) (inode_no - 1) False;
            _ \<leftarrow> write_inode io inode_no n2;
            State_Monad.return True
          })
     }
   }"

section \<open>The block map of an inode\<close>

text \<open>
  \<open>get_data_block_for_inode\<close> returns the block number and the inode, which it may have given
  new pointers. One definition per level of indirection, as in the source.
\<close>

definition get_direct :: "'d machine \<Rightarrow> ipo_inode \<Rightarrow> u32 \<Rightarrow> bool \<Rightarrow> ('d fs, int \<times> ipo_inode) state" where
  "get_direct io n logical_index alloc =
     (if direct n ! unat logical_index = 0 then
        (if \<not> alloc then State_Monad.return (-1, n)
         else do {
           phys \<leftarrow> allocate_block io;
           if phys < 0 then State_Monad.return (-1, n)
           else State_Monad.return (sint (word_of_int phys :: u32),
                  n\<lparr>direct := (direct n)[unat logical_index := word_of_int phys]\<rparr>)
         })
      else State_Monad.return (sint (direct n ! unat logical_index), n))"

text \<open>Make sure a pointer to a pointer block is there, allocating and zeroing the block.\<close>

definition ensure_pointer_block :: "'d machine \<Rightarrow> u32 \<Rightarrow> bool \<Rightarrow> ('d fs, u32 option) state" where
  "ensure_pointer_block io p alloc =
     (if p = 0 then
        (if \<not> alloc then State_Monad.return None
         else do {
           blk \<leftarrow> allocate_block io;
           if blk < 0 then State_Monad.return None
           else do {
             _ \<leftarrow> block_write io (word_of_int blk) zero_block;
             State_Monad.return (Some (word_of_int blk))
           }
         })
      else State_Monad.return (Some p))"

text \<open>The data block behind entry \<open>idx\<close> of the pointer block \<open>ptr\<close>.\<close>

definition get_through :: "'d machine \<Rightarrow> u32 \<Rightarrow> u32 \<Rightarrow> bool \<Rightarrow> ('d fs, int) state" where
  "get_through io ptr idx alloc = do {
     ibuf0 \<leftarrow> uninit_block io;
     (ok, ibuf) \<leftarrow> block_read io ptr ibuf0;
     if \<not> ok then State_Monad.return (-1)
     else if rd32 ibuf (4 * unat idx) = 0 then
       (if \<not> alloc then State_Monad.return (-1)
        else do {
          phys \<leftarrow> allocate_block io;
          if phys < 0 then State_Monad.return (-1)
          else do {
            let ibuf' = patch (4 * unat idx) (le32 (word_of_int phys)) ibuf;
            _ \<leftarrow> block_write io ptr ibuf';
            State_Monad.return (sint (rd32 ibuf' (4 * unat idx)))
          }
        })
     else State_Monad.return (sint (rd32 ibuf (4 * unat idx)))
   }"

definition get_single :: "'d machine \<Rightarrow> ipo_inode \<Rightarrow> u32 \<Rightarrow> bool \<Rightarrow> ('d fs, int \<times> ipo_inode) state" where
  "get_single io n idx alloc = do {
     r \<leftarrow> ensure_pointer_block io (indirect n) alloc;
     (case r of
        None \<Rightarrow> State_Monad.return (-1, n)
      | Some ptr \<Rightarrow> do {
          phys \<leftarrow> get_through io ptr idx alloc;
          State_Monad.return (phys, n\<lparr>indirect := ptr\<rparr>)
        })
   }"

text \<open>The same for an entry of the block of pointer blocks, whose bytes are \<open>dibuf\<close>.\<close>

definition ensure_entry :: "'d machine \<Rightarrow> u32 \<Rightarrow> bytes \<Rightarrow> nat \<Rightarrow> bool \<Rightarrow> ('d fs, u32 option) state" where
  "ensure_entry io ptr dibuf di_idx alloc =
     (if rd32 dibuf (4 * di_idx) = 0 then
        (if \<not> alloc then State_Monad.return None
         else do {
           si_block \<leftarrow> allocate_block io;
           if si_block < 0 then State_Monad.return None
           else do {
             _ \<leftarrow> block_write io ptr (patch (4 * di_idx) (le32 (word_of_int si_block)) dibuf);
             _ \<leftarrow> block_write io (word_of_int si_block) zero_block;
             State_Monad.return (Some (word_of_int si_block))
           }
         })
      else State_Monad.return (Some (rd32 dibuf (4 * di_idx))))"

definition get_double :: "'d machine \<Rightarrow> ipo_inode \<Rightarrow> u32 \<Rightarrow> bool \<Rightarrow> ('d fs, int \<times> ipo_inode) state" where
  "get_double io n idx alloc = do {
     r \<leftarrow> ensure_pointer_block io (double_indirect n) alloc;
     (case r of
        None \<Rightarrow> State_Monad.return (-1, n)
      | Some ptr \<Rightarrow> do {
          let n' = n\<lparr>double_indirect := ptr\<rparr>;
          dibuf0 \<leftarrow> uninit_block io;
          (ok, dibuf) \<leftarrow> block_read io ptr dibuf0;
          if \<not> ok then State_Monad.return (-1, n')
          else do {
            s \<leftarrow> ensure_entry io ptr dibuf (unat (idx div 128)) alloc;
            (case s of
               None \<Rightarrow> State_Monad.return (-1, n')
             | Some si \<Rightarrow> do {
                 phys \<leftarrow> get_through io si (idx mod 128) alloc;
                 State_Monad.return (phys, n')
               })
          }
        })
   }"

definition get_data_block_for_inode ::
    "'d machine \<Rightarrow> ipo_inode \<Rightarrow> u32 \<Rightarrow> bool \<Rightarrow> ('d fs, int \<times> ipo_inode) state" where
  "get_data_block_for_inode io n logical_index alloc =
     (if logical_index < 6 then get_direct io n logical_index alloc
      else let idx = logical_index - 6 in
        if idx < 128 then get_single io n idx alloc
        else let idx' = idx - 128 in
          if 128 * 128 \<le> idx' then State_Monad.return (-1, n)
          else get_double io n idx' alloc)"

end
