(* ===== verification/FsInodeSpec.thy ===== *)
theory FsInodeSpec imports FsInode begin

text \<open>
  The layout of a volume, the inode table as a function from inode numbers, and the two
  allocators as searches for the first clear bit.
\<close>

section \<open>Layout\<close>

definition data_block_count :: "superblock \<Rightarrow> nat" where
  "data_block_count b = unat (fs_size_blocks b) - unat (data_blocks_start b)"

text \<open>
  Superblock, inode bitmap, block bitmap, inode table and data blocks follow each other in a
  volume of at most \<open>N\<close> blocks. That the table has room for every inode is not part of it: the
  sizes computed by \<open>ipo_fs_format\<close> do not ensure it, so \<open>in_table\<close> says it of one inode.
\<close>

definition layout :: "nat \<Rightarrow> superblock \<Rightarrow> bool" where
  "layout N b \<longleftrightarrow>
     1 \<le> unat (inode_bitmap_start b) \<and>
     unat (inode_bitmap_start b) + (unat (inode_count b) + 4095) div 4096 \<le> unat (block_bitmap_start b) \<and>
     unat (block_bitmap_start b) + (data_block_count b + 4095) div 4096 \<le> unat (inode_table_start b) \<and>
     unat (inode_table_start b) \<le> unat (data_blocks_start b) \<and>
     unat (data_blocks_start b) \<le> unat (fs_size_blocks b) \<and>
     unat (fs_size_blocks b) \<le> N \<and> N \<le> 2 ^ 28"

definition in_table :: "superblock \<Rightarrow> u32 \<Rightarrow> bool" where
  "in_table b n \<longleftrightarrow> n \<noteq> 0 \<and> n \<le> inode_count b \<and>
     unat (inode_table_start b) + (unat n - 1) div 6 < unat (data_blocks_start b)"

lemma inode_offset_unat: "n \<noteq> 0 \<Longrightarrow> inode_offset n = (unat n - 1) mod 6 * 76"
  by (simp add: inode_offset_def unat_mod unat_minus_one)

lemma inode_offset_bound: "inode_offset n + 76 \<le> 512"
proof -
  have "unat ((n - 1) mod 6) < 6" by (simp add: unat_mod)
  then show ?thesis by (simp add: inode_offset_def)
qed

lemma unat_inode_block:
  assumes "layout N b" and "in_table b n"
  shows "unat (inode_block b n) = unat (inode_table_start b) + (unat n - 1) div 6"
  using assms by (auto simp: inode_block_def layout_def in_table_def unat_word_ariths unat_div unat_minus_one)

lemma unat_bit_block:
  assumes "unat st + unat i div 4096 < 2 ^ 32"
  shows "unat (bit_block st i) = unat st + unat i div 4096"
proof -
  have "unat (i div 8 div 512) = unat i div 4096"
    by (simp only: unat_div div_mult2_eq [symmetric]) simp
  then show ?thesis using assms by (simp add: bit_block_def unat_plus_if')
qed

lemma div_ceiling: "i < n \<Longrightarrow> i div 4096 < (n + 4095) div 4096" for i n :: nat
proof -
  assume "i < n"
  then have "(i + 4096) div 4096 \<le> (n + 4095) div 4096" by (intro div_le_mono) simp
  then show ?thesis by simp
qed

lemma unat_of_nat32: "i < 2 ^ 32 \<Longrightarrow> unat (of_nat i :: u32) = i"
  by (simp add: unat_of_nat)

lemma unat_u32: "unat (x :: u32) < 2 ^ 32"
  using unsigned_less [of x, where ?'a = nat] by simp

lemma inode_bit_block:
  assumes "layout N b" and "unat i < unat (inode_count b)"
  shows "unat (inode_bitmap_start b) \<le> unat (bit_block (inode_bitmap_start b) i)"
    and "unat (bit_block (inode_bitmap_start b) i) < unat (block_bitmap_start b)"
proof -
  have "unat i div 4096 < (unat (inode_count b) + 4095) div 4096"
    using div_ceiling [OF assms(2)] by simp
  then have "unat (inode_bitmap_start b) + unat i div 4096 < unat (block_bitmap_start b)"
    using assms(1) by (simp add: layout_def)
  moreover from this have "unat (bit_block (inode_bitmap_start b) i) = unat (inode_bitmap_start b) + unat i div 4096"
    using unat_u32 [of "block_bitmap_start b"] by (intro unat_bit_block) simp
  ultimately show "unat (inode_bitmap_start b) \<le> unat (bit_block (inode_bitmap_start b) i)"
    and "unat (bit_block (inode_bitmap_start b) i) < unat (block_bitmap_start b)" by simp_all
qed

lemma block_bit_block:
  assumes "layout N b" and "unat i < data_block_count b"
  shows "unat (block_bitmap_start b) \<le> unat (bit_block (block_bitmap_start b) i)"
    and "unat (bit_block (block_bitmap_start b) i) < unat (inode_table_start b)"
proof -
  have "unat i div 4096 < (data_block_count b + 4095) div 4096"
    using div_ceiling [OF assms(2)] by simp
  then have "unat (block_bitmap_start b) + unat i div 4096 < unat (inode_table_start b)"
    using assms(1) by (simp add: layout_def)
  moreover from this have "unat (bit_block (block_bitmap_start b) i) = unat (block_bitmap_start b) + unat i div 4096"
    using unat_u32 [of "inode_table_start b"] by (intro unat_bit_block) simp
  ultimately show "unat (block_bitmap_start b) \<le> unat (bit_block (block_bitmap_start b) i)"
    and "unat (bit_block (block_bitmap_start b) i) < unat (inode_table_start b)" by simp_all
qed

lemma unat_data_block:
  assumes "layout N b" and "i < data_block_count b"
  shows "unat (data_blocks_start b + of_nat i) = unat (data_blocks_start b) + i"
proof -
  have "unat (data_blocks_start b) + i < 2 ^ 32"
    using assms by (auto simp: layout_def data_block_count_def)
  moreover from this have "unat (of_nat i :: u32) = i" by (simp add: unat_of_nat)
  ultimately show ?thesis by (simp add: unat_word_ariths)
qed

section \<open>The inode table\<close>

definition inode_at :: "vol \<Rightarrow> u32 \<Rightarrow> ipo_inode" where
  "inode_at v n = dec_inode (chunk (inode_offset n) INODE_SIZE (blk v (inode_block (v_sb v) n)))"

definition put_inode :: "u32 \<Rightarrow> ipo_inode \<Rightarrow> vol \<Rightarrow> vol" where
  "put_inode n x v = set_blk (inode_block (v_sb v) n)
     (patch (inode_offset n) (enc_inode x) (blk v (inode_block (v_sb v) n))) v"

lemma put_inode_frame [simp]:
  "v_sb (put_inode n x v) = v_sb v"
  "v_start (put_inode n x v) = v_start v"
  "v_mounted (put_inode n x v) = v_mounted v"
  "v_fds (put_inode n x v) = v_fds v"
  by (simp_all add: put_inode_def)

lemma blk_put_inode [simp]: "k \<noteq> inode_block (v_sb v) n \<Longrightarrow> blk (put_inode n x v) k = blk v k"
  by (simp add: put_inode_def)

lemma inode_slot_disjoint:
  assumes "n \<noteq> 0" and "m \<noteq> 0" and "n \<noteq> m" and "inode_block b n = inode_block b m"
  shows "inode_offset n + 76 \<le> inode_offset m \<or> inode_offset m + 76 \<le> inode_offset n"
proof -
  have "unat n \<noteq> 0" "unat m \<noteq> 0" using assms(1,2) by (simp_all add: unat_eq_0)
  have "(n - 1) div 6 = (m - 1) div 6" using assms(4) by (simp add: inode_block_def)
  then have "unat ((n - 1) div 6) = unat ((m - 1) div 6)" by simp
  then have "(unat n - 1) div 6 = (unat m - 1) div 6"
    using assms(1,2) by (simp add: unat_div unat_minus_one)
  moreover have "unat n - 1 \<noteq> unat m - 1"
    using assms(3) \<open>unat n \<noteq> 0\<close> \<open>unat m \<noteq> 0\<close> by (auto simp: word_unat_eq_iff)
  ultimately have "(unat n - 1) mod 6 \<noteq> (unat m - 1) mod 6" by (metis div_mult_mod_eq)
  then show ?thesis using assms(1,2) by (auto simp: inode_offset_unat)
qed

lemma inode_at_put_inode:
  assumes "n \<noteq> 0" and "m \<noteq> 0" and "wf_inode x" and "length (blk v (inode_block (v_sb v) n)) = 512"
  shows "inode_at (put_inode n x v) m = (if m = n then x else inode_at v m)"
proof (cases "m = n")
  case True
  then show ?thesis
    using assms inode_offset_bound [of n]
    by (simp add: inode_at_def put_inode_def length_enc_inode dec_enc_inode)
next
  case False
  show ?thesis
  proof (cases "inode_block (v_sb v) m = inode_block (v_sb v) n")
    case same: True
    have "chunk (inode_offset m) 76 (patch (inode_offset n) (enc_inode x) (blk v (inode_block (v_sb v) n))) =
      chunk (inode_offset m) 76 (blk v (inode_block (v_sb v) n))"
      using inode_slot_disjoint [of n m "v_sb v"] False assms same inode_offset_bound [of n]
        inode_offset_bound [of m]
      by (intro chunk_patch_other) (auto simp: length_enc_inode)
    then show ?thesis using False same by (simp add: inode_at_def put_inode_def)
  qed (use False in \<open>simp add: inode_at_def put_inode_def\<close>)
qed

context fs_store begin

lemma runs_read_inode:
  assumes "in_table (v_sb v) n" and "layout N (v_sb v)"
  shows "runs v (read_inode io n) (Some (inode_at v n)) v"
proof -
  have N: "unat (inode_block (v_sb v) n) < N"
    using assms unat_inode_block [OF assms(2,1)] by (simp add: layout_def in_table_def)
  have "\<not> (n = 0 \<or> inode_count (v_sb v) < n)" using assms(1) by (auto simp: in_table_def)
  then show ?thesis
    unfolding read_inode_def
    by (intro evals_bind [OF runs_sb])
       (auto intro!: runs_uninit evals_bind [OF store_read [OF N]] evals_cong [OF evals_return]
         simp: inode_at_def)
qed

lemma runs_read_inode_bad:
  assumes "n = 0 \<or> inode_count (v_sb v) < n"
  shows "runs v (read_inode io n) None v"
  unfolding read_inode_def using assms
  by (intro evals_bind [OF runs_sb]) (auto intro: evals_return)

lemma runs_write_inode:
  assumes "in_table (v_sb v) n" and "layout N (v_sb v)" and "wf_inode x"
  shows "runs v (write_inode io n x) True (put_inode n x v)"
proof (rule runs_blocks)
  assume len: "\<And>i. unat i < N \<Longrightarrow> length (blk v i) = 512"
  have N: "unat (inode_block (v_sb v) n) < N"
    using assms unat_inode_block [OF assms(2,1)] by (simp add: layout_def in_table_def)
  have ok: "\<not> (n = 0 \<or> inode_count (v_sb v) < n)" using assms(1) by (auto simp: in_table_def)
  have plen: "length (patch (inode_offset n) (enc_inode x) (blk v (inode_block (v_sb v) n))) = 512"
    using inode_offset_bound [of n] len [OF N] assms(3) by (simp add: length_enc_inode)
  show ?thesis
    unfolding write_inode_def put_inode_def
    by (intro evals_bind [OF runs_sb])
       (use ok in \<open>auto intro!: runs_uninit evals_bind [OF store_read [OF N]] store_write [OF N plen]\<close>)
qed

end

section \<open>Allocation\<close>

text \<open>The least index whose bit is clear, if there is one below the count.\<close>

definition first_clear :: "vol \<Rightarrow> u32 \<Rightarrow> nat \<Rightarrow> nat \<Rightarrow> nat option" where
  "first_clear v st k n = List.find (\<lambda>i. \<not> bit_at v st (of_nat i)) [k..<n]"

definition block_allocation :: "vol \<Rightarrow> nat option \<Rightarrow> int \<times> vol" where
  "block_allocation v r = (case r of
     None \<Rightarrow> (-1, v)
   | Some i \<Rightarrow> (int (unat (data_blocks_start (v_sb v)) + i),
       set_blk (data_blocks_start (v_sb v) + of_nat i) zero_block
         (set_bit_at (block_bitmap_start (v_sb v)) (of_nat i) True v)))"

definition inode_allocation :: "vol \<Rightarrow> nat option \<Rightarrow> int \<times> vol" where
  "inode_allocation v r = (case r of
     None \<Rightarrow> (-1, v)
   | Some i \<Rightarrow> (int (Suc i),
       put_inode (of_nat (Suc i)) zero_inode (set_bit_at (inode_bitmap_start (v_sb v)) (of_nat i) True v)))"

lemma first_clear_step:
  "k < n \<Longrightarrow> first_clear v st k n = (if \<not> bit_at v st (of_nat k) then Some k else first_clear v st (Suc k) n)"
  by (simp add: first_clear_def upt_rec)

lemma first_clear_end: "n \<le> k \<Longrightarrow> first_clear v st k n = None"
  by (simp add: first_clear_def)

lemma first_clear_Some:
  "first_clear v st k n = Some i \<Longrightarrow> k \<le> i \<and> i < n \<and> \<not> bit_at v st (of_nat i) \<and>
     (\<forall>j. k \<le> j \<and> j < i \<longrightarrow> bit_at v st (of_nat j))"
proof (induction "n - k" arbitrary: k)
  case 0
  then show ?case by (simp add: first_clear_end)
next
  case (Suc m)
  then have "k < n" by simp
  show ?case
  proof (cases "bit_at v st (of_nat k)")
    case True
    with Suc.prems have "first_clear v st (Suc k) n = Some i"
      by (simp add: first_clear_step [OF \<open>k < n\<close>])
    from Suc.hyps(1) [OF _ this] Suc.hyps(2) True show ?thesis
      by (metis Suc_leD Suc_le_eq diff_Suc_1 diff_Suc_Suc Suc_diff_Suc \<open>k < n\<close> le_neq_implies_less)
  qed (use Suc.prems \<open>k < n\<close> in \<open>auto simp: first_clear_step\<close>)
qed

lemma first_clear_None: "first_clear v st k n = None \<longleftrightarrow> (\<forall>i. k \<le> i \<and> i < n \<longrightarrow> bit_at v st (of_nat i))"
  by (auto simp: first_clear_def find_None_iff)

text \<open>Small block numbers are the same as C ints.\<close>

lemma sint_small: "unat (x :: u32) < 2 ^ 31 \<Longrightarrow> sint x = int (unat x)"
proof -
  assume "unat x < 2 ^ 31"
  then have "uint x < 2 ^ 31" by (metis of_nat_less_iff of_nat_numeral of_nat_power uint_nat)
  moreover have "- (2 ^ 31) \<le> uint x" by (rule order_trans [of _ 0]) simp_all
  ultimately have "sint x = uint x" by (simp add: sint_uint signed_take_bit_int_eq_self_iff)
  then show ?thesis by simp
qed

context fs_store begin

lemma runs_allocate_block_from:
  assumes L: "layout N (v_sb v)" and "k + m = data_block_count (v_sb v)"
  shows "runs v (allocate_block_from io m (of_nat k))
    (fst (block_allocation v (first_clear v (block_bitmap_start (v_sb v)) k (k + m))))
    (snd (block_allocation v (first_clear v (block_bitmap_start (v_sb v)) k (k + m))))"
  using assms(2)
proof (induction m arbitrary: k)
  case 0
  then show ?case by (auto simp: first_clear_end block_allocation_def intro: evals_return)
next
  case (Suc m)
  let ?b = "v_sb v"
  have k: "k < data_block_count ?b" using Suc.prems by simp
  have kk: "unat (of_nat k :: u32) = k"
    using k L by (intro unat_of_nat32) (auto simp: layout_def data_block_count_def)
  have bit: "unat (bit_block (block_bitmap_start ?b) (of_nat k)) < N"
    using block_bit_block(2) [OF L, of "of_nat k"] k kk L by (simp add: layout_def)
  have dat: "unat (data_blocks_start ?b + of_nat k) = unat (data_blocks_start ?b) + k"
    by (rule unat_data_block [OF L k])
  then have "unat (data_blocks_start ?b + of_nat k) < N" "unat (data_blocks_start ?b + of_nat k) < 2 ^ 31"
    using k L by (auto simp: layout_def data_block_count_def)
  note facts = this(1) [unfolded dat] sint_small [OF this(2)]
  have step: "of_nat k + 1 = (of_nat (Suc k) :: u32)" by simp
  have "runs v (allocate_block_from io m (of_nat (Suc k)))
    (fst (block_allocation v (first_clear v (block_bitmap_start ?b) (Suc k) (k + Suc m))))
    (snd (block_allocation v (first_clear v (block_bitmap_start ?b) (Suc k) (k + Suc m))))"
    using Suc.IH [of "Suc k"] Suc.prems by simp
  then show ?case
    unfolding allocate_block_from.simps step
    by (intro evals_bind [OF runs_sb] evals_bind [OF runs_bitmap_get [OF bit]])
       (auto simp: first_clear_step block_allocation_def facts dat simp del: of_nat_Suc
         intro!: evals_bind [OF runs_bitmap_set [OF bit]] evals_bind [OF store_write]
           evals_cong [OF evals_return])
qed

lemma runs_allocate_block:
  assumes "layout N (v_sb v)"
  defines "r \<equiv> block_allocation v (first_clear v (block_bitmap_start (v_sb v)) 0 (data_block_count (v_sb v)))"
  shows "runs v (allocate_block io) (fst r) (snd r)"
proof -
  have "unat (fs_size_blocks (v_sb v) - data_blocks_start (v_sb v)) = data_block_count (v_sb v)"
    using assms(1) by (simp add: layout_def data_block_count_def unat_sub word_le_nat_alt)
  then show ?thesis
    using runs_allocate_block_from [OF assms(1), of 0 "data_block_count (v_sb v)"]
    unfolding allocate_block_def r_def by (auto intro: evals_bind [OF runs_sb])
qed

lemma runs_allocate_inode_from:
  assumes L: "layout N (v_sb v)" and "k + m = unat (inode_count (v_sb v))"
    and T: "\<And>i. first_clear v (inode_bitmap_start (v_sb v)) k (k + m) = Some i \<Longrightarrow> in_table (v_sb v) (of_nat (Suc i))"
    and S: "unat (inode_count (v_sb v)) < 2 ^ 31"
  shows "runs v (allocate_inode_from io m (of_nat k))
    (fst (inode_allocation v (first_clear v (inode_bitmap_start (v_sb v)) k (k + m))))
    (snd (inode_allocation v (first_clear v (inode_bitmap_start (v_sb v)) k (k + m))))"
  using assms(2) T
proof (induction m arbitrary: k)
  case 0
  then show ?case by (auto simp: first_clear_end inode_allocation_def intro: evals_return)
next
  case (Suc m)
  let ?b = "v_sb v"
  have k: "k < unat (inode_count ?b)" using Suc.prems by simp
  then have kk: "unat (of_nat k :: u32) = k" and "unat (of_nat (Suc k) :: u32) = Suc k"
    using S by (intro unat_of_nat32, simp)+
  then have "sint (of_nat (Suc k) :: u32) = int (Suc k)" using sint_small [of "of_nat (Suc k)"] k S by simp
  note facts = this
  have bit: "unat (bit_block (inode_bitmap_start ?b) (of_nat k)) < N"
    using inode_bit_block(2) [OF L, of "of_nat k"] k kk L by (simp add: layout_def)
  have step: "of_nat k + 1 = (of_nat (Suc k) :: u32)" by simp
  have rest: "runs v (allocate_inode_from io m (of_nat (Suc k)))
    (fst (inode_allocation v (first_clear v (inode_bitmap_start ?b) (Suc k) (k + Suc m))))
    (snd (inode_allocation v (first_clear v (inode_bitmap_start ?b) (Suc k) (k + Suc m))))"
    if "bit_at v (inode_bitmap_start ?b) (of_nat k)"
    using Suc.IH [of "Suc k"] Suc.prems that by (simp add: first_clear_step)
  have tab: "in_table ?b (of_nat (Suc k))" if "\<not> bit_at v (inode_bitmap_start ?b) (of_nat k)"
    using Suc.prems(2) [of k] that by (simp add: first_clear_step)
  show ?case
    unfolding allocate_inode_from.simps step
    by (intro evals_bind [OF runs_sb] evals_bind [OF runs_bitmap_get [OF bit]])
       (use facts rest tab L in \<open>auto simp: first_clear_step inode_allocation_def simp del: of_nat_Suc
         intro!: evals_bind [OF runs_bitmap_set [OF bit]] evals_bind [OF runs_write_inode]
           evals_cong [OF evals_return]\<close>)
qed

lemma runs_allocate_inode:
  assumes "layout N (v_sb v)" and "unat (inode_count (v_sb v)) < 2 ^ 31"
    and "\<And>i. first_clear v (inode_bitmap_start (v_sb v)) 0 (unat (inode_count (v_sb v))) = Some i \<Longrightarrow>
      in_table (v_sb v) (of_nat (Suc i))"
  defines "r \<equiv> inode_allocation v (first_clear v (inode_bitmap_start (v_sb v)) 0 (unat (inode_count (v_sb v))))"
  shows "runs v (allocate_inode io) (fst r) (snd r)"
  using runs_allocate_inode_from [OF assms(1), of 0 "unat (inode_count (v_sb v))"] assms(2,3)
  unfolding allocate_inode_def r_def by (auto intro: evals_bind [OF runs_sb])

end

end
