(* ===== verification/FsMap.thy ===== *)
theory FsMap imports FsInodeSpec begin

text \<open>
  The block map of an inode as a tree of pointers, and what \<open>get_data_block_for_inode\<close> does to
  it: without allocation it looks a node up; with allocation it fills in the nodes on the way
  and nothing else. The invariant \<open>file_ok\<close> says that the nodes of the tree point to distinct,
  allocated data blocks.
\<close>

section \<open>The pointer tree\<close>

datatype node = Dir nat | Ind | Ent nat | Dbl | Sng nat | Leaf nat nat

fun ptr :: "vol \<Rightarrow> ipo_inode \<Rightarrow> node \<Rightarrow> u32" where
  "ptr v n (Dir i) = direct n ! i"
| "ptr v n Ind = indirect n"
| "ptr v n (Ent i) = (if indirect n = 0 then 0 else rd32 (blk v (indirect n)) (4 * i))"
| "ptr v n Dbl = double_indirect n"
| "ptr v n (Sng i) = (if double_indirect n = 0 then 0 else rd32 (blk v (double_indirect n)) (4 * i))"
| "ptr v n (Leaf i j) = (if double_indirect n = 0 \<or> rd32 (blk v (double_indirect n)) (4 * i) = 0 then 0
     else rd32 (blk v (rd32 (blk v (double_indirect n)) (4 * i))) (4 * j))"

fun in_range :: "node \<Rightarrow> bool" where
  "in_range (Dir i) = (i < 6)"
| "in_range (Ent i) = (i < 128)"
| "in_range (Sng i) = (i < 128)"
| "in_range (Leaf i j) = (i < 128 \<and> j < 128)"
| "in_range _ = True"

text \<open>Interior nodes point to blocks of pointers, the others to blocks of the file.\<close>

fun interior :: "node \<Rightarrow> bool" where
  "interior Ind = True"
| "interior Dbl = True"
| "interior (Sng _) = True"
| "interior _ = False"

text \<open>The node of a logical block, and how many logical blocks there are.\<close>

definition node_of :: "nat \<Rightarrow> node" where
  "node_of k = (if k < 6 then Dir k else if k < 134 then Ent (k - 6)
     else Leaf ((k - 134) div 128) ((k - 134) mod 128))"

abbreviation (input) "MAX_FILE_BLOCKS \<equiv> (6 + 128 + 128 * 128 :: nat)"

lemma node_of_in_range: "k < MAX_FILE_BLOCKS \<Longrightarrow> in_range (node_of k)"
  by (auto simp: node_of_def)

lemma node_of_file_block [simp]: "\<not> interior (node_of k)"
  by (simp add: node_of_def)

lemma node_of_inj: "node_of j = node_of k \<Longrightarrow> j = k"
  unfolding node_of_def
  by (auto split: if_splits) (metis div_mult_mod_eq le_add_diff_inverse not_less)

section \<open>Allocated blocks\<close>

definition data_block :: "superblock \<Rightarrow> u32 \<Rightarrow> bool" where
  "data_block b p \<longleftrightarrow> data_blocks_start b \<le> p \<and> p < fs_size_blocks b"

definition allocated :: "vol \<Rightarrow> u32 \<Rightarrow> bool" where
  "allocated v p \<longleftrightarrow> data_block (v_sb v) p \<and>
     bit_at v (block_bitmap_start (v_sb v)) (p - data_blocks_start (v_sb v))"

definition volume_full :: "vol \<Rightarrow> bool" where
  "volume_full v \<longleftrightarrow> (\<forall>p. data_block (v_sb v) p \<longrightarrow> allocated v p)"

definition sized :: "nat \<Rightarrow> vol \<Rightarrow> bool" where
  "sized N v \<longleftrightarrow> (\<forall>i. unat i < N \<longrightarrow> length (blk v i) = 512)"

text \<open>The volume after a free data block was taken and cleared.\<close>

definition take_block :: "u32 \<Rightarrow> vol \<Rightarrow> vol" where
  "take_block b v = set_blk b zero_block
     (set_bit_at (block_bitmap_start (v_sb v)) (b - data_blocks_start (v_sb v)) True v)"

lemma take_block_frame [simp]:
  "v_sb (take_block b v) = v_sb v"
  "v_start (take_block b v) = v_start v"
  "v_mounted (take_block b v) = v_mounted v"
  "v_fds (take_block b v) = v_fds v"
  "blk (take_block b v) b = zero_block"
  by (simp_all add: take_block_def)

lemma data_block_index:
  assumes "layout N b" and "data_block b p"
  shows "unat (p - data_blocks_start b) < data_block_count b" and "unat p < N" and "p \<noteq> 0" and "unat p < 2 ^ 31"
    and "unat (data_blocks_start b) \<le> unat p"
proof -
  from assms(2) have d: "unat (data_blocks_start b) \<le> unat p" "unat p < unat (fs_size_blocks b)"
    by (auto simp: data_block_def word_le_nat_alt word_less_nat_alt)
  from assms(1) have l: "1 \<le> unat (data_blocks_start b)" "unat (fs_size_blocks b) \<le> N" "N \<le> 2 ^ 28"
    by (auto simp: layout_def)
  show "unat (p - data_blocks_start b) < data_block_count b"
    using d by (simp add: data_block_count_def unat_sub word_le_nat_alt)
  show "unat p < N" "unat p < 2 ^ 31" "unat (data_blocks_start b) \<le> unat p" using d l by simp_all
  show "p \<noteq> 0" using d l by auto
qed

text \<open>The blocks of the block bitmap.\<close>

definition bitmap_area :: "superblock \<Rightarrow> u32 \<Rightarrow> bool" where
  "bitmap_area b p \<longleftrightarrow> block_bitmap_start b \<le> p \<and> p < inode_table_start b"

lemma bitmap_area_bit:
  assumes "layout N b" and "data_block b p"
  shows "bitmap_area b (bit_block (block_bitmap_start b) (p - data_blocks_start b))"
  using block_bit_block [OF assms(1) data_block_index(1) [OF assms]]
  by (simp add: bitmap_area_def word_le_nat_alt word_less_nat_alt)

lemma data_not_bitmap: "layout N b \<Longrightarrow> data_block b p \<Longrightarrow> \<not> bitmap_area b p"
  by (auto simp: layout_def data_block_def bitmap_area_def word_le_nat_alt word_less_nat_alt)

lemma blk_take_block:
  assumes "layout N (v_sb v)" and "data_block (v_sb v) b" and "p \<noteq> b" and "\<not> bitmap_area (v_sb v) p"
  shows "blk (take_block b v) p = blk v p"
proof -
  have "p \<noteq> bit_block (block_bitmap_start (v_sb v)) (b - data_blocks_start (v_sb v))"
    using bitmap_area_bit [OF assms(1,2)] assms(4) by auto
  then show ?thesis using assms(3) by (simp add: take_block_def)
qed

lemma allocated_take_block:
  assumes "layout N (v_sb v)" and "sized N v" and "data_block (v_sb v) b"
  shows "allocated (take_block b v) p \<longleftrightarrow> allocated v p \<or> p = b"
proof -
  let ?st = "block_bitmap_start (v_sb v)" and ?d = "data_blocks_start (v_sb v)"
  have N: "unat (bit_block ?st (b - ?d)) < N"
    using block_bit_block(2) [OF assms(1) data_block_index(1) [OF assms(1,3)]] assms(1) by (simp add: layout_def)
  have ne: "bit_block ?st (p - ?d) \<noteq> b" if "data_block (v_sb v) p"
    using bitmap_area_bit [OF assms(1) that] data_not_bitmap [OF assms(1,3)] by auto
  show ?thesis
    using ne assms(2,3) N by (auto simp: allocated_def take_block_def sized_def)
qed

lemma sized_take_block: "sized N v \<Longrightarrow> sized N (take_block b v)"
  by (auto simp: sized_def take_block_def set_bit_at_def Let_def)

lemma allocated_set_blk:
  assumes "layout N (v_sb v)" and "data_block (v_sb v) q"
  shows "allocated (set_blk q x v) p \<longleftrightarrow> allocated v p"
proof -
  have "bit_block (block_bitmap_start (v_sb v)) (p - data_blocks_start (v_sb v)) \<noteq> q" if "data_block (v_sb v) p"
    using bitmap_area_bit [OF assms(1) that] data_not_bitmap [OF assms] by auto
  then show ?thesis by (auto simp: allocated_def)
qed

section \<open>Well-formed files and their growth\<close>

definition file_ok :: "vol \<Rightarrow> ipo_inode \<Rightarrow> bool" where
  "file_ok v n \<longleftrightarrow> wf_inode n \<and>
     (\<forall>x. in_range x \<and> ptr v n x \<noteq> 0 \<longrightarrow> allocated v (ptr v n x)) \<and>
     (\<forall>x y. in_range x \<and> in_range y \<and> ptr v n x \<noteq> 0 \<and> ptr v n x = ptr v n y \<longrightarrow> x = y)"

text \<open>The block is not a pointer block of the file.\<close>

definition not_interior :: "vol \<Rightarrow> ipo_inode \<Rightarrow> u32 \<Rightarrow> bool" where
  "not_interior v n p \<longleftrightarrow> (\<forall>x. in_range x \<and> interior x \<longrightarrow> ptr v n x \<noteq> p)"

text \<open>
  \<open>grow X v n v' n'\<close>: pointers were added to the file, at the nodes \<open>X\<close> only and at no other, interior
  or not; what was there is kept, a new pointer leads to a block that was free, the blocks taken are
  exactly those the new pointers lead to, new file blocks hold zeros, and no other block but those of the
  block bitmap changes. The pointers that a request for a node may add are those on the way to it.
\<close>

definition same_globals :: "vol \<Rightarrow> vol \<Rightarrow> bool" where
  "same_globals v v' \<longleftrightarrow> v_sb v' = v_sb v \<and> v_start v' = v_start v \<and> v_mounted v' = v_mounted v \<and> v_fds v' = v_fds v"

definition same_attributes :: "ipo_inode \<Rightarrow> ipo_inode \<Rightarrow> bool" where
  "same_attributes n n' \<longleftrightarrow> mode n' = mode n \<and> i_size n' = i_size n \<and> links_count n' = links_count n \<and> pad n' = pad n"

fun path_to :: "node \<Rightarrow> node set" where
  "path_to (Ent i) = {Ind, Ent i}"
| "path_to (Sng i) = {Dbl, Sng i}"
| "path_to (Leaf i j) = {Dbl, Sng i, Leaf i j}"
| "path_to x = {x}"

definition grow :: "node set \<Rightarrow> vol \<Rightarrow> ipo_inode \<Rightarrow> vol \<Rightarrow> ipo_inode \<Rightarrow> bool" where
  "grow X v n v' n' \<longleftrightarrow>
     same_globals v v' \<and> same_attributes n n' \<and> file_ok v' n' \<and>
     (\<forall>p. allocated v p \<longrightarrow> allocated v' p) \<and>
     (\<forall>x. in_range x \<and> ptr v n x \<noteq> 0 \<longrightarrow> ptr v' n' x = ptr v n x) \<and>
     (\<forall>x. in_range x \<and> x \<notin> X \<longrightarrow> ptr v' n' x = ptr v n x) \<and>
     (\<forall>p. allocated v' p \<and> \<not> allocated v p \<longrightarrow> p \<noteq> 0 \<and> (\<exists>x\<in>X. in_range x \<and> ptr v' n' x = p)) \<and>
     (\<forall>x. in_range x \<and> ptr v n x = 0 \<and> ptr v' n' x \<noteq> 0 \<longrightarrow> \<not> allocated v (ptr v' n' x)) \<and>
     (\<forall>x. in_range x \<and> \<not> interior x \<and> ptr v n x = 0 \<and> ptr v' n' x \<noteq> 0 \<longrightarrow> blk v' (ptr v' n' x) = zero_block) \<and>
     (\<forall>p. allocated v p \<and> not_interior v n p \<longrightarrow> blk v' p = blk v p) \<and>
     (\<forall>p. \<not> data_block (v_sb v) p \<and> \<not> bitmap_area (v_sb v) p \<longrightarrow> blk v' p = blk v p)"

lemma file_ok_allocated: "file_ok v n \<Longrightarrow> in_range x \<Longrightarrow> ptr v n x \<noteq> 0 \<Longrightarrow> allocated v (ptr v n x)"
  by (simp add: file_ok_def)

lemma file_ok_inj:
  "file_ok v n \<Longrightarrow> in_range x \<Longrightarrow> in_range y \<Longrightarrow> ptr v n x \<noteq> 0 \<Longrightarrow> ptr v n x = ptr v n y \<Longrightarrow> x = y"
  unfolding file_ok_def by blast

lemma file_block_not_interior:
  "file_ok v n \<Longrightarrow> in_range x \<Longrightarrow> \<not> interior x \<Longrightarrow> ptr v n x \<noteq> 0 \<Longrightarrow> not_interior v n (ptr v n x)"
  unfolding not_interior_def by (metis file_ok_inj)

lemma grow_refl: "file_ok v n \<Longrightarrow> grow X v n v n"
  by (auto simp: grow_def same_globals_def same_attributes_def)

lemma not_interior_grow:
  assumes "grow X v n v' n'" and "allocated v p" and "not_interior v n p"
  shows "not_interior v' n' p"
  unfolding not_interior_def
proof (intro allI impI)
  fix x
  assume x: "in_range x \<and> interior x"
  show "ptr v' n' x \<noteq> p"
  proof (cases "ptr v n x = 0")
    case True
    show ?thesis
    proof
      assume p: "ptr v' n' x = p"
      have "p \<noteq> ptr v n x" using x assms(3) by (auto simp: not_interior_def)
      then have "ptr v' n' x \<noteq> 0" using p True by simp
      then have "\<not> allocated v (ptr v' n' x)" using assms(1) x True unfolding grow_def by blast
      then show False using p assms(2) by simp
    qed
  next
    case False
    then have "ptr v' n' x = ptr v n x" using assms(1) x unfolding grow_def by blast
    then show ?thesis using x assms(3) by (auto simp: not_interior_def)
  qed
qed

lemma grow_file_ok: "grow X v n v' n' \<Longrightarrow> file_ok v' n'"
  by (simp add: grow_def)

lemma growD:
  assumes "grow X v n v' n'"
  shows "same_globals v v'" and "same_attributes n n'"
    and "allocated v p \<Longrightarrow> allocated v' p"
    and "in_range x \<Longrightarrow> ptr v n x \<noteq> 0 \<Longrightarrow> ptr v' n' x = ptr v n x"
    and "in_range x \<Longrightarrow> x \<notin> X \<Longrightarrow> ptr v' n' x = ptr v n x"
    and "in_range x \<Longrightarrow> ptr v n x = 0 \<Longrightarrow> ptr v' n' x \<noteq> 0 \<Longrightarrow> \<not> allocated v (ptr v' n' x)"
    and "in_range x \<Longrightarrow> \<not> interior x \<Longrightarrow> ptr v n x = 0 \<Longrightarrow> ptr v' n' x \<noteq> 0 \<Longrightarrow>
      blk v' (ptr v' n' x) = zero_block"
    and "allocated v p \<Longrightarrow> not_interior v n p \<Longrightarrow> blk v' p = blk v p"
    and "\<not> data_block (v_sb v) p \<Longrightarrow> \<not> bitmap_area (v_sb v) p \<Longrightarrow> blk v' p = blk v p"
    and "allocated v' p \<Longrightarrow> \<not> allocated v p \<Longrightarrow> p \<noteq> 0 \<and> (\<exists>x\<in>X. in_range x \<and> ptr v' n' x = p)"
  using assms unfolding grow_def by blast+

lemma grow_trans:
  assumes g: "grow X v n v' n'" and h: "grow Y v' n' v'' n''"
  shows "grow (X \<union> Y) v n v'' n''"
proof -
  note G = growD [OF g] and H = growD [OF h]
  have sb: "v_sb v' = v_sb v" using G(1) by (simp add: same_globals_def)
  have new: "\<not> allocated v (ptr v'' n'' x)" if x: "in_range x" "ptr v n x = 0" "ptr v'' n'' x \<noteq> 0" for x
  proof (cases "ptr v' n' x = 0")
    case True
    then show ?thesis using H(6) [OF x(1) True x(3)] G(3) by blast
  next
    case False
    then show ?thesis using H(4) [OF x(1) False] G(6) [OF x(1,2) False] by simp
  qed
  have zero: "blk v'' (ptr v'' n'' x) = zero_block"
    if x: "in_range x" "\<not> interior x" "ptr v n x = 0" "ptr v'' n'' x \<noteq> 0" for x
  proof (cases "ptr v' n' x = 0")
    case True
    then show ?thesis using H(7) [OF x(1,2) True x(4)] by simp
  next
    case False
    have "blk v'' (ptr v' n' x) = blk v' (ptr v' n' x)"
      using H(8) [OF file_ok_allocated [OF grow_file_ok [OF g] x(1) False]]
        file_block_not_interior [OF grow_file_ok [OF g] x(1,2) False] by blast
    then show ?thesis using H(4) [OF x(1) False] G(7) [OF x(1,2,3) False] by simp
  qed
  have keep: "blk v'' p = blk v p" if p: "allocated v p" "not_interior v n p" for p
    using H(8) [OF G(3) [OF p(1)] not_interior_grow [OF g p]] G(8) [OF p] by simp
  have "same_globals v v''" "same_attributes n n''"
    using G(1,2) H(1,2) by (simp_all add: same_globals_def same_attributes_def)
  moreover have "\<forall>x. in_range x \<and> ptr v n x \<noteq> 0 \<longrightarrow> ptr v'' n'' x = ptr v n x"
    using G(4) H(4) by metis
  moreover have "\<forall>x. in_range x \<and> x \<notin> X \<union> Y \<longrightarrow> ptr v'' n'' x = ptr v n x"
    using G(5) H(5) by (metis UnCI)
  moreover have "p \<noteq> 0 \<and> (\<exists>x\<in>X \<union> Y. in_range x \<and> ptr v'' n'' x = p)" if "allocated v'' p" "\<not> allocated v p" for p
  proof (cases "allocated v' p")
    case True
    with G(10) [OF _ that(2)] obtain x where "p \<noteq> 0" "x \<in> X" "in_range x" "ptr v' n' x = p" by blast
    then show ?thesis using H(4) [of x] by auto
  next
    case False
    then show ?thesis using H(10) [OF that(1)] by blast
  qed
  moreover have "\<forall>p. \<not> data_block (v_sb v) p \<and> \<not> bitmap_area (v_sb v) p \<longrightarrow> blk v'' p = blk v p"
    using G(9) H(9) sb by metis
  ultimately show ?thesis
    using G(3) H(3) new zero keep grow_file_ok [OF h] unfolding grow_def by blast
qed

lemma grow_mono: "grow X v n v' n' \<Longrightarrow> X \<subseteq> Y \<Longrightarrow> grow Y v n v' n'"
  unfolding grow_def by blast

section \<open>Installing one block\<close>

text \<open>A step of growth: one pointer of the tree, null before, becomes a fresh block.\<close>

lemma grow_install:
  assumes ok: "file_ok v n" and x: "in_range x" "ptr v n x = 0"
    and b: "data_block (v_sb v) b" "\<not> allocated v b" "b \<noteq> 0"
    and P: "\<And>y. in_range y \<Longrightarrow> ptr v' n' y = (if y = x then b else ptr v n y)"
    and g: "same_globals v v'" "same_attributes n n'" "wf_inode n'"
    and al: "\<And>p. allocated v' p \<longleftrightarrow> allocated v p \<or> p = b"
    and keep: "\<And>p. allocated v p \<Longrightarrow> not_interior v n p \<Longrightarrow> blk v' p = blk v p"
    and out: "\<And>p. \<not> data_block (v_sb v) p \<Longrightarrow> \<not> bitmap_area (v_sb v) p \<Longrightarrow> blk v' p = blk v p"
    and X: "x \<in> X" "\<not> interior x \<Longrightarrow> blk v' b = zero_block"
  shows "grow X v n v' n'"
proof -
  have fresh: "ptr v n y \<noteq> b" if "in_range y" for y
    using file_ok_allocated [OF ok that] b by metis
  have "allocated v' (ptr v' n' y)" if "in_range y" "ptr v' n' y \<noteq> 0" for y
    using that P [OF that(1)] al file_ok_allocated [OF ok that(1)] by (auto split: if_splits)
  moreover have "y = z" if "in_range y" "in_range z" "ptr v' n' y \<noteq> 0" "ptr v' n' y = ptr v' n' z" for y z
    using that P [OF that(1)] P [OF that(2)] fresh file_ok_inj [OF ok that(1,2)] by (metis (full_types))
  ultimately have "file_ok v' n'" using g(3) unfolding file_ok_def by blast
  moreover have "\<forall>y. in_range y \<and> ptr v n y \<noteq> 0 \<longrightarrow> ptr v' n' y = ptr v n y" using P x by auto
  moreover have "\<forall>y. in_range y \<and> y \<notin> X \<longrightarrow> ptr v' n' y = ptr v n y" using P X by metis
  moreover have "\<forall>p. allocated v' p \<and> \<not> allocated v p \<longrightarrow> p \<noteq> 0 \<and> (\<exists>y\<in>X. in_range y \<and> ptr v' n' y = p)"
    using al b(3) P [OF x(1)] x(1) X(1) by auto
  moreover have "\<forall>y. in_range y \<and> ptr v n y = 0 \<and> ptr v' n' y \<noteq> 0 \<longrightarrow> \<not> allocated v (ptr v' n' y)"
    using P b by auto
  moreover have "\<forall>y. in_range y \<and> \<not> interior y \<and> ptr v n y = 0 \<and> ptr v' n' y \<noteq> 0 \<longrightarrow>
      blk v' (ptr v' n' y) = zero_block"
    using P X by metis
  ultimately show ?thesis using g(1,2) al keep out unfolding grow_def by blast
qed

text \<open>Taking a block keeps every pointer; a pointer block gets a child by an update of its bytes.\<close>

fun child :: "node \<Rightarrow> nat \<Rightarrow> node" where
  "child Ind i = Ent i"
| "child Dbl i = Sng i"
| "child (Sng i) j = Leaf i j"
| "child x _ = x"

lemma in_range_child [simp]: "interior x \<Longrightarrow> in_range x \<Longrightarrow> i < 128 \<Longrightarrow> in_range (child x i)"
  by (cases x) auto

lemma ptr_child:
  "interior x \<Longrightarrow> ptr v n (child x i) = (if ptr v n x = 0 then 0 else rd32 (blk v (ptr v n x)) (4 * i))"
  by (cases x) auto

lemma in_range_cases:
  assumes "in_range y"
  obtains i where "y = Dir i" "i < 6" | "y = Ind" | "y = Dbl"
    | x i where "y = child x i" "interior x" "in_range x" "i < 128"
proof (cases y)
  case (Ent i)
  then show ?thesis using assms that(4) [of Ind i] by simp
next
  case (Sng i)
  then show ?thesis using assms that(4) [of Dbl i] by simp
next
  case (Leaf i j)
  then show ?thesis using assms that(4) [of "Sng i" j] by simp
qed (use assms that in auto)

lemma child_inj: "interior x \<Longrightarrow> interior y \<Longrightarrow> child x i = child y j \<longleftrightarrow> x = y \<and> i = j"
  by (cases x; cases y) auto

lemma ptr_cong:
  assumes "\<And>x. in_range x \<Longrightarrow> interior x \<Longrightarrow> ptr v n x \<noteq> 0 \<Longrightarrow> blk v' (ptr v n x) = blk v (ptr v n x)"
    and "in_range y"
  shows "ptr v' n y = ptr v n y"
proof -
  have I: "ptr v' n Ind = ptr v n Ind" "ptr v' n Dbl = ptr v n Dbl" by simp_all
  have S: "ptr v' n (Sng i) = ptr v n (Sng i)" if "i < 128" for i
    using assms(1) [of Dbl] by simp
  from assms(2) show ?thesis
  proof (cases rule: in_range_cases)
    case (4 x i)
    then have "ptr v' n x = ptr v n x" using I S by (cases x) auto
    then show ?thesis using 4 assms(1) [of x] by (simp add: ptr_child)
  qed simp_all
qed

lemma ptr_take_block:
  assumes "layout N (v_sb v)" and "file_ok v n" and "data_block (v_sb v) b" and "\<not> allocated v b" and "in_range y"
  shows "ptr (take_block b v) n y = ptr v n y"
proof (rule ptr_cong [OF _ assms(5)])
  fix x
  assume "in_range x" "ptr v n x \<noteq> 0"
  then have a: "allocated v (ptr v n x)" by (rule file_ok_allocated [OF assms(2)])
  then have "data_block (v_sb v) (ptr v n x)" by (simp add: allocated_def)
  then have "\<not> bitmap_area (v_sb v) (ptr v n x)" by (rule data_not_bitmap [OF assms(1)])
  then show "blk (take_block b v) (ptr v n x) = blk v (ptr v n x)"
    using blk_take_block [OF assms(1,3), of "ptr v n x"] a assms(4) by auto
qed

text \<open>The pointers after the three kinds of root pointer were set.\<close>

lemma ptr_root:
  assumes "\<And>x. in_range x \<Longrightarrow> ptr v' n x = ptr v n x" and "in_range y"
  shows "length (direct n) = 6 \<Longrightarrow> i < 6 \<Longrightarrow>
      ptr v' (n\<lparr>direct := (direct n)[i := b]\<rparr>) y = (if y = Dir i then b else ptr v n y)"
    and "indirect n = 0 \<Longrightarrow> blk v' b = zero_block \<Longrightarrow>
      ptr v' (n\<lparr>indirect := b\<rparr>) y = (if y = Ind then b else ptr v n y)"
    and "double_indirect n = 0 \<Longrightarrow> blk v' b = zero_block \<Longrightarrow>
      ptr v' (n\<lparr>double_indirect := b\<rparr>) y = (if y = Dbl then b else ptr v n y)"
  using assms(1) [OF assms(2)] assms(2)
  by (cases y; simp add: nth_list_update zero_block_def; fastforce)+

text \<open>The pointers after an entry of a pointer block was set.\<close>

lemma ptr_entry:
  assumes ok: "file_ok w n" and x: "in_range x" "interior x" "ptr w n x \<noteq> 0" "i < 128"
    and len: "length (blk w (ptr w n x)) = 512" and b: "blk w b = zero_block" "b \<noteq> ptr w n x"
    and null: "ptr w n (child x i) = 0" and y: "in_range y"
  shows "ptr (set_blk (ptr w n x) (patch (4 * i) (le32 b) (blk w (ptr w n x))) w) n y =
    (if y = child x i then b else ptr w n y)"
proof -
  let ?w = "set_blk (ptr w n x) (patch (4 * i) (le32 b) (blk w (ptr w n x))) w"
  have entry: "rd32 (patch (4 * i) (le32 b) (blk w (ptr w n x))) (4 * j) =
      (if j = i then b else rd32 (blk w (ptr w n x)) (4 * j))" if "j < 128" for j
    using that len x(4) by (cases "j < i"; cases "j = i") (auto simp: rd32_patch_other)
  have root: "ptr ?w n Ind = ptr w n Ind" "ptr ?w n Dbl = ptr w n Dbl" by simp_all
  have step: "ptr ?w n (child z j) = (if child z j = child x i then b else ptr w n (child z j))"
    if z: "in_range z" "interior z" "j < 128" and pz: "ptr ?w n z = ptr w n z" for z j
  proof (cases "ptr w n z = 0")
    case True
    then have "z \<noteq> x" using x(3) by blast
    then show ?thesis using True pz z x(2) by (auto simp: ptr_child child_inj)
  next
    case False
    have "ptr w n z = ptr w n x \<longleftrightarrow> z = x" using file_ok_inj [OF ok z(1) x(1) False] by blast
    then show ?thesis using False pz z x(2) entry [of j] by (auto simp: ptr_child child_inj)
  qed
  show ?thesis
    using y
  proof (cases rule: in_range_cases)
    case (4 z j)
    show ?thesis
    proof (cases z)
      case (Sng k)
      have k: "k < 128" using 4 Sng by simp
      have s: "ptr ?w n (Sng k) = (if Sng k = child x i then b else ptr w n (Sng k))"
        using step [of Dbl k] k root by simp
      show ?thesis
      proof (cases "Sng k = child x i")
        case True
        then have "x = Dbl \<and> k = i" using x(2) by (cases x) auto
        then show ?thesis
          using 4 Sng s True null b x by (auto simp: ptr_child zero_block_def)
      qed (use 4 Sng s step [of z j] in simp)
    qed (use 4 step [of z j] root in simp_all)
  qed (use x(2) in \<open>cases x; simp\<close>)+
qed

text \<open>A volume on which the map can be worked with, and the installs as steps of growth.\<close>

definition good :: "nat \<Rightarrow> vol \<Rightarrow> bool" where
  "good N v \<longleftrightarrow> layout N (v_sb v) \<and> sized N v"

lemma goodD: "good N v \<Longrightarrow> layout N (v_sb v)" "good N v \<Longrightarrow> sized N v"
  by (simp_all add: good_def)

lemma good_take_block [simp]: "good N v \<Longrightarrow> good N (take_block b v)"
  by (simp add: good_def sized_take_block)

lemma good_set_blk [simp]: "good N v \<Longrightarrow> length x = 512 \<Longrightarrow> good N (set_blk q x v)"
  by (simp add: good_def sized_def)

lemma allocated_length:
  assumes "good N v" and "allocated v p"
  shows "unat p < N" and "length (blk v p) = 512" and "p \<noteq> 0" and "unat p < 2 ^ 31"
  using data_block_index [OF goodD(1) [OF assms(1)], of p] goodD(2) [OF assms(1)] assms(2)
  by (auto simp: allocated_def sized_def)

lemma grow_root:
  assumes G: "good N v" and ok: "file_ok v n" and b: "data_block (v_sb v) b" "\<not> allocated v b"
  shows "i < 6 \<Longrightarrow> direct n ! i = 0 \<Longrightarrow>
      grow {Dir i} v n (take_block b v) (n\<lparr>direct := (direct n)[i := b]\<rparr>)"
    and "indirect n = 0 \<Longrightarrow> grow {Ind} v n (take_block b v) (n\<lparr>indirect := b\<rparr>)"
    and "double_indirect n = 0 \<Longrightarrow> grow {Dbl} v n (take_block b v) (n\<lparr>double_indirect := b\<rparr>)"
proof -
  note L = goodD(1) [OF G] and S = goodD(2) [OF G]
  note P = ptr_root [where v = v and v' = "take_block b v" and n = n, OF ptr_take_block [OF L ok b]]
  have len: "length (direct n) = 6" using ok by (simp add: file_ok_def wf_inode_def)
  have nz: "b \<noteq> 0" by (rule data_block_index(3) [OF L b(1)])
  have keep: "blk (take_block b v) p = blk v p" if "allocated v p" for p
    using that b(2) blk_take_block [OF L b(1), of p] data_not_bitmap [OF L, of p]
    by (auto simp: allocated_def)
  have out: "blk (take_block b v) p = blk v p"
    if "\<not> data_block (v_sb v) p" "\<not> bitmap_area (v_sb v) p" for p
    using that b(1) blk_take_block [OF L b(1), of p] by auto
  note al = allocated_take_block [OF L S b(1)]
  have W: "wf_inode (n\<lparr>direct := (direct n)[i := b]\<rparr>)" "wf_inode (n\<lparr>indirect := b\<rparr>)"
    "wf_inode (n\<lparr>double_indirect := b\<rparr>)" using ok by (auto simp: file_ok_def wf_inode_def)
  note frame = same_globals_def same_attributes_def
  show "grow {Dir i} v n (take_block b v) (n\<lparr>direct := (direct n)[i := b]\<rparr>)"
    if "i < 6" "direct n ! i = 0"
    by (rule grow_install [OF ok _ _ b nz P(1) [OF _ _ len that(1)] _ _ W(1) al keep out])
       (use that in \<open>auto simp: frame\<close>)
  show "grow {Ind} v n (take_block b v) (n\<lparr>indirect := b\<rparr>)" if "indirect n = 0"
    by (rule grow_install [OF ok _ _ b nz P(2) [OF _ _ that] _ _ W(2) al keep out])
       (use that in \<open>auto simp: frame\<close>)
  show "grow {Dbl} v n (take_block b v) (n\<lparr>double_indirect := b\<rparr>)" if "double_indirect n = 0"
    by (rule grow_install [OF ok _ _ b nz P(3) [OF _ _ that] _ _ W(3) al keep out])
       (use that in \<open>auto simp: frame\<close>)
qed

lemma grow_entry:
  assumes G: "good N v" and ok: "file_ok v n" and b: "data_block (v_sb v) b" "\<not> allocated v b"
    and x: "in_range x" "interior x" "ptr v n x \<noteq> 0" "i < 128" and null: "ptr v n (child x i) = 0"
  shows "grow {child x i} v n
    (set_blk (ptr v n x) (patch (4 * i) (le32 b) (blk v (ptr v n x))) (take_block b v)) n"
proof -
  note L = goodD(1) [OF G] and S = goodD(2) [OF G]
  let ?q = "ptr v n x" and ?w = "take_block b v"
  note P = ptr_take_block [OF L ok b]
  have q: "allocated v ?q" by (rule file_ok_allocated [OF ok x(1,3)])
  then have qd: "data_block (v_sb v) ?q" "?q \<noteq> b" using b(2) by (auto simp: allocated_def)
  have keep: "blk ?w p = blk v p" if "allocated v p" for p
    using that b(2) blk_take_block [OF L b(1), of p] data_not_bitmap [OF L, of p]
    by (auto simp: allocated_def)
  have nz: "b \<noteq> 0" by (rule data_block_index(3) [OF L b(1)])
  have okw: "file_ok ?w n"
    using ok P allocated_take_block [OF L S b(1)] unfolding file_ok_def by metis
  have al: "allocated (set_blk ?q (patch (4 * i) (le32 b) (blk v ?q)) ?w) p \<longleftrightarrow> allocated v p \<or> p = b" for p
    using allocated_set_blk [of N ?w ?q] L qd(1) allocated_take_block [OF L S b(1)] by simp
  have ptrs: "ptr (set_blk ?q (patch (4 * i) (le32 b) (blk v ?q)) ?w) n y = (if y = child x i then b else ptr v n y)"
    if "in_range y" for y
    using ptr_entry [OF okw x(1,2) _ x(4), of b y] P x null that qd(2) keep [OF q]
      allocated_length(2) [OF G q] by auto
  have int: "blk (set_blk ?q (patch (4 * i) (le32 b) (blk v ?q)) ?w) p = blk v p"
    if "allocated v p" "not_interior v n p" for p
    using that keep x(1,2) by (auto simp: not_interior_def)
  have out: "blk (set_blk ?q (patch (4 * i) (le32 b) (blk v ?q)) ?w) p = blk v p"
    if "\<not> data_block (v_sb v) p" "\<not> bitmap_area (v_sb v) p" for p
    using that b(1) qd(1) blk_take_block [OF L b(1), of p] by auto
  have wf: "wf_inode n" using ok by (simp add: file_ok_def)
  show ?thesis
    by (rule grow_install [OF ok _ null b nz ptrs _ _ wf al int out])
       (use x qd(2) in \<open>auto simp: same_globals_def same_attributes_def\<close>)
qed

end
