(* ===== verification/FsMapProof.thy ===== *)
theory FsMapProof imports FsMap begin

text \<open>
  What \<open>get_data_block_for_inode\<close> returns and does, against the pointer tree of \<open>FsMap\<close>:
  without allocation a lookup that changes nothing, with allocation a growth of the file by the
  nodes on the way to the block that was asked for.
\<close>

lemma word_int_unat [simp]: "word_of_int (int (unat (b :: u32))) = b"
  by simp

lemma unat_minus: "(m :: u32) \<le> k \<Longrightarrow> unat (k - m) = unat k - unat m"
  by (simp add: unat_sub)

text \<open>The result: the block of the node, or failure on a full volume.\<close>

definition got :: "vol \<Rightarrow> ipo_inode \<Rightarrow> node \<Rightarrow> int \<Rightarrow> bool" where
  "got v n x r \<longleftrightarrow> (ptr v n x \<noteq> 0 \<and> r = int (unat (ptr v n x))) \<or> (ptr v n x = 0 \<and> r = -1 \<and> volume_full v)"

lemma runs_imp_same: "evals W A v m r v' \<Longrightarrow> r = r' \<Longrightarrow> evals W A v m r' v'"
  by simp

context fs_store begin

lemma allocate_block_cases:
  assumes "good N v"
  obtains (full) "volume_full v" "runs v (allocate_block io) (-1) v"
  | (taken) b where "data_block (v_sb v) b" "\<not> allocated v b"
      "runs v (allocate_block io) (int (unat b)) (take_block b v)"
proof -
  let ?st = "block_bitmap_start (v_sb v)" and ?d = "data_blocks_start (v_sb v)"
  let ?c = "first_clear v ?st 0 (data_block_count (v_sb v))"
  note L = goodD(1) [OF assms]
  note run = runs_allocate_block [OF L]
  show thesis
  proof (cases ?c)
    case None
    have "allocated v p" if p: "data_block (v_sb v) p" for p
    proof -
      have "bit_at v ?st (of_nat (unat (p - ?d)))"
        using None data_block_index(1) [OF L p] unfolding first_clear_None by blast
      then show ?thesis using p by (simp add: allocated_def)
    qed
    then show ?thesis using full run None by (simp add: volume_full_def block_allocation_def)
  next
    case (Some i)
    note c = first_clear_Some [OF Some]
    have u: "unat (?d + of_nat i) = unat ?d + i" using c unat_data_block [OF L] by simp
    have "data_block (v_sb v) (?d + of_nat i)"
      using c unfolding data_block_def word_le_nat_alt word_less_nat_alt data_block_count_def u by linarith
    then show ?thesis
      using taken [of "?d + of_nat i"] run Some c u
      by (simp add: block_allocation_def take_block_def allocated_def)
  qed
qed

lemma runs_get_through_found:
  assumes "good N v" and "allocated v q" and "unat idx < 128" and "rd32 (blk v q) (4 * unat idx) \<noteq> 0"
  shows "runs v (get_through io q idx alloc) (sint (rd32 (blk v q) (4 * unat idx))) v"
  unfolding get_through_def
  by (rule runs_uninit, rule evals_bind [OF store_read [OF allocated_length(1) [OF assms(1,2)]]])
     (use assms(4) in \<open>auto intro: evals_return\<close>)

lemma runs_get_through_missing:
  assumes "good N v" and "allocated v q" and "rd32 (blk v q) (4 * unat idx) = 0"
  shows "runs v (get_through io q idx False) (-1) v"
  unfolding get_through_def
  by (rule runs_uninit, rule evals_bind [OF store_read [OF allocated_length(1) [OF assms(1,2)]]])
     (use assms(3) in \<open>auto intro: evals_return\<close>)

lemma runs_get_through_full:
  assumes "good N v" and "allocated v q" and "rd32 (blk v q) (4 * unat idx) = 0"
    and "runs v (allocate_block io) (-1) v"
  shows "runs v (get_through io q idx True) (-1) v"
  unfolding get_through_def
  by (rule runs_uninit, rule evals_bind [OF store_read [OF allocated_length(1) [OF assms(1,2)]]])
     (use assms(3) in \<open>auto intro!: evals_return evals_bind [OF assms(4)]\<close>)

lemma runs_get_through_taken:
  assumes "good N v" and "allocated v q" and "unat idx < 128" and "rd32 (blk v q) (4 * unat idx) = 0"
    and "runs v (allocate_block io) (int (unat b)) (take_block b v)" and "unat b < 2 ^ 31"
  shows "runs v (get_through io q idx True) (int (unat b))
    (set_blk q (patch (4 * unat idx) (le32 b) (blk v q)) (take_block b v))"
proof -
  have len: "length (blk v q) = 512" and N: "unat q < N" using allocated_length [OF assms(1,2)] by simp_all
  have p: "length (patch (4 * unat idx) (le32 b) (blk v q)) = 512" using len assms(3) by simp
  show ?thesis
    unfolding get_through_def
    by (rule runs_uninit, rule evals_bind [OF store_read [OF N]])
       (use assms(3,4) len sint_small [OF assms(6)] in
         \<open>auto simp: Let_def intro!: evals_bind [OF assms(5)] evals_bind [OF store_write [OF N p]] evals_cong [OF evals_return]\<close>)
qed

text \<open>Through a pointer block that is there.\<close>

lemma get_through_grows:
  assumes G: "good N v" and ok: "file_ok v n"
    and x: "in_range x" "interior x" "ptr v n x \<noteq> 0" "unat idx < 128"
  shows "\<exists>r v'. runs v (get_through io (ptr v n x) idx True) r v' \<and> good N v' \<and>
    grow {child x (unat idx)} v n v' n \<and> got v' n (child x (unat idx)) r"
proof -
  let ?q = "ptr v n x" and ?y = "child x (unat idx)"
  have q: "allocated v ?q" by (rule file_ok_allocated [OF ok x(1,3)])
  have y: "ptr v n ?y = rd32 (blk v ?q) (4 * unat idx)" using x by (simp add: ptr_child)
  show ?thesis
  proof (cases "ptr v n ?y = 0")
    case False
    have "allocated v (ptr v n ?y)" using file_ok_allocated [OF ok _ False] x by simp
    then have "sint (ptr v n ?y) = int (unat (ptr v n ?y))"
      using allocated_length(4) [OF G] by (intro sint_small) simp
    then have "runs v (get_through io ?q idx True) (int (unat (ptr v n ?y))) v"
      using runs_get_through_found [OF G q x(4), of True] y False by simp
    then show ?thesis using G grow_refl [OF ok] False by (auto simp: got_def)
  next
    case True
    show ?thesis
      using G
    proof (cases rule: allocate_block_cases)
      case full
      then show ?thesis
        using runs_get_through_full [OF G q] True y G grow_refl [OF ok] by (auto simp: got_def)
    next
      case (taken b)
      let ?v = "set_blk ?q (patch (4 * unat idx) (le32 b) (blk v ?q)) (take_block b v)"
      note idx = data_block_index [OF goodD(1) [OF G] taken(1)]
      have run: "runs v (get_through io ?q idx True) (int (unat b)) ?v"
        using runs_get_through_taken [OF G q x(4) _ taken(3) idx(4)] True y by simp
      have g: "grow {?y} v n ?v n" by (rule grow_entry [OF G ok taken(1,2) x True])
      have qb: "?q \<noteq> b" using q taken(2) by auto
      have len: "length (blk v ?q) = 512" by (rule allocated_length(2) [OF G q])
      have px: "ptr ?v n x = ?q" using growD(4) [OF g x(1,3)] .
      have "ptr ?v n ?y = b"
        using x(2,3,4) px len by (simp add: ptr_child)
      moreover have "good N ?v" using G len x(4) by simp
      ultimately show ?thesis using run g idx(3) unfolding got_def by metis
    qed
  qed
qed


text \<open>Making the way: a root pointer, an entry of the block of pointer blocks.\<close>

lemma runs_ensure_present: "p \<noteq> 0 \<Longrightarrow> runs v (ensure_pointer_block io p alloc) (Some p) v"
  by (simp add: ensure_pointer_block_def evals_return)

lemma runs_ensure_full: "runs v (allocate_block io) (-1) v \<Longrightarrow> runs v (ensure_pointer_block io 0 True) None v"
  by (auto simp: ensure_pointer_block_def intro!: evals_return elim!: evals_bind)

lemma runs_ensure_taken:
  assumes "good N v" and "data_block (v_sb v) b" and "runs v (allocate_block io) (int (unat b)) (take_block b v)"
  shows "runs v (ensure_pointer_block io 0 True) (Some b) (take_block b v)"
proof -
  have "runs (take_block b v) (block_write io b zero_block) True (take_block b v)"
    using store_write [of b zero_block "take_block b v"] data_block_index(2) [OF goodD(1) [OF assms(1)] assms(2)]
      set_blk_same [of b "take_block b v"] by simp
  then show ?thesis
    unfolding ensure_pointer_block_def
    by (auto intro!: evals_bind [OF assms(3)] evals_return elim!: evals_bind)
qed

lemma ensure_entry_grows:
  assumes G: "good N v" and ok: "file_ok v n" and x: "double_indirect n \<noteq> 0" "i < 128"
  shows "(\<exists>v' q. runs v (ensure_entry io (double_indirect n) (blk v (double_indirect n)) i True) (Some q) v' \<and>
      good N v' \<and> grow {Sng i} v n v' n \<and> ptr v' n (Sng i) = q \<and> q \<noteq> 0) \<or>
    (runs v (ensure_entry io (double_indirect n) (blk v (double_indirect n)) i True) None v \<and>
      ptr v n (Sng i) = 0 \<and> volume_full v)"
proof (cases "ptr v n (Sng i) = 0")
  case False
  then have "runs v (ensure_entry io (double_indirect n) (blk v (double_indirect n)) i True) (Some (ptr v n (Sng i))) v"
    using x by (simp add: ensure_entry_def evals_return)
  then show ?thesis using G grow_refl [OF ok] False by blast
next
  case True
  then have e: "rd32 (blk v (double_indirect n)) (4 * i) = 0" using x by simp
  show ?thesis
    using G
  proof (cases rule: allocate_block_cases)
    case full
    then have "runs v (ensure_entry io (double_indirect n) (blk v (double_indirect n)) i True) None v"
      using e by (auto simp: ensure_entry_def intro!: evals_return elim!: evals_bind)
    then show ?thesis using full True by blast
  next
    case (taken b)
    let ?q = "double_indirect n"
    let ?v = "set_blk ?q (patch (4 * i) (le32 b) (blk v ?q)) (take_block b v)"
    note idx = data_block_index [OF goodD(1) [OF G] taken(1)]
    have q: "allocated v ?q" using file_ok_allocated [OF ok, of Dbl] x by simp
    have len: "length (blk v ?q) = 512" and qN: "unat ?q < N" using allocated_length [OF G q] by simp_all
    have qb: "?q \<noteq> b" using q taken(2) by auto
    have w1: "runs (take_block b v) (block_write io ?q (patch (4 * i) (le32 b) (blk v ?q))) True ?v"
      using store_write [OF qN, of "patch (4 * i) (le32 b) (blk v ?q)"] len x by simp
    have "blk ?v b = zero_block" using qb by simp
    then have w2: "runs ?v (block_write io b zero_block) True ?v"
      using store_write [OF idx(2), of zero_block ?v] set_blk_same [of b ?v] by simp
    have "runs v (ensure_entry io ?q (blk v ?q) i True) (Some b) ?v"
      unfolding ensure_entry_def using e
      by (auto intro!: evals_bind [OF taken(3)] evals_bind [OF w1] evals_bind [OF w2] evals_return)
    moreover have g: "grow {child Dbl i} v n (set_blk (ptr v n Dbl) (patch (4 * i) (le32 b) (blk v (ptr v n Dbl)))
        (take_block b v)) n"
      by (rule grow_entry [OF G ok taken(1,2)]) (use x e in auto)
    then have "grow {Sng i} v n ?v n" by simp
    moreover have "ptr ?v n (Sng i) = b" using x len by simp
    moreover have "good N ?v" using G len x by simp
    ultimately show ?thesis using idx(3) by blast
  qed
qed


text \<open>What a call with allocation does at the node it works for.\<close>

definition maps_to :: "vol \<Rightarrow> ipo_inode \<Rightarrow> node \<Rightarrow> ('d fs, int \<times> ipo_inode) state \<Rightarrow> bool" where
  "maps_to v n x m \<longleftrightarrow> (\<exists>r v' n'. runs v m (r, n') v' \<and> good N v' \<and> grow (path_to x) v n v' n' \<and> got v' n' x r)"

lemma maps_toI: "runs v m (r, n') v' \<Longrightarrow> good N v' \<Longrightarrow> grow (path_to x) v n v' n' \<Longrightarrow> got v' n' x r \<Longrightarrow> maps_to v n x m"
  by (auto simp: maps_to_def)

lemma get_direct_grows:
  assumes G: "good N v" and ok: "file_ok v n" and k: "unat k < 6"
  shows "maps_to v n (Dir (unat k)) (get_direct io n k True)"
proof (cases "direct n ! unat k = 0")
  case False
  then have "sint (direct n ! unat k) = int (unat (direct n ! unat k))"
    using allocated_length(4) [OF G file_ok_allocated [OF ok, of "Dir (unat k)"]] k by (intro sint_small) simp
  then have "runs v (get_direct io n k True) (int (unat (direct n ! unat k)), n) v"
    using False by (simp add: get_direct_def evals_return)
  then show ?thesis by (rule maps_toI [OF _ G grow_refl [OF ok]]) (use False in \<open>simp add: got_def\<close>)
next
  case True
  show ?thesis
    using G
  proof (cases rule: allocate_block_cases)
    case full
    have "runs v (get_direct io n k True) (-1, n) v"
      using True by (auto simp: get_direct_def intro!: evals_return evals_bind [OF full(2)])
    then show ?thesis by (rule maps_toI [OF _ G grow_refl [OF ok]]) (use True full in \<open>simp add: got_def\<close>)
  next
    case (taken b)
    note idx = data_block_index [OF goodD(1) [OF G] taken(1)]
    have len: "length (direct n) = 6" using ok by (simp add: file_ok_def wf_inode_def)
    have "runs v (get_direct io n k True) (int (unat b), n\<lparr>direct := (direct n)[unat k := b]\<rparr>) (take_block b v)"
      using True sint_small [OF idx(4)]
      by (auto simp: get_direct_def intro!: evals_return evals_bind [OF taken(3)] evals_cong [OF evals_return])
    then show ?thesis
      by (rule maps_toI [OF _ good_take_block [OF G] grow_mono [OF grow_root(1) [OF G ok taken(1,2) k True]]])
         (use len k idx(3) in \<open>simp_all add: got_def\<close>)
  qed
qed

lemma root_pointer_cases:
  assumes G: "good N v" and ok: "file_ok v n" and x: "x = Ind \<and> p = indirect n \<and> upd = (\<lambda>b. n\<lparr>indirect := b\<rparr>) \<or>
      x = Dbl \<and> p = double_indirect n \<and> upd = (\<lambda>b. n\<lparr>double_indirect := b\<rparr>)"
  obtains (failed) "runs v (ensure_pointer_block io p True) None v" "volume_full v" "ptr v n x = 0"
  | (there) q v' where "runs v (ensure_pointer_block io p True) (Some q) v'" "good N v'"
      "grow {x} v n v' (upd q)" "ptr v' (upd q) x = q" "q \<noteq> 0"
proof (cases "p = 0")
  case False
  then have "runs v (ensure_pointer_block io p True) (Some p) v" by (rule runs_ensure_present)
  moreover have "upd p = n" "ptr v n x = p" using x by auto
  ultimately show ?thesis using there G grow_refl [OF ok] False by metis
next
  case True
  show ?thesis
    using G
  proof (cases rule: allocate_block_cases)
    case full
    then show ?thesis using failed runs_ensure_full True x by auto
  next
    case (taken b)
    have "grow {x} v n (take_block b v) (upd b)"
      using x grow_root(2,3) [OF G ok taken(1,2)] True by auto
    moreover have "ptr (take_block b v) (upd b) x = b" using x by auto
    ultimately show ?thesis
      using there runs_ensure_taken [OF G taken(1,3)] True good_take_block [OF G]
        data_block_index(3) [OF goodD(1) [OF G] taken(1)] by blast
  qed
qed

lemma get_single_grows:
  assumes G: "good N v" and ok: "file_ok v n" and i: "unat idx < 128"
  shows "maps_to v n (Ent (unat idx)) (get_single io n idx True)"
proof -
  show ?thesis
  proof (cases rule: root_pointer_cases [OF G ok, of Ind "indirect n" "\<lambda>b. n\<lparr>indirect := b\<rparr>"])
    case 1
    show ?case by simp
  next
    case failed: 2
    have "runs v (get_single io n idx True) (-1, n) v"
      unfolding get_single_def by (rule evals_bind [OF failed(1)]) (simp add: evals_return)
    then show ?thesis
      by (rule maps_toI [OF _ G grow_refl [OF ok]]) (use failed in \<open>simp add: got_def\<close>)
  next
    case there: (3 q v')
    have p: "ptr v' (n\<lparr>indirect := q\<rparr>) Ind \<noteq> 0" using there by simp
    from get_through_grows [OF there(2) grow_file_ok [OF there(3)] _ _ p i] there(4) obtain r v'' where
      t: "runs v' (get_through io q idx True) r v''" "good N v''"
        "grow {Ent (unat idx)} v' (n\<lparr>indirect := q\<rparr>) v'' (n\<lparr>indirect := q\<rparr>)"
        "got v'' (n\<lparr>indirect := q\<rparr>) (Ent (unat idx)) r" by auto
    have "runs v (get_single io n idx True) (r, n\<lparr>indirect := q\<rparr>) v''"
      unfolding get_single_def
      by (rule evals_bind [OF there(1)]) (auto intro!: evals_bind [OF t(1)] evals_return)
    then show ?thesis by (rule maps_toI [OF _ t(2) _ t(4)]) (use grow_trans [OF there(3) t(3)] in \<open>simp add: insert_commute\<close>)
  qed
qed


lemma get_double_grows:
  assumes G: "good N v" and ok: "file_ok v n" and i: "unat idx < 128 * 128"
  shows "maps_to v n (Leaf (unat idx div 128) (unat idx mod 128)) (get_double io n idx True)"
proof -
  let ?i = "unat idx div 128" and ?j = "unat idx mod 128"
  have ij: "unat (idx div 128) = ?i" "unat (idx mod 128) = ?j" "?i < 128"
    using i by (simp_all add: unat_div unat_mod less_mult_imp_div_less)
  show ?thesis
  proof (cases rule: root_pointer_cases [OF G ok, of Dbl "double_indirect n" "\<lambda>b. n\<lparr>double_indirect := b\<rparr>"])
    case 1
    show ?case by simp
  next
    case failed: 2
    have "runs v (get_double io n idx True) (-1, n) v"
      unfolding get_double_def by (rule evals_bind [OF failed(1)]) (simp add: evals_return)
    then show ?thesis
      by (rule maps_toI [OF _ G grow_refl [OF ok]]) (use failed in \<open>simp add: got_def\<close>)
  next
    case there: (3 q v')
    let ?n = "n\<lparr>double_indirect := q\<rparr>"
    note ok' = grow_file_ok [OF there(3)]
    have qN: "unat q < N"
      using allocated_length(1) [OF there(2) file_ok_allocated [OF ok', of Dbl]] there(5) by simp
    have rd: "runs v' (block_read io q buf) (True, blk v' q) v'" if "length buf = 512" for buf
      by (rule store_read [OF qN that])
    from ensure_entry_grows [OF there(2) ok' _ ij(3)] there(5)
    consider (some) w s where "runs v' (ensure_entry io q (blk v' q) ?i True) (Some s) w" "good N w"
        "grow {Sng ?i} v' ?n w ?n" "ptr w ?n (Sng ?i) = s" "s \<noteq> 0"
      | (none) "runs v' (ensure_entry io q (blk v' q) ?i True) None v'" "ptr v' ?n (Sng ?i) = 0" "volume_full v'"
      by auto
    then show ?thesis
    proof cases
      case none
      have "runs v (get_double io n idx True) (-1, ?n) v'"
        unfolding get_double_def
        by (rule evals_bind [OF there(1)])
           (auto simp: Let_def ij intro!: runs_uninit evals_bind [OF rd] evals_bind [OF none(1)] evals_return)
      then show ?thesis
        by (rule maps_toI [OF _ there(2) grow_mono [OF there(3)]])
           (use none(3) ptr_child [of "Sng ?i" v' ?n ?j] in \<open>simp_all add: got_def none(2) del: ptr.simps\<close>)
    next
      case some
      have p: "ptr w ?n (Sng ?i) \<noteq> 0" using some by simp
      from get_through_grows [OF some(2) grow_file_ok [OF some(3)] _ _ p, of "idx mod 128"] ij some(4)
      obtain r w' where t: "runs w (get_through io s (idx mod 128) True) r w'" "good N w'"
        "grow {Leaf ?i ?j} w ?n w' ?n" "got w' ?n (Leaf ?i ?j) r" by auto
      have "runs v (get_double io n idx True) (r, ?n) w'"
        unfolding get_double_def
        by (rule evals_bind [OF there(1)])
           (auto simp: Let_def ij intro!: runs_uninit evals_bind [OF rd] evals_bind [OF some(1)]
             evals_bind [OF t(1)] evals_return)
      then show ?thesis
        by (rule maps_toI [OF _ t(2) _ t(4)])
           (use grow_trans [OF there(3) grow_trans [OF some(3) t(3)]] in \<open>simp add: insert_commute\<close>)
    qed
  qed
qed

lemma get_data_block_grows:
  assumes "good N v" and "file_ok v n" and "unat k < MAX_FILE_BLOCKS"
  shows "maps_to v n (node_of (unat k)) (get_data_block_for_inode io n k True)"
proof -
  consider "k < 6" | "6 \<le> k" "k - 6 < 128" | "6 \<le> k" "128 \<le> k - 6" by fastforce
  then show ?thesis
  proof cases
    case 1
    then have "unat k < 6" by (simp add: word_less_nat_alt)
    then show ?thesis using get_direct_grows [OF assms(1,2)] 1
      by (simp add: get_data_block_for_inode_def node_of_def)
  next
    case 2
    then have u: "unat (k - 6) = unat k - 6" by (simp add: unat_minus)
    have b: "6 \<le> unat k" "unat k - 6 < 128" using 2 u by (simp_all add: word_le_nat_alt word_less_nat_alt)
    then have "node_of (unat k) = Ent (unat (k - 6))" unfolding node_of_def u by simp
    moreover have "get_data_block_for_inode io n k True = get_single io n (k - 6) True"
      unfolding get_data_block_for_inode_def Let_def using 2 by (simp only: not_less [symmetric] if_False if_True)
    ultimately show ?thesis using get_single_grows [OF assms(1,2), of "k - 6"] b u by simp
  next
    case 3
    then have u: "unat (k - 6) = unat k - 6" by (simp add: unat_minus)
    have u': "unat (k - 6 - 128) = unat k - 134" using unat_minus [OF 3(2)] u by simp
    have b: "6 \<le> unat k" "128 \<le> unat k - 6" using 3 u by (simp_all add: word_le_nat_alt)
    have "unat (k - 6 - 128) < 128 * 128" using u' assms(3) b by simp
    moreover from this have g: "\<not> 128 * 128 \<le> k - 6 - 128" unfolding word_le_nat_alt by simp
    have "node_of (unat k) = Leaf (unat (k - 6 - 128) div 128) (unat (k - 6 - 128) mod 128)"
      unfolding node_of_def u' using b by simp
    moreover have "get_data_block_for_inode io n k True = get_double io n (k - 6 - 128) True"
      unfolding get_data_block_for_inode_def Let_def using 3 g by (simp only: not_less [symmetric] if_False)
    ultimately show ?thesis using get_double_grows [OF assms(1,2), of "k - 6 - 128"] by simp
  qed
qed

lemma runs_get_data_block_beyond:
  assumes "MAX_FILE_BLOCKS \<le> unat k"
  shows "runs v (get_data_block_for_inode io n k alloc) (-1, n) v"
proof -
  have 1: "6 \<le> k" using assms by (simp add: word_le_nat_alt)
  then have u: "unat (k - 6) = unat k - 6" by (simp add: unat_minus)
  then have 2: "128 \<le> k - 6" using assms by (simp add: word_le_nat_alt)
  have "unat (k - 6 - 128) = unat k - 134" using unat_minus [OF 2] u by simp
  then have "128 * 128 \<le> k - 6 - 128" using assms unfolding word_le_nat_alt by simp
  then have "get_data_block_for_inode io n k alloc = State_Monad.return (-1, n)"
    unfolding get_data_block_for_inode_def Let_def using 1 2 by (simp only: not_less [symmetric] if_False if_True not_False_eq_True)
  then show ?thesis by (simp add: evals_return)
qed

end

section \<open>Lookup\<close>

text \<open>The block of a logical block as a C int, \<open>-1\<close> where the file has none.\<close>

definition ptr_int :: "vol \<Rightarrow> ipo_inode \<Rightarrow> node \<Rightarrow> int" where
  "ptr_int v n x = (if ptr v n x = 0 then -1 else int (unat (ptr v n x)))"

definition block_of :: "vol \<Rightarrow> ipo_inode \<Rightarrow> nat \<Rightarrow> int" where
  "block_of v n k = (if k < MAX_FILE_BLOCKS then ptr_int v n (node_of k) else -1)"

context fs_store begin

lemma runs_ensure_missing: "runs v (ensure_pointer_block io 0 False) None v"
  by (simp add: ensure_pointer_block_def evals_return)

lemma runs_ensure_entry_lookup:
  "runs v (ensure_entry io q buf i False) (if rd32 buf (4 * i) = 0 then None else Some (rd32 buf (4 * i))) v"
  by (simp add: ensure_entry_def evals_return)

lemma lookup_through:
  assumes G: "good N v" and ok: "file_ok v n" and x: "in_range x" "interior x" "ptr v n x \<noteq> 0" "unat idx < 128"
  shows "runs v (get_through io (ptr v n x) idx False)
    (ptr_int v n (child x (unat idx))) v"
proof -
  let ?q = "ptr v n x" and ?y = "child x (unat idx)"
  have q: "allocated v ?q" by (rule file_ok_allocated [OF ok x(1,3)])
  have y: "ptr v n ?y = rd32 (blk v ?q) (4 * unat idx)" using x by (simp add: ptr_child)
  show ?thesis
  proof (cases "ptr v n ?y = 0")
    case True
    then show ?thesis using runs_get_through_missing [OF G q] y by (simp add: ptr_int_def)
  next
    case False
    have "allocated v (ptr v n ?y)" using file_ok_allocated [OF ok _ False] x by simp
    then have "sint (ptr v n ?y) = int (unat (ptr v n ?y))"
      using allocated_length(4) [OF G] by (intro sint_small) simp
    then show ?thesis using runs_get_through_found [OF G q x(4), of False] y False by (simp add: ptr_int_def)
  qed
qed

lemma runs_get_single_lookup:
  assumes G: "good N v" and ok: "file_ok v n" and i: "unat idx < 128"
  shows "runs v (get_single io n idx False)
    (ptr_int v n (Ent (unat idx)), n) v"
proof (cases "indirect n = 0")
  case True
  then have "runs v (ensure_pointer_block io (indirect n) False) None v" using runs_ensure_missing by simp
  then show ?thesis unfolding get_single_def using True
    by (auto simp: ptr_int_def intro!: evals_return elim!: evals_bind)
next
  case False
  have t: "runs v (get_through io (indirect n) idx False)
    (ptr_int v n (Ent (unat idx))) v"
    using lookup_through [OF G ok, of Ind idx] False i by simp
  show ?thesis unfolding get_single_def
    by (rule evals_bind [OF runs_ensure_present [OF False]])
       (use False in \<open>auto intro!: evals_bind [OF t] evals_cong [OF evals_return]\<close>)
qed

lemma runs_get_double_lookup:
  assumes G: "good N v" and ok: "file_ok v n" and i: "unat idx < 128 * 128"
  defines "x \<equiv> Leaf (unat idx div 128) (unat idx mod 128)"
  shows "runs v (get_double io n idx False) (ptr_int v n x, n) v"
proof (cases "double_indirect n = 0")
  case True
  then have "runs v (ensure_pointer_block io (double_indirect n) False) None v" using runs_ensure_missing by simp
  then show ?thesis unfolding get_double_def x_def using True
    by (auto simp: ptr_int_def intro!: evals_return elim!: evals_bind)
next
  case False
  let ?i = "unat idx div 128" and ?q = "double_indirect n"
  have ij: "unat (idx div 128) = ?i" "unat (idx mod 128) = unat idx mod 128" "?i < 128"
    using i by (simp_all add: unat_div unat_mod less_mult_imp_div_less)
  have qN: "unat ?q < N" using allocated_length(1) [OF G file_ok_allocated [OF ok, of Dbl]] False by simp
  have rd: "runs v (block_read io ?q buf) (True, blk v ?q) v" if "length buf = 512" for buf
    by (rule store_read [OF qN that])
  note e = runs_ensure_entry_lookup [of v ?q "blk v ?q" ?i]
  show ?thesis
  proof (cases "ptr v n (Sng ?i) = 0")
    case True
    then have "ptr v n x = 0" using ptr_child [of "Sng ?i"] by (simp add: x_def del: ptr.simps)
    moreover from this have "ptr_int v n x = -1" by (simp add: ptr_int_def)
    moreover have "rd32 (blk v ?q) (4 * ?i) = 0" using True False by simp
    ultimately show ?thesis unfolding get_double_def Let_def ij
      by (intro evals_bind [OF runs_ensure_present [OF False]])
         (use e in \<open>auto intro!: runs_uninit evals_bind [OF rd] evals_return elim!: evals_bind\<close>)
  next
    case s: False
    have "runs v (get_through io (ptr v n (Sng ?i)) (idx mod 128) False)
      (ptr_int v n x) v"
      using lookup_through [OF G ok _ _ s, of "idx mod 128"] ij by (simp add: x_def del: ptr.simps)
    moreover have "ptr v n (Sng ?i) = rd32 (blk v ?q) (4 * ?i)" using False by simp
    ultimately have t: "runs v (get_through io (rd32 (blk v ?q) (4 * ?i)) (idx mod 128) False)
      (ptr_int v n x) v" and nz: "rd32 (blk v ?q) (4 * ?i) \<noteq> 0"
      using s by simp_all
    have e': "runs v (ensure_entry io ?q (blk v ?q) ?i False) (Some (rd32 (blk v ?q) (4 * ?i))) v"
      using e nz by simp
    show ?thesis unfolding get_double_def Let_def ij
      by (intro evals_bind [OF runs_ensure_present [OF False]])
         (auto simp del: ptr.simps intro!: runs_uninit evals_bind [OF rd] evals_bind [OF e'] evals_bind [OF t]
           evals_cong [OF evals_return])
  qed
qed

text \<open>The lookup, for every logical block.\<close>

lemma runs_get_data_block_lookup:
  assumes G: "good N v" and ok: "file_ok v n"
  shows "runs v (get_data_block_for_inode io n k False) (block_of v n (unat k), n) v"
proof -
  consider "k < 6" | "6 \<le> k" "k - 6 < 128" | "6 \<le> k" "128 \<le> k - 6" by fastforce
  then show ?thesis
  proof cases
    case 1
    then have k: "unat k < 6" by (simp add: word_less_nat_alt)
    have "direct n ! unat k \<noteq> 0 \<Longrightarrow> sint (direct n ! unat k) = int (unat (direct n ! unat k))"
      using allocated_length(4) [OF G file_ok_allocated [OF ok, of "Dir (unat k)"]] k by (intro sint_small) simp
    then show ?thesis using 1 k
      by (auto simp: get_data_block_for_inode_def block_of_def ptr_int_def node_of_def get_direct_def
        intro!: evals_cong [OF evals_return])
  next
    case 2
    then have u: "unat (k - 6) = unat k - 6" by (simp add: unat_minus)
    have b: "6 \<le> unat k" "unat k - 6 < 128" using 2 u by (simp_all add: word_le_nat_alt word_less_nat_alt)
    then have "node_of (unat k) = Ent (unat (k - 6))" unfolding node_of_def u by simp
    moreover have "get_data_block_for_inode io n k False = get_single io n (k - 6) False"
      unfolding get_data_block_for_inode_def Let_def using 2 by (simp only: not_less [symmetric] if_False if_True)
    ultimately show ?thesis using runs_get_single_lookup [OF G ok, of "k - 6"] b u
      by (auto simp: block_of_def)
  next
    case 3
    then have u: "unat (k - 6) = unat k - 6" by (simp add: unat_minus)
    have u': "unat (k - 6 - 128) = unat k - 134" using unat_minus [OF 3(2)] u by simp
    have b: "6 \<le> unat k" "128 \<le> unat k - 6" using 3 u by (simp_all add: word_le_nat_alt)
    show ?thesis
    proof (cases "unat k < MAX_FILE_BLOCKS")
      case True
      then have i: "unat (k - 6 - 128) < 128 * 128" using u' b by simp
      then have g: "\<not> 128 * 128 \<le> k - 6 - 128" unfolding word_le_nat_alt by simp
      have "node_of (unat k) = Leaf (unat (k - 6 - 128) div 128) (unat (k - 6 - 128) mod 128)"
        unfolding node_of_def u' using b by simp
      moreover have "get_data_block_for_inode io n k False = get_double io n (k - 6 - 128) False"
        unfolding get_data_block_for_inode_def Let_def using 3 g by (simp only: not_less [symmetric] if_False)
      ultimately show ?thesis using runs_get_double_lookup [OF G ok i] True
        by (simp add: block_of_def)
    next
      case False
      then show ?thesis using runs_get_data_block_beyond [of k v n False] by (simp add: block_of_def)
    qed
  qed
qed

end

end
