(* ===== verification/CString.thy ===== *)
theory CString imports Prelude begin

text \<open>
  The string functions of \<open>lib/c/string.c\<close>, on a memory of bytes addressed by 32-bit pointers
  that wrap. A loop that ends only at a NUL is a \<open>partial_function (option)\<close>: on a memory
  without one it does not return, which is the value \<open>None\<close>. The last section has the list
  forms of the functions the file system calls on its arguments and buffers, and the lemmas that
  the pointer loops compute them.
\<close>

type_synonym mem = "u32 \<Rightarrow> u8"

section \<open>The pointer loops\<close>

partial_function (option) strcpy_loop :: "mem \<Rightarrow> u32 \<Rightarrow> u32 \<Rightarrow> mem option" where
  "strcpy_loop m d src = (if m src \<noteq> 0 then strcpy_loop (m(d := m src)) (d + 1) (src + 1) else Some (m(d := 0)))"

definition strcpy :: "mem \<Rightarrow> u32 \<Rightarrow> u32 \<Rightarrow> (mem \<times> u32) option" where
  "strcpy m dest src = map_option (\<lambda>m'. (m', dest)) (strcpy_loop m dest src)"

text \<open>The second loop of \<open>strncpy\<close> pads with NULs; both count \<open>i\<close> up to \<open>n\<close>.\<close>

function strncpy_pad :: "mem \<Rightarrow> u32 \<Rightarrow> nat \<Rightarrow> nat \<Rightarrow> mem" where
  "strncpy_pad m dest n i = (if i < n then strncpy_pad (m(dest + of_nat i := 0)) dest n (Suc i) else m)"
  by pat_completeness auto
termination by (relation "measure (\<lambda>(m, dest, n, i). n - i)") auto

function strncpy_loop :: "mem \<Rightarrow> u32 \<Rightarrow> u32 \<Rightarrow> nat \<Rightarrow> nat \<Rightarrow> mem" where
  "strncpy_loop m dest src n i =
     (if i < n \<and> m (src + of_nat i) \<noteq> 0
      then strncpy_loop (m(dest + of_nat i := m (src + of_nat i))) dest src n (Suc i)
      else strncpy_pad m dest n i)"
  by pat_completeness auto
termination by (relation "measure (\<lambda>(m, dest, src, n, i). n - i)") auto

definition strncpy :: "mem \<Rightarrow> u32 \<Rightarrow> u32 \<Rightarrow> u32 \<Rightarrow> mem \<times> u32" where
  "strncpy m dest src n = (strncpy_loop m dest src (unat n) 0, dest)"

partial_function (option) strcmp_loop :: "mem \<Rightarrow> u32 \<Rightarrow> u32 \<Rightarrow> int option" where
  "strcmp_loop m a b = (if m a \<noteq> 0 \<and> m b \<noteq> 0 \<and> m a = m b then strcmp_loop m (a + 1) (b + 1)
     else Some (uint (m a) - uint (m b)))"

definition strcmp :: "mem \<Rightarrow> u32 \<Rightarrow> u32 \<Rightarrow> int option" where
  "strcmp m a b = strcmp_loop m a b"

function strncmp_loop :: "mem \<Rightarrow> u32 \<Rightarrow> u32 \<Rightarrow> nat \<Rightarrow> nat \<Rightarrow> int" where
  "strncmp_loop m a b n i =
     (if i < n \<and> m a \<noteq> 0 \<and> m b \<noteq> 0 \<and> m a = m b then strncmp_loop m (a + 1) (b + 1) n (Suc i)
      else if i = n then 0
      else uint (m a) - uint (m b))"
  by pat_completeness auto
termination by (relation "measure (\<lambda>(m, a, b, n, i). n - i)") auto

definition strncmp :: "mem \<Rightarrow> u32 \<Rightarrow> u32 \<Rightarrow> u32 \<Rightarrow> int" where
  "strncmp m a b n = strncmp_loop m a b (unat n) 0"

text \<open>The outer option is the loop's return, the inner one the pointer or \<open>NULL\<close>.\<close>

partial_function (option) strchr_loop :: "mem \<Rightarrow> u32 \<Rightarrow> u8 \<Rightarrow> u32 option option" where
  "strchr_loop m s cc = (if m s \<noteq> 0 then (if m s = cc then Some (Some s) else strchr_loop m (s + 1) cc)
     else Some None)"

definition strchr :: "mem \<Rightarrow> u32 \<Rightarrow> int \<Rightarrow> u32 option option" where
  "strchr m s c = strchr_loop m s (word_of_int c)"

primrec memset_loop :: "u8 \<Rightarrow> u32 \<Rightarrow> nat \<Rightarrow> mem \<Rightarrow> mem" where
  "memset_loop c s 0 m = m"
| "memset_loop c s (Suc n) m = memset_loop c (s + 1) n (m(s := c))"

definition memset :: "mem \<Rightarrow> u32 \<Rightarrow> int \<Rightarrow> u32 \<Rightarrow> mem \<times> u32" where
  "memset m s c n = (memset_loop (word_of_int c) s (unat n) m, s)"

primrec memcpy_loop :: "u32 \<Rightarrow> u32 \<Rightarrow> nat \<Rightarrow> mem \<Rightarrow> mem" where
  "memcpy_loop d s 0 m = m"
| "memcpy_loop d s (Suc n) m = memcpy_loop (d + 1) (s + 1) n (m(d := m s))"

definition memcpy :: "mem \<Rightarrow> u32 \<Rightarrow> u32 \<Rightarrow> u32 \<Rightarrow> mem \<times> u32" where
  "memcpy m dest src n = (memcpy_loop dest src (unat n) m, dest)"

partial_function (option) strlen_loop :: "mem \<Rightarrow> u32 \<Rightarrow> u32 \<Rightarrow> u32 option" where
  "strlen_loop m s len = (if m (s + len) \<noteq> 0 then strlen_loop m s (len + 1) else Some len)"

definition strlen :: "mem \<Rightarrow> u32 \<Rightarrow> u32 option" where
  "strlen m s = strlen_loop m s 0"

primrec memcmp_loop :: "mem \<Rightarrow> u32 \<Rightarrow> u32 \<Rightarrow> nat \<Rightarrow> int" where
  "memcmp_loop m pa pb 0 = 0"
| "memcmp_loop m pa pb (Suc n) =
     (if m pa \<noteq> m pb then uint (m pa) - uint (m pb) else memcmp_loop m (pa + 1) (pb + 1) n)"

definition memcmp :: "mem \<Rightarrow> u32 \<Rightarrow> u32 \<Rightarrow> u32 \<Rightarrow> int" where
  "memcmp m a b n = memcmp_loop m a b (unat n)"

section \<open>Strings as lists\<close>

text \<open>A list stands for the bytes from a pointer to the NUL; what follows the list reads as NUL.\<close>

fun str_len :: "bytes \<Rightarrow> nat" where
  "str_len [] = 0"
| "str_len (x # xs) = (if x = 0 then 0 else Suc (str_len xs))"

definition byte0 :: "bytes \<Rightarrow> u8" where
  "byte0 xs = (case xs of [] \<Rightarrow> 0 | x # _ \<Rightarrow> x)"

fun str_cmp :: "bytes \<Rightarrow> bytes \<Rightarrow> int" where
  "str_cmp (x # xs) (y # ys) = (if x \<noteq> 0 \<and> x = y then str_cmp xs ys else uint x - uint y)"
| "str_cmp [] ys = uint (byte0 []) - uint (byte0 ys)"
| "str_cmp (x # xs) [] = uint x - uint (byte0 [])"

fun str_ncmp :: "bytes \<Rightarrow> bytes \<Rightarrow> nat \<Rightarrow> int" where
  "str_ncmp xs ys 0 = 0"
| "str_ncmp (x # xs) (y # ys) (Suc n) = (if x \<noteq> 0 \<and> x = y then str_ncmp xs ys n else uint x - uint y)"
| "str_ncmp [] ys (Suc n) = uint (byte0 []) - uint (byte0 ys)"
| "str_ncmp (x # xs) [] (Suc n) = uint x - uint (byte0 [])"

text \<open>The string in an array, up to its first NUL.\<close>

definition c_str :: "bytes \<Rightarrow> bytes" where
  "c_str xs = takeWhile (\<lambda>x. x \<noteq> 0) xs"

lemma str_len_c_str: "str_len xs = length (c_str xs)"
  by (induction xs) (auto simp: c_str_def)

lemma c_str_idem [simp]: "0 \<notin> set xs \<Longrightarrow> c_str xs = xs"
  by (auto simp: c_str_def takeWhile_eq_all_conv)

lemma c_str_append_zeros [simp]: "0 \<notin> set xs \<Longrightarrow> c_str (xs @ 0 # ys) = xs"
  by (induction xs) (auto simp: c_str_def)

lemma c_str_replicate [simp]: "c_str (replicate n 0) = []"
  by (cases n) (auto simp: c_str_def)

lemma no_nul_c_str [simp]: "0 \<notin> set (c_str xs)"
  unfolding c_str_def using set_takeWhileD by fastforce

lemma uint_eq_8: "uint (x :: u8) = uint y \<longleftrightarrow> x = y" "uint (x :: u8) = 0 \<longleftrightarrow> x = 0"
    "0 = uint (x :: u8) \<longleftrightarrow> x = 0"
  by (simp_all add: word_uint_eq_iff)

lemma str_cmp_eq_0: "str_cmp xs ys = 0 \<longleftrightarrow> c_str xs = c_str ys"
  by (induction xs ys rule: str_cmp.induct)
     (auto simp: c_str_def byte0_def uint_eq_8 split: list.splits)

lemma str_ncmp_eq_0: "str_ncmp xs ys n = 0 \<longleftrightarrow> take n (c_str xs) = take n (c_str ys)"
  by (induction xs ys n rule: str_ncmp.induct)
     (auto simp: c_str_def byte0_def uint_eq_8 split: list.splits)

section \<open>The loops compute the list functions\<close>

text \<open>The bytes of a region, and a memory after a region was overwritten.\<close>

definition load :: "mem \<Rightarrow> u32 \<Rightarrow> nat \<Rightarrow> bytes" where
  "load m p n = map (\<lambda>i. m (p + of_nat i)) [0..<n]"

definition store :: "u32 \<Rightarrow> bytes \<Rightarrow> mem \<Rightarrow> mem" where
  "store p xs m = (\<lambda>q. if unat (q - p) < length xs then xs ! unat (q - p) else m q)"

definition string_at :: "mem \<Rightarrow> u32 \<Rightarrow> bytes \<Rightarrow> bool" where
  "string_at m p s \<longleftrightarrow> load m p (Suc (length s)) = s @ [0] \<and> 0 \<notin> set s"

lemma load_0 [simp]: "load m p 0 = []"
  by (simp add: load_def)

lemma load_Suc: "load m p (Suc n) = m p # load m (p + 1) n"
  by (simp add: load_def upt_conv_Cons map_Suc_upt [symmetric] ac_simps del: upt_Suc map_Suc_upt)

lemma length_load [simp]: "length (load m p n) = n"
  by (simp add: load_def)

lemma load_update [simp]: "(\<And>i. i < n \<Longrightarrow> p + of_nat i \<noteq> q) \<Longrightarrow> load (m(q := x)) p n = load m p n"
  by (auto simp: load_def)

lemma store_Nil [simp]: "store p [] m = m"
  by (simp add: store_def)

lemma store_Cons:
  assumes "length xs < 2 ^ 32"
  shows "store p (x # xs) m = store (p + 1) xs (m(p := x))"
proof
  fix q
  show "store p (x # xs) m q = store (p + 1) xs (m(p := x)) q"
  proof (cases "q = p")
    case True
    have "unat (q - (p + 1)) = 2 ^ 32 - 1" using True by (simp add: unsigned_minus_1_eq_mask mask_eq_exp_minus_1)
    then show ?thesis using True assms by (simp add: store_def)
  next
    case False
    have d: "q - (p + 1) = (q - p) - 1" by simp
    have "q - p \<noteq> 0" using False by simp
    then have "unat (q - (p + 1)) = unat (q - p) - 1" "unat (q - p) \<noteq> 0"
      unfolding d by (simp_all add: unat_minus_one unat_eq_0)
    then show ?thesis using False by (auto simp: store_def nth_Cons' less_Suc_eq_0_disj)
  qed
qed

lemma string_at_Nil: "string_at m p [] \<longleftrightarrow> m p = 0"
  by (simp add: string_at_def load_Suc)

lemma string_at_Cons: "string_at m p (x # xs) \<longleftrightarrow> m p = x \<and> x \<noteq> 0 \<and> string_at m (p + 1) xs"
  by (auto simp: string_at_def load_Suc)

lemma strlen_loop_string:
  "string_at m (p + len) s \<Longrightarrow> strlen_loop m p len = Some (len + of_nat (length s))"
proof (induction s arbitrary: len)
  case Nil
  then show ?case by (simp add: string_at_Nil strlen_loop.simps)
next
  case (Cons x s)
  then have "m (p + len) \<noteq> 0" "string_at m (p + (len + 1)) s" by (auto simp: string_at_Cons ac_simps)
  then show ?case using Cons.IH [of "len + 1"] by (subst strlen_loop.simps) (simp add: ac_simps)
qed

lemma strcmp_loop_string:
  "string_at m a s \<Longrightarrow> string_at m b t \<Longrightarrow> strcmp_loop m a b = Some (str_cmp s t)"
proof (induction s t arbitrary: a b rule: str_cmp.induct)
  case (1 x xs y ys)
  then show ?case by (subst strcmp_loop.simps) (auto simp: string_at_Cons)
next
  case (2 ys)
  then show ?case by (subst strcmp_loop.simps) (cases ys, auto simp: string_at_Cons string_at_Nil byte0_def)
next
  case (3 x xs)
  then show ?case by (subst strcmp_loop.simps) (auto simp: string_at_Cons string_at_Nil byte0_def)
qed

lemma strncmp_loop_string:
  "string_at m a s \<Longrightarrow> string_at m b t \<Longrightarrow> strncmp_loop m a b (i + n) i = str_ncmp s t n"
proof (induction s t n arbitrary: a b i rule: str_ncmp.induct)
  case (1 xs ys)
  then show ?case by (subst strncmp_loop.simps) simp
next
  case (2 x xs y ys n)
  then show ?case
    using "2.IH" [of "a + 1" "b + 1" "Suc i"] by (subst strncmp_loop.simps) (auto simp: string_at_Cons)
next
  case (3 ys n)
  then show ?case by (subst strncmp_loop.simps) (cases ys, auto simp: string_at_Cons string_at_Nil byte0_def)
next
  case (4 x xs n)
  then show ?case by (subst strncmp_loop.simps) (auto simp: string_at_Cons string_at_Nil byte0_def)
qed

text \<open>No byte is overwritten before it is read: the condition under which a forward copy copies.\<close>

definition copies_forward :: "u32 \<Rightarrow> u32 \<Rightarrow> nat \<Rightarrow> bool" where
  "copies_forward d s n \<longleftrightarrow> n \<le> 2 ^ 32 \<and> (\<forall>i < n. \<forall>j < n. i < j \<longrightarrow> d + of_nat i \<noteq> s + of_nat j)"

lemma copies_forward_Suc:
  assumes "copies_forward d s (Suc n)"
  shows "copies_forward (d + 1) (s + 1) n" and "i < n \<Longrightarrow> s + 1 + of_nat i \<noteq> d"
proof -
  have c: "d + of_nat i \<noteq> s + of_nat j" if "i < j" "j < Suc n" for i j
    using assms that unfolding copies_forward_def by (metis less_trans)
  have "d + 1 + of_nat i \<noteq> s + 1 + of_nat j" if "i < j" "j < n" for i j
    using c [of "Suc i" "Suc j"] that by (simp add: ac_simps)
  then show "copies_forward (d + 1) (s + 1) n" using assms by (auto simp: copies_forward_def)
  show "s + 1 + of_nat i \<noteq> d" if "i < n" using c [of 0 "Suc i"] that by (auto simp: ac_simps)
qed

lemma memcpy_loop_forward: "copies_forward d s n \<Longrightarrow> memcpy_loop d s n m = store d (load m s n) m"
proof (induction n arbitrary: d s m)
  case (Suc n)
  note c = copies_forward_Suc [OF Suc.prems]
  have "n < 2 ^ 32" using Suc.prems by (simp add: copies_forward_def)
  moreover have "load (m(d := m s)) (s + 1) n = load m (s + 1) n" by (rule load_update) (use c(2) in simp)
  ultimately show ?case
    using Suc.IH [OF c(1)] by (simp only: memcpy_loop.simps load_Suc store_Cons length_load)
qed simp

lemma memset_loop_store: "n \<le> 2 ^ 32 \<Longrightarrow> memset_loop c s n m = store s (replicate n c) m"
  by (induction n arbitrary: s m) (simp_all add: store_Cons)

lemma strcpy_loop_string:
  "string_at m s xs \<Longrightarrow> copies_forward d s (Suc (length xs)) \<Longrightarrow> strcpy_loop m d s = Some (store d (xs @ [0]) m)"
proof (induction xs arbitrary: m d s)
  case Nil
  then show ?case by (subst strcpy_loop.simps) (simp add: string_at_Nil store_Cons)
next
  case (Cons x xs)
  have c: "copies_forward (d + 1) (s + 1) (Suc (length xs))" "\<And>i. i < Suc (length xs) \<Longrightarrow> s + 1 + of_nat i \<noteq> d"
    using copies_forward_Suc [of d s "Suc (length xs)"] Cons.prems(2) by auto
  have x: "m s = x" "x \<noteq> 0" "string_at m (s + 1) xs" using Cons.prems(1) by (simp_all add: string_at_Cons)
  have "load (m(d := x)) (s + 1) (Suc (length xs)) = load m (s + 1) (Suc (length xs))"
    by (rule load_update) (use c(2) in simp)
  then have "string_at (m(d := x)) (s + 1) xs" using x by (simp add: string_at_def)
  then have "strcpy_loop (m(d := x)) (d + 1) (s + 1) = Some (store (d + 1) (xs @ [0]) (m(d := x)))"
    using Cons.IH [OF _ c(1)] by blast
  moreover have "length xs + 1 < 2 ^ 32" using Cons.prems(2) by (simp add: copies_forward_def)
  ultimately show ?case using x by (subst strcpy_loop.simps) (simp add: store_Cons)
qed

end
