(* ===== verification/FsDir.thy ===== *)
theory FsDir imports FsInode CString begin

text \<open>
  Directories, \<open>lib/c/file_system/ipo_dir.c\<close>: the search for an entry, the names a file may
  have, adding and removing an entry, over the map of the directory's blocks. A name argument is
  the list of its bytes; a function that tests it for \<open>NULL\<close> takes an option. A scan is a
  recursion on the number of slots that are left, with the next slot.
\<close>

section \<open>Slots\<close>

definition entry_offset :: "u32 \<Rightarrow> nat" where
  "entry_offset inblock = unat inblock * DIR_ENTRY_SIZE"

definition entry_in :: "bytes \<Rightarrow> u32 \<Rightarrow> dir_entry" where
  "entry_in buf inblock = dec_dir_entry (chunk (entry_offset inblock) DIR_ENTRY_SIZE buf)"

text \<open>\<open>de->name\<close> as a C string: the bytes of the block from the name on.\<close>

definition name_at :: "bytes \<Rightarrow> u32 \<Rightarrow> bytes" where
  "name_at buf inblock = drop (entry_offset inblock + 8) buf"

definition entry_count :: "ipo_inode \<Rightarrow> u32" where
  "entry_count din = i_size din div 72"

section \<open>Searching\<close>

definition entry_matches :: "bytes \<Rightarrow> u32 \<Rightarrow> bytes \<Rightarrow> bool" where
  "entry_matches buf inblock name =
     (let de = entry_in buf inblock;
          dn = (if d_name_len de \<noteq> 0 then unat (d_name_len de) else str_len (name_at buf inblock));
          nn = str_len name
      in d_inode de \<noteq> 0 \<and> dn = nn \<and> 0 < dn \<and> str_ncmp (name_at buf inblock) name dn = 0)"

text \<open>The block of a slot: the direct pointers are read from the inode, \<open>None\<close> skips the slot.\<close>

definition find_block :: "'d machine \<Rightarrow> ipo_inode \<Rightarrow> u32 \<Rightarrow> ('d fs, u32 option \<times> ipo_inode) state" where
  "find_block io din block_idx =
     (if block_idx < 6 then
        (let phys = direct din ! unat block_idx
         in State_Monad.return (if phys = 0 then None else Some phys, din))
      else do {
        (tmp, din') \<leftarrow> get_data_block_for_inode io din block_idx False;
        State_Monad.return (if tmp < 0 \<or> tmp = 0 then None else Some (word_of_int tmp), din')
      })"

primrec find_from :: "'d machine \<Rightarrow> bytes \<Rightarrow> nat \<Rightarrow> u32 \<Rightarrow> ipo_inode \<Rightarrow> bytes \<Rightarrow>
    ('d fs, (dir_entry \<times> u32 \<times> u32) option) state" where
  "find_from io name 0 e din buf = State_Monad.return None"
| "find_from io name (Suc n) e din buf = do {
     let block_idx = e div DIR_ENTRIES_PER_BLOCK;
     let inblock = e mod DIR_ENTRIES_PER_BLOCK;
     (phys, din') \<leftarrow> find_block io din block_idx;
     (case phys of
        None \<Rightarrow> find_from io name n (e + 1) din' buf
      | Some p \<Rightarrow> do {
          (ok, buf') \<leftarrow> block_read io p buf;
          if \<not> ok then State_Monad.return None
          else if entry_matches buf' inblock name
          then State_Monad.return (Some (entry_in buf' inblock, p, inblock))
          else find_from io name n (e + 1) din' buf'
        })
   }"

text \<open>The entry, its block and its slot in the block; \<open>None\<close> is the result \<open>-1\<close>.\<close>

definition dir_find_entry :: "'d machine \<Rightarrow> u32 \<Rightarrow> bytes \<Rightarrow> ('d fs, (dir_entry \<times> u32 \<times> u32) option) state" where
  "dir_find_entry io dir_inode_no name = do {
     r \<leftarrow> read_inode io dir_inode_no;
     (case r of
        None \<Rightarrow> State_Monad.return None
      | Some din \<Rightarrow>
          if mode din AND IPO_INODE_TYPE_DIR = 0 then State_Monad.return None
          else do {
            buf0 \<leftarrow> uninit_block io;
            find_from io name (unat (entry_count din)) 0 din buf0
          })
   }"

section \<open>Names\<close>

definition name_char :: "u8 \<Rightarrow> bool" where
  "name_char c \<longleftrightarrow> of_char CHR ''A'' \<le> c \<and> c \<le> of_char CHR ''Z'' \<or>
     of_char CHR ''a'' \<le> c \<and> c \<le> of_char CHR ''z'' \<or>
     of_char CHR ''0'' \<le> c \<and> c \<le> of_char CHR ''9'' \<or>
     c = of_char CHR ''_'' \<or> c = of_char CHR ''-'' \<or> c = of_char CHR ''.''"

definition is_valid_filename :: "bytes option \<Rightarrow> bool" where
  "is_valid_filename arg = (case arg of
     None \<Rightarrow> False
   | Some name \<Rightarrow>
       if byte0 name = 0 then False
       else let len = str_len name in
         if len = 0 \<or> 64 \<le> len then False
         else list_all name_char (take len name) \<and>
           \<not> (str_cmp name (str ''.'') = 0 \<or> str_cmp name (str ''..'') = 0))"

section \<open>Adding and removing\<close>

text \<open>The slot after the six assignments of \<open>dir_add_entry\<close>.\<close>

definition new_entry :: "u32 \<Rightarrow> u8 \<Rightarrow> bytes \<Rightarrow> dir_entry" where
  "new_entry inode_no type name =
     (let nl0 = str_len name; nl = (if 64 - 1 < nl0 then 64 - 1 else nl0)
      in \<lparr>d_inode = inode_no, d_type = type, d_name_len = of_nat nl, d_reserved = [0, 0],
          d_name = (patch 0 (take nl name) (replicate 64 0))[nl := 0]\<rparr>)"

definition dir_add_entry :: "'d machine \<Rightarrow> u32 \<Rightarrow> bytes \<Rightarrow> u32 \<Rightarrow> u8 \<Rightarrow> ('d fs, bool) state" where
  "dir_add_entry io dir_inode_no name inode_no type = do {
     r \<leftarrow> read_inode io dir_inode_no;
     (case r of
        None \<Rightarrow> State_Monad.return False
      | Some din \<Rightarrow>
          if mode din AND IPO_INODE_TYPE_DIR = 0 then State_Monad.return False
          else if \<not> is_valid_filename (Some name) then State_Monad.return False
          else do {
            found \<leftarrow> dir_find_entry io dir_inode_no name;
            if found \<noteq> None then State_Monad.return False
            else do {
              let entries = entry_count din;
              let block_idx = entries div DIR_ENTRIES_PER_BLOCK;
              let inblock = entries mod DIR_ENTRIES_PER_BLOCK;
              (phys, din') \<leftarrow> get_data_block_for_inode io din block_idx True;
              if phys < 0 then State_Monad.return False
              else do {
                buf0 \<leftarrow> uninit_block io;
                (ok, buf) \<leftarrow> block_read io (word_of_int phys) buf0;
                if \<not> ok then State_Monad.return False
                else do {
                  ok2 \<leftarrow> block_write io (word_of_int phys)
                    (patch (entry_offset inblock) (enc_dir_entry (new_entry inode_no type name)) buf);
                  if \<not> ok2 then State_Monad.return False
                  else do {
                    _ \<leftarrow> write_inode io dir_inode_no (din'\<lparr>i_size := i_size din' + 72\<rparr>);
                    State_Monad.return True
                  }
                }
              }
            }
          })
   }"

text \<open>A cleared slot keeps its type, its reserved bytes and the rest of its name.\<close>

definition cleared_entry :: "dir_entry \<Rightarrow> dir_entry" where
  "cleared_entry de = de\<lparr>d_inode := 0, d_name := (d_name de)[0 := 0], d_name_len := 0\<rparr>"

primrec remove_from :: "'d machine \<Rightarrow> bytes \<Rightarrow> nat \<Rightarrow> u32 \<Rightarrow> ipo_inode \<Rightarrow> bytes \<Rightarrow> ('d fs, bool) state" where
  "remove_from io name 0 e din buf = State_Monad.return False"
| "remove_from io name (Suc n) e din buf = do {
     let block_idx = e div DIR_ENTRIES_PER_BLOCK;
     let inblock = e mod DIR_ENTRIES_PER_BLOCK;
     (phys, din') \<leftarrow> get_data_block_for_inode io din block_idx False;
     if phys < 0 then remove_from io name n (e + 1) din' buf
     else do {
       (ok, buf') \<leftarrow> block_read io (word_of_int phys) buf;
       if \<not> ok then State_Monad.return False
       else do {
         let de = entry_in buf' inblock;
         if d_inode de \<noteq> 0 \<and> str_ncmp (name_at buf' inblock) name 64 = 0 then do {
           target \<leftarrow> read_inode io (d_inode de);
           if (case target of None \<Rightarrow> False | Some t \<Rightarrow> mode t AND IPO_INODE_FLAG_PROTECTED \<noteq> 0)
           then State_Monad.return False
           else if str_cmp (name_at buf' inblock) (str ''.'') = 0 \<or> str_cmp (name_at buf' inblock) (str ''..'') = 0
           then State_Monad.return False
           else do {
             ok2 \<leftarrow> block_write io (word_of_int phys)
               (patch (entry_offset inblock) (enc_dir_entry (cleared_entry de)) buf');
             if \<not> ok2 then State_Monad.return False else State_Monad.return True
           }
         }
         else remove_from io name n (e + 1) din' buf'
       }
     }
   }"

definition dir_remove_entry :: "'d machine \<Rightarrow> u32 \<Rightarrow> bytes \<Rightarrow> ('d fs, bool) state" where
  "dir_remove_entry io dir_inode_no name = do {
     r \<leftarrow> read_inode io dir_inode_no;
     (case r of
        None \<Rightarrow> State_Monad.return False
      | Some din \<Rightarrow> do {
          buf0 \<leftarrow> uninit_block io;
          remove_from io name (unat (entry_count din)) 0 din buf0
        })
   }"

end
