(* ===== verification/FsPath.thy ===== *)
theory FsPath imports FsDir begin

text \<open>
  Paths, \<open>lib/c/file_system/ipo_path.c\<close>, and the listing of a directory, which \<open>ipo_dir.c\<close> has
  and which starts from a path. A path argument is the bytes of a C string or \<open>None\<close> for
  \<open>NULL\<close>; the diagnostics printed on the failure paths are left out.
\<close>

section \<open>Canonical paths\<close>

abbreviation (input) "slash \<equiv> (of_char CHR ''/'' :: u8)"

text \<open>One token: its first 63 bytes are kept, and the rest of the path after it.\<close>

fun read_token :: "bytes \<Rightarrow> bytes \<Rightarrow> bytes \<times> bytes" where
  "read_token token [] = (token, [])"
| "read_token token (x # c) =
     (if x = slash then (token, x # c)
      else read_token (if length token + 1 < 64 then token @ [x] else token) c)"

lemma read_token_length: "length (snd (read_token t c)) \<le> length c"
  by (induction t c rule: read_token.induct) auto

lemma read_token_progress: "c \<noteq> [] \<Longrightarrow> hd c \<noteq> slash \<Longrightarrow> length (snd (read_token t c)) < length c"
  by (cases c) (auto simp: less_Suc_eq_le read_token_length)

lemma dropWhile_slash_progress:
  assumes "dropWhile (\<lambda>x. x = slash) c \<noteq> []"
  shows "length (snd (read_token t (dropWhile (\<lambda>x. x = slash) c))) < length c"
proof -
  have "hd (dropWhile (\<lambda>x. x = slash) c) \<noteq> slash" using assms hd_dropWhile by blast
  then have "length (snd (read_token t (dropWhile (\<lambda>x. x = slash) c))) < length (dropWhile (\<lambda>x. x = slash) c)"
    using assms by (intro read_token_progress)
  then show ?thesis using length_dropWhile_le [of "\<lambda>x. x = slash" c] by simp
qed

lemma token_progress:
  assumes "(t, rest) = read_token [] (dropWhile (\<lambda>x. x = slash) c)" and "x \<in> set c" and "x \<noteq> slash"
  shows "length rest < length c"
proof -
  have "dropWhile (\<lambda>x. x = slash) c \<noteq> []" using assms(2,3) by auto
  from dropWhile_slash_progress [OF this, of "[]"] show ?thesis unfolding assms(1) [symmetric] by simp
qed

text \<open>The main loop, with the stack of tokens; the last token is the last of the list.\<close>

function push_tokens :: "bytes \<Rightarrow> bytes list \<Rightarrow> bytes list" where
  "push_tokens c tokens =
     (let c' = dropWhile (\<lambda>x. x = slash) c in
      if c' = [] then tokens
      else let (token, rest) = read_token [] c' in
        if token = [] then push_tokens rest tokens
        else if str_cmp token (str ''.'') = 0 then push_tokens rest tokens
        else if str_cmp token (str ''..'') = 0 then push_tokens rest (if tokens \<noteq> [] then butlast tokens else tokens)
        else if 128 \<le> length tokens then tokens
        else push_tokens rest (tokens @ [token]))"
  by pat_completeness auto
termination
  by (relation "measure (\<lambda>(c, tokens). length c)") (auto dest: token_progress [simplified])

primrec join_tokens :: "nat \<Rightarrow> bytes list \<Rightarrow> bytes \<Rightarrow> bytes" where
  "join_tokens out_size [] out = out"
| "join_tokens out_size (t # ts) out =
     (if out_size \<le> length out + 1 + str_len t + 1 then out
      else join_tokens out_size ts (out @ slash # take (str_len t) t))"

text \<open>The string left in the output buffer, or \<open>None\<close> when nothing is written to it.\<close>

definition fs_canonicalize :: "bytes option \<Rightarrow> nat \<Rightarrow> bytes option" where
  "fs_canonicalize path out_size = (case path of
     None \<Rightarrow> None
   | Some s \<Rightarrow>
       if out_size = 0 then None
       else let root = (if 1 < out_size then [slash] else []); p = c_str s in
         if p = [] then Some root
         else let tokens = push_tokens p [] in
           if tokens = [] then Some root else Some (join_tokens out_size tokens []))"

section \<open>Resolution\<close>

function resolve_from :: "'d machine \<Rightarrow> u32 \<Rightarrow> bytes \<Rightarrow> ('d fs, u32 option) state" where
  "resolve_from io cur p =
     (if p = [] then State_Monad.return (Some cur)
      else let token = takeWhile (\<lambda>x. x \<noteq> slash) p; rest = drop (length token) p in
        if 64 \<le> length token then State_Monad.return None
        else do {
          r \<leftarrow> dir_find_entry io cur token;
          (case r of
             None \<Rightarrow> State_Monad.return None
           | Some (de, _, _) \<Rightarrow>
               if rest = [] then State_Monad.return (Some (d_inode de))
               else resolve_from io (d_inode de) (tl rest))
        })"
  by pat_completeness auto
termination by (relation "measure (\<lambda>(io, cur, p). length p)") (auto simp: less_diff_conv neq_Nil_conv)

definition path_resolve :: "'d machine \<Rightarrow> bytes option \<Rightarrow> ('d fs, u32 option) state" where
  "path_resolve io path = (case fs_canonicalize path 512 of
     None \<Rightarrow> State_Monad.return None
   | Some tmp \<Rightarrow> if str_cmp tmp (str ''/'') = 0 then State_Monad.return (Some 1)
       else resolve_from io 1 (drop 1 tmp))"

text \<open>The two parts of a path around its last slash.\<close>

definition split_last :: "bytes \<Rightarrow> (bytes \<times> bytes) option" where
  "split_last tmp =
     (if slash \<in> set tmp
      then let name = rev (takeWhile (\<lambda>x. x \<noteq> slash) (rev tmp))
        in Some (take (length tmp - length name - 1) tmp, name)
      else None)"

definition path_resolve_parent :: "'d machine \<Rightarrow> bytes option \<Rightarrow> ('d fs, (u32 \<times> bytes) option) state" where
  "path_resolve_parent io path = (case fs_canonicalize path 512 of
     None \<Rightarrow> State_Monad.return None
   | Some tmp \<Rightarrow>
       if str_cmp tmp (str ''/'') = 0 then State_Monad.return None
       else if str_len tmp = 0 then State_Monad.return None
       else (case split_last tmp of
           None \<Rightarrow> State_Monad.return None
         | Some (before, name) \<Rightarrow>
             if 512 \<le> length before then State_Monad.return None
             else if 64 \<le> length name then State_Monad.return None
             else do {
               pino \<leftarrow> path_resolve io (Some (if before = [] then str ''/'' else before));
               State_Monad.return (map_option (\<lambda>p. (p, name)) pino)
             }))"

section \<open>Listing a directory\<close>

text \<open>The output buffer maps offsets from \<open>out\<close> to bytes; offsets may be negative.\<close>

definition put_bytes :: "int \<Rightarrow> bytes \<Rightarrow> (int \<Rightarrow> u8) \<Rightarrow> int \<Rightarrow> u8" where
  "put_bytes pos bs out = (\<lambda>i. if pos \<le> i \<and> i < pos + int (length bs) then bs ! nat (i - pos) else out i)"

definition end_listing :: "int \<Rightarrow> int \<Rightarrow> (int \<Rightarrow> u8) \<Rightarrow> int \<times> (int \<Rightarrow> u8)" where
  "end_listing out_size pos out = (pos, if pos < out_size then out(pos := 0) else out(out_size - 1 := 0))"

primrec list_from :: "'d machine \<Rightarrow> int \<Rightarrow> nat \<Rightarrow> u32 \<Rightarrow> ipo_inode \<Rightarrow> bytes \<Rightarrow> int \<Rightarrow> (int \<Rightarrow> u8) \<Rightarrow>
    ('d fs, int \<times> (int \<Rightarrow> u8)) state" where
  "list_from io out_size 0 e din buf pos out = State_Monad.return (end_listing out_size pos out)"
| "list_from io out_size (Suc n) e din buf pos out = do {
     let block_idx = e div DIR_ENTRIES_PER_BLOCK;
     let inblock = e mod DIR_ENTRIES_PER_BLOCK;
     (phys, din') \<leftarrow> get_data_block_for_inode io din block_idx False;
     if phys < 0 then list_from io out_size n (e + 1) din' buf pos out
     else do {
       (ok, buf') \<leftarrow> block_read io (word_of_int phys) buf;
       if \<not> ok then State_Monad.return (-1, out)
       else do {
         let de = entry_in buf' inblock;
         if d_inode de = 0 \<or> d_name_len de = 0 then list_from io out_size n (e + 1) din' buf' pos out
         else do {
           let l = unat (d_name_len de);
           if out_size \<le> pos + int l + 3 then State_Monad.return (end_listing out_size pos out)
           else do {
             let mark = (if ucast (d_type de) = IPO_INODE_TYPE_DIR then str ''/'' else []);
             let line = take l (name_at buf' inblock) @ mark @ [10];
             list_from io out_size n (e + 1) din' buf' (pos + int (length line)) (put_bytes pos line out)
           }
         }
       }
     }
   }"

definition ipo_fs_list_dir :: "'d machine \<Rightarrow> bytes option \<Rightarrow> (int \<Rightarrow> u8) \<Rightarrow> int \<Rightarrow>
    ('d fs, int \<times> (int \<Rightarrow> u8)) state" where
  "ipo_fs_list_dir io path out out_size = do {
     ino \<leftarrow> path_resolve io path;
     (case ino of
        None \<Rightarrow> State_Monad.return (-1, out)
      | Some i \<Rightarrow> do {
          r \<leftarrow> read_inode io i;
          (case r of
             None \<Rightarrow> State_Monad.return (-1, out)
           | Some din \<Rightarrow>
               if mode din AND IPO_INODE_TYPE_DIR = 0 then State_Monad.return (-1, out)
               else do {
                 buf0 \<leftarrow> uninit_block io;
                 list_from io out_size (unat (entry_count din)) 0 din buf0 0 out
               })
        })
   }"

end
