(* ===== verification/FsApi.thy ===== *)
theory FsApi imports FsPath begin

text \<open>
  The public operations of the file system, \<open>lib/c/file_system/ipo_api.c\<close>. Paths and buffers
  that the code tests for \<open>NULL\<close> are options; an \<open>int\<close> result keeps the C convention. The
  diagnostics are left out. The walk of \<open>is_descendant\<close> follows parent entries and may go round
  for ever on a damaged volume, so it has fuel, and \<open>None\<close> is the result when that runs out.
\<close>

section \<open>Formatting and mounting\<close>

definition dot_entry :: "u32 \<Rightarrow> bytes \<Rightarrow> dir_entry" where
  "dot_entry inode_no name =
     \<lparr>d_inode = inode_no, d_type = 1, d_name_len = of_nat (length name), d_reserved = [0, 0],
      d_name = name @ replicate (64 - length name) 0\<rparr>"

definition write_dir_dots :: "'d machine \<Rightarrow> u32 \<Rightarrow> u32 \<Rightarrow> u32 \<Rightarrow> ('d fs, unit) state" where
  "write_dir_dots io inode_no parent block = do {
     _ \<leftarrow> block_write io block
       (patch 72 (enc_dir_entry (dot_entry parent (str ''..'')))
         (patch 0 (enc_dir_entry (dot_entry inode_no (str ''.''))) zero_block));
     State_Monad.return ()
   }"

text \<open>The number of bitmap blocks, at most eight rounds of the loop that settles it.\<close>

primrec settle_bitmap :: "nat \<Rightarrow> u32 \<Rightarrow> u32 \<Rightarrow> u32" where
  "settle_bitmap 0 space bb = bb"
| "settle_bitmap (Suc k) space bb =
     (let nb = (space - bb + 512 * 8 - 1) div (512 * 8)
      in if nb = bb then bb else settle_bitmap k space nb)"

text \<open>The superblock of the new volume and the number of its data blocks.\<close>

definition format_layout :: "u32 \<Rightarrow> u32 \<Rightarrow> superblock \<times> u32 \<times> u32 \<times> u32 \<times> u32" where
  "format_layout total_blocks total_inodes =
     (let inode_table_blocks = (total_inodes * 76 + 512 - 1) div 512;
          inode_bitmap_blocks = (total_inodes + 512 * 8 - 1) div (512 * 8);
          space = total_blocks - 1 - inode_bitmap_blocks - inode_table_blocks;
          block_bitmap_blocks = settle_bitmap 8 space 1;
          data_blocks = space - block_bitmap_blocks
      in (\<lparr>magic = str ''IPO_FS'' @ [0, 0], fs_size_blocks = total_blocks, block_size = 512,
           inode_count = total_inodes, inode_bitmap_start = 1,
           block_bitmap_start = 1 + inode_bitmap_blocks,
           inode_table_start = 1 + inode_bitmap_blocks + block_bitmap_blocks,
           data_blocks_start = 1 + inode_bitmap_blocks + block_bitmap_blocks + inode_table_blocks\<rparr>,
          inode_bitmap_blocks, block_bitmap_blocks, inode_table_blocks, data_blocks))"

primrec write_zeros :: "'d machine \<Rightarrow> u32 \<Rightarrow> nat \<Rightarrow> u32 \<Rightarrow> ('d fs, bool) state" where
  "write_zeros io start 0 i = State_Monad.return True"
| "write_zeros io start (Suc n) i = do {
     ok \<leftarrow> block_write io (start + i) zero_block;
     if \<not> ok then State_Monad.return False else write_zeros io start n (i + 1)
   }"

text \<open>
  Both writes of the superblock hand 512 bytes from the address of the 36-byte structure to the
  driver, so 476 bytes that are not part of it go to the disk.
\<close>

definition superblock_sector :: "superblock \<Rightarrow> bytes \<Rightarrow> bytes" where
  "superblock_sector b junk = patch 0 (enc_superblock b) junk"

definition make_root :: "'d machine \<Rightarrow> ('d fs, bool) state" where
  "make_root io = do {
     b \<leftarrow> gets sb;
     _ \<leftarrow> bitmap_set io (inode_bitmap_start b) 0 True;
     let root = zero_inode\<lparr>mode := IPO_INODE_TYPE_DIR, i_size := 0, links_count := 2\<rparr>;
     _ \<leftarrow> write_inode io 1 root;
     root_block \<leftarrow> allocate_block io;
     if root_block < 0 then State_Monad.return False
     else do {
       let root1 = root\<lparr>direct := (direct root)[0 := word_of_int root_block]\<rparr>;
       _ \<leftarrow> write_dir_dots io 1 1 (word_of_int root_block);
       _ \<leftarrow> write_inode io 1 (root1\<lparr>i_size := 72 * 2\<rparr>);
       State_Monad.return True
     }
   }"

definition make_app :: "'d machine \<Rightarrow> ('d fs, bool) state" where
  "make_app io = do {
     app_ino \<leftarrow> allocate_inode io;
     if app_ino < 0 then State_Monad.return False
     else do {
       let no = word_of_int app_ino;
       let n = zero_inode\<lparr>mode := IPO_INODE_TYPE_DIR OR IPO_INODE_FLAG_PROTECTED, i_size := 0, links_count := 2\<rparr>;
       _ \<leftarrow> write_inode io no n;
       app_block \<leftarrow> allocate_block io;
       if app_block < 0 then State_Monad.return False
       else do {
         let n1 = n\<lparr>direct := (direct n)[0 := word_of_int app_block]\<rparr>;
         _ \<leftarrow> write_dir_dots io no 1 (word_of_int app_block);
         _ \<leftarrow> write_inode io no (n1\<lparr>i_size := 72 * 2\<rparr>);
         dir_add_entry io 1 (str ''app'') no 1
       }
     }
   }"

definition make_autorun :: "'d machine \<Rightarrow> ('d fs, bool) state" where
  "make_autorun io = do {
     autorun_ino \<leftarrow> allocate_inode io;
     if autorun_ino < 0 then State_Monad.return False
     else do {
       let no = word_of_int autorun_ino;
       _ \<leftarrow> write_inode io no (zero_inode\<lparr>mode := IPO_INODE_TYPE_FILE OR IPO_INODE_FLAG_PROTECTED,
              i_size := 0, links_count := 1\<rparr>);
       dir_add_entry io 1 (str ''autorun'') no 2
     }
   }"

definition ipo_fs_format :: "'d machine \<Rightarrow> u32 \<Rightarrow> u32 \<Rightarrow> u32 \<Rightarrow> ('d fs, bool) state" where
  "ipo_fs_format io disk_start_lba total_blocks total_inodes =
     (if total_blocks < 10 then State_Monad.return False
      else case format_layout total_blocks total_inodes of (s, ibm, bbm, table, data_blocks) \<Rightarrow>
        if sint data_blocks \<le> 0 then State_Monad.return False
        else do {
          _ \<leftarrow> modify (\<lambda>st. st\<lparr>fs_start_lba := disk_start_lba\<rparr>);
          junk \<leftarrow> uninit_block io;
          ok \<leftarrow> on_ata (ata_write_sectors_lba28 io (disk_start_lba + 0) 1 (superblock_sector s junk));
          if \<not> ok then State_Monad.return False
          else do {
            z1 \<leftarrow> write_zeros io (inode_bitmap_start s) (unat ibm) 0;
            if \<not> z1 then State_Monad.return False
            else do {
              z2 \<leftarrow> write_zeros io (block_bitmap_start s) (unat bbm) 0;
              if \<not> z2 then State_Monad.return False
              else do {
                z3 \<leftarrow> write_zeros io (inode_table_start s) (unat table) 0;
                if \<not> z3 then State_Monad.return False
                else do {
                  _ \<leftarrow> modify (\<lambda>st. st\<lparr>sb := s, fs_start_lba := disk_start_lba\<rparr>);
                  r1 \<leftarrow> make_root io;
                  if \<not> r1 then State_Monad.return False
                  else do {
                    r2 \<leftarrow> make_app io;
                    if \<not> r2 then State_Monad.return False
                    else do {
                      r3 \<leftarrow> make_autorun io;
                      if \<not> r3 then State_Monad.return False
                      else do {
                        junk' \<leftarrow> uninit_block io;
                        b \<leftarrow> gets sb;
                        ok' \<leftarrow> block_write io 0 (superblock_sector b junk');
                        if \<not> ok' then State_Monad.return False else State_Monad.return True
                      }
                    }
                  }
                }
              }
            }
          }
        })"

definition ipo_fs_mount :: "'d machine \<Rightarrow> u32 \<Rightarrow> ('d fs, bool) state" where
  "ipo_fs_mount io disk_start_lba = do {
     _ \<leftarrow> modify (\<lambda>s. s\<lparr>fs_start_lba := disk_start_lba\<rparr>);
     buf0 \<leftarrow> uninit_block io;
     (ok, buf) \<leftarrow> block_read io 0 buf0;
     if \<not> ok then State_Monad.return False
     else do {
       let b = dec_superblock (take 36 buf);
       _ \<leftarrow> modify (\<lambda>s. s\<lparr>sb := b\<rparr>);
       if str_ncmp (magic b) (str ''IPO_FS'') 6 \<noteq> 0 then State_Monad.return False
       else if block_size b \<noteq> 512 then State_Monad.return False
       else do { _ \<leftarrow> modify (\<lambda>s. s\<lparr>fs_mounted := True\<rparr>); State_Monad.return True }
     }
   }"

section \<open>Files\<close>

definition ipo_fs_create :: "'d machine \<Rightarrow> bytes option \<Rightarrow> u8 \<Rightarrow> ('d fs, int) state" where
  "ipo_fs_create io path type = do {
     m \<leftarrow> gets fs_mounted;
     if \<not> m then State_Monad.return (-1)
     else do {
       r \<leftarrow> path_resolve_parent io path;
       (case r of
          None \<Rightarrow> State_Monad.return (-1)
        | Some (parent, name) \<Rightarrow>
            if \<not> is_valid_filename (Some name) then State_Monad.return (-1)
            else do {
              found \<leftarrow> dir_find_entry io parent name;
              if found \<noteq> None then State_Monad.return (-1)
              else do {
                ino \<leftarrow> allocate_inode io;
                if ino < 0 then State_Monad.return (-1)
                else do {
                  _ \<leftarrow> write_inode io (word_of_int ino)
                    (zero_inode\<lparr>mode := ucast type, i_size := 0, links_count := 1\<rparr>);
                  ok \<leftarrow> dir_add_entry io parent name (word_of_int ino) type;
                  if \<not> ok then do { _ \<leftarrow> free_inode io (word_of_int ino); State_Monad.return (-1) }
                  else State_Monad.return ino
                }
              }
            })
     }
   }"

text \<open>The first slot that is not used.\<close>

fun free_slot :: "ipo_fd list \<Rightarrow> nat \<Rightarrow> nat option" where
  "free_slot [] i = None"
| "free_slot (f # fs) i = (if used f = 0 then Some i else free_slot fs (Suc i))"

definition ipo_fs_open :: "'d machine \<Rightarrow> bytes option \<Rightarrow> ('d fs, int) state" where
  "ipo_fs_open io path = do {
     m \<leftarrow> gets fs_mounted;
     if \<not> m then State_Monad.return (-1)
     else do {
       r \<leftarrow> path_resolve io path;
       (case r of
          None \<Rightarrow> State_Monad.return (-1)
        | Some ino \<Rightarrow> do {
            n \<leftarrow> read_inode io ino;
            (case n of
               None \<Rightarrow> State_Monad.return (-1)
             | Some inode \<Rightarrow>
                 if mode inode AND IPO_INODE_TYPE_DIR \<noteq> 0 then State_Monad.return (-1)
                 else do {
                   table \<leftarrow> gets fds;
                   (case free_slot table 0 of
                      None \<Rightarrow> State_Monad.return (-1)
                    | Some i \<Rightarrow> do {
                        _ \<leftarrow> modify (\<lambda>s. s\<lparr>fds := table[i := (table ! i)\<lparr>used := 1, fd_inode := ino, fd_offset := 0\<rparr>]\<rparr>);
                        State_Monad.return (int i)
                      })
                 })
          })
     }
   }"

text \<open>Offset in the block and number of bytes that one round of the two loops moves.\<close>

definition round_offset :: "u32 \<Rightarrow> u32 \<Rightarrow> u32 \<Rightarrow> u32" where
  "round_offset b first offset = (if b = first then offset mod 512 else 0)"

definition round_length :: "u32 \<Rightarrow> u32 \<Rightarrow> u32 \<Rightarrow> u32" where
  "round_length block_offset sz done_bytes =
     (if sz - done_bytes < 512 - block_offset then sz - done_bytes else 512 - block_offset)"

primrec read_blocks :: "'d machine \<Rightarrow> u32 \<Rightarrow> u32 \<Rightarrow> u32 \<Rightarrow> nat \<Rightarrow> u32 \<Rightarrow> ipo_inode \<Rightarrow> bytes \<Rightarrow> u32 \<Rightarrow> bytes \<Rightarrow>
    ('d fs, u32 \<times> bytes) state" where
  "read_blocks io first sz offset 0 b inode tmp copied buffer = State_Monad.return (copied, buffer)"
| "read_blocks io first sz offset (Suc n) b inode tmp copied buffer = do {
     (phys, inode') \<leftarrow> get_data_block_for_inode io inode b False;
     if phys < 0 then State_Monad.return (copied, buffer)
     else do {
       (_, tmp') \<leftarrow> block_read io (word_of_int phys) tmp;
       let block_offset = round_offset b first offset;
       let tocopy = round_length block_offset sz copied;
       read_blocks io first sz offset n (b + 1) inode' tmp' (copied + tocopy)
         (patch (unat copied) (chunk (unat block_offset) (unat tocopy) tmp') buffer)
     }
   }"

definition rounds :: "u32 \<Rightarrow> u32 \<Rightarrow> nat" where
  "rounds first_block last_block = (if last_block < first_block then 0 else Suc (unat (last_block - first_block)))"

definition ipo_fs_read :: "'d machine \<Rightarrow> int \<Rightarrow> bytes \<Rightarrow> u32 \<Rightarrow> u32 \<Rightarrow> ('d fs, int \<times> bytes) state" where
  "ipo_fs_read io fd buffer sz offset =
     (if fd < 0 \<or> int IPO_MAX_FDS \<le> fd then State_Monad.return (-1, buffer)
      else do {
        table \<leftarrow> gets fds;
        if used (table ! nat fd) = 0 then State_Monad.return (-1, buffer)
        else do {
          r \<leftarrow> read_inode io (fd_inode (table ! nat fd));
          (case r of
             None \<Rightarrow> State_Monad.return (-1, buffer)
           | Some inode \<Rightarrow>
               if i_size inode \<le> offset then State_Monad.return (0, buffer)
               else do {
                 let sz' = (if i_size inode < offset + sz then i_size inode - offset else sz);
                 let first_block = offset div 512;
                 let last_block = (offset + sz' - 1) div 512;
                 tmp \<leftarrow> uninit_block io;
                 (copied, buffer') \<leftarrow> read_blocks io first_block sz' offset
                   (rounds first_block last_block) first_block inode tmp 0 buffer;
                 State_Monad.return (sint copied, buffer')
               })
        }
      })"

primrec write_blocks :: "'d machine \<Rightarrow> u32 \<Rightarrow> u32 \<Rightarrow> u32 \<Rightarrow> bytes \<Rightarrow> nat \<Rightarrow> u32 \<Rightarrow> ipo_inode \<Rightarrow> bytes \<Rightarrow> u32 \<Rightarrow>
    ('d fs, u32 \<times> ipo_inode) state" where
  "write_blocks io first sz offset buffer 0 b inode tmp written = State_Monad.return (written, inode)"
| "write_blocks io first sz offset buffer (Suc n) b inode tmp written = do {
     (phys, inode') \<leftarrow> get_data_block_for_inode io inode b True;
     if phys < 0 then State_Monad.return (written, inode')
     else do {
       (_, tmp') \<leftarrow> block_read io (word_of_int phys) tmp;
       let block_offset = round_offset b first offset;
       let towrite = round_length block_offset sz written;
       let tmp'' = patch (unat block_offset) (chunk (unat written) (unat towrite) buffer) tmp';
       _ \<leftarrow> block_write io (word_of_int phys) tmp'';
       write_blocks io first sz offset buffer n (b + 1) inode' tmp'' (written + towrite)
     }
   }"

definition ipo_fs_write :: "'d machine \<Rightarrow> int \<Rightarrow> bytes \<Rightarrow> u32 \<Rightarrow> u32 \<Rightarrow> ('d fs, int) state" where
  "ipo_fs_write io fd buffer sz offset =
     (if fd < 0 \<or> int IPO_MAX_FDS \<le> fd then State_Monad.return (-1)
      else do {
        table \<leftarrow> gets fds;
        if used (table ! nat fd) = 0 then State_Monad.return (-1)
        else do {
          r \<leftarrow> read_inode io (fd_inode (table ! nat fd));
          (case r of
             None \<Rightarrow> State_Monad.return (-1)
           | Some inode \<Rightarrow> do {
               let first_block = offset div 512;
               let last_block = (offset + sz - 1) div 512;
               tmp \<leftarrow> uninit_block io;
               (written, inode') \<leftarrow> write_blocks io first_block sz offset buffer
                 (rounds first_block last_block) first_block inode tmp 0;
               let inode'' = (if i_size inode' < offset + written then inode'\<lparr>i_size := offset + written\<rparr> else inode');
               _ \<leftarrow> write_inode io (fd_inode (table ! nat fd)) inode'';
               State_Monad.return (sint written)
             })
        }
      })"

definition ipo_fs_delete :: "'d machine \<Rightarrow> bytes option \<Rightarrow> ('d fs, bool) state" where
  "ipo_fs_delete io path = do {
     m \<leftarrow> gets fs_mounted;
     if \<not> m then State_Monad.return False
     else do {
       r \<leftarrow> path_resolve_parent io path;
       (case r of
          None \<Rightarrow> State_Monad.return False
        | Some (parent, name) \<Rightarrow> do {
            found \<leftarrow> dir_find_entry io parent name;
            (case found of
               None \<Rightarrow> State_Monad.return False
             | Some (de, _, _) \<Rightarrow> do {
                 t \<leftarrow> read_inode io (d_inode de);
                 (case t of
                    None \<Rightarrow> State_Monad.return False
                  | Some target \<Rightarrow>
                      if mode target AND IPO_INODE_FLAG_PROTECTED \<noteq> 0 then State_Monad.return False
                      else do {
                        full \<leftarrow> (if ucast (d_type de) = IPO_INODE_TYPE_DIR then do {
                            din \<leftarrow> read_inode io (d_inode de);
                            State_Monad.return (case din of None \<Rightarrow> False | Some d \<Rightarrow> 72 * 2 < i_size d)
                          }
                          else State_Monad.return False);
                        if full then State_Monad.return False
                        else do {
                          ok \<leftarrow> dir_remove_entry io parent name;
                          if \<not> ok then State_Monad.return False
                          else do { _ \<leftarrow> free_inode io (d_inode de); State_Monad.return True }
                        }
                      })
               })
          })
     }
   }"

text \<open>The \<open>out\<close> pointer of \<open>ipo_fs_stat\<close> is not \<open>NULL\<close> in this model; the result is what it receives.\<close>

definition ipo_fs_stat :: "'d machine \<Rightarrow> bytes option \<Rightarrow> ('d fs, ipo_inode option) state" where
  "ipo_fs_stat io path = do {
     m \<leftarrow> gets fs_mounted;
     if \<not> m \<or> path = None then State_Monad.return None
     else do {
       r \<leftarrow> path_resolve io path;
       (case r of
          None \<Rightarrow> State_Monad.return None
        | Some ino \<Rightarrow> read_inode io ino)
     }
   }"

definition write_text_to :: "'d machine \<Rightarrow> bytes option \<Rightarrow> bytes \<Rightarrow> bool \<Rightarrow> ('d fs, bool) state" where
  "write_text_to io path text app_mode = do {
     st \<leftarrow> ipo_fs_stat io path;
     (case st of
        None \<Rightarrow> State_Monad.return False
      | Some inode \<Rightarrow>
          if mode inode AND IPO_INODE_TYPE_DIR \<noteq> 0 then State_Monad.return False
          else do {
            let offset = (if app_mode then i_size inode else 0);
            fd \<leftarrow> ipo_fs_open io path;
            if fd < 0 then State_Monad.return False
            else do {
              let len = (of_nat (str_len text) :: u32);
              written \<leftarrow> ipo_fs_write io fd text len offset;
              State_Monad.return (written = sint len)
            }
          })
   }"

definition ipo_fs_write_text :: "'d machine \<Rightarrow> bytes option \<Rightarrow> bytes option \<Rightarrow> bool \<Rightarrow> ('d fs, bool) state" where
  "ipo_fs_write_text io path text app_mode = do {
     m \<leftarrow> gets fs_mounted;
     (case text of
        None \<Rightarrow> State_Monad.return False
      | Some txt \<Rightarrow>
          if \<not> m \<or> path = None then State_Monad.return False
          else do {
            r \<leftarrow> path_resolve io path;
            if r = None then do {
              c \<leftarrow> ipo_fs_create io path 2;
              if c < 0 then State_Monad.return False else write_text_to io path txt app_mode
            }
            else write_text_to io path txt app_mode
          })
   }"

section \<open>Renaming\<close>

primrec is_descendant_loop :: "'d machine \<Rightarrow> nat \<Rightarrow> u32 \<Rightarrow> u32 \<Rightarrow> ('d fs, bool option) state" where
  "is_descendant_loop io 0 ancestor cur = State_Monad.return None"
| "is_descendant_loop io (Suc fuel) ancestor cur =
     (if cur = 1 \<or> cur = 0 then State_Monad.return (Some False)
      else if cur = ancestor then State_Monad.return (Some True)
      else do {
        r \<leftarrow> read_inode io cur;
        (case r of
           None \<Rightarrow> State_Monad.return (Some False)
         | Some din \<Rightarrow>
             if mode din AND IPO_INODE_TYPE_DIR = 0 then State_Monad.return (Some False)
             else if direct din ! 0 = 0 then State_Monad.return (Some False)
             else do {
               buf0 \<leftarrow> uninit_block io;
               (ok, buf) \<leftarrow> block_read io (direct din ! 0) buf0;
               if \<not> ok then State_Monad.return (Some False)
               else do {
                 let parent = d_inode (entry_in buf 1);
                 if parent = cur then State_Monad.return (Some False)
                 else is_descendant_loop io fuel ancestor parent
               }
             })
      })"

definition is_descendant :: "'d machine \<Rightarrow> nat \<Rightarrow> u32 \<Rightarrow> u32 \<Rightarrow> ('d fs, bool option) state" where
  "is_descendant io fuel ancestor node =
     (if ancestor = 0 \<or> node = 0 then State_Monad.return (Some False)
      else is_descendant_loop io fuel ancestor node)"

text \<open>
  Where a renamed entry goes: \<open>None\<close> when the fuel ran out, \<open>Some None\<close> when the operation
  fails, otherwise the new parent and the new name.
\<close>

definition rename_target :: "'d machine \<Rightarrow> nat \<Rightarrow> dir_entry \<Rightarrow> bytes \<Rightarrow> bytes \<Rightarrow>
    ('d fs, (u32 \<times> bytes) option option) state" where
  "rename_target io fuel de oldname newpath = do {
     r \<leftarrow> path_resolve io (Some newpath);
     (case r of
        None \<Rightarrow> do { p \<leftarrow> path_resolve_parent io (Some newpath); State_Monad.return (Some p) }
      | Some maybe_dir \<Rightarrow> do {
          t \<leftarrow> read_inode io maybe_dir;
          (case t of
             None \<Rightarrow> State_Monad.return (Some None)
           | Some td \<Rightarrow>
               if mode td AND IPO_INODE_TYPE_DIR \<noteq> 0 then do {
                 below \<leftarrow> (if ucast (d_type de) = IPO_INODE_TYPE_DIR
                            then is_descendant io fuel (d_inode de) maybe_dir
                            else State_Monad.return (Some False));
                 (case below of
                    None \<Rightarrow> State_Monad.return None
                  | Some True \<Rightarrow> State_Monad.return (Some None)
                  | Some False \<Rightarrow> State_Monad.return (Some (Some (maybe_dir, take 63 oldname))))
               }
               else do { p \<leftarrow> path_resolve_parent io (Some newpath); State_Monad.return (Some p) })
        })
   }"

text \<open>Linking the entry under its new name and unlinking the old one.\<close>

definition update_parent_entry :: "'d machine \<Rightarrow> u32 \<Rightarrow> u32 \<Rightarrow> ('d fs, bool) state" where
  "update_parent_entry io inode_no new_parent = do {
     r \<leftarrow> read_inode io inode_no;
     (case r of
        None \<Rightarrow> State_Monad.return False
      | Some moved \<Rightarrow>
          if direct moved ! 0 = 0 then State_Monad.return True
          else do {
            buf0 \<leftarrow> uninit_block io;
            (ok, buf) \<leftarrow> block_read io (direct moved ! 0) buf0;
            if \<not> ok then State_Monad.return False
            else block_write io (direct moved ! 0) (patch 72 (le32 new_parent) buf)
          })
   }"

definition rename_entry :: "'d machine \<Rightarrow> u32 \<Rightarrow> bytes \<Rightarrow> dir_entry \<Rightarrow> u32 \<Rightarrow> bytes \<Rightarrow> ('d fs, bool) state" where
  "rename_entry io old_parent oldname de new_parent newname =
     (if \<not> is_valid_filename (Some newname) then State_Monad.return False
      else do {
        existing \<leftarrow> dir_find_entry io new_parent newname;
        (case existing of
           Some (tmp, _, _) \<Rightarrow> State_Monad.return (d_inode tmp = d_inode de)
         | None \<Rightarrow> do {
             ok \<leftarrow> dir_add_entry io new_parent newname (d_inode de) (d_type de);
             if \<not> ok then State_Monad.return False
             else do {
               ok2 \<leftarrow> (if ucast (d_type de) = IPO_INODE_TYPE_DIR
                        then update_parent_entry io (d_inode de) new_parent
                        else State_Monad.return True);
               if \<not> ok2 then State_Monad.return False
               else dir_remove_entry io old_parent oldname
             }
           })
      })"

definition rename_from :: "'d machine \<Rightarrow> nat \<Rightarrow> bytes \<Rightarrow> bytes \<Rightarrow> ('d fs, bool option) state" where
  "rename_from io fuel oldpath newpath = do {
     p \<leftarrow> path_resolve_parent io (Some oldpath);
     (case p of
        None \<Rightarrow> State_Monad.return (Some False)
      | Some (old_parent, oldname) \<Rightarrow> do {
          found \<leftarrow> dir_find_entry io old_parent oldname;
          (case found of
             None \<Rightarrow> State_Monad.return (Some False)
           | Some (de, _, _) \<Rightarrow> do {
               t \<leftarrow> read_inode io (d_inode de);
               (case t of
                  None \<Rightarrow> State_Monad.return (Some False)
                | Some tin \<Rightarrow>
                    if mode tin AND IPO_INODE_FLAG_PROTECTED \<noteq> 0 then State_Monad.return (Some False)
                    else do {
                      target \<leftarrow> rename_target io fuel de oldname newpath;
                      (case target of
                         None \<Rightarrow> State_Monad.return None
                       | Some None \<Rightarrow> State_Monad.return (Some False)
                       | Some (Some (new_parent, newname)) \<Rightarrow> do {
                           ok \<leftarrow> rename_entry io old_parent oldname de new_parent newname;
                           State_Monad.return (Some ok)
                         })
                    })
             })
        })
   }"

definition ipo_fs_rename :: "'d machine \<Rightarrow> nat \<Rightarrow> bytes option \<Rightarrow> bytes option \<Rightarrow> ('d fs, bool option) state" where
  "ipo_fs_rename io fuel oldpath newpath = do {
     m \<leftarrow> gets fs_mounted;
     (case (oldpath, newpath) of
        (Some o', Some n') \<Rightarrow>
          if \<not> m then State_Monad.return (Some False)
          else if str_cmp o' (str ''/'') = 0 then State_Monad.return (Some False)
          else do {
            a \<leftarrow> path_resolve io oldpath;
            b \<leftarrow> path_resolve io newpath;
            if a \<noteq> None \<and> b \<noteq> None \<and> a = b then State_Monad.return (Some True)
            else rename_from io fuel o' n'
          }
      | _ \<Rightarrow> State_Monad.return (Some False))
   }"

end
