(* ===== verification/FsFile.thy ===== *)
theory FsFile imports FsMapProof FsApi begin

text \<open>
  The contents of a file as a function from byte positions, and what the block loops of
  \<open>ipo_fs_read\<close> and \<open>ipo_fs_write\<close> do to it. \<open>extends\<close> is the frame of a write: the file gets
  fresh blocks, blocks of other files stay as they are.
\<close>

section \<open>Contents\<close>

abbreviation (input) "MAX_FILE_BYTES \<equiv> (MAX_FILE_BLOCKS * 512 :: nat)"

text \<open>A position without a block holds zero: a block is cleared when it is allocated.\<close>

definition byte_at :: "vol \<Rightarrow> ipo_inode \<Rightarrow> nat \<Rightarrow> u8" where
  "byte_at v n i = (let p = ptr v n (node_of (i div 512)) in if p = 0 then 0 else blk v p ! (i mod 512))"

definition mapped :: "vol \<Rightarrow> ipo_inode \<Rightarrow> nat \<Rightarrow> bool" where
  "mapped v n i \<longleftrightarrow> i < MAX_FILE_BYTES \<and> ptr v n (node_of (i div 512)) \<noteq> 0"

definition extends :: "vol \<Rightarrow> ipo_inode \<Rightarrow> vol \<Rightarrow> ipo_inode \<Rightarrow> bool" where
  "extends v n v' n' \<longleftrightarrow>
     same_globals v v' \<and> same_attributes n n' \<and> file_ok v' n' \<and>
     (\<forall>p. allocated v p \<longrightarrow> allocated v' p) \<and>
     (\<forall>x. in_range x \<and> ptr v n x \<noteq> 0 \<longrightarrow> ptr v' n' x = ptr v n x) \<and>
     (\<forall>x. in_range x \<and> ptr v n x = 0 \<and> ptr v' n' x \<noteq> 0 \<longrightarrow> \<not> allocated v (ptr v' n' x)) \<and>
     (\<forall>p. allocated v p \<and> (\<forall>x. in_range x \<longrightarrow> ptr v n x \<noteq> p) \<longrightarrow> blk v' p = blk v p) \<and>
     (\<forall>p. \<not> data_block (v_sb v) p \<and> \<not> bitmap_area (v_sb v) p \<longrightarrow> blk v' p = blk v p)"

lemma extendsD:
  assumes "extends v n v' n'"
  shows "same_globals v v'" and "same_attributes n n'" and "file_ok v' n'"
    and "allocated v p \<Longrightarrow> allocated v' p"
    and "in_range x \<Longrightarrow> ptr v n x \<noteq> 0 \<Longrightarrow> ptr v' n' x = ptr v n x"
    and "in_range x \<Longrightarrow> ptr v n x = 0 \<Longrightarrow> ptr v' n' x \<noteq> 0 \<Longrightarrow> \<not> allocated v (ptr v' n' x)"
    and "allocated v p \<Longrightarrow> (\<And>x. in_range x \<Longrightarrow> ptr v n x \<noteq> p) \<Longrightarrow> blk v' p = blk v p"
    and "\<not> data_block (v_sb v) p \<Longrightarrow> \<not> bitmap_area (v_sb v) p \<Longrightarrow> blk v' p = blk v p"
  using assms unfolding extends_def by blast+

lemma extends_refl: "file_ok v n \<Longrightarrow> extends v n v n"
  by (simp add: extends_def same_globals_def same_attributes_def)

lemma grow_extends: "grow X v n v' n' \<Longrightarrow> extends v n v' n'"
proof -
  assume g: "grow X v n v' n'"
  have "blk v' p = blk v p" if "allocated v p" "\<forall>x. in_range x \<longrightarrow> ptr v n x \<noteq> p" for p
    using growD(8) [OF g that(1)] that(2) unfolding not_interior_def by blast
  then show "extends v n v' n'" using g unfolding grow_def extends_def by blast
qed

lemma extends_trans:
  assumes g: "extends v n v' n'" and h: "extends v' n' v'' n''"
  shows "extends v n v'' n''"
proof -
  note G = extendsD [OF g] and H = extendsD [OF h]
  have sb: "v_sb v' = v_sb v" using G(1) by (simp add: same_globals_def)
  have new: "\<not> allocated v (ptr v'' n'' x)" if x: "in_range x" "ptr v n x = 0" "ptr v'' n'' x \<noteq> 0" for x
  proof (cases "ptr v' n' x = 0")
    case True
    then show ?thesis using H(6) [OF x(1) True x(3)] G(4) by blast
  next
    case False
    then show ?thesis using H(5) [OF x(1) False] G(6) [OF x(1,2) False] by simp
  qed
  have keep: "blk v'' p = blk v p" if p: "allocated v p" "\<forall>x. in_range x \<longrightarrow> ptr v n x \<noteq> p" for p
  proof -
    have "ptr v' n' x \<noteq> p" if x: "in_range x" for x
    proof (cases "ptr v n x = 0")
      case True
      then show ?thesis using G(6) [OF x True] p x by metis
    qed (use G(5) [OF x] p x in simp)
    then show ?thesis using H(7) [OF G(4) [OF p(1)]] G(7) [OF p(1)] p(2) by metis
  qed
  have "same_globals v v''" "same_attributes n n''"
    using G(1,2) H(1,2) by (simp_all add: same_globals_def same_attributes_def)
  moreover have "\<forall>x. in_range x \<and> ptr v n x \<noteq> 0 \<longrightarrow> ptr v'' n'' x = ptr v n x"
    using G(5) H(5) by metis
  moreover have "\<forall>p. \<not> data_block (v_sb v) p \<and> \<not> bitmap_area (v_sb v) p \<longrightarrow> blk v'' p = blk v p"
    using G(8) H(8) sb by metis
  ultimately show ?thesis using G(4) H(3,4) new keep unfolding extends_def by blast
qed

lemma node_of_byte: "i < MAX_FILE_BYTES \<Longrightarrow> in_range (node_of (i div 512))"
  by (rule node_of_in_range) (simp add: less_mult_imp_div_less)

text \<open>Growth keeps the contents.\<close>

lemma byte_at_grow:
  assumes "grow X v n v' n'" and "file_ok v n" and "i < MAX_FILE_BYTES"
  shows "byte_at v' n' i = byte_at v n i"
proof -
  let ?x = "node_of (i div 512)"
  note x = node_of_byte [OF assms(3)] and G = growD [OF assms(1)]
  show ?thesis
  proof (cases "ptr v n ?x = 0")
    case True
    show ?thesis
    proof (cases "ptr v' n' ?x = 0")
      case False
      then have "blk v' (ptr v' n' ?x) = zero_block" using G(7) [OF x _ True] by simp
      then show ?thesis using True False by (simp add: byte_at_def Let_def zero_block_def)
    qed (use True in \<open>simp add: byte_at_def\<close>)
  next
    case False
    have "blk v' (ptr v n ?x) = blk v (ptr v n ?x)"
      using G(8) [OF file_ok_allocated [OF assms(2) x False]]
        file_block_not_interior [OF assms(2) x _ False] by simp
    then show ?thesis using G(4) [OF x False] by (simp add: byte_at_def Let_def)
  qed
qed

lemma mapped_extends: "extends v n v' n' \<Longrightarrow> mapped v n i \<Longrightarrow> mapped v' n' i"
  unfolding mapped_def using extendsD(5) node_of_byte by metis

text \<open>Overwriting bytes of one block of the file.\<close>

definition overwrite :: "nat \<Rightarrow> bytes \<Rightarrow> (nat \<Rightarrow> u8) \<Rightarrow> nat \<Rightarrow> u8" where
  "overwrite pos bs f = (\<lambda>i. if pos \<le> i \<and> i < pos + length bs then bs ! (i - pos) else f i)"

lemma overwrite_Nil [simp]: "overwrite pos [] f = f"
  by (auto simp: overwrite_def fun_eq_iff)

lemma overwrite_append:
  "overwrite (pos + length a) b (overwrite pos a f) = overwrite pos (a @ b) f"
  by (auto simp: overwrite_def nth_append fun_eq_iff)

lemma set_file_block:
  assumes G: "good N v" and ok: "file_ok v n" and k: "k < MAX_FILE_BLOCKS" and p: "ptr v n (node_of k) \<noteq> 0"
    and fit: "off + length bs \<le> 512"
  defines "q \<equiv> ptr v n (node_of k)"
  defines "v' \<equiv> set_blk q (patch off bs (blk v q)) v"
  shows "extends v n v' n" and "good N v'" and "in_range x \<Longrightarrow> ptr v' n x = ptr v n x"
    and "i < MAX_FILE_BYTES \<Longrightarrow> byte_at v' n i = overwrite (512 * k + off) bs (byte_at v n) i"
proof -
  note x = node_of_in_range [OF k]
  have q: "allocated v q" unfolding q_def by (rule file_ok_allocated [OF ok x p])
  then have qd: "data_block (v_sb v) q" by (simp add: allocated_def)
  have len: "length (blk v q) = 512" by (rule allocated_length(2) [OF G q])
  have int: "not_interior v n q" unfolding q_def by (rule file_block_not_interior [OF ok x _ p]) simp
  have P: "ptr v' n y = ptr v n y" if "in_range y" for y
    by (rule ptr_cong [OF _ that]) (use int in \<open>auto simp: v'_def not_interior_def\<close>)
  then show "in_range x \<Longrightarrow> ptr v' n x = ptr v n x" .
  have al: "allocated v' r \<longleftrightarrow> allocated v r" for r
    unfolding v'_def by (rule allocated_set_blk [OF goodD(1) [OF G] qd])
  have "file_ok v' n" using ok P al unfolding file_ok_def by metis
  then show "extends v n v' n"
    using P al qd x unfolding extends_def same_globals_def same_attributes_def
    by (auto simp: v'_def q_def)
  show "good N v'" unfolding v'_def using G len fit by simp
  show "byte_at v' n i = overwrite (512 * k + off) bs (byte_at v n) i" if i: "i < MAX_FILE_BYTES"
  proof (cases "i div 512 = k")
    case True
    then have i': "i = 512 * k + i mod 512" by (metis div_mult_mod_eq mult.commute)
    have "(512 * k + off \<le> i \<and> i < 512 * k + off + length bs) \<longleftrightarrow> (off \<le> i mod 512 \<and> i mod 512 < off + length bs)"
      using i' by linarith
    moreover have "i - (512 * k + off) = i mod 512 - off" using i' by linarith
    ultimately show ?thesis
      using True P [OF x] p len fit
      by (simp add: byte_at_def Let_def overwrite_def v'_def q_def nth_patch)
  next
    case False
    have "\<not> (512 * k + off \<le> i \<and> i < 512 * k + off + length bs)"
    proof
      assume "512 * k + off \<le> i \<and> i < 512 * k + off + length bs"
      then have "512 * k \<le> i" "i < 512 * Suc k" using fit by auto
      then have "i div 512 = k" by (simp add: div_nat_eqI mult.commute)
      then show False using False by simp
    qed
    moreover have "ptr v n (node_of (i div 512)) \<noteq> q" if "ptr v n (node_of (i div 512)) \<noteq> 0"
      using file_ok_inj [OF ok node_of_byte [OF i] x that] node_of_inj False unfolding q_def by blast
    ultimately show ?thesis
      using P [OF node_of_byte [OF i]] by (auto simp: byte_at_def Let_def overwrite_def v'_def)
  qed
qed

section \<open>The write loop\<close>

lemma chunk_append_chunk: "chunk a n xs @ chunk (a + n) m xs = chunk a (n + m) xs"
  unfolding chunk_def take_add by (simp add: add.commute)

text \<open>One round moves the bytes from the position up to the end of its block.\<close>

definition at_round :: "u32 \<Rightarrow> u32 \<Rightarrow> u32 \<Rightarrow> u32 \<Rightarrow> u32 \<Rightarrow> nat \<Rightarrow> bool" where
  "at_round first sz offset b done_bytes pos \<longleftrightarrow>
     unat offset + unat sz < 2 ^ 32 \<and> first = offset div 512 \<and> unat done_bytes < unat sz \<and>
     pos = unat offset + unat done_bytes \<and> unat b = pos div 512 \<and> (done_bytes = 0 \<or> pos mod 512 = 0)"

lemma round_values:
  assumes "at_round first sz offset b w pos"
  shows "unat (round_offset b first offset) = pos mod 512"
    and "unat (round_length (round_offset b first offset) sz w) = min (512 - pos mod 512) (unat sz - unat w)"
proof -
  note a = assms [unfolded at_round_def]
  have first: "b = first \<longleftrightarrow> unat b = unat offset div 512"
    using a by (simp add: word_unat_eq_iff unat_div)
  show off: "unat (round_offset b first offset) = pos mod 512"
  proof (cases "w = 0")
    case True
    then show ?thesis using a first by (simp add: round_offset_def unat_mod)
  next
    case False
    then have m: "pos mod 512 = 0" and w: "0 < unat w" using a by (auto simp: unat_gt_0)
    have "unat offset < pos div 512 * 512" using m w a div_mult_mod_eq [of pos 512] by linarith
    then have "unat offset div 512 < pos div 512" by (rule less_mult_imp_div_less)
    then show ?thesis using a first m by (simp add: round_offset_def)
  qed
  have le: "round_offset b first offset \<le> 512" using off by (simp add: word_le_nat_alt)
  have s: "unat (512 - round_offset b first offset) = 512 - pos mod 512" using unat_minus [OF le] off by simp
  have t: "unat (sz - w) = unat sz - unat w" using a by (intro unat_minus) (simp add: word_le_nat_alt)
  show "unat (round_length (round_offset b first offset) sz w) = min (512 - pos mod 512) (unat sz - unat w)"
    unfolding round_length_def by (auto simp: word_less_nat_alt s t)
qed

lemma round_step:
  assumes a: "at_round first sz offset b w pos" and l: "l = min (512 - pos mod 512) (unat sz - unat w)"
    and t: "unat t = l"
  shows "unat (w + t) = unat w + l" and "0 < l" and "pos mod 512 + l \<le> 512"
    and "w + t \<noteq> sz \<Longrightarrow> at_round first sz offset (b + 1) (w + t) (pos + l)"
    and "w + t \<noteq> sz \<Longrightarrow> (pos + l) div 512 = Suc (pos div 512)"
    and "w + t = sz \<Longrightarrow> (unat offset + unat sz - 1) div 512 = pos div 512"
proof -
  note a = a [unfolded at_round_def]
  show u: "unat (w + t) = unat w + l"
  proof -
    have "unat w + l \<le> unat sz" using a l by linarith
    then have "unat w + unat t < 2 ^ 32" using a t by linarith
    then show ?thesis using t by (simp add: unat_word_ariths)
  qed
  show "0 < l" and fit: "pos mod 512 + l \<le> 512" using a l by auto
  show d: "(pos + l) div 512 = Suc (pos div 512)" if "w + t \<noteq> sz"
  proof -
    have "unat w + l \<noteq> unat sz" using that u by (auto simp: word_unat_eq_iff)
    then have "l + pos mod 512 = 512" using l a mod_less_divisor [of 512 pos] by linarith
    then have "pos + l = 512 * Suc (pos div 512)"
      unfolding mult_Suc_right using div_mult_mod_eq [of pos 512] by linarith
    then show ?thesis by simp
  qed
  show "at_round first sz offset (b + 1) (w + t) (pos + l)" if n: "w + t \<noteq> sz"
  proof -
    have x: "unat w + l \<noteq> unat sz" using n u by (auto simp: word_unat_eq_iff)
    then have l': "l + pos mod 512 = 512" "unat w + l < unat sz" using l a mod_less_divisor [of 512 pos] by linarith+
    then have "pos + l = 512 * Suc (pos div 512)"
      unfolding mult_Suc_right using div_mult_mod_eq [of pos 512] by linarith
    then have "(pos + l) mod 512 = 0" by (simp only: mod_mult_self1_is_0)
    moreover have "unat (b + 1) = Suc (unat b)"
      using a by (subst unat_add_lem [THEN iffD1]) auto
    ultimately show ?thesis using a u l' d [OF n] unfolding at_round_def by simp
  qed
  show "(unat offset + unat sz - 1) div 512 = pos div 512" if e: "w + t = sz"
  proof -
    have "unat offset + unat sz - 1 = pos + (l - 1)" using e u a \<open>0 < l\<close> by simp
    moreover have "pos mod 512 + (l - 1) < 512" using fit \<open>0 < l\<close> by simp
    then have "(pos + (l - 1)) div 512 = pos div 512"
      using div_mult_mod_eq [of pos 512] by (intro div_nat_eqI; simp only: mult_Suc_right; linarith)
    ultimately show ?thesis by (simp only:)
  qed
qed

text \<open>The position has no block and cannot get one.\<close>

definition no_room :: "vol \<Rightarrow> ipo_inode \<Rightarrow> nat \<Rightarrow> bool" where
  "no_room v n k \<longleftrightarrow> \<not> mapped v n k \<and> (volume_full v \<or> MAX_FILE_BYTES \<le> k)"

text \<open>The outcome of a write that starts at byte \<open>w\<close> of the buffer, position \<open>pos\<close> of the file.\<close>

definition wrote :: "nat \<Rightarrow> vol \<Rightarrow> ipo_inode \<Rightarrow> bytes \<Rightarrow> nat \<Rightarrow> nat \<Rightarrow> nat \<Rightarrow> nat \<Rightarrow> vol \<Rightarrow> ipo_inode \<Rightarrow> bool" where
  "wrote N v n buffer sz pos w w' v' n' \<longleftrightarrow>
     good N v' \<and> extends v n v' n' \<and> w \<le> w' \<and> w' \<le> sz \<and>
     (\<forall>i < MAX_FILE_BYTES. byte_at v' n' i = overwrite pos (chunk w (w' - w) buffer) (byte_at v n) i) \<and>
     (\<forall>i. pos \<le> i \<and> i < pos + (w' - w) \<longrightarrow> mapped v' n' i) \<and>
     (w' = sz \<or> no_room v' n' (pos + (w' - w)))"

lemma wrote_nothing:
  assumes "good N v'" and "grow X v n v' n'" and "file_ok v n" and "w \<le> sz" and "no_room v' n' pos"
  shows "wrote N v n buffer sz pos w w v' n'"
  using assms grow_extends [OF assms(2)] byte_at_grow [OF assms(2,3)] by (auto simp: wrote_def chunk_def)

lemma wrote_round:
  assumes G: "good N v1" and g: "grow X v n v1 n1" and ok: "file_ok v n"
    and k: "pos div 512 < MAX_FILE_BLOCKS" and p: "ptr v1 n1 (node_of (pos div 512)) \<noteq> 0"
    and l: "pos mod 512 + l \<le> 512" "w + l \<le> sz" "sz \<le> length buffer"
  defines "q \<equiv> ptr v1 n1 (node_of (pos div 512))"
  defines "v2 \<equiv> set_blk q (patch (pos mod 512) (chunk w l buffer) (blk v1 q)) v1"
  shows "w + l = sz \<Longrightarrow> wrote N v n buffer sz pos w (w + l) v2 n1"
    and "wrote N v2 n1 buffer sz (pos + l) (w + l) w' v' n' \<Longrightarrow> wrote N v n buffer sz pos w w' v' n'"
    and "good N v2" and "file_ok v2 n1"
proof -
  note ok1 = grow_file_ok [OF g]
  have c: "length (chunk w l buffer) = l" using l by simp
  note S = set_file_block [OF G ok1 k p, of "pos mod 512" "chunk w l buffer", folded q_def, folded v2_def]
  have fit: "pos mod 512 + length (chunk w l buffer) \<le> 512" using c l by simp
  have pos: "512 * (pos div 512) + pos mod 512 = pos" by simp
  show "good N v2" by (rule S(2) [OF fit])
  have e2: "extends v1 n1 v2 n1" by (rule S(1) [OF fit])
  then show "file_ok v2 n1" by (rule extendsD(3))
  have e: "extends v n v2 n1" by (rule extends_trans [OF grow_extends [OF g] e2])
  have b: "byte_at v2 n1 i = overwrite pos (chunk w l buffer) (byte_at v n) i" if "i < MAX_FILE_BYTES" for i
    using S(4) [OF fit that] byte_at_grow [OF g ok that] by (simp add: pos overwrite_def)
  have m: "mapped v2 n1 i" if "pos \<le> i" "i < pos + l" for i
  proof -
    have "i < 512 * (pos div 512) + 512" "512 * (pos div 512) \<le> i"
      using that l(1) pos by linarith+
    then have "i div 512 = pos div 512" by (simp add: div_nat_eqI mult.commute)
    moreover from this have "i < MAX_FILE_BYTES" using k by (metis less_mult_imp_div_less div_less_iff_less_mult zero_less_numeral)
    ultimately show ?thesis using p S(3) [OF fit node_of_in_range [OF k]] by (simp add: mapped_def q_def)
  qed
  show "wrote N v n buffer sz pos w (w + l) v2 n1" if "w + l = sz"
  proof -
    have "sz - w = l" using that by simp
    then show ?thesis using S(2) [OF fit] e b m that unfolding wrote_def by auto
  qed
  show "wrote N v n buffer sz pos w w' v' n'" if W: "wrote N v2 n1 buffer sz (pos + l) (w + l) w' v' n'"
  proof -
    note W = W [unfolded wrote_def]
    have le: "w + l \<le> w'" "w' \<le> sz" and e': "extends v2 n1 v' n'" using W by auto
    have "byte_at v' n' i = overwrite pos (chunk w (w' - w) buffer) (byte_at v n) i" if i: "i < MAX_FILE_BYTES" for i
    proof -
      have "byte_at v' n' i = overwrite (pos + l) (chunk (w + l) (w' - (w + l)) buffer) (byte_at v2 n1) i"
        using W i by blast
      also have "... = overwrite (pos + length (chunk w l buffer)) (chunk (w + l) (w' - (w + l)) buffer)
          (overwrite pos (chunk w l buffer) (byte_at v n)) i"
        using b [OF i] c by (simp add: overwrite_def)
      also have "... = overwrite pos (chunk w (w' - w) buffer) (byte_at v n) i"
        unfolding overwrite_append chunk_append_chunk using le by simp
      finally show ?thesis .
    qed
    moreover have "mapped v' n' i" if "pos \<le> i" "i < pos + (w' - w)" for i
    proof (cases "i < pos + l")
      case True
      then show ?thesis using mapped_extends [OF e' m] that by blast
    next
      case False
      then show ?thesis using W that le by simp
    qed
    moreover have "pos + l + (w' - (w + l)) = pos + (w' - w)" using le by simp
    ultimately show ?thesis
      using W extends_trans [OF e e'] le unfolding wrote_def by auto
  qed
qed

context fs_store begin

lemma runs_write_blocks:
  assumes "good N v" and "file_ok v n" and "at_round first sz offset b written pos"
    and "unat sz \<le> length buffer"
    and "pos div 512 + m = Suc ((unat offset + unat sz - 1) div 512)"
  shows "\<exists>w v' n'. (\<forall>tmp. length tmp = 512 \<longrightarrow>
      runs v (write_blocks io first sz offset buffer m b n tmp written) (w, n') v') \<and>
    wrote N v n buffer (unat sz) pos (unat written) (unat w) v' n'"
  using assms
proof (induction m arbitrary: v n b written pos)
  case 0
  have "unat written < unat sz" "pos = unat offset + unat written" using 0(3) by (simp_all add: at_round_def)
  then have "pos \<le> unat offset + unat sz - 1" by linarith
  then have "pos div 512 \<le> (unat offset + unat sz - 1) div 512" by (rule div_le_mono)
  then show ?case using 0(5) by simp
next
  case (Suc m)
  note G = Suc.prems(1) and ok = Suc.prems(2) and at = Suc.prems(3) and bl = Suc.prems(4)
  have b: "unat b = pos div 512" and ws: "unat written < unat sz" using at by (simp_all add: at_round_def)
  show ?case
  proof (cases "pos div 512 < MAX_FILE_BLOCKS")
    case False
    then have "no_room v n pos" by (simp add: no_room_def mapped_def div_less_iff_less_mult not_less)
    moreover have "runs v (write_blocks io first sz offset buffer (Suc m) b n tmp written) (written, n) v" for tmp
      using runs_get_data_block_beyond [of b v n True] False b
      by (auto intro!: evals_return elim!: evals_bind)
    ultimately show ?thesis using wrote_nothing [OF G grow_refl [OF ok] ok, of "unat written" "unat sz" pos] ws
      by (metis less_imp_le)
  next
    case True
    from get_data_block_grows [OF G ok, of b] True b obtain r v1 n1 where
      get: "runs v (get_data_block_for_inode io n b True) (r, n1) v1" "good N v1"
        "grow (path_to (node_of (pos div 512))) v n v1 n1" "got v1 n1 (node_of (pos div 512)) r"
      by (auto simp: maps_to_def)
    show ?thesis
    proof (cases "ptr v1 n1 (node_of (pos div 512)) = 0")
      case z: True
      then have "r = -1" "no_room v1 n1 pos" using get(4) by (simp_all add: got_def no_room_def mapped_def)
      then have "runs v (write_blocks io first sz offset buffer (Suc m) b n tmp written) (written, n1) v1" for tmp
        by (auto intro!: evals_return evals_bind [OF get(1)])
      then show ?thesis using wrote_nothing [OF get(2,3) ok, of "unat written" "unat sz" pos] ws \<open>no_room v1 n1 pos\<close>
        by (metis less_imp_le)
    next
      case p: False
      let ?q = "ptr v1 n1 (node_of (pos div 512))"
      let ?o = "round_offset b first offset"
      let ?t = "round_length ?o sz written"
      define l where "l = min (512 - pos mod 512) (unat sz - unat written)"
      note val = round_values [OF at] and st = round_step [OF at l_def val(2) [folded l_def]]
      have r: "r = int (unat ?q)" using get(4) p by (simp add: got_def)
      have al: "allocated v1 ?q"
        using file_ok_allocated [OF grow_file_ok [OF get(3)] node_of_in_range [OF True] p] .
      note q = allocated_length(1,2) [OF get(2) al]
      let ?b = "patch (pos mod 512) (chunk (unat written) l buffer) (blk v1 ?q)"
      let ?v = "set_blk ?q ?b v1"
      have "l \<le> unat sz - unat written" by (simp add: l_def)
      then have wl: "unat written + l \<le> unat sz" using ws by linarith
      have b512: "length ?b = 512" using q(2) st(3) wl bl by simp
      note round = wrote_round [OF get(2,3) ok True p st(3) wl bl]
      have w: "runs v1 (block_write io ?q ?b) True ?v" by (rule store_write [OF q(1) b512])
      have one: "runs v (write_blocks io first sz offset buffer (Suc m) b n tmp written) res v'"
        if "runs ?v (write_blocks io first sz offset buffer m (b + 1) n1 ?b (written + ?t)) res v'"
          and "length tmp = 512" for res v' tmp
        using that r
        by (auto simp: Let_def val [folded l_def] intro!: evals_bind [OF get(1)] evals_bind [OF store_read [OF q(1)]]
          evals_bind [OF w])
      show ?thesis
      proof (cases "written + ?t = sz")
        case True
        have "m = 0" using st(6) [OF True] Suc.prems(5) by simp
        then have "runs ?v (write_blocks io first sz offset buffer m (b + 1) n1 ?b (written + ?t)) (sz, n1) ?v"
          using True by (simp add: evals_return)
        moreover have "unat written + l = unat sz" using st(1) True by simp
        ultimately show ?thesis using one round(1) by metis
      next
        case False
        have "(pos + l) div 512 + m = Suc ((unat offset + unat sz - 1) div 512)"
          using Suc.prems(5) st(5) [OF False] by simp
        from Suc.IH [OF round(3,4) st(4) [OF False] bl this]
        show ?thesis using one round(2) b512 unfolding st(1) by metis
      qed
    qed
  qed
qed

end

section \<open>The read loop\<close>

definition contents :: "vol \<Rightarrow> ipo_inode \<Rightarrow> nat \<Rightarrow> nat \<Rightarrow> bytes" where
  "contents v n pos len = map (byte_at v n) [pos..<pos + len]"

lemma length_contents [simp]: "length (contents v n pos len) = len"
  by (simp add: contents_def)

lemma contents_append: "contents v n pos a @ contents v n (pos + a) b = contents v n pos (a + b)"
  using upt_add_eq_append [of pos "pos + a" b] by (simp add: contents_def add.assoc)

lemma mapped_less: "mapped v n i \<Longrightarrow> i div 512 < MAX_FILE_BLOCKS"
  by (simp add: mapped_def less_mult_imp_div_less)

lemma chunk_contents:
  assumes "good N v" and "file_ok v n" and "mapped v n pos" and "pos mod 512 + l \<le> 512"
  shows "chunk (pos mod 512) l (blk v (ptr v n (node_of (pos div 512)))) = contents v n pos l"
proof (rule nth_equalityI)
  let ?q = "ptr v n (node_of (pos div 512))"
  have p: "?q \<noteq> 0" using assms(3) by (simp add: mapped_def)
  have "allocated v ?q"
    by (rule file_ok_allocated [OF assms(2) node_of_in_range [OF mapped_less [OF assms(3)]] p])
  then have len: "length (blk v ?q) = 512" by (rule allocated_length(2) [OF assms(1)])
  then show "length (chunk (pos mod 512) l (blk v ?q)) = length (contents v n pos l)" using assms(4) by simp
  fix i
  assume "i < length (chunk (pos mod 512) l (blk v ?q))"
  then have i: "i < l" using len assms(4) by simp
  have d: "(pos + i) div 512 = pos div 512"
    using div_mult_mod_eq [of pos 512] i assms(4) by (intro div_nat_eqI; simp only: mult_Suc_right; linarith)
  moreover have "(pos + i) mod 512 = pos mod 512 + i"
    using div_mult_mod_eq [of pos 512] div_mult_mod_eq [of "pos + i" 512] unfolding d by linarith
  ultimately show "chunk (pos mod 512) l (blk v ?q) ! i = contents v n pos l ! i"
    using i len assms(4) p by (simp add: nth_chunk contents_def byte_at_def Let_def)
qed

context fs_store begin

lemma runs_read_blocks:
  assumes "good N v" and "file_ok v n" and "at_round first sz offset b copied pos"
    and "unat sz \<le> length buffer" and "length tmp = 512"
    and "pos div 512 + m = Suc ((unat offset + unat sz - 1) div 512)"
    and "\<And>i. pos \<le> i \<Longrightarrow> i < unat offset + unat sz \<Longrightarrow> mapped v n i"
  shows "runs v (read_blocks io first sz offset m b n tmp copied buffer)
    (sz, patch (unat copied) (contents v n pos (unat sz - unat copied)) buffer) v"
  using assms
proof (induction m arbitrary: b tmp copied pos buffer)
  case 0
  have "unat copied < unat sz" "pos = unat offset + unat copied" using 0(3) by (simp_all add: at_round_def)
  then have "pos \<le> unat offset + unat sz - 1" by linarith
  then have "pos div 512 \<le> (unat offset + unat sz - 1) div 512" by (rule div_le_mono)
  then show ?case using 0(6) by simp
next
  case (Suc m)
  note G = Suc.prems(1) and ok = Suc.prems(2) and at = Suc.prems(3) and bl = Suc.prems(4)
  have b: "unat b = pos div 512" and ws: "unat copied < unat sz" and po: "pos = unat offset + unat copied"
    using at by (simp_all add: at_round_def)
  have mp: "mapped v n pos" using Suc.prems(7) ws po by simp
  let ?q = "ptr v n (node_of (pos div 512))"
  let ?o = "round_offset b first offset"
  let ?t = "round_length ?o sz copied"
  define l where "l = min (512 - pos mod 512) (unat sz - unat copied)"
  note val = round_values [OF at] and st = round_step [OF at l_def val(2) [folded l_def]]
  have p: "?q \<noteq> 0" using mp by (simp add: mapped_def)
  have "allocated v ?q"
    by (rule file_ok_allocated [OF ok node_of_in_range [OF mapped_less [OF mp]] p])
  note q = allocated_length(1,2) [OF G this]
  have get: "runs v (get_data_block_for_inode io n b False) (int (unat ?q), n) v"
    using runs_get_data_block_lookup [OF G ok, of b] p mapped_less [OF mp] b
    by (simp add: block_of_def ptr_int_def)
  have "l \<le> unat sz - unat copied" by (simp add: l_def)
  then have wl: "unat copied + l \<le> unat sz" using ws by linarith
  let ?buf = "patch (unat copied) (contents v n pos l) buffer"
  have one: "runs v (read_blocks io first sz offset (Suc m) b n tmp copied buffer) res v"
    if "runs v (read_blocks io first sz offset m (b + 1) n (blk v ?q) (copied + ?t) ?buf) res v" for res
    using that Suc.prems(5) chunk_contents [OF G ok mp st(3)]
    by (auto simp: Let_def val [folded l_def] intro!: evals_bind [OF get] evals_bind [OF store_read [OF q(1)]])
  show ?case
  proof (cases "copied + ?t = sz")
    case True
    have "m = 0" using st(6) [OF True] Suc.prems(6) by simp
    moreover have "unat sz - unat copied = l" using st(1) True by simp
    ultimately show ?thesis using one True by (simp add: evals_return)
  next
    case False
    have e: "(pos + l) div 512 + m = Suc ((unat offset + unat sz - 1) div 512)"
      using Suc.prems(6) st(5) [OF False] by simp
    have bl': "unat sz \<le> length ?buf" using wl bl by simp
    have "runs v (read_blocks io first sz offset m (b + 1) n (blk v ?q) (copied + ?t) ?buf)
      (sz, patch (unat copied + l) (contents v n (pos + l) (unat sz - (unat copied + l))) ?buf) v"
      using Suc.IH [OF G ok st(4) [OF False] bl' q(2) e Suc.prems(7)] unfolding st(1) by simp
    moreover have "patch (unat copied + l) (contents v n (pos + l) (unat sz - (unat copied + l))) ?buf =
      patch (unat copied) (contents v n pos (unat sz - unat copied)) buffer"
      using patch_append [of "unat copied" "contents v n pos l" "contents v n (pos + l) (unat sz - (unat copied + l))" buffer]
        bl wl by (simp add: contents_append)
    ultimately show ?thesis using one by simp
  qed
qed

end

section \<open>The inode table and the files\<close>

text \<open>Writing the inode changes no file: the table is apart from bitmaps and data.\<close>

lemma inode_block_not_data:
  assumes "layout N (v_sb v)" and "in_table (v_sb v) i"
  shows "\<not> data_block (v_sb v) (inode_block (v_sb v) i)" and "\<not> bitmap_area (v_sb v) (inode_block (v_sb v) i)"
    and "unat (inode_block (v_sb v) i) < N"
  using unat_inode_block [OF assms] assms
  by (auto simp: data_block_def bitmap_area_def word_le_nat_alt word_less_nat_alt in_table_def layout_def)

lemma allocated_put_inode:
  assumes "layout N (v_sb v)" and "in_table (v_sb v) i"
  shows "allocated (put_inode i x v) p = allocated v p"
proof -
  have "bit_block (block_bitmap_start (v_sb v)) (p - data_blocks_start (v_sb v)) \<noteq> inode_block (v_sb v) i"
    if "data_block (v_sb v) p"
    using bitmap_area_bit [OF assms(1) that] inode_block_not_data(2) [OF assms] by auto
  then show ?thesis by (auto simp: allocated_def bit_at_def)
qed

lemma data_blk_put_inode:
  assumes "layout N (v_sb v)" and "in_table (v_sb v) i" and "allocated v p"
  shows "blk (put_inode i x v) p = blk v p"
  using inode_block_not_data(1) [OF assms(1,2)] assms(3) by (auto simp: allocated_def put_inode_def)

lemma good_put_inode:
  assumes "good N v" and "in_table (v_sb v) i" and "wf_inode x"
  shows "good N (put_inode i x v)"
  using assms inode_block_not_data(3) [OF goodD(1) [OF assms(1)] assms(2)] inode_offset_bound [of i] goodD(2) [OF assms(1)]
  unfolding put_inode_def by (intro good_set_blk) (auto simp: length_enc_inode sized_def)

lemma ptr_put_inode:
  assumes "good N v" and "in_table (v_sb v) i" and "file_ok v n" and "in_range x"
  shows "ptr (put_inode i y v) n x = ptr v n x"
  using data_blk_put_inode [OF goodD(1) [OF assms(1)] assms(2)] file_ok_allocated [OF assms(3)]
  by (intro ptr_cong [OF _ assms(4)]) simp

lemma file_ok_put_inode:
  assumes "good N v" and "in_table (v_sb v) i" and "file_ok v n"
  shows "file_ok (put_inode i y v) n"
  using assms(3) ptr_put_inode [OF assms] allocated_put_inode [OF goodD(1) [OF assms(1)] assms(2)]
  unfolding file_ok_def by metis

lemma byte_at_put_inode:
  assumes "good N v" and "in_table (v_sb v) i" and "file_ok v n" and "j < MAX_FILE_BYTES"
  shows "byte_at (put_inode i y v) n j = byte_at v n j"
  using ptr_put_inode [OF assms(1-3) node_of_byte [OF assms(4)]]
    data_blk_put_inode [OF goodD(1) [OF assms(1)] assms(2)]
    file_ok_allocated [OF assms(3) node_of_byte [OF assms(4)]]
  by (simp add: byte_at_def Let_def)

text \<open>The size of a file is not part of its block map.\<close>

lemma ptr_size [simp]: "ptr v (n\<lparr>i_size := s\<rparr>) x = ptr v n x"
  by (cases x) auto

lemma file_ok_size [simp]: "file_ok v (n\<lparr>i_size := s\<rparr>) = file_ok v n"
  by (simp add: file_ok_def wf_inode_def)

lemma byte_at_size [simp]: "byte_at v (n\<lparr>i_size := s\<rparr>) = byte_at v n"
  by (simp add: byte_at_def fun_eq_iff)

lemma mapped_size [simp]: "mapped v (n\<lparr>i_size := s\<rparr>) = mapped v n"
  by (simp add: mapped_def fun_eq_iff)

end
