(* ===== verification/FsFiles.thy ===== *)
theory FsFiles imports FsFile begin

text \<open>
  A set of files on one volume, \<open>files_ok\<close>: every inode in the table, every block map well
  formed, no block in two files. What \<open>ipo_fs_write\<close> and \<open>ipo_fs_read\<close> do to one of them, and
  that the others stay as they are.
\<close>

section \<open>Several files\<close>

definition apart :: "vol \<Rightarrow> ipo_inode \<Rightarrow> ipo_inode \<Rightarrow> bool" where
  "apart v n m \<longleftrightarrow> (\<forall>x y. in_range x \<and> in_range y \<and> ptr v n x \<noteq> 0 \<longrightarrow> ptr v n x \<noteq> ptr v m y)"

lemma apart_sym: "apart v n m \<Longrightarrow> apart v m n"
  unfolding apart_def by metis

definition files_ok :: "nat \<Rightarrow> vol \<Rightarrow> u32 set \<Rightarrow> bool" where
  "files_ok N v I \<longleftrightarrow> good N v \<and>
     (\<forall>i\<in>I. in_table (v_sb v) i \<and> file_ok v (inode_at v i)) \<and>
     (\<forall>i\<in>I. \<forall>j\<in>I. i \<noteq> j \<longrightarrow> apart v (inode_at v i) (inode_at v j))"

lemma other_file:
  assumes e: "extends v n v' n'" and m: "file_ok v m" and a: "apart v n m" and L: "layout N (v_sb v)"
  shows "in_range x \<Longrightarrow> ptr v' m x = ptr v m x" and "file_ok v' m" and "apart v' n' m"
    and "i < MAX_FILE_BYTES \<Longrightarrow> byte_at v' m i = byte_at v m i"
proof -
  note E = extendsD [OF e]
  have keep: "blk v' (ptr v m y) = blk v (ptr v m y)" if y: "in_range y" "ptr v m y \<noteq> 0" for y
  proof (rule E(7) [OF file_ok_allocated [OF m y]])
    fix x
    assume "in_range x"
    then show "ptr v n x \<noteq> ptr v m y" using a y unfolding apart_def by metis
  qed
  show P: "ptr v' m x = ptr v m x" if "in_range x" for x
    by (rule ptr_cong [OF keep that])
  show "file_ok v' m" using m P E(4) unfolding file_ok_def by metis
  show "apart v' n' m" unfolding apart_def
  proof (intro allI impI, elim conjE)
    fix x y
    assume xy: "in_range x" "in_range y" "ptr v' n' x \<noteq> 0"
    show "ptr v' n' x \<noteq> ptr v' m y"
    proof (cases "ptr v n x = 0")
      case True
      show ?thesis
      proof
        assume "ptr v' n' x = ptr v' m y"
        then have "ptr v' n' x = ptr v m y" using P xy by simp
        then show False using E(6) [OF xy(1) True xy(3)] file_ok_allocated [OF m xy(2)] xy(3) by metis
      qed
    next
      case False
      then show ?thesis using E(5) [OF xy(1) False] P [OF xy(2)] a xy unfolding apart_def by metis
    qed
  qed
  show "byte_at v' m i = byte_at v m i" if "i < MAX_FILE_BYTES"
    using P [OF node_of_byte [OF that]] keep [OF node_of_byte [OF that]] by (simp add: byte_at_def Let_def)
qed

lemma inode_at_extends:
  assumes "extends v n v' n'" and "layout N (v_sb v)" and "in_table (v_sb v) i"
  shows "inode_at v' i = inode_at v i"
  using extendsD(1,8) [OF assms(1)] inode_block_not_data [OF assms(2,3)]
  by (simp add: inode_at_def same_globals_def)

lemma in_table_nonzero: "in_table b i \<Longrightarrow> i \<noteq> 0"
  by (simp add: in_table_def)

lemma apart_put_inode:
  assumes "good N v" and "in_table (v_sb v) i" and "file_ok v n" and "file_ok v m" and "apart v n m"
  shows "apart (put_inode i y v) n m"
  using assms(5) ptr_put_inode [OF assms(1-3)] ptr_put_inode [OF assms(1,2,4)] unfolding apart_def by metis

lemma apart_size [simp]: "apart v (n\<lparr>i_size := s\<rparr>) m = apart v n m" "apart v n (m\<lparr>i_size := s\<rparr>) = apart v n m"
  by (simp_all add: apart_def)

text \<open>A file is extended and its inode written back: the file itself, and all the others.\<close>

lemma files_update:
  fixes s :: u32
  assumes F: "files_ok N v I" and i: "i \<in> I" and e: "extends v (inode_at v i) v1 n1" and G: "good N v1"
  defines "v' \<equiv> put_inode i (n1\<lparr>i_size := s\<rparr>) v1"
  shows "inode_at v' i = n1\<lparr>i_size := s\<rparr>"
    and "files_ok N v' I" and "same_globals v v'"
    and "k < MAX_FILE_BYTES \<Longrightarrow> byte_at v' (inode_at v' i) k = byte_at v1 n1 k"
    and "in_range x \<Longrightarrow> ptr v' (inode_at v' i) x = ptr v1 n1 x"
    and "j \<in> I \<Longrightarrow> j \<noteq> i \<Longrightarrow> inode_at v' j = inode_at v j"
    and "j \<in> I \<Longrightarrow> j \<noteq> i \<Longrightarrow> k < MAX_FILE_BYTES \<Longrightarrow> byte_at v' (inode_at v' j) k = byte_at v (inode_at v j) k"
    and "j \<in> I \<Longrightarrow> j \<noteq> i \<Longrightarrow> in_range x \<Longrightarrow> ptr v' (inode_at v' j) x = ptr v (inode_at v j) x"
proof -
  have L: "layout N (v_sb v)" and good: "good N v" using F by (simp_all add: files_ok_def goodD)
  have sb: "v_sb v1 = v_sb v" using extendsD(1) [OF e] by (simp add: same_globals_def)
  have tab: "in_table (v_sb v) j" "in_table (v_sb v1) j" and fok: "file_ok v (inode_at v j)" if "j \<in> I" for j
    using that F sb by (simp_all add: files_ok_def)
  note ok1 = extendsD(3) [OF e]
  have w: "wf_inode (n1\<lparr>i_size := s\<rparr>)" using ok1 by (simp add: file_ok_def wf_inode_def)
  have len: "length (blk v1 (inode_block (v_sb v1) i)) = 512"
    using inode_block_not_data(3) [OF goodD(1) [OF G] tab(2) [OF i]] goodD(2) [OF G] by (simp add: sized_def)
  have at: "inode_at v' j = (if j = i then n1\<lparr>i_size := s\<rparr> else inode_at v j)" if "j \<in> I" for j
    using inode_at_put_inode [OF in_table_nonzero [OF tab(1) [OF i]] in_table_nonzero [OF tab(1) [OF that]] w len]
      inode_at_extends [OF e L tab(1) [OF that]] by (simp add: v'_def)
  then show "inode_at v' i = n1\<lparr>i_size := s\<rparr>" using i by simp
  show "inode_at v' j = inode_at v j" if "j \<in> I" "j \<noteq> i" using at that by simp
  have good': "good N v'" unfolding v'_def by (rule good_put_inode [OF G tab(2) [OF i] w])
  have ap: "apart v (inode_at v i) (inode_at v j)" if "j \<in> I" "j \<noteq> i" for j
    using F i that by (auto simp: files_ok_def)
  note other = other_file [OF e fok ap L]
  note put = file_ok_put_inode [OF G tab(2) [OF i]] ptr_put_inode [OF G tab(2) [OF i]]
    byte_at_put_inode [OF G tab(2) [OF i]] apart_put_inode [OF G tab(2) [OF i]]
  have ok': "file_ok v' (inode_at v' j)" if j: "j \<in> I" for j
  proof (cases "j = i")
    case True
    then show ?thesis using at [OF j] put(1) [OF ok1] by (simp add: v'_def)
  next
    case False
    then show ?thesis using at [OF j] put(1) [OF other(2) [OF j j False]] by (simp add: v'_def)
  qed
  have ap_i: "apart v' (inode_at v' i) (inode_at v' j)" if j: "j \<in> I" "j \<noteq> i" for j
    using at [OF j(1)] at [OF i] j put(4) [OF ok1 other(2) [OF j(1) j] other(3) [OF j(1) j]]
    by (simp add: v'_def)
  have ap_j: "apart v' (inode_at v' j) (inode_at v' k)" if j: "j \<in> I" "j \<noteq> i" and k: "k \<in> I" "k \<noteq> i" and "j \<noteq> k" for j k
  proof -
    have "apart v (inode_at v j) (inode_at v k)" using F j k that by (auto simp: files_ok_def)
    then have "apart v1 (inode_at v j) (inode_at v k)"
      using other(1) [OF j(1) j] other(1) [OF k(1) k] unfolding apart_def by metis
    then show ?thesis
      using at [OF j(1)] at [OF k(1)] j k put(4) [OF other(2) [OF j(1) j] other(2) [OF k(1) k]]
      by (simp add: v'_def)
  qed
  show "files_ok N v' I"
    unfolding files_ok_def using good' ok' ap_i ap_j apart_sym tab sb by (simp add: v'_def) (metis v'_def)
  show "same_globals v v'" using extendsD(1) [OF e] by (simp add: same_globals_def v'_def)
  show "byte_at v' (inode_at v' i) k = byte_at v1 n1 k" if "k < MAX_FILE_BYTES"
    using at [OF i] put(3) [OF ok1 that] by (simp add: v'_def)
  show "ptr v' (inode_at v' i) x = ptr v1 n1 x" if "in_range x"
    using at [OF i] put(2) [OF ok1 that] by (simp add: v'_def)
  show "byte_at v' (inode_at v' j) k = byte_at v (inode_at v j) k" if "j \<in> I" "j \<noteq> i" "k < MAX_FILE_BYTES"
    using at [OF that(1)] that put(3) [OF other(2) [OF that(1) that(1,2)] that(3)]
      other(4) [OF that(1) that(1,2,3)] by (simp add: v'_def)
  show "ptr v' (inode_at v' j) x = ptr v (inode_at v j) x" if "j \<in> I" "j \<noteq> i" "in_range x"
    using at [OF that(1)] that put(2) [OF other(2) [OF that(1) that(1,2)] that(3)]
      other(1) [OF that(1) that(1,2,3)] by (simp add: v'_def)
qed

section \<open>Writing\<close>

definition open_on :: "vol \<Rightarrow> int \<Rightarrow> u32 \<Rightarrow> bool" where
  "open_on v fd i \<longleftrightarrow> 0 \<le> fd \<and> fd < 32 \<and> used (v_fds v ! nat fd) \<noteq> 0 \<and> fd_inode (v_fds v ! nat fd) = i"

text \<open>The bytes \<open>data\<close> went into the file \<open>i\<close> at position \<open>off\<close>, and nothing else happened to it.\<close>

definition data_written :: "vol \<Rightarrow> u32 \<Rightarrow> nat \<Rightarrow> bytes \<Rightarrow> vol \<Rightarrow> bool" where
  "data_written v i off data v' \<longleftrightarrow>
     (let n = inode_at v i; n' = inode_at v' i in
       (\<forall>k < MAX_FILE_BYTES. byte_at v' n' k = overwrite off data (byte_at v n) k) \<and>
       (\<forall>k. off \<le> k \<and> k < off + length data \<longrightarrow> mapped v' n' k) \<and>
       (\<forall>k. mapped v n k \<longrightarrow> mapped v' n' k) \<and>
       unat (i_size n') = max (unat (i_size n)) (off + length data) \<and>
       mode n' = mode n \<and> links_count n' = links_count n)"

definition others_kept :: "u32 set \<Rightarrow> vol \<Rightarrow> u32 \<Rightarrow> vol \<Rightarrow> bool" where
  "others_kept I v i v' \<longleftrightarrow>
     (\<forall>j\<in>I. j \<noteq> i \<longrightarrow> inode_at v' j = inode_at v j \<and>
       (\<forall>k < MAX_FILE_BYTES. byte_at v' (inode_at v' j) k = byte_at v (inode_at v j) k))"

lemma volume_full_put_inode:
  "layout N (v_sb v) \<Longrightarrow> in_table (v_sb v) i \<Longrightarrow> volume_full (put_inode i x v) = volume_full v"
  by (simp add: volume_full_def allocated_put_inode)

lemma mapped_ptr: "(\<And>x. in_range x \<Longrightarrow> ptr v' n' x = ptr v n x) \<Longrightarrow> mapped v' n' k = mapped v n k"
  using node_of_byte [of k] by (auto simp: mapped_def)

lemma unat_max_size:
  assumes "unat off + unat w < 2 ^ 32"
  shows "unat (if s < off + w then off + w else s :: u32) = max (unat s) (unat off + unat w)"
proof -
  have "unat (off + w) = unat off + unat w" using assms by (simp add: unat_word_ariths)
  then show ?thesis by (auto simp: word_less_nat_alt)
qed

lemma sint_word_small: "unat (x :: u32) < 2 ^ 31 \<Longrightarrow> int (unat x) = sint x"
  by (simp add: sint_small)

context fs_store begin

text \<open>From the outcome of the loop and the write of the inode to the files.\<close>

lemma wrote_files:
  assumes F: "files_ok N v I" and i: "i \<in> I" and W: "wrote N v (inode_at v i) buffer (unat sz) (unat offset) 0 (unat w) v1 n1"
    and fit: "unat offset + unat sz < 2 ^ 32" "unat sz \<le> length buffer"
  defines "s \<equiv> (if i_size n1 < offset + w then offset + w else i_size n1)"
  defines "v' \<equiv> put_inode i (n1\<lparr>i_size := s\<rparr>) v1"
  shows "files_ok N v' I \<and> same_globals v v' \<and> data_written v i (unat offset) (take (unat w) buffer) v' \<and>
    others_kept I v i v' \<and> (unat w = unat sz \<or> no_room v' (inode_at v' i) (unat offset + unat w))"
proof -
  note W = W [unfolded wrote_def]
  have G: "good N v1" and e: "extends v (inode_at v i) v1 n1" and le: "unat w \<le> unat sz" using W by auto
  note U = files_update [OF F i e G, where s = s, folded v'_def]
  have attr: "mode n1 = mode (inode_at v i)" "i_size n1 = i_size (inode_at v i)"
    "links_count n1 = links_count (inode_at v i)"
    using extendsD(2) [OF e] by (simp_all add: same_attributes_def)
  have ch: "chunk 0 (unat w) buffer = take (unat w) buffer" by (simp add: chunk_def)
  have len: "length (take (unat w) buffer) = unat w" using le fit by simp
  have size: "unat s = max (unat (i_size n1)) (unat offset + unat w)"
    unfolding s_def by (rule unat_max_size) (use le fit in simp)
  have m: "mapped v' (inode_at v' i) k = mapped v1 n1 k" for k
    by (rule mapped_ptr) (rule U(5))
  have "data_written v i (unat offset) (take (unat w) buffer) v'"
    using W U(4) m mapped_extends [OF e] len size attr
    unfolding data_written_def Let_def by (simp add: U(1) ch)
  moreover have "others_kept I v i v'" using U(6,7) by (simp add: others_kept_def)
  moreover have "volume_full v' = volume_full v1"
  proof -
    have "in_table (v_sb v1) i"
      using F i extendsD(1) [OF e] by (simp add: files_ok_def same_globals_def)
    then show ?thesis unfolding v'_def by (rule volume_full_put_inode [OF goodD(1) [OF G]])
  qed
  then have "no_room v' (inode_at v' i) k = no_room v1 n1 k" for k using m by (simp add: no_room_def)
  ultimately show ?thesis using U(2,3) W by simp
qed

lemma at_round_start:
  assumes "0 < unat sz" and "unat offset + unat sz < 2 ^ 32"
  shows "at_round (offset div 512) sz offset (offset div 512) 0 (unat offset)"
    and "unat offset div 512 + rounds (offset div 512) ((offset + sz - 1) div 512) =
      Suc ((unat offset + unat sz - 1) div 512)"
proof -
  show "at_round (offset div 512) sz offset (offset div 512) 0 (unat offset)"
    using assms by (simp add: at_round_def unat_div)
  have u: "unat (offset + sz) = unat offset + unat sz" using assms by (simp add: unat_word_ariths)
  then have "offset + sz \<noteq> 0" using assms by (metis add_is_0 less_nat_zero_code unat_0)
  then have last: "unat ((offset + sz - 1) div 512) = (unat offset + unat sz - 1) div 512"
    using u by (simp add: unat_div unat_minus_one)
  have le: "unat offset div 512 \<le> (unat offset + unat sz - 1) div 512"
    using assms by (intro div_le_mono) linarith
  then have "offset div 512 \<le> (offset + sz - 1) div 512" using last by (simp add: word_le_nat_alt unat_div)
  then show "unat offset div 512 + rounds (offset div 512) ((offset + sz - 1) div 512) =
      Suc ((unat offset + unat sz - 1) div 512)"
    using last le by (simp add: rounds_def unat_minus unat_div)
qed

lemma runs_ipo_fs_write:
  assumes F: "files_ok N v I" and i: "i \<in> I" and op: "open_on v fd i"
    and sz: "0 < unat sz" "unat sz < 2 ^ 31" and fit: "unat offset + unat sz < 2 ^ 32" "unat sz \<le> length buffer"
  shows "\<exists>w v'. runs v (ipo_fs_write io fd buffer sz offset) (int w) v' \<and> w \<le> unat sz \<and>
    files_ok N v' I \<and> same_globals v v' \<and> data_written v i (unat offset) (take w buffer) v' \<and>
    others_kept I v i v' \<and> (w = unat sz \<or> no_room v' (inode_at v' i) (unat offset + w))"
proof -
  have G: "good N v" and tab: "in_table (v_sb v) i" and ok: "file_ok v (inode_at v i)"
    using F i by (simp_all add: files_ok_def)
  note st = at_round_start [OF sz(1) fit(1)]
  let ?m = "rounds (offset div 512) ((offset + sz - 1) div 512)"
  obtain w v1 n1 where
    loop: "\<And>tmp. length tmp = 512 \<Longrightarrow> runs v (write_blocks io (offset div 512) sz offset buffer
      (rounds (offset div 512) ((offset + sz - 1) div 512)) (offset div 512) (inode_at v i) tmp 0) (w, n1) v1"
    and W: "wrote N v (inode_at v i) buffer (unat sz) (unat offset) 0 (unat w) v1 n1"
    using runs_write_blocks [OF G ok st(1) fit(2) st(2)] by auto
  define s where "s = (if i_size n1 < offset + w then offset + w else i_size n1)"
  have e: "extends v (inode_at v i) v1 n1" and le: "unat w \<le> unat sz" using W by (simp_all add: wrote_def)
  have G1: "good N v1" using W by (simp add: wrote_def)
  have tab1: "in_table (v_sb v1) i" using tab extendsD(1) [OF e] by (simp add: same_globals_def)
  have wf: "wf_inode (n1\<lparr>i_size := s\<rparr>)" using extendsD(3) [OF e] by (simp add: file_ok_def wf_inode_def)
  have eq: "(if i_size n1 < offset + w then n1\<lparr>i_size := offset + w\<rparr> else n1) = n1\<lparr>i_size := s\<rparr>"
    by (simp add: s_def)
  have fd: "\<not> (fd < 0 \<or> int IPO_MAX_FDS \<le> fd)" "used (v_fds v ! nat fd) \<noteq> 0" "fd_inode (v_fds v ! nat fd) = i"
    using op by (simp_all add: open_on_def)
  have "sint w = int (unat w)" using le sz(2) by (intro sint_small) simp
  then have "runs v (ipo_fs_write io fd buffer sz offset) (int (unat w)) (put_inode i (n1\<lparr>i_size := s\<rparr>) v1)"
    unfolding ipo_fs_write_def if_not_P [OF fd(1)]
    by (intro evals_bind [OF runs_fds])
       (simp only: fd if_False, intro evals_bind [OF runs_read_inode [OF tab goodD(1) [OF G]]],
        auto simp: Let_def eq intro!: runs_uninit evals_bind [OF loop]
          evals_bind [OF runs_write_inode [OF tab1 goodD(1) [OF G1] wf]] evals_return evals_cong [OF evals_return])
  then show ?thesis using wrote_files [OF F i W fit] le unfolding s_def by blast
qed

end

section \<open>Reading\<close>

context fs_store begin

lemma runs_ipo_fs_read:
  assumes F: "files_ok N v I" and i: "i \<in> I" and op: "open_on v fd i"
    and fit: "unat offset + unat sz < 2 ^ 32" and sz: "0 < unat sz" and off: "unat offset < unat (i_size (inode_at v i))"
  defines "len \<equiv> min (unat sz) (unat (i_size (inode_at v i)) - unat offset)"
  assumes len: "len < 2 ^ 31" "len \<le> length buffer"
    and m: "\<And>k. unat offset \<le> k \<Longrightarrow> k < unat offset + len \<Longrightarrow> mapped v (inode_at v i) k"
  shows "runs v (ipo_fs_read io fd buffer sz offset)
    (int len, patch 0 (contents v (inode_at v i) (unat offset) len) buffer) v"
proof -
  let ?n = "inode_at v i"
  have G: "good N v" and tab: "in_table (v_sb v) i" and ok: "file_ok v ?n"
    using F i by (simp_all add: files_ok_def)
  define l where "l = (if i_size ?n < offset + sz then i_size ?n - offset else sz)"
  have u: "unat (offset + sz) = unat offset + unat sz" using fit by (simp add: unat_word_ariths)
  have d: "unat (i_size ?n - offset) = unat (i_size ?n) - unat offset"
    using off by (intro unat_minus) (simp add: word_le_nat_alt)
  have l: "unat l = len" unfolding l_def len_def using off by (auto simp: word_less_nat_alt u d)
  have l0: "0 < unat l" using l sz off by (simp add: len_def)
  have lfit: "unat offset + unat l < 2 ^ 32" using l fit by (simp add: len_def)
  note st = at_round_start [OF l0 lfit]
  have m': "mapped v ?n k" if "unat offset \<le> k" "k < unat offset + unat l" for k using m that l by simp
  have bl: "unat l \<le> length buffer" using l len(2) by simp
  have loop: "runs v (read_blocks io (offset div 512) l offset (rounds (offset div 512) ((offset + l - 1) div 512))
      (offset div 512) ?n tmp 0 buffer) (l, patch 0 (contents v ?n (unat offset) len) buffer) v"
    if "length tmp = 512" for tmp
    using runs_read_blocks [OF G ok st(1) bl that st(2) m'] l by simp
  have fd: "\<not> (fd < 0 \<or> int IPO_MAX_FDS \<le> fd)" "used (v_fds v ! nat fd) \<noteq> 0" "fd_inode (v_fds v ! nat fd) = i"
    using op by (simp_all add: open_on_def)
  have no: "\<not> i_size ?n \<le> offset" using off by (simp add: word_le_nat_alt)
  have r: "sint l = int len" using sint_small [of l] l len(1) by simp
  show ?thesis
    unfolding ipo_fs_read_def if_not_P [OF fd(1)]
    by (intro evals_bind [OF runs_fds])
       (simp only: fd if_False, intro evals_bind [OF runs_read_inode [OF tab goodD(1) [OF G]]],
        auto simp: Let_def no l_def [symmetric] r intro!: runs_uninit evals_bind [OF loop] evals_cong [OF evals_return])
qed

lemma runs_ipo_fs_read_end:
  assumes F: "files_ok N v I" and i: "i \<in> I" and op: "open_on v fd i" and off: "i_size (inode_at v i) \<le> offset"
  shows "runs v (ipo_fs_read io fd buffer sz offset) (0, buffer) v"
proof -
  have G: "good N v" and tab: "in_table (v_sb v) i" using F i by (simp_all add: files_ok_def)
  have fd: "\<not> (fd < 0 \<or> int IPO_MAX_FDS \<le> fd)" "used (v_fds v ! nat fd) \<noteq> 0" "fd_inode (v_fds v ! nat fd) = i"
    using op by (simp_all add: open_on_def)
  show ?thesis
    unfolding ipo_fs_read_def if_not_P [OF fd(1)]
    by (intro evals_bind [OF runs_fds])
       (simp only: fd if_False, intro evals_bind [OF runs_read_inode [OF tab goodD(1) [OF G]]],
        simp add: off evals_return)
qed

end

section \<open>Writing nothing\<close>

text \<open>
  With \<open>size = 0\<close> at offset 0 the last block is computed from \<open>0 - 1\<close>, so the loop runs over all
  blocks and allocates every one it can.
\<close>

definition all_mapped :: "vol \<Rightarrow> ipo_inode \<Rightarrow> nat \<Rightarrow> bool" where
  "all_mapped v n k \<longleftrightarrow> (\<forall>j < k. ptr v n (node_of j) \<noteq> 0)"

lemma all_mapped_grow:
  "grow X v n v' n' \<Longrightarrow> k \<le> MAX_FILE_BLOCKS \<Longrightarrow> all_mapped v n k \<Longrightarrow> all_mapped v' n' k"
  using growD(4) [of X v n v' n'] node_of_in_range by (simp add: all_mapped_def)

context fs_store begin

lemma runs_write_blocks_empty:
  assumes "good N v" and "file_ok v n" and "unat b = k" and "k \<le> MAX_FILE_BLOCKS" and "all_mapped v n k"
    and "MAX_FILE_BLOCKS < k + m" and "k + m < 2 ^ 32"
  shows "\<exists>v' n'. (\<forall>tmp. length tmp = 512 \<longrightarrow> runs v (write_blocks io 0 0 0 buffer m b n tmp 0) (0, n') v') \<and>
    good N v' \<and> extends v n v' n' \<and> (volume_full v' \<or> all_mapped v' n' MAX_FILE_BLOCKS)"
  using assms
proof (induction m arbitrary: v n b k)
  case (Suc m)
  note G = Suc.prems(1) and ok = Suc.prems(2) and b = Suc.prems(3) and am = Suc.prems(5)
  show ?case
  proof (cases "k < MAX_FILE_BLOCKS")
    case False
    then have k: "k = MAX_FILE_BLOCKS" using Suc.prems(4) by simp
    have "runs v (write_blocks io 0 0 0 buffer (Suc m) b n tmp 0) (0, n) v" for tmp
      using runs_get_data_block_beyond [of b v n True] k b
      by (auto intro!: evals_return elim!: evals_bind)
    then show ?thesis using G extends_refl [OF ok] am k by blast
  next
    case True
    from get_data_block_grows [OF G ok, of b] True b obtain r v1 n1 where
      get: "runs v (get_data_block_for_inode io n b True) (r, n1) v1" "good N v1"
        "grow (path_to (node_of k)) v n v1 n1" "got v1 n1 (node_of k) r"
      by (auto simp: maps_to_def)
    note ok1 = grow_file_ok [OF get(3)] and e1 = grow_extends [OF get(3)]
    show ?thesis
    proof (cases "ptr v1 n1 (node_of k) = 0")
      case z: True
      then have "r = -1" "volume_full v1" using get(4) by (simp_all add: got_def)
      then have "runs v (write_blocks io 0 0 0 buffer (Suc m) b n tmp 0) (0, n1) v1" for tmp
        by (auto intro!: evals_return evals_bind [OF get(1)])
      then show ?thesis using get(2) e1 \<open>volume_full v1\<close> by blast
    next
      case p: False
      let ?q = "ptr v1 n1 (node_of k)"
      have r: "r = int (unat ?q)" using get(4) p by (simp add: got_def)
      have al: "allocated v1 ?q" by (rule file_ok_allocated [OF ok1 node_of_in_range [OF True] p])
      note q = allocated_length(1,2) [OF get(2) al]
      have o0: "round_offset b 0 0 = 0" "round_length 0 0 0 = 0" by (simp_all add: round_offset_def round_length_def)
      have w: "runs v1 (block_write io ?q (blk v1 ?q)) True v1"
        using store_write [OF q(1), of "blk v1 ?q" v1] q(2) by simp
      have one: "runs v (write_blocks io 0 0 0 buffer (Suc m) b n tmp 0) res v'"
        if "runs v1 (write_blocks io 0 0 0 buffer m (b + 1) n1 (blk v1 ?q) 0) res v'" and "length tmp = 512" for res v' tmp
        using that r
        by (auto simp: Let_def o0 chunk_def intro!: evals_bind [OF get(1)] evals_bind [OF store_read [OF q(1)]]
          evals_bind [OF w])
      have b1: "unat (b + 1) = Suc k" using b Suc.prems(7) by (simp add: unat_word_ariths)
      have "all_mapped v1 n1 (Suc k)"
        using all_mapped_grow [OF get(3) _ am] True p unfolding all_mapped_def less_Suc_eq by (metis less_imp_le)
      from Suc.IH [OF get(2) ok1 b1 _ this] Suc.prems(6,7) True obtain v' n' where IH:
        "\<forall>tmp. length tmp = 512 \<longrightarrow> runs v1 (write_blocks io 0 0 0 buffer m (b + 1) n1 tmp 0) (0, n') v'"
        "good N v'" "extends v1 n1 v' n'" "volume_full v' \<or> all_mapped v' n' MAX_FILE_BLOCKS" by auto
      show ?thesis using one IH extends_trans [OF e1 IH(3)] q(2) by blast
    qed
  qed
qed simp

lemma runs_ipo_fs_write_empty:
  assumes F: "files_ok N v I" and i: "i \<in> I" and op: "open_on v fd i"
  shows "\<exists>v'. runs v (ipo_fs_write io fd buffer 0 0) 0 v' \<and> files_ok N v' I \<and>
    (volume_full v' \<or> all_mapped v' (inode_at v' i) MAX_FILE_BLOCKS)"
proof -
  have G: "good N v" and tab: "in_table (v_sb v) i" and ok: "file_ok v (inode_at v i)"
    using F i by (simp_all add: files_ok_def)
  have m: "rounds (0 div 512) ((0 + 0 - 1) div 512) = 8388608" by (simp add: rounds_def)
  obtain v1 n1 where
    loop: "\<And>tmp. length tmp = 512 \<Longrightarrow> runs v (write_blocks io 0 0 0 buffer 8388608 0 (inode_at v i) tmp 0) (0, n1) v1"
    and G1: "good N v1" and e: "extends v (inode_at v i) v1 n1"
    and full: "volume_full v1 \<or> all_mapped v1 n1 MAX_FILE_BLOCKS"
    using runs_write_blocks_empty [OF G ok, of 0 0 8388608 buffer] by (auto simp: all_mapped_def)
  have tab1: "in_table (v_sb v1) i" using tab extendsD(1) [OF e] by (simp add: same_globals_def)
  have n1: "n1\<lparr>i_size := i_size n1\<rparr> = n1" by simp
  have wf: "wf_inode n1" using extendsD(3) [OF e] by (simp add: file_ok_def)
  note U = files_update [OF F i e G1, where s = "i_size n1", unfolded n1]
  have fd: "\<not> (fd < 0 \<or> int IPO_MAX_FDS \<le> fd)" "used (v_fds v ! nat fd) \<noteq> 0" "fd_inode (v_fds v ! nat fd) = i"
    using op by (simp_all add: open_on_def)
  have "runs v (ipo_fs_write io fd buffer 0 0) 0 (put_inode i n1 v1)"
    unfolding ipo_fs_write_def if_not_P [OF fd(1)]
    by (intro evals_bind [OF runs_fds])
       (simp only: fd if_False, intro evals_bind [OF runs_read_inode [OF tab goodD(1) [OF G]]],
        auto simp: Let_def m [simplified] intro!: runs_uninit evals_bind [OF loop]
          evals_bind [OF runs_write_inode [OF tab1 goodD(1) [OF G1] wf]] evals_return evals_cong [OF evals_return])
  moreover have "volume_full (put_inode i n1 v1) = volume_full v1"
    by (rule volume_full_put_inode [OF goodD(1) [OF G1] tab1])
  moreover have "all_mapped (put_inode i n1 v1) (inode_at (put_inode i n1 v1) i) MAX_FILE_BLOCKS =
      all_mapped v1 n1 MAX_FILE_BLOCKS"
    using U(5) node_of_in_range by (simp add: all_mapped_def)
  ultimately show ?thesis using U(2) full by auto
qed

end

end
