(* ===== verification/FsDemo.thy ===== *)
theory FsDemo imports FsFiles begin

text \<open>
  One small volume on the executable drive, used where a property is applied to a concrete
  state: twelve blocks, the root directory (inode 1) with two entries, the file \<open>a\<close>
  (inode 2) with two bytes, which descriptor 0 has open, and the application \<open>b\<close> (inode 3).
\<close>

definition demo_root :: ipo_inode where
  "demo_root = zero_inode\<lparr>mode := 1, i_size := 144, links_count := 2, direct := [4, 0, 0, 0, 0, 0]\<rparr>"

definition demo_file :: ipo_inode where
  "demo_file = zero_inode\<lparr>mode := 2, i_size := 2, links_count := 1, direct := [5, 0, 0, 0, 0, 0]\<rparr>"

definition demo_program :: ipo_inode where
  "demo_program = zero_inode\<lparr>mode := 2, i_size := 64, links_count := 1, direct := [6, 0, 0, 0, 0, 0]\<rparr>"

definition demo_app :: bytes where
  "demo_app = str ''IPO_B'' @ [0, 0, 0] @ [20, 0, 0, 0] @ [64, 0, 0, 0] @ replicate 47 0x90 @ [0xC3]"

definition demo_entry :: dir_entry where
  "demo_entry = \<lparr>d_inode = 2, d_type = 2, d_name_len = 1, d_reserved = [0, 0],
     d_name = str ''a'' @ replicate 63 0\<rparr>"

definition demo_entry_b :: dir_entry where
  "demo_entry_b = \<lparr>d_inode = 3, d_type = 2, d_name_len = 1, d_reserved = [0, 0],
     d_name = str ''b'' @ replicate 63 0\<rparr>"

definition demo_sb :: superblock where
  "demo_sb = \<lparr>magic = str ''IPO_FS'' @ [0, 0], fs_size_blocks = 12, block_size = 512, inode_count = 6,
     inode_bitmap_start = 1, block_bitmap_start = 2, inode_table_start = 3, data_blocks_start = 4\<rparr>"

definition demo_block :: "u32 \<Rightarrow> bytes" where
  "demo_block l =
     (if l = 0 then enc_superblock demo_sb @ replicate 476 0
      else if l = 1 then 7 # replicate 511 0
      else if l = 2 then 7 # replicate 511 0
      else if l = 3 then enc_inode demo_root @ enc_inode demo_file @ enc_inode demo_program @ replicate 284 0
      else if l = 4 then enc_dir_entry demo_entry @ enc_dir_entry demo_entry_b @ replicate 368 0
      else if l = 5 then str ''Hi'' @ replicate 510 0
      else if l = 6 then demo_app @ replicate 448 0
      else zero_block)"

definition demo_drive :: pio where
  "demo_drive = \<lparr>reg_count = 0, reg_lba0 = 0, reg_lba1 = 0, reg_lba2 = 0, reg_select = 0, phase = Idle,
     busy = 0, capacity = 12, platters = (\<lambda>_. demo_block)\<rparr>"

definition demo_fs :: "pio fs" where
  "demo_fs = \<lparr>sb = demo_sb, fs_start_lba = 0, fs_mounted = True,
     fds = \<lparr>used = 1, fd_inode = 2, fd_offset = 0, fd_flags = 0\<rparr> #
       replicate 31 \<lparr>used = 0, fd_inode = 0, fd_offset = 0, fd_flags = 0\<rparr>,
     ata = \<lparr>ata_devices = [], ata_device_count = 1, identify_buf = replicate 256 0, hw = demo_drive\<rparr>\<rparr>"

abbreviation (input) "demo_vol \<equiv> volume prompt 12 demo_fs"

lemma wf_demo [simp]: "wf_inode demo_root" "wf_inode demo_file" "wf_dir_entry demo_entry" "wf_superblock demo_sb"
  "wf_inode demo_program" "wf_dir_entry demo_entry_b"
  by (simp_all add: wf_inode_def demo_root_def demo_file_def demo_program_def zero_inode_def wf_dir_entry_def
      demo_entry_def demo_entry_b_def wf_superblock_def demo_sb_def)

lemma length_demo_app [simp]: "length demo_app = 64"
  by (simp add: demo_app_def)

lemma length_demo_block [simp]: "length (demo_block l) = 512"
  by (simp add: demo_block_def length_enc_inode length_enc_dir_entry length_enc_superblock)

lemma demo_attached: "attached prompt 12 demo_fs"
  by (simp add: attached_def demo_fs_def demo_drive_def prompt_def Let_def)

lemma demo_vol_simps [simp]:
  "v_sb demo_vol = demo_sb" "v_mounted demo_vol = True" "v_fds demo_vol = fds demo_fs"
  "blk demo_vol l = (if unat l < 12 then demo_block l else [])"
  by (simp_all add: volume_def demo_fs_def demo_drive_def prompt_def)

lemma demo_good: "good 12 demo_vol"
  by (simp add: good_def sized_def layout_def demo_sb_def data_block_count_def)

lemma demo_inode_1: "inode_at demo_vol 1 = demo_root"
proof -
  have "chunk 0 76 (enc_inode demo_root @ enc_inode demo_file @ enc_inode demo_program @ replicate 284 0) = enc_inode demo_root"
    by (simp add: chunk_def length_enc_inode)
  then show ?thesis
    by (simp add: inode_at_def inode_block_def inode_offset_def demo_sb_def demo_block_def dec_enc_inode)
qed

lemma demo_inode_2: "inode_at demo_vol 2 = demo_file"
proof -
  have "chunk 76 76 (enc_inode demo_root @ enc_inode demo_file @ enc_inode demo_program @ replicate 284 0) = enc_inode demo_file"
    by (simp add: chunk_def length_enc_inode)
  moreover have "inode_offset 2 = 76" "inode_block demo_sb 2 = 3"
    by (simp_all add: inode_offset_def inode_block_def demo_sb_def)
  ultimately show ?thesis by (simp add: inode_at_def demo_block_def dec_enc_inode)
qed

lemma demo_inode_3: "inode_at demo_vol 3 = demo_program"
proof -
  have "chunk 152 76 (enc_inode demo_root @ enc_inode demo_file @ enc_inode demo_program @ replicate 284 0) = enc_inode demo_program"
    by (simp add: chunk_def length_enc_inode)
  moreover have "inode_offset 3 = 152" "inode_block demo_sb 3 = 3"
    by (simp_all add: inode_offset_def inode_block_def demo_sb_def)
  ultimately show ?thesis by (simp add: inode_at_def demo_block_def dec_enc_inode)
qed

lemma demo_ptr:
  "in_range x \<Longrightarrow> ptr v demo_file x = (if x = Dir 0 then 5 else 0)"
  "in_range x \<Longrightarrow> ptr v demo_root x = (if x = Dir 0 then 4 else 0)"
  "in_range x \<Longrightarrow> ptr v demo_program x = (if x = Dir 0 then 6 else 0)"
  by (cases x; auto simp: demo_file_def demo_root_def demo_program_def zero_inode_def nth_Cons' less_Suc_eq numeral_eq_Suc)+

lemma demo_allocated: "allocated demo_vol 4" "allocated demo_vol 5" "allocated demo_vol 6"
  by (simp_all add: allocated_def data_block_def demo_sb_def bit_at_def bit_block_def bit_byte_def bit_pos_def demo_block_def)

lemma demo_file_ok: "file_ok demo_vol demo_root" "file_ok demo_vol demo_file" "file_ok demo_vol demo_program"
  by (auto simp: file_ok_def demo_ptr demo_allocated split: if_splits)

lemma demo_files_ok: "files_ok 12 demo_vol {1, 2, 3}"
proof -
  have "apart demo_vol demo_root demo_file" "apart demo_vol demo_root demo_program" "apart demo_vol demo_file demo_program"
    by (auto simp: apart_def demo_ptr split: if_splits)
  moreover have "in_table demo_sb 1" "in_table demo_sb 2" "in_table demo_sb 3" by (simp_all add: in_table_def demo_sb_def)
  ultimately show ?thesis
    using demo_good demo_file_ok apart_sym by (auto simp: files_ok_def demo_inode_1 demo_inode_2 demo_inode_3)
qed

lemma demo_open: "open_on demo_vol 0 2"
proof -
  have "used (fds demo_fs ! 0) = 1" "fd_inode (fds demo_fs ! 0) = 2" by (simp_all add: demo_fs_def)
  then show ?thesis by (simp add: open_on_def)
qed

end
