(* ===== verification/FsProps.thy ===== *)
theory FsProps imports FsDemo begin

text \<open>
  The properties of the block store, the allocators, the block map and the contents of files,
  stated of runs of the C functions over a conforming drive, each with an application to the
  demonstration volume.
\<close>

context ata_drive begin

lemma is_store: "fs_store io (attached view N) (volume view N) N"
  by (rule fs_store_axioms)

end

lemmas drive_store = ata_drive.is_store

lemma evals_attached:
  assumes "evals (attached view N) (volume view N) v m r v'" and "attached view N s" and "volume view N s = v"
  shows "\<exists>s'. run_state m s = (r, s') \<and> attached view N s' \<and> volume view N s' = v'"
  using evalsD [OF assms(1)] assms(2,3) by auto

lemma write_run:
  assumes "ata_drive io view" and "attached view N s" and "v = volume view N s"
    and "files_ok N v I" and "i \<in> I" and "open_on v fd i"
    and "0 < unat sz" and "unat sz < 2 ^ 31" and "unat offset + unat sz < 2 ^ 32" and "unat sz \<le> length buffer"
  shows "\<exists>w s'. run_state (ipo_fs_write io fd buffer sz offset) s = (int w, s') \<and> w \<le> unat sz \<and>
    attached view N s' \<and> files_ok N (volume view N s') I \<and> same_globals v (volume view N s') \<and>
    data_written v i (unat offset) (take w buffer) (volume view N s') \<and>
    others_kept I v i (volume view N s') \<and>
    (w = unat sz \<or> no_room (volume view N s') (inode_at (volume view N s') i) (unat offset + w))"
proof -
  from fs_store.runs_ipo_fs_write [OF drive_store [OF assms(1)] assms(4-10)] obtain w v' where
    run: "evals (attached view N) (volume view N) v (ipo_fs_write io fd buffer sz offset) (int w) v'"
    and rest: "w \<le> unat sz" "files_ok N v' I" "same_globals v v'" "data_written v i (unat offset) (take w buffer) v'"
      "others_kept I v i v'" "w = unat sz \<or> no_room v' (inode_at v' i) (unat offset + w)" by blast
  from evals_attached [OF run assms(2)] assms(3) show ?thesis using rest by auto
qed

text \<open>
  C1. A write of at least one byte to an open file stores a prefix of the buffer at the offset
  and nothing else: the bytes of the file before and after it, its mode and its links are kept,
  its size is the larger of the old size and the end of the written bytes, every other file of
  the volume is unchanged, and the volume stays well formed. Fewer bytes than were asked for are
  written only when the next position has no block and no free block is left or the position is
  beyond the largest file.
\<close>

theorem ipo_fs_write_correct:
  assumes "ata_drive io view" and "attached view N s" and "v = volume view N s"
    and "files_ok N v I" and "i \<in> I" and "open_on v fd i"
    and "0 < unat sz" and "unat sz < 2 ^ 31" and "unat offset + unat sz < 2 ^ 32" and "unat sz \<le> length buffer"
  shows "\<exists>w s'. run_state (ipo_fs_write io fd buffer sz offset) s = (int w, s') \<and> w \<le> unat sz \<and>
    attached view N s' \<and> files_ok N (volume view N s') I \<and> same_globals v (volume view N s') \<and>
    data_written v i (unat offset) (take w buffer) (volume view N s') \<and>
    others_kept I v i (volume view N s') \<and>
    (w = unat sz \<or> no_room (volume view N s') (inode_at (volume view N s') i) (unat offset + w))"
  by (rule write_run [OF assms])

theorem ipo_fs_write_correct_witness:
  "\<exists>w s'. run_state (ipo_fs_write pio_io 0 (str ''Hello'') 5 0) demo_fs = (int w, s') \<and> w \<le> 5 \<and>
    files_ok 12 (volume prompt 12 s') {1, 2, 3}"
  using ipo_fs_write_correct [OF pio.ata_drive_axioms demo_attached refl demo_files_ok _ demo_open, of 5 0 "str ''Hello''"]
  by auto

lemma read_run:
  assumes "ata_drive io view" and "attached view N s" and "v = volume view N s"
    and "files_ok N v I" and "i \<in> I" and "open_on v fd i"
    and "unat offset + unat sz < 2 ^ 32" and "0 < unat sz" and "unat offset < unat (i_size (inode_at v i))"
    and "len = min (unat sz) (unat (i_size (inode_at v i)) - unat offset)" and "len < 2 ^ 31" and "len \<le> length buffer"
    and "\<And>k. unat offset \<le> k \<Longrightarrow> k < unat offset + len \<Longrightarrow> mapped v (inode_at v i) k"
  shows "\<exists>s'. run_state (ipo_fs_read io fd buffer sz offset) s =
      ((int len, contents v (inode_at v i) (unat offset) len @ drop len buffer), s') \<and>
    attached view N s' \<and> volume view N s' = v"
proof -
  note run = fs_store.runs_ipo_fs_read [OF drive_store [OF assms(1)] assms(4-9), folded assms(10), OF assms(11-13)]
  show ?thesis using evals_attached [OF run assms(2) assms(3) [symmetric]] by (simp add: patch_def)
qed

text \<open>
  C29. Reading inside a file returns its contents: from an offset below the size,
  \<open>ipo_fs_read\<close> stores the bytes up to the end of the request or of the file at the start of the
  buffer, returns their number and changes nothing, provided the region has blocks.
\<close>

theorem ipo_fs_read_correct:
  assumes "ata_drive io view" and "attached view N s" and "v = volume view N s"
    and "files_ok N v I" and "i \<in> I" and "open_on v fd i"
    and "unat offset + unat sz < 2 ^ 32" and "0 < unat sz" and "unat offset < unat (i_size (inode_at v i))"
    and "len = min (unat sz) (unat (i_size (inode_at v i)) - unat offset)" and "len < 2 ^ 31" and "len \<le> length buffer"
    and "\<And>k. unat offset \<le> k \<Longrightarrow> k < unat offset + len \<Longrightarrow> mapped v (inode_at v i) k"
  shows "\<exists>s'. run_state (ipo_fs_read io fd buffer sz offset) s =
      ((int len, contents v (inode_at v i) (unat offset) len @ drop len buffer), s') \<and>
    attached view N s' \<and> volume view N s' = v"
  by (rule read_run [OF assms])

lemma demo_mapped: "k < 512 \<Longrightarrow> mapped demo_vol demo_file k"
  by (simp add: mapped_def node_of_def demo_file_def zero_inode_def)

lemma demo_contents: "contents demo_vol demo_file 0 2 = str ''Hi''"
  by (simp add: contents_def upt_rec byte_at_def Let_def node_of_def demo_file_def zero_inode_def demo_block_def)

theorem ipo_fs_read_correct_witness:
  "\<exists>s'. run_state (ipo_fs_read pio_io 0 [0, 0] 5 0) demo_fs = ((2, str ''Hi''), s')"
proof -
  have size: "unat (i_size (inode_at demo_vol 2)) = 2" by (simp add: demo_inode_2 demo_file_def)
  have m: "mapped demo_vol (inode_at demo_vol 2) k" if "k < unat (0 :: u32) + 2" for k
    using that by (simp add: demo_inode_2 demo_mapped)
  have "\<exists>s'. run_state (ipo_fs_read pio_io 0 [0, 0] 5 0) demo_fs =
      ((int 2, contents demo_vol (inode_at demo_vol 2) (unat (0 :: u32)) 2 @ drop 2 [0, 0]), s') \<and>
    attached prompt 12 s' \<and> volume prompt 12 s' = demo_vol"
    by (rule ipo_fs_read_correct [OF pio.ata_drive_axioms demo_attached refl demo_files_ok _ demo_open])
       (simp_all add: size m)
  then show ?thesis by (auto simp: demo_inode_2 demo_contents simp del: str_Cons)
qed

text \<open>
  C2. What was written is read back: after a write that stored the whole buffer, a read of the
  same number of bytes at the same offset of the same descriptor returns the buffer.
\<close>

theorem write_read_roundtrip:
  assumes "ata_drive io view" and "attached view N s" and "v = volume view N s"
    and "files_ok N v I" and "i \<in> I" and "open_on v fd i"
    and "0 < unat sz" and "unat sz < 2 ^ 31" and "unat offset + unat sz < 2 ^ 32" and "length data = unat sz"
    and "run_state (ipo_fs_write io fd data sz offset) s = (int (unat sz), s1)" and "length buffer = unat sz"
  shows "\<exists>s2. run_state (ipo_fs_read io fd buffer sz offset) s1 = ((int (unat sz), data), s2) \<and>
    attached view N s2 \<and> volume view N s2 = volume view N s1"
proof -
  let ?v = "volume view N s1" and ?n = "inode_at (volume view N s1) i"
  have le: "unat sz \<le> length data" using assms(10) by simp
  from write_run [OF assms(1-9) le] obtain w s' where
    run: "run_state (ipo_fs_write io fd data sz offset) s = (int w, s')" and W': "attached view N s'"
    "files_ok N (volume view N s') I" "same_globals v (volume view N s')"
    "data_written v i (unat offset) (take w data) (volume view N s')" by blast
  have "(int w, s') = (int (unat sz), s1)" by (rule trans [OF run [symmetric] assms(11)])
  then have "w = unat sz" "s' = s1" by (simp_all only: prod.inject of_nat_eq_iff)
  then have W: "attached view N s1" "files_ok N ?v I" "same_globals v ?v" "data_written v i (unat offset) data ?v"
    using W' assms(10) by simp_all
  have op: "open_on ?v fd i" using assms(6) W(3) by (simp add: open_on_def same_globals_def)
  have size: "unat offset + unat sz \<le> unat (i_size ?n)" and bytes: "\<And>k. k < 16518 * 512 \<Longrightarrow>
      byte_at ?v ?n k = overwrite (unat offset) data (byte_at v (inode_at v i)) k"
    and m: "\<And>k. unat offset \<le> k \<Longrightarrow> k < unat offset + unat sz \<Longrightarrow> mapped ?v ?n k"
    using W(4) assms(10) by (simp_all add: data_written_def Let_def)
  have "contents ?v ?n (unat offset) (unat sz) = data"
  proof (rule nth_equalityI)
    fix k
    assume "k < length (contents ?v ?n (unat offset) (unat sz))"
    then have k: "k < unat sz" by simp
    then have "unat offset + k < 16518 * 512" using m [of "unat offset + k"] by (simp add: mapped_def)
    then show "contents ?v ?n (unat offset) (unat sz) ! k = data ! k"
      using bytes k assms(10) by (simp add: contents_def overwrite_def)
  qed (simp add: assms(10))
  moreover have "unat sz = min (unat sz) (unat (i_size ?n) - unat offset)" "unat offset < unat (i_size ?n)"
    "unat sz \<le> length buffer" using size assms(7,12) by simp_all
  note read_run [OF assms(1) W(1) refl W(2) assms(5) op assms(9,7) this(2,1) assms(8) this(3) m]
  ultimately show ?thesis using assms(12) by simp
qed

text \<open>A write over bytes that have a block is complete.\<close>

lemma write_complete:
  assumes "data_written v i off (take w data) v'" and "w = n \<or> no_room v' (inode_at v' i) (off + w)" and "w \<le> n"
    and "\<And>k. off \<le> k \<Longrightarrow> k < off + n \<Longrightarrow> mapped v (inode_at v i) k"
  shows "w = n"
proof (rule ccontr)
  assume "w \<noteq> n"
  then have "mapped v (inode_at v i) (off + w)" "no_room v' (inode_at v' i) (off + w)" using assms(2-4) by auto
  then show False using assms(1) by (auto simp: data_written_def Let_def no_room_def)
qed

theorem write_read_roundtrip_witness:
  "\<exists>s1 s2. run_state (ipo_fs_write pio_io 0 (str ''Ok'') 2 0) demo_fs = (2, s1) \<and>
    run_state (ipo_fs_read pio_io 0 [0, 0] 2 0) s1 = ((2, str ''Ok''), s2)"
proof -
  from write_run [OF pio.ata_drive_axioms demo_attached refl demo_files_ok _ demo_open, of 2 0 "str ''Ok''"]
  obtain w s1 where run: "run_state (ipo_fs_write pio_io 0 (str ''Ok'') 2 0) demo_fs = (int w, s1)"
    and W: "data_written demo_vol 2 0 (take w (str ''Ok'')) (volume prompt 12 s1)" "w \<le> 2"
      "w = 2 \<or> no_room (volume prompt 12 s1) (inode_at (volume prompt 12 s1) 2) (0 + w)" by auto
  have "w = 2"
    by (rule write_complete [OF W(1,3,2)]) (simp add: demo_inode_2 demo_mapped)
  then have run: "run_state (ipo_fs_write pio_io 0 (str ''Ok'') 2 0) demo_fs = (int (unat (2 :: u32)), s1)"
    using run by simp
  have "\<exists>s2. run_state (ipo_fs_read pio_io 0 [0, 0] 2 0) s1 = ((int (unat (2 :: u32)), str ''Ok''), s2) \<and>
    attached prompt 12 s2 \<and> volume prompt 12 s2 = volume prompt 12 s1"
    by (rule write_read_roundtrip [OF pio.ata_drive_axioms demo_attached refl demo_files_ok _ demo_open _ _ _ _ run])
       simp_all
  then show ?thesis using run by auto
qed

text \<open>
  C37. Writing nothing is not harmless: a write of size 0 at offset 0, the case of an empty text,
  returns 0 but allocates blocks until the volume is full or every block of the file is there,
  because the last block number is computed from \<open>0 - 1\<close>.
\<close>

theorem empty_write_fills_volume:
  assumes "ata_drive io view" and "attached view N s" and "v = volume view N s"
    and "files_ok N v I" and "i \<in> I" and "open_on v fd i"
  shows "\<exists>s'. run_state (ipo_fs_write io fd buffer 0 0) s = (0, s') \<and> files_ok N (volume view N s') I \<and>
    (volume_full (volume view N s') \<or> all_mapped (volume view N s') (inode_at (volume view N s') i) 16518)"
proof -
  from fs_store.runs_ipo_fs_write_empty [OF drive_store [OF assms(1)] assms(4-6)] obtain v' where
    "evals (attached view N) (volume view N) v (ipo_fs_write io fd buffer 0 0) 0 v'" and
    rest: "files_ok N v' I" "volume_full v' \<or> all_mapped v' (inode_at v' i) MAX_FILE_BLOCKS" by blast
  from evals_attached [OF this(1) assms(2)] assms(3) show ?thesis using rest by auto
qed

theorem empty_write_fills_volume_witness:
  "\<exists>s'. run_state (ipo_fs_write pio_io 0 [] 0 0) demo_fs = (0, s') \<and>
    (volume_full (volume prompt 12 s') \<or> all_mapped (volume prompt 12 s') (inode_at (volume prompt 12 s') 2) 16518)"
  using empty_write_fills_volume [OF pio.ata_drive_axioms demo_attached refl demo_files_ok _ demo_open, of "[]"] by auto

section \<open>Blocks, bitmaps and inodes\<close>

text \<open>
  Setting a bit of a bitmap sets that bit and no other: after \<open>bitmap_set\<close>, \<open>bitmap_get\<close>
  returns the new value at the index and the value from before at every other index.
\<close>

theorem bitmap_set_get:
  assumes "ata_drive io view" and "attached view N s"
    and "unat (bit_block st i) < N" and "unat (bit_block st j) < N"
  shows "\<exists>s1 s2. run_state (bitmap_set io st i b) s = (True, s1) \<and> attached view N s1 \<and>
    run_state (bitmap_get io st j) s1 = ((if j = i then b else bit_at (volume view N s) st j), s2) \<and>
    volume view N s2 = volume view N s1"
proof -
  let ?v = "volume view N s"
  note st = drive_store [OF assms(1), of N]
  have len: "length (blk ?v (bit_block st i)) = 512" by (rule fs_store.store_length [OF st assms(2,3)])
  from evals_attached [OF fs_store.runs_bitmap_set [OF st assms(3)] assms(2) refl] obtain s1 where
    1: "run_state (bitmap_set io st i b) s = (True, s1)" "attached view N s1" "volume view N s1 = set_bit_at st i b ?v" by blast
  from evals_attached [OF fs_store.runs_bitmap_get [OF st assms(4)] 1(2) refl] obtain s2 where
    2: "run_state (bitmap_get io st j) s1 = (bit_at (volume view N s1) st j, s2)" "volume view N s2 = volume view N s1" by blast
  have "bit_at (volume view N s1) st j = (if j = i then b else bit_at ?v st j)"
    unfolding 1(3) by (rule bit_at_set_bit_at [OF len])
  then show ?thesis using 1 2 by auto
qed

theorem bitmap_set_get_witness:
  "\<exists>s1 s2. run_state (bitmap_set pio_io 2 5 True) demo_fs = (True, s1) \<and>
     run_state (bitmap_get pio_io 2 5) s1 = (True, s2)"
  using bitmap_set_get [OF pio.ata_drive_axioms demo_attached, of 2 5 5 True] by (auto simp: bit_block_def)

text \<open>
  The inode table is an array: after \<open>write_inode\<close>, \<open>read_inode\<close> returns the inode that was
  written for its number and the old inode for every other number, although six inodes share a block.
\<close>

theorem write_read_inode:
  assumes "ata_drive io view" and "attached view N s" and "v = volume view N s" and "layout N (v_sb v)"
    and "in_table (v_sb v) n" and "in_table (v_sb v) m" and "wf_inode x"
  shows "\<exists>s1 s2. run_state (write_inode io n x) s = (True, s1) \<and> attached view N s1 \<and>
    run_state (read_inode io m) s1 = (Some (if m = n then x else inode_at v m), s2) \<and>
    volume view N s2 = volume view N s1"
proof -
  note st = drive_store [OF assms(1), of N]
  from evals_attached [OF fs_store.runs_write_inode [OF st assms(5,4,7)] assms(2)] assms(3) obtain s1 where
    1: "run_state (write_inode io n x) s = (True, s1)" "attached view N s1" "volume view N s1 = put_inode n x v" by blast
  have sb: "v_sb (volume view N s1) = v_sb v" using 1(3) by simp
  from evals_attached [OF fs_store.runs_read_inode [OF st] 1(2) refl] sb assms(4,6) obtain s2 where
    2: "run_state (read_inode io m) s1 = (Some (inode_at (volume view N s1) m), s2)"
       "volume view N s2 = volume view N s1" by metis
  have len: "length (blk v (inode_block (v_sb v) n)) = 512"
    unfolding assms(3)
    by (rule fs_store.store_length [OF st assms(2)]) (rule inode_block_not_data(3) [OF assms(4,5), unfolded assms(3)])
  have "inode_at (volume view N s1) m = (if m = n then x else inode_at v m)"
    unfolding 1(3) by (rule inode_at_put_inode [OF in_table_nonzero [OF assms(5)] in_table_nonzero [OF assms(6)] assms(7) len])
  then show ?thesis using 1 2 by auto
qed

theorem write_read_inode_witness:
  "\<exists>s1 s2. run_state (write_inode pio_io 3 demo_root) demo_fs = (True, s1) \<and>
     run_state (read_inode pio_io 2) s1 = (Some demo_file, s2)"
  using write_read_inode [OF pio.ata_drive_axioms demo_attached refl, of 3 2 demo_root] demo_good
  by (auto simp: good_def in_table_def demo_sb_def demo_inode_2)

text \<open>
  C36. Block allocation hands out a free block once: \<open>allocate_block\<close> returns \<open>-1\<close> and changes
  nothing exactly when every data block is taken; otherwise it returns a data block that was
  free, which is then marked and filled with zeros, and no other block gets or loses its mark.
\<close>

theorem allocate_block_correct:
  assumes "ata_drive io view" and "attached view N s" and "v = volume view N s" and "good N v"
  shows "\<exists>r s'. run_state (allocate_block io) s = (r, s') \<and> attached view N s' \<and>
    (if volume_full v then r = -1 \<and> volume view N s' = v
     else \<exists>b. r = int (unat b) \<and> data_block (v_sb v) b \<and> \<not> allocated v b \<and>
       (\<forall>p. allocated (volume view N s') p \<longleftrightarrow> allocated v p \<or> p = b) \<and> blk (volume view N s') b = zero_block)"
proof -
  note st = drive_store [OF assms(1), of N]
  from assms(4) show ?thesis
  proof (cases rule: fs_store.allocate_block_cases [OF st, consumes 1, case_names full taken])
    case full
    then show ?thesis using evals_attached [OF full(2) assms(2)] assms(3) by auto
  next
    case (taken b)
    then have "\<not> volume_full v" unfolding volume_full_def by blast
    obtain s' where s': "run_state (allocate_block io) s = (int (unat b), s')" "attached view N s'"
      "volume view N s' = take_block b v" using evals_attached [OF taken(3) assms(2)] assms(3) by auto
    have "\<exists>c. int (unat b) = int (unat c) \<and> data_block (v_sb v) c \<and> \<not> allocated v c \<and>
        (\<forall>p. allocated (volume view N s') p \<longleftrightarrow> allocated v p \<or> p = c) \<and> blk (volume view N s') c = zero_block"
      using taken(1,2) allocated_take_block [OF goodD [OF assms(4)] taken(1)] s'(3) by (intro exI [of _ b]) simp
    then show ?thesis using s' \<open>\<not> volume_full v\<close> by simp
  qed
qed

theorem allocate_block_correct_witness:
  "\<exists>r s' b. run_state (allocate_block pio_io) demo_fs = (r, s') \<and> r = int (unat b) \<and>
     \<not> allocated demo_vol b \<and> allocated (volume prompt 12 s') b"
proof -
  have "\<not> allocated demo_vol 7" "data_block demo_sb 7"
    by (simp_all add: allocated_def data_block_def demo_sb_def bit_at_def bit_block_def bit_byte_def bit_pos_def
        demo_block_def)
  then have "\<not> volume_full demo_vol" by (auto simp: volume_full_def)
  then show ?thesis
    using allocate_block_correct [OF pio.ata_drive_axioms demo_attached refl demo_good] by auto
qed

text \<open>
  C6. The block map with allocation: for a logical block of the largest file,
  \<open>get_data_block_for_inode\<close> adds pointers only on the way to it through direct, single or double
  indirection, and takes exactly the blocks these pointers lead to, all of them free before: every
  pointer that was there and every pointer off the way is kept, no two nodes of the tree share a block, a
  new file block holds zeros, and blocks that are not pointer blocks of the file keep their bytes. It
  returns the block of the node, or \<open>-1\<close> when the volume is full and the node has none.
\<close>

theorem get_data_block_allocating:
  assumes "ata_drive io view" and "attached view N s" and "v = volume view N s" and "good N v" and "file_ok v n"
    and "unat k < 16518"
  shows "\<exists>r n' s'. run_state (get_data_block_for_inode io n k True) s = ((r, n'), s') \<and> attached view N s' \<and>
    good N (volume view N s') \<and> grow (path_to (node_of (unat k))) v n (volume view N s') n' \<and>
    got (volume view N s') n' (node_of (unat k)) r"
proof -
  note st = drive_store [OF assms(1), of N]
  have k: "unat k < MAX_FILE_BLOCKS" using assms(6) by simp
  from fs_store.get_data_block_grows [OF st assms(4,5) k] obtain r v' n' where
    "evals (attached view N) (volume view N) v (get_data_block_for_inode io n k True) (r, n') v'"
    and rest: "good N v'" "grow (path_to (node_of (unat k))) v n v' n'" "got v' n' (node_of (unat k)) r"
    unfolding fs_store.maps_to_def [OF st] by blast
  from evals_attached [OF this(1) assms(2)] assms(3) show ?thesis using rest by auto
qed

theorem get_data_block_allocating_witness:
  "\<exists>r n' s'. run_state (get_data_block_for_inode pio_io demo_file 6 True) demo_fs = ((r, n'), s') \<and>
     grow {Ind, Ent 0} demo_vol demo_file (volume prompt 12 s') n'"
  using get_data_block_allocating [OF pio.ata_drive_axioms demo_attached refl demo_good demo_file_ok(2), of 6]
  by (auto simp: node_of_def)

text \<open>
  The block map without allocation is a lookup: \<open>get_data_block_for_inode\<close> returns the block
  behind the logical block, or \<open>-1\<close> where the file has none or the block is beyond the largest
  file, and changes neither the inode nor the volume.
\<close>

theorem get_data_block_lookup:
  assumes "ata_drive io view" and "attached view N s" and "v = volume view N s" and "good N v" and "file_ok v n"
  shows "\<exists>s'. run_state (get_data_block_for_inode io n k False) s = ((block_of v n (unat k), n), s') \<and>
    attached view N s' \<and> volume view N s' = v"
  using evals_attached [OF fs_store.runs_get_data_block_lookup [OF drive_store [OF assms(1), of N] assms(4,5)] assms(2)]
    assms(3) by auto

theorem get_data_block_lookup_witness:
  "\<exists>s'. run_state (get_data_block_for_inode pio_io demo_file 0 False) demo_fs = ((5, demo_file), s')"
proof -
  have "block_of demo_vol demo_file 0 = 5"
    by (simp add: block_of_def ptr_int_def node_of_def demo_file_def zero_inode_def)
  then show ?thesis
    using get_data_block_lookup [OF pio.ata_drive_axioms demo_attached refl demo_good demo_file_ok(2), of 0] by auto
qed

text \<open>
  The three on-disk structures survive the way to the disk and back: decoding the bytes of a
  well-formed superblock, inode or directory entry returns it, whatever follows in the block.
\<close>

theorem structures_roundtrip:
  assumes "wf_superblock b" and "wf_inode n" and "wf_dir_entry e"
  shows "dec_superblock (enc_superblock b @ rest) = b \<and> dec_inode (enc_inode n) = n \<and> dec_dir_entry (enc_dir_entry e) = e"
  using dec_enc_superblock [OF assms(1)] dec_enc_inode [OF assms(2)] dec_enc_dir_entry [OF assms(3)] by blast

theorem structures_roundtrip_witness:
  "dec_superblock (enc_superblock demo_sb @ []) = demo_sb \<and> dec_inode (enc_inode demo_file) = demo_file \<and>
   dec_dir_entry (enc_dir_entry demo_entry) = demo_entry"
  by (rule structures_roundtrip [OF wf_demo(4,2,3)])

end
