(* ===== verification/Kmalloc.thy ===== *)
theory Kmalloc imports CString begin

text \<open>
  The kernel allocator, \<open>lib/c/memory/kmalloc.c\<close>, on the byte memory it manages: headers of
  12 bytes (\<open>size\<close>, \<open>magic\<close>, \<open>is_free\<close> and padding) in front of every block, the scan for the
  first free block that fits, splitting, and \<open>kfree\<close>. The scan follows the sizes it finds, so it
  is a \<open>partial_function (option)\<close>: a block of size 0 would make it run for ever. The second part
  proves the tiling invariant: blocks lie end to end from the start of the heap, and an
  allocation is a zeroed region apart from all others.
\<close>

section \<open>The code\<close>

definition KMALLOC_HEAP_START :: u32 where "KMALLOC_HEAP_START = 0x1000000"
definition KMALLOC_HEAP_SIZE :: u32 where "KMALLOC_HEAP_SIZE = 0x4000000"
definition KMALLOC_MAGIC :: u32 where "KMALLOC_MAGIC = 0xDEADBEEF"
definition KMALLOC_FREED_MAGIC :: u32 where "KMALLOC_FREED_MAGIC = 0xDEADC0DE"

abbreviation (input) "BLOCK_HEADER_SIZE \<equiv> (12 :: u32)"

text \<open>The two static variables and the memory; a null \<open>heap_start\<close> is 0.\<close>

record kheap =
  heap_start :: u32
  heap_used :: u32
  km :: mem

definition rd_mem32 :: "mem \<Rightarrow> u32 \<Rightarrow> u32" where
  "rd_mem32 m p = rd32 (load m p 4) 0"

definition wr_mem32 :: "u32 \<Rightarrow> u32 \<Rightarrow> mem \<Rightarrow> mem" where
  "wr_mem32 p w m = store p (le32 w) m"

definition kmalloc_init :: "kheap \<Rightarrow> kheap" where
  "kmalloc_init h = h\<lparr>heap_start := KMALLOC_HEAP_START, heap_used := 0\<rparr>"

text \<open>The result 0 is \<open>NULL\<close>.\<close>

partial_function (option) find_loop :: "mem \<Rightarrow> u32 \<Rightarrow> u32 \<Rightarrow> u32 \<Rightarrow> u32 \<Rightarrow> u32 option" where
  "find_loop m start heap_used_now sz ptr =
     (if ptr - start < heap_used_now then
        (if rd_mem32 m (ptr + 4) \<noteq> KMALLOC_MAGIC \<and> rd_mem32 m (ptr + 4) \<noteq> KMALLOC_FREED_MAGIC then Some 0
         else if m (ptr + 8) \<noteq> 0 \<and> sz + BLOCK_HEADER_SIZE \<le> rd_mem32 m ptr then Some ptr
         else find_loop m start heap_used_now sz (ptr + rd_mem32 m ptr))
      else Some 0)"

definition find_free_block :: "kheap \<Rightarrow> u32 \<Rightarrow> u32 option" where
  "find_free_block h sz = find_loop (km h) (heap_start h) (heap_used h) sz (heap_start h)"

definition split_block :: "u32 \<Rightarrow> u32 \<Rightarrow> mem \<Rightarrow> mem" where
  "split_block block needed_size m =
     (let total_needed = needed_size + BLOCK_HEADER_SIZE in
      if rd_mem32 m block \<le> total_needed then m
      else let remainder_size = rd_mem32 m block - total_needed;
               remainder = block + total_needed;
               m1 = wr_mem32 remainder remainder_size m;
               m2 = wr_mem32 (remainder + 4) KMALLOC_MAGIC m1;
               m3 = m2(remainder + 8 := 1)
           in wr_mem32 block total_needed m3)"

definition kmalloc :: "kheap \<Rightarrow> u32 \<Rightarrow> (u32 \<times> kheap) option" where
  "kmalloc h0 sz =
     (if sz = 0 then Some (0, h0)
      else let h = (if heap_start h0 = 0 then kmalloc_init h0 else h0) in
        case find_free_block h sz of
          None \<Rightarrow> None
        | Some found \<Rightarrow>
            if found = 0 then
              (let total_needed = sz + BLOCK_HEADER_SIZE in
               if KMALLOC_HEAP_SIZE \<le> heap_used h + total_needed then Some (0, h)
               else let block = heap_start h + heap_used h;
                        m1 = wr_mem32 block total_needed (km h);
                        m2 = wr_mem32 (block + 4) KMALLOC_MAGIC m1;
                        m3 = m2(block + 8 := 0)
                    in Some (block + BLOCK_HEADER_SIZE,
                         h\<lparr>heap_used := heap_used h + total_needed,
                           km := memset_loop 0 (block + BLOCK_HEADER_SIZE) (unat sz) m3\<rparr>))
            else
              (let m1 = (if sz + BLOCK_HEADER_SIZE < rd_mem32 (km h) found then split_block found sz (km h) else km h);
                   m2 = m1(found + 8 := 0)
               in Some (found + BLOCK_HEADER_SIZE,
                    h\<lparr>km := memset_loop 0 (found + BLOCK_HEADER_SIZE) (unat sz) m2\<rparr>)))"

definition kfree :: "kheap \<Rightarrow> u32 \<Rightarrow> kheap" where
  "kfree h ptr =
     (if ptr = 0 then h
      else let block = ptr - BLOCK_HEADER_SIZE in
        if rd_mem32 (km h) (block + 4) \<noteq> KMALLOC_MAGIC then h
        else if km h (block + 8) \<noteq> 0 then h
        else h\<lparr>km := wr_mem32 (block + 4) KMALLOC_FREED_MAGIC ((km h)(block + 8 := 1))\<rparr>)"

section \<open>Writes inside a region\<close>

definition within :: "u32 \<Rightarrow> nat \<Rightarrow> mem \<Rightarrow> mem \<Rightarrow> bool" where
  "within q n m m' \<longleftrightarrow> (\<forall>a. n \<le> unat (a - q) \<longrightarrow> m' a = m a)"

lemma within_refl [simp]: "within q n m m"
  by (simp add: within_def)

lemma within_trans: "within q n m m' \<Longrightarrow> within q n m' m'' \<Longrightarrow> within q n m m''"
  by (simp add: within_def)

lemma within_mono: "within q n m m' \<Longrightarrow> n \<le> k \<Longrightarrow> within q k m m'"
  by (auto simp: within_def)

lemma unat_add_small: "unat (x :: u32) + unat y < 2 ^ 32 \<Longrightarrow> unat (x + y) = unat x + unat y"
  by (simp add: unat_word_ariths)

lemma unat_offset:
  assumes "unat (a - (q + k)) + unat k < 2 ^ 32"
  shows "unat (a - q) = unat (a - (q + k)) + unat (k :: u32)"
proof -
  have "a - q = (a - (q + k)) + k" by simp
  then have "unat (a - q) = unat ((a - (q + k)) + k)" by (rule arg_cong)
  also have "... = unat (a - (q + k)) + unat k" by (rule unat_add_small [OF assms])
  finally show ?thesis .
qed

lemma within_store:
  assumes "unat k + length xs \<le> n" and "n < 2 ^ 32"
  shows "within q n m (store (q + k) xs m)"
  unfolding within_def
proof (intro allI impI)
  fix a
  assume a: "n \<le> unat (a - q)"
  have "\<not> unat (a - (q + k)) < length xs"
  proof
    assume l: "unat (a - (q + k)) < length xs"
    then have "unat (a - q) = unat (a - (q + k)) + unat k" using assms by (intro unat_offset) linarith
    then show False using a l assms by linarith
  qed
  then show "store (q + k) xs m a = m a" by (simp add: store_def)
qed

lemma store_single: "m(p := x) = store p [x] m"
  by (simp add: store_Cons)

lemma within_shift: "within (q + k) n m m' \<Longrightarrow> unat k + n \<le> l \<Longrightarrow> l < 2 ^ 32 \<Longrightarrow> within q l m m'"
  unfolding within_def
proof (intro allI impI)
  fix a
  assume w: "\<forall>a. n \<le> unat (a - (q + k)) \<longrightarrow> m' a = m a" and l: "unat k + n \<le> l" "l < 2 ^ 32" "l \<le> unat (a - q)"
  have "n \<le> unat (a - (q + k))"
  proof (rule ccontr)
    assume "\<not> n \<le> unat (a - (q + k))"
    then have "unat (a - q) = unat (a - (q + k)) + unat k" using l by (intro unat_offset) linarith
    then show False using l \<open>\<not> n \<le> unat (a - (q + k))\<close> by linarith
  qed
  then show "m' a = m a" using w by blast
qed

lemma load_store_same: "length xs \<le> 2 ^ 32 \<Longrightarrow> load (store p xs m) p (length xs) = xs"
proof (rule nth_equalityI)
  fix i
  assume "length xs \<le> 2 ^ 32" and "i < length (load (store p xs m) p (length xs))"
  then have "i < length xs" "i < 2 ^ 32" by simp_all
  then show "load (store p xs m) p (length xs) ! i = xs ! i"
    by (simp add: load_def store_def unat_of_nat)
qed simp

lemma load_store_other:
  assumes "\<And>i. i < n \<Longrightarrow> length xs \<le> unat (p + of_nat i - q)"
  shows "load (store q xs m) p n = load m p n"
  using assms by (auto simp: load_def store_def not_less [symmetric])

lemma rd_wr_mem32 [simp]: "rd_mem32 (wr_mem32 p w m) p = w"
  using load_store_same [of "le32 w" p m] by (simp add: rd_mem32_def wr_mem32_def rd32_append [of w "[]", simplified])

section \<open>Tilings\<close>

text \<open>A block: its size with the header, whether it is free, whether it has the magic of freed blocks.\<close>

datatype kblock = KBlock (bsize: u32) (bfree: bool) (bfreed: bool)

definition magic_of :: "kblock \<Rightarrow> u32" where
  "magic_of b = (if bfreed b then KMALLOC_FREED_MAGIC else KMALLOC_MAGIC)"

definition header :: "mem \<Rightarrow> u32 \<Rightarrow> kblock \<Rightarrow> bool" where
  "header m p b \<longleftrightarrow> rd_mem32 m p = bsize b \<and> rd_mem32 m (p + 4) = magic_of b \<and> (m (p + 8) \<noteq> 0 \<longleftrightarrow> bfree b)"

fun tiles :: "mem \<Rightarrow> u32 \<Rightarrow> kblock list \<Rightarrow> bool" where
  "tiles m p [] = True"
| "tiles m p (b # bs) = (header m p b \<and> 12 \<le> unat (bsize b) \<and> tiles m (p + bsize b) bs)"

definition total :: "kblock list \<Rightarrow> nat" where
  "total bs = sum_list (map (\<lambda>b. unat (bsize b)) bs)"

text \<open>The addresses and sizes of the blocks that are allocated.\<close>

fun allocs :: "u32 \<Rightarrow> kblock list \<Rightarrow> (u32 \<times> u32) list" where
  "allocs p [] = []"
| "allocs p (b # bs) = (if bfree b then allocs (p + bsize b) bs else (p, bsize b) # allocs (p + bsize b) bs)"

definition heap_ok :: "kheap \<Rightarrow> kblock list \<Rightarrow> bool" where
  "heap_ok h bs \<longleftrightarrow> heap_start h = KMALLOC_HEAP_START \<and> tiles (km h) (heap_start h) bs \<and>
     total bs = unat (heap_used h) \<and> total bs < unat KMALLOC_HEAP_SIZE"

lemma total_simps [simp]: "total [] = 0" "total (b # bs) = unat (bsize b) + total bs"
    "total (xs @ ys) = total xs + total ys"
  by (simp_all add: total_def)

lemma of_nat_total_Cons [simp]: "(of_nat (total (b # bs)) :: u32) = bsize b + of_nat (total bs)"
  by simp

lemma tiles_append: "tiles m p (xs @ ys) \<longleftrightarrow> tiles m p xs \<and> tiles m (p + of_nat (total xs)) ys"
  by (induction xs arbitrary: p) (auto simp: add.assoc)

lemma allocs_append: "allocs p (xs @ ys) = allocs p xs @ allocs (p + of_nat (total xs)) ys"
  by (induction xs arbitrary: p) (auto simp: add.assoc)

text \<open>A header depends on its first nine bytes only.\<close>

lemma header_cong: "(\<And>i. i < 9 \<Longrightarrow> m' (p + of_nat i) = m (p + of_nat i)) \<Longrightarrow> header m' p b = header m p b"
proof -
  assume e: "\<And>i. i < 9 \<Longrightarrow> m' (p + of_nat i) = m (p + of_nat i)"
  have "load m' p 4 = load m p 4" using e by (auto simp: load_def)
  moreover have "m' (p + 4 + of_nat i) = m (p + 4 + of_nat i)" if "i < 4" for i
    using e [of "4 + i"] that by (simp add: add.assoc)
  then have "load m' (p + 4) 4 = load m (p + 4) 4" by (auto simp: load_def)
  moreover have "m' (p + 8) = m (p + 8)" using e [of 8] by simp
  ultimately show ?thesis by (simp add: header_def rd_mem32_def)
qed

lemma tiles_cong:
  assumes "tiles m p bs" and "\<And>o'. o' < total bs \<Longrightarrow> m' (p + of_nat o') = m (p + of_nat o')"
  shows "tiles m' p bs"
  using assms
proof (induction bs arbitrary: p)
  case (Cons b bs)
  have "header m' p b = header m p b"
    by (rule header_cong) (use Cons.prems in simp)
  moreover have "m' (p + bsize b + of_nat o') = m (p + bsize b + of_nat o')" if "o' < total bs" for o'
    using Cons.prems(2) [of "unat (bsize b) + o'"] that by (simp add: add.assoc)
  ultimately show ?case using Cons by simp
qed simp

text \<open>A change inside one block keeps the blocks before and after it, header and contents.\<close>

lemma before_region:
  assumes "within (p + of_nat t) n m m'" and "t + n \<le> 2 ^ 32" and "o' < t"
  shows "m' (p + of_nat o') = m (p + of_nat o')"
proof -
  have t: "t < 2 ^ 32 \<or> n = 0" using assms(2) by linarith
  have e: "p + of_nat o' - (p + of_nat t) = - of_nat (t - o' :: nat)" using assms(3) by (simp add: of_nat_diff)
  have "n \<le> unat (- of_nat (t - o') :: u32)"
  proof (cases "n = 0")
    case False
    then have "t - o' < 2 ^ 32" "0 < t - o'" using t assms(3) by auto
    then have "(of_nat (2 ^ 32 - (t - o')) :: u32) = of_nat (2 ^ 32) - of_nat (t - o')"
      by (intro of_nat_diff) simp
    then have "- of_nat (t - o') = (of_nat (2 ^ 32 - (t - o')) :: u32)" by simp
    then have "unat (- of_nat (t - o') :: u32) = unat (of_nat (2 ^ 32 - (t - o')) :: u32)" by (rule arg_cong)
    also have "... = 2 ^ 32 - (t - o')" using \<open>0 < t - o'\<close> by (subst unat_of_nat) simp
    finally show ?thesis using assms by linarith
  qed simp
  then show ?thesis using assms(1) e unfolding within_def by metis
qed

lemma after_region:
  assumes "within q n m m'" and "n + o' < 2 ^ 32"
  shows "m' (q + of_nat n + of_nat o') = m (q + of_nat n + of_nat o')"
proof -
  have "q + of_nat n + of_nat o' - q = of_nat (n + o')" by simp
  moreover have "unat (of_nat (n + o') :: u32) = n + o'" using assms(2) unfolding unat_of_nat by simp
  ultimately show ?thesis using assms(1) unfolding within_def by (metis le_add1)
qed

lemma tiles_splice:
  assumes "tiles m p xs" and "tiles m' (p + of_nat (total xs)) zs"
    and "tiles m (p + of_nat (total xs) + of_nat n) ys" and "total zs = n"
    and w: "within (p + of_nat (total xs)) n m m'" and "total xs + n + total ys < 2 ^ 32"
  shows "tiles m' p (xs @ zs @ ys)"
proof -
  have "tiles m' p xs"
    by (rule tiles_cong [OF assms(1)]) (rule before_region [OF w], use assms(6) in auto)
  moreover have "tiles m' (p + of_nat (total xs) + of_nat n) ys"
    by (rule tiles_cong [OF assms(3)]) (rule after_region [OF w], use assms(6) in auto)
  ultimately show ?thesis using assms(2,4) by (simp add: tiles_append)
qed

lemma allocs_offset:
  "(q, s) \<in> set (allocs p bs) \<Longrightarrow> \<exists>o'. q = p + of_nat o' \<and> o' + unat s \<le> total bs"
proof (induction bs arbitrary: p)
  case (Cons b bs)
  show ?case
  proof (cases "(q, s) \<in> set (allocs (p + bsize b) bs)")
    case True
    from Cons.IH [OF this] obtain o' where "q = p + bsize b + of_nat o'" "o' + unat s \<le> total bs" by blast
    then show ?thesis by (intro exI [of _ "unat (bsize b) + o'"]) simp
  next
    case False
    then show ?thesis using Cons.prems by (intro exI [of _ 0]) (auto split: if_splits)
  qed
qed simp

definition disjoint_regions :: "u32 \<Rightarrow> nat \<Rightarrow> u32 \<Rightarrow> nat \<Rightarrow> bool" where
  "disjoint_regions p n q k \<longleftrightarrow> (\<forall>i < n. \<forall>j < k. p + of_nat i \<noteq> q + of_nat j)"

lemma offsets_disjoint:
  assumes "a + n \<le> b" and "b + k \<le> 2 ^ 32"
  shows "disjoint_regions (p + of_nat a) n (p + of_nat b) k"
  unfolding disjoint_regions_def
proof (intro allI impI notI)
  fix i j
  assume i: "i < n" and j: "j < k" and e: "p + of_nat a + of_nat i = p + of_nat b + of_nat j"
  from e have "(of_nat (a + i) :: u32) = of_nat (b + j)" by (simp add: add.assoc)
  then have "unat (of_nat (a + i) :: u32) = unat (of_nat (b + j) :: u32)" by (rule arg_cong)
  moreover have "unat (of_nat (a + i) :: u32) = a + i" "unat (of_nat (b + j) :: u32) = b + j"
    using i j assms by (subst unat_of_nat, simp)+
  ultimately show False using i assms by linarith
qed

text \<open>Allocated blocks never overlap.\<close>

lemma allocs_apart:
  assumes "tiles m p bs" and "total bs < 2 ^ 32"
    and "i < length (allocs p bs)" and "j < length (allocs p bs)" and "i < j"
  shows "disjoint_regions (fst (allocs p bs ! i)) (unat (snd (allocs p bs ! i)))
    (fst (allocs p bs ! j)) (unat (snd (allocs p bs ! j)))"
  using assms
proof (induction bs arbitrary: p i j)
  case (Cons b bs)
  show ?case
  proof (cases "bfree b \<or> 0 < i")
    case True
    then show ?thesis
      using Cons.IH [of "p + bsize b" i j] Cons.IH [of "p + bsize b" "i - 1" "j - 1"] Cons.prems
      by (cases "bfree b") (auto simp: nth_Cons')
  next
    case False
    then have b: "\<not> bfree b" "i = 0" by auto
    obtain q s where q: "allocs (p + bsize b) bs ! (j - 1) = (q, s)" by (cases "allocs (p + bsize b) bs ! (j - 1)")
    have "j - 1 < length (allocs (p + bsize b) bs)" using b Cons.prems(4,5) by auto
    then have "(q, s) \<in> set (allocs (p + bsize b) bs)" using nth_mem q by metis
    then obtain o' where o': "q = p + bsize b + of_nat o'" "o' + unat s \<le> total bs" using allocs_offset by blast
    have "disjoint_regions (p + of_nat 0) (unat (bsize b)) (p + of_nat (unat (bsize b) + o')) (unat s)"
      by (rule offsets_disjoint) (use Cons.prems(2) o'(2) in simp_all)
    then show ?thesis using b q o'(1) Cons.prems(5) by (simp add: nth_Cons' add.assoc)
  qed
qed simp

section \<open>The scan\<close>

fun first_fit :: "u32 \<Rightarrow> kblock list \<Rightarrow> (kblock list \<times> kblock \<times> kblock list) option" where
  "first_fit t [] = None"
| "first_fit t (b # bs) = (if bfree b \<and> t \<le> bsize b then Some ([], b, bs)
     else map_option (\<lambda>(xs, c, ys). (b # xs, c, ys)) (first_fit t bs))"

lemma first_fit_Some: "first_fit t bs = Some (xs, b, ys) \<Longrightarrow> bs = xs @ b # ys \<and> bfree b \<and> t \<le> bsize b"
  by (induction bs arbitrary: xs) (auto split: if_splits)

lemma find_loop_tiles:
  assumes "tiles m p bs" and "unat (p - start) + total bs = unat used"
  shows "find_loop m start used sz p =
    Some (case first_fit (sz + 12) bs of None \<Rightarrow> 0 | Some (xs, _, _) \<Rightarrow> p + of_nat (total xs))"
  using assms
proof (induction bs arbitrary: p)
  case Nil
  then show ?case by (subst find_loop.simps) (simp add: word_less_nat_alt)
next
  case (Cons b bs)
  have h: "header m p b" "12 \<le> unat (bsize b)" using Cons.prems by simp_all
  have lt: "p - start < used" using Cons.prems h by (simp add: word_less_nat_alt)
  have "unat (p - start) + unat (bsize b) < 2 ^ 32"
    using Cons.prems unsigned_less [of used, where ?'a = nat] by simp
  then have "unat ((p - start) + bsize b) = unat (p - start) + unat (bsize b)" by (rule unat_add_small)
  then have "unat (p + bsize b - start) + total bs = unat used" using Cons.prems by (simp add: algebra_simps)
  note IH = Cons.IH [OF _ this]
  show ?case
    using IH Cons.prems h lt
    by (subst find_loop.simps) (auto simp: header_def magic_of_def add.assoc split: option.splits)
qed

section \<open>Headers after the writes\<close>

lemma small_diff: "i < k \<Longrightarrow> k < 2 ^ 32 \<Longrightarrow> unat (p + of_nat i - (p + of_nat k) :: u32) = 2 ^ 32 - (k - i)"
proof -
  assume i: "i < k" "k < 2 ^ 32"
  have "p + of_nat i - (p + of_nat k) = (- of_nat (k - i) :: u32)" using i by (simp add: of_nat_diff)
  also have "... = of_nat (2 ^ 32 - (k - i))" using i of_nat_diff [of "k - i" "2 ^ 32", where ?'a = u32] by simp
  finally have "unat (p + of_nat i - (p + of_nat k)) = unat (of_nat (2 ^ 32 - (k - i)) :: u32)" by (rule arg_cong)
  also have "... = 2 ^ 32 - (k - i)" using i by (subst unat_of_nat) simp
  finally show ?thesis .
qed

lemma rd_mem32_store:
  assumes "k + length xs \<le> j \<or> j + 4 \<le> k" and "j + 4 \<le> 2 ^ 31" and "k + length xs \<le> 2 ^ 31"
  shows "rd_mem32 (store (p + of_nat k) xs m) (p + of_nat j) = rd_mem32 m (p + of_nat j)"
proof -
  have "load (store (p + of_nat k) xs m) (p + of_nat j) 4 = load m (p + of_nat j) 4"
  proof (rule load_store_other)
    fix i :: nat
    assume i: "i < 4"
    show "length xs \<le> unat (p + of_nat j + of_nat i - (p + of_nat k))"
    proof (cases "j + i < k")
      case True
      then have "unat (p + of_nat (j + i) - (p + of_nat k)) = 2 ^ 32 - (k - (j + i))"
        by (rule small_diff) (use assms in simp)
      then show ?thesis using assms True by (simp add: add.assoc)
    next
      case False
      then have e: "p + of_nat j + of_nat i - (p + of_nat k) = of_nat (j + i - k)" by (simp add: of_nat_diff)
      have u: "unat (of_nat (j + i - k) :: u32) = j + i - k" using assms(2) i by (subst unat_of_nat) simp
      show ?thesis unfolding e u using assms(1) i False by linarith
    qed
  qed
  then show ?thesis by (simp add: rd_mem32_def)
qed

text \<open>The last steps of \<open>kmalloc\<close>: the block is marked as used and its memory zeroed.\<close>

definition finish_block :: "u32 \<Rightarrow> nat \<Rightarrow> mem \<Rightarrow> mem" where
  "finish_block q n m = memset_loop 0 (q + 12) n (m(q + 8 := 0))"

lemma finish_block_store: "n < 2 ^ 31 \<Longrightarrow> finish_block q n m = store (q + 12) (replicate n 0) (store (q + 8) [0] m)"
  by (simp add: finish_block_def memset_loop_store store_single [symmetric])

lemma finish_block:
  assumes "rd_mem32 m q = t" and "rd_mem32 m (q + 4) = magic_of b" and "unat t = n + 12" and "n + 12 \<le> 2 ^ 31"
  shows "header (finish_block q n m) q (KBlock t False (bfreed b))"
    and "within q (unat t) m (finish_block q n m)"
    and "load (finish_block q n m) (q + 12) n = replicate n 0"
proof -
  have n: "n < 2 ^ 31" using assms(4) by simp
  note F = finish_block_store [OF n, of q m]
  let ?m = "store (q + 8) [0] m"
  have r: "rd_mem32 (finish_block q n m) (q + of_nat j) = rd_mem32 m (q + of_nat j)" if "j + 4 \<le> 8" for j
    using rd_mem32_store [of 12 "replicate n 0" j q ?m] rd_mem32_store [of 8 "[0]" j q m] that assms(4)
    unfolding F by simp
  have "?m (q + 8) = 0" by (simp add: store_single [symmetric])
  moreover have "store (q + 12) (replicate n 0) ?m (q + 8) = ?m (q + 8)"
  proof -
    have "unat (q + of_nat 8 - (q + of_nat 12)) = 2 ^ 32 - (12 - 8)" by (rule small_diff) simp_all
    then show ?thesis using n by (simp add: store_def)
  qed
  ultimately show "header (finish_block q n m) q (KBlock t False (bfreed b))"
    using r [of 0] r [of 4] assms(1,2) by (simp add: header_def magic_of_def F)
  show "within q (unat t) m (finish_block q n m)"
    unfolding F
    by (rule within_trans [OF within_store [of 8 "[0]" "unat t" q m] within_store [of 12 "replicate n 0"]])
       (use assms(3,4) in simp_all)
  show "load (finish_block q n m) (q + 12) n = replicate n 0"
    using load_store_same [of "replicate n 0" "q + 12" ?m] n unfolding F by simp
qed

lemma rd_mem32_wr [simp]:
  "rd_mem32 (wr_mem32 (p + 4) w m) p = rd_mem32 m p"
  "rd_mem32 (wr_mem32 p w m) (p + 4) = rd_mem32 m (p + 4)"
  "rd_mem32 (m(p + 8 := x)) p = rd_mem32 m p"
  "rd_mem32 (m(p + 8 := x)) (p + 4) = rd_mem32 m (p + 4)"
  using rd_mem32_store [of 4 "le32 w" 0 p m] rd_mem32_store [of 0 "le32 w" 4 p m]
    rd_mem32_store [of 8 "[x]" 0 p m] rd_mem32_store [of 8 "[x]" 4 p m]
  by (simp_all add: wr_mem32_def store_single)

lemma within_wr: "unat k + 4 \<le> n \<Longrightarrow> n < 2 ^ 32 \<Longrightarrow> within q n m (wr_mem32 (q + k) w m)"
  unfolding wr_mem32_def by (rule within_store) simp_all

text \<open>The free block that a split leaves behind.\<close>

definition remainder_block :: "u32 \<Rightarrow> u32 \<Rightarrow> mem \<Rightarrow> mem" where
  "remainder_block r t m = (wr_mem32 (r + 4) KMALLOC_MAGIC (wr_mem32 r t m))(r + 8 := 1)"

lemma remainder_block:
  "header (remainder_block r t m) r (KBlock t True False)" "within r 9 m (remainder_block r t m)"
proof -
  show "header (remainder_block r t m) r (KBlock t True False)"
    by (simp add: header_def remainder_block_def magic_of_def)
  show "within r 9 m (remainder_block r t m)"
    unfolding remainder_block_def store_single
    by (rule within_trans [OF within_trans [OF within_wr [of 0, simplified] within_wr [of 4]] within_store [of 8]]) simp_all
qed

section \<open>Allocation\<close>

text \<open>
  The first free block that fits either fits exactly or leaves room for another header. When it
  leaves less than that, \<open>split_block\<close> writes the new header over the next block.
\<close>

definition no_sliver :: "kblock list \<Rightarrow> u32 \<Rightarrow> bool" where
  "no_sliver bs sz \<longleftrightarrow> (case first_fit (sz + 12) bs of
     None \<Rightarrow> True
   | Some (_, b, _) \<Rightarrow> bsize b = sz + 12 \<or> unat sz + 24 \<le> unat (bsize b))"

text \<open>What a successful allocation does to the list of blocks.\<close>

definition allocated_list :: "kblock list \<Rightarrow> u32 \<Rightarrow> kblock list" where
  "allocated_list bs sz = (case first_fit (sz + 12) bs of
     None \<Rightarrow> bs @ [KBlock (sz + 12) False False]
   | Some (xs, b, ys) \<Rightarrow>
       if bsize b = sz + 12 then xs @ [KBlock (sz + 12) False (bfreed b)] @ ys
       else xs @ [KBlock (sz + 12) False (bfreed b), KBlock (bsize b - (sz + 12)) True False] @ ys)"

definition block_place :: "kblock list \<Rightarrow> u32 \<Rightarrow> nat" where
  "block_place bs sz = (case first_fit (sz + 12) bs of None \<Rightarrow> total bs | Some (xs, _, _) \<Rightarrow> total xs)"

lemma find_heap:
  assumes "heap_ok h bs"
  shows "find_free_block h sz =
    Some (case first_fit (sz + 12) bs of None \<Rightarrow> 0 | Some (xs, _, _) \<Rightarrow> heap_start h + of_nat (total xs))"
proof -
  have "tiles (km h) (heap_start h) bs" "unat (heap_start h - heap_start h) + total bs = unat (heap_used h)"
    using assms unfolding heap_ok_def by auto
  then show ?thesis unfolding find_free_block_def by (rule find_loop_tiles)
qed

lemma kmalloc_reuse:
  assumes ok: "heap_ok h bs" and sz: "0 < sz" "unat sz < 2 ^ 26" and ff: "first_fit (sz + 12) bs = Some (xs, b, ys)"
    and nos: "no_sliver bs sz"
  defines "q \<equiv> heap_start h + of_nat (total xs)"
  shows "\<exists>m. kmalloc h sz = Some (q + 12, h\<lparr>km := m\<rparr>) \<and> tiles m (heap_start h) (allocated_list bs sz) \<and>
    within q (unat (bsize b)) (km h) m \<and> load m (q + 12) (unat sz) = replicate (unat sz) 0"
proof -
  note F = first_fit_Some [OF ff]
  let ?t = "sz + 12"
  have ut: "unat ?t = unat sz + 12" using sz by (intro unat_add_small [of sz 12, simplified]) simp
  have bs: "bs = xs @ b # ys" using F by simp
  have T: "tiles (km h) (heap_start h) (xs @ b # ys)" using ok unfolding heap_ok_def bs by blast
  have tot: "total (xs @ b # ys) < 2 ^ 26" and st: "heap_start h = 0x1000000"
    using ok unfolding bs by (simp_all add: heap_ok_def KMALLOC_HEAP_SIZE_def KMALLOC_HEAP_START_def)
  have parts: "tiles (km h) (heap_start h) xs" "header (km h) q b" "tiles (km h) (q + bsize b) ys"
    using T unfolding tiles_append q_def by simp_all
  have uq: "unat q = 0x1000000 + total xs" unfolding q_def st using tot by (simp add: unat_word_ariths unat_of_nat)
  then have q0: "q \<noteq> 0" by auto
  have find: "find_free_block h sz = Some q"
    using find_heap [OF ok, of sz] ff by (simp add: q_def)
  have rq: "rd_mem32 (km h) q = bsize b" "rd_mem32 (km h) (q + 4) = magic_of b"
    using parts(2) by (simp_all add: header_def)
  have run: "kmalloc h sz = Some (q + 12, h\<lparr>km := finish_block q (unat sz)
      (if ?t < bsize b then split_block q sz (km h) else km h)\<rparr>)"
    using word_gt_0 [of sz] sz st find q0 rq by (simp add: kmalloc_def finish_block_def Let_def)
  show ?thesis
  proof (cases "bsize b = ?t")
    case True
    let ?m = "finish_block q (unat sz) (km h)"
    have fin: "header ?m q (KBlock ?t False (bfreed b))" "within q (unat ?t) (km h) ?m"
      "load ?m (q + 12) (unat sz) = replicate (unat sz) 0"
      using finish_block [OF rq, of "unat sz"] ut True sz by simp_all
    have "tiles ?m (heap_start h) (xs @ [KBlock ?t False (bfreed b)] @ ys)"
      by (rule tiles_splice [where n = "unat ?t", OF parts(1)])
         (use fin parts(3) ut True tot in \<open>simp_all add: q_def [symmetric]\<close>)
    then show ?thesis using run fin True ff by (auto simp: allocated_list_def)
  next
    case False
    then have big: "unat sz + 24 \<le> unat (bsize b)" using nos ff by (simp add: no_sliver_def)
    have lt: "?t < bsize b" using big ut by (simp add: word_less_nat_alt)
    let ?r = "q + ?t" and ?rem = "bsize b - ?t"
    have urem: "unat ?rem = unat (bsize b) - unat ?t" using lt by (intro unat_sub) simp
    let ?m1 = "remainder_block ?r ?rem (km h)"
    let ?m2 = "wr_mem32 q ?t ?m1"
    let ?m = "finish_block q (unat sz) ?m2"
    note rem = remainder_block [where r = ?r and t = ?rem and m = "km h"]
    have split: "split_block q sz (km h) = ?m2"
      unfolding split_block_def remainder_block_def Let_def rq
      using lt by (simp only: not_le [symmetric] if_False)
    have ubb: "unat (bsize b) < 2 ^ 26" using tot by simp
    have keep: "?m1 (q + of_nat o') = km h (q + of_nat o')" if "o' < unat ?t" for o'
      by (rule before_region [of q "unat ?t" 9]) (use rem(2) ut sz that in simp_all)
    have "load ?m1 (q + 4) 4 = load (km h) (q + 4) 4"
      using keep [of "4 + i" for i] ut by (auto simp: load_def add.assoc)
    then have "rd_mem32 ?m1 (q + 4) = magic_of b" using rq(2) by (simp add: rd_mem32_def)
    then have r4: "rd_mem32 ?m2 (q + 4) = magic_of b" by simp
    have fin: "header ?m q (KBlock ?t False (bfreed b))" "within q (unat ?t) ?m2 ?m"
      "load ?m (q + 12) (unat sz) = replicate (unat sz) 0"
      using finish_block [of ?m2 q ?t b "unat sz"] r4 ut sz by simp_all
    have w1: "within q (unat ?t) ?m1 ?m"
      by (rule within_trans [OF within_wr [of 0, simplified] fin(2)]) (use ut sz in simp_all)
    have "header ?m ?r (KBlock ?rem True False) = header ?m1 ?r (KBlock ?rem True False)"
      by (rule header_cong) (use after_region [OF w1] ut sz in simp)
    then have hr: "header ?m ?r (KBlock ?rem True False)" using rem(1) by simp
    have w: "within q (unat (bsize b)) (km h) ?m"
      by (rule within_trans [OF within_shift [OF rem(2)] within_mono [OF w1]]) (use ut big ubb in simp_all)
    have "tiles ?m (heap_start h) (xs @ [KBlock ?t False (bfreed b), KBlock ?rem True False] @ ys)"
      by (rule tiles_splice [where n = "unat (bsize b)", OF parts(1)])
         (use fin(1) hr w parts(3) ut urem big tot in \<open>simp_all add: q_def [symmetric]\<close>)
    then show ?thesis using run fin(3) w lt split False ff by (auto simp: allocated_list_def)
  qed
qed

lemma kmalloc_fresh:
  assumes ok: "heap_ok h bs" and sz: "0 < sz" "unat sz < 2 ^ 26" and ff: "first_fit (sz + 12) bs = None"
    and room: "unat (heap_used h) + unat sz + 12 < 2 ^ 26"
  defines "q \<equiv> heap_start h + of_nat (total bs)"
  shows "\<exists>m. kmalloc h sz = Some (q + 12, h\<lparr>heap_used := heap_used h + (sz + 12), km := m\<rparr>) \<and>
    tiles m (heap_start h) (allocated_list bs sz) \<and>
    within q (unat sz + 12) (km h) m \<and> load m (q + 12) (unat sz) = replicate (unat sz) 0"
proof -
  let ?t = "sz + 12"
  have ut: "unat ?t = unat sz + 12" using sz by (intro unat_add_small [of sz 12, simplified]) simp
  have T: "tiles (km h) (heap_start h) bs" and used: "total bs = unat (heap_used h)"
    using ok unfolding heap_ok_def by blast+
  have st: "heap_start h = 0x1000000" using ok by (simp add: heap_ok_def KMALLOC_HEAP_START_def)
  have q: "q = heap_start h + heap_used h" by (simp add: q_def used)
  let ?m2 = "wr_mem32 (q + 4) KMALLOC_MAGIC (wr_mem32 q ?t (km h))"
  let ?m = "finish_block q (unat sz) ?m2"
  have uu: "unat (heap_used h + ?t) = unat (heap_used h) + unat sz + 12"
    using unat_add_small [of "heap_used h" ?t] ut room by simp
  then have "\<not> KMALLOC_HEAP_SIZE \<le> heap_used h + ?t"
    using room by (simp add: KMALLOC_HEAP_SIZE_def word_le_nat_alt)
  then have run: "kmalloc h sz = Some (q + 12, h\<lparr>heap_used := heap_used h + ?t, km := ?m\<rparr>)"
    using word_gt_0 [of sz] sz st find_heap [OF ok, of sz] ff
    by (simp add: kmalloc_def finish_block_def Let_def q)
  have fin: "header ?m q (KBlock ?t False False)" "within q (unat ?t) ?m2 ?m"
    "load ?m (q + 12) (unat sz) = replicate (unat sz) 0"
    using finish_block [of ?m2 q ?t "KBlock ?t False False" "unat sz"] ut sz by (simp_all add: magic_of_def)
  have w: "within q (unat ?t) (km h) ?m"
    by (rule within_trans [OF within_trans [OF within_wr [of 0, simplified] within_wr [of 4]] fin(2)])
       (use ut sz in simp_all)
  have "tiles ?m (heap_start h) (bs @ [KBlock ?t False False] @ [])"
    by (rule tiles_splice [where n = "unat ?t", OF T])
       (use fin w ut room used in \<open>simp_all add: q [symmetric]\<close>)
  then show ?thesis using run fin(3) w ut ff by (auto simp: allocated_list_def)
qed

lemma total_allocated_list:
  assumes "unat sz < 2 ^ 26"
  shows "total (allocated_list bs sz) = (if first_fit (sz + 12) bs = None then total bs + unat sz + 12 else total bs)"
proof -
  have ut: "unat (sz + 12) = unat sz + 12" using assms by (intro unat_add_small [of sz 12, simplified]) simp
  show ?thesis
    using ut first_fit_Some [of "sz + 12" bs]
    by (auto simp: allocated_list_def unat_sub word_le_nat_alt split: option.splits)
qed

text \<open>The allocations after one more: the new one, and those that were there.\<close>

lemma allocs_allocated_list:
  "set (allocs p (allocated_list bs sz)) =
     insert (p + of_nat (block_place bs sz), sz + 12) (set (allocs p bs))"
proof (cases "first_fit (sz + 12) bs")
  case None
  then show ?thesis by (simp add: allocated_list_def block_place_def allocs_append)
next
  case (Some r)
  obtain xs b ys where r: "r = (xs, b, ys)" by (cases r)
  have bs: "bs = xs @ b # ys" "bfree b" using first_fit_Some [of "sz + 12" bs xs b ys] Some r by simp_all
  show ?thesis
    using Some r unfolding bs(1)
    by (auto simp: allocated_list_def block_place_def allocs_append bs(2) add.assoc)
qed

text \<open>The bytes of an allocation that was there are kept.\<close>

lemma contents_before:
  assumes "(q, s) \<in> set (allocs p xs)" and w: "within (p + of_nat (total xs)) n m m'" and "total xs + n \<le> 2 ^ 32"
  shows "load m' q (unat s) = load m q (unat s)"
proof -
  obtain o' where o': "q = p + of_nat o'" "o' + unat s \<le> total xs" using allocs_offset [OF assms(1)] by blast
  have "m' (q + of_nat i) = m (q + of_nat i)" if "i < unat s" for i
    using before_region [OF w assms(3), of "o' + i"] that o' by (simp add: add.assoc)
  then show ?thesis by (auto simp: load_def)
qed

lemma contents_after:
  assumes "(q, s) \<in> set (allocs (r + of_nat n) ys)" and w: "within r n m m'" and "n + total ys < 2 ^ 32"
  shows "load m' q (unat s) = load m q (unat s)"
proof -
  obtain o' where o': "q = r + of_nat n + of_nat o'" "o' + unat s \<le> total ys"
    using allocs_offset [OF assms(1)] by blast
  have "m' (q + of_nat i) = m (q + of_nat i)" if "i < unat s" for i
    using after_region [OF w, of "o' + i"] that o' assms(3) by (simp add: add.assoc)
  then show ?thesis by (auto simp: load_def)
qed

text \<open>All of it: from a well-formed heap, a request either finds no room or is served.\<close>

lemma kmalloc_cases:
  assumes ok: "heap_ok h bs" and sz: "0 < sz" "unat sz < 2 ^ 26" and nos: "no_sliver bs sz"
  defines "q \<equiv> heap_start h + of_nat (block_place bs sz)"
  shows "(kmalloc h sz = Some (0, h) \<and> first_fit (sz + 12) bs = None \<and> 2 ^ 26 \<le> unat (heap_used h) + unat sz + 12) \<or>
    (\<exists>h'. kmalloc h sz = Some (q + 12, h') \<and> heap_ok h' (allocated_list bs sz) \<and>
      load (km h') (q + 12) (unat sz) = replicate (unat sz) 0 \<and>
      (\<forall>(a, s) \<in> set (allocs (heap_start h) bs). load (km h') a (unat s) = load (km h) a (unat s)))"
proof (cases "first_fit (sz + 12) bs")
  case None
  have used: "total bs = unat (heap_used h)" and st: "heap_start h = 0x1000000" "total bs < 2 ^ 26"
    using ok by (simp_all add: heap_ok_def KMALLOC_HEAP_START_def KMALLOC_HEAP_SIZE_def)
  have ut: "unat (sz + 12) = unat sz + 12" using sz by (intro unat_add_small [of sz 12, simplified]) simp
  have uu: "unat (heap_used h + (sz + 12)) = unat (heap_used h) + unat sz + 12"
    using unat_add_small [of "heap_used h" "sz + 12"] ut sz st used by simp
  show ?thesis
  proof (cases "unat (heap_used h) + unat sz + 12 < 2 ^ 26")
    case True
    from kmalloc_fresh [OF ok sz None True] obtain m where m:
      "kmalloc h sz = Some (heap_start h + of_nat (total bs) + 12, h\<lparr>heap_used := heap_used h + (sz + 12), km := m\<rparr>)"
      "tiles m (heap_start h) (allocated_list bs sz)" "within (heap_start h + of_nat (total bs)) (unat sz + 12) (km h) m"
      "load m (heap_start h + of_nat (total bs) + 12) (unat sz) = replicate (unat sz) 0" by blast
    have "\<forall>(a, s) \<in> set (allocs (heap_start h) bs). load m a (unat s) = load (km h) a (unat s)"
      using contents_before [OF _ m(3)] True used by auto
    moreover have "heap_ok (h\<lparr>heap_used := heap_used h + (sz + 12), km := m\<rparr>) (allocated_list bs sz)"
      using ok m(2) total_allocated_list [OF sz(2), of bs] None uu True used
      by (simp add: heap_ok_def KMALLOC_HEAP_SIZE_def)
    ultimately show ?thesis using m(1,4) None by (auto simp: q_def block_place_def)
  next
    case False
    then have "KMALLOC_HEAP_SIZE \<le> heap_used h + (sz + 12)"
      using uu by (simp add: KMALLOC_HEAP_SIZE_def word_le_nat_alt)
    then have "kmalloc h sz = Some (0, h)"
      using word_gt_0 [of sz] sz st find_heap [OF ok, of sz] None by (simp add: kmalloc_def Let_def)
    then show ?thesis using None False by simp
  qed
next
  case (Some r)
  obtain xs b ys where ff: "first_fit (sz + 12) bs = Some (xs, b, ys)" using Some by (cases r) auto
  have bs: "bs = xs @ b # ys" "bfree b" using first_fit_Some [OF ff] by simp_all
  have tot: "total bs < 2 ^ 26" using ok by (simp add: heap_ok_def KMALLOC_HEAP_SIZE_def)
  from kmalloc_reuse [OF ok sz ff nos] obtain m where m:
    "kmalloc h sz = Some (heap_start h + of_nat (total xs) + 12, h\<lparr>km := m\<rparr>)"
    "tiles m (heap_start h) (allocated_list bs sz)" "within (heap_start h + of_nat (total xs)) (unat (bsize b)) (km h) m"
    "load m (heap_start h + of_nat (total xs) + 12) (unat sz) = replicate (unat sz) 0" by blast
  have "load m a (unat s) = load (km h) a (unat s)" if "(a, s) \<in> set (allocs (heap_start h) bs)" for a s
  proof -
    have "(a, s) \<in> set (allocs (heap_start h) xs) \<or>
        (a, s) \<in> set (allocs (heap_start h + of_nat (total xs) + of_nat (unat (bsize b))) ys)"
      using that bs by (simp add: allocs_append)
    then show ?thesis
      using contents_before [OF _ m(3)] contents_after [OF _ m(3)] tot unfolding bs(1) by auto
  qed
  moreover have "heap_ok (h\<lparr>km := m\<rparr>) (allocated_list bs sz)"
    using ok m(2) total_allocated_list [OF sz(2), of bs] ff by (simp add: heap_ok_def)
  ultimately show ?thesis using m(1,4) ff by (auto simp: q_def block_place_def)
qed

end
