(* ===== verification/KmallocProps.thy ===== *)
theory KmallocProps imports Kmalloc begin

text \<open>The properties of the allocator, with the small heaps they are applied to.\<close>

section \<open>Freeing\<close>

lemma kfree_tiles:
  assumes ok: "heap_ok h (xs @ b # ys)" and b: "\<not> bfree b" "\<not> bfreed b"
  defines "q \<equiv> heap_start h + of_nat (total xs)"
  shows "\<exists>m. kfree h (q + 12) = h\<lparr>km := m\<rparr> \<and> tiles m (heap_start h) (xs @ KBlock (bsize b) True True # ys) \<and>
    within q 12 (km h) m"
proof -
  have T: "tiles (km h) (heap_start h) (xs @ b # ys)" using ok unfolding heap_ok_def by blast
  have tot: "total (xs @ b # ys) < 2 ^ 26" using ok by (simp add: heap_ok_def KMALLOC_HEAP_SIZE_def)
  have st: "heap_start h = 0x1000000" using ok by (simp add: heap_ok_def KMALLOC_HEAP_START_def)
  have parts: "tiles (km h) (heap_start h) xs" "header (km h) q b" "tiles (km h) (q + bsize b) ys"
    "12 \<le> unat (bsize b)"
    using T unfolding tiles_append q_def by simp_all
  have "unat (q + 12) = 0x1000000 + total xs + 12"
    unfolding q_def st using tot by (simp add: unat_word_ariths unat_of_nat)
  then have q0: "q + 12 \<noteq> 0" by auto
  let ?m = "wr_mem32 (q + 4) KMALLOC_FREED_MAGIC ((km h)(q + 8 := 1))"
  have run: "kfree h (q + 12) = h\<lparr>km := ?m\<rparr>"
    using q0 parts(2) b by (simp add: kfree_def Let_def header_def magic_of_def)
  have "store (q + 4) (le32 KMALLOC_FREED_MAGIC) ((km h)(q + 8 := 1)) (q + 8) = 1"
  proof -
    have "unat (q + 8 - (q + 4)) = 4" by simp
    then show ?thesis by (simp add: store_def)
  qed
  then have hd: "header ?m q (KBlock (bsize b) True True)"
    using parts(2) by (simp add: header_def magic_of_def wr_mem32_def)
       (metis rd_mem32_wr(1,3) rd_wr_mem32 wr_mem32_def)
  have w: "within q 12 (km h) ?m"
    unfolding store_single
    by (rule within_trans [OF within_store [of 8] within_wr [of 4]]) simp_all
  have "tiles ?m (heap_start h) (xs @ [KBlock (bsize b) True True] @ ys)"
    by (rule tiles_splice [where n = "unat (bsize b)", OF parts(1)])
       (use hd within_mono [OF w parts(4)] parts(3,4) tot in \<open>simp_all add: q_def [symmetric]\<close>)
  then show ?thesis using run w by auto
qed

text \<open>
  C7. A request that can be served gets a fresh zeroed region: from a well-formed heap and a
  size below 64 MB, \<open>kmalloc\<close> returns; if it returns \<open>NULL\<close> then no free block fits and the heap has
  no room left at its end; otherwise the heap is well formed again, its allocations are those
  from before and the new block, the new memory is zero and the contents of every earlier
  allocation are unchanged. The side condition excludes a first fit that leaves less than a header.
\<close>

theorem kmalloc_correct:
  assumes "heap_ok h bs" and "0 < sz" and "unat sz < 2 ^ 26" and "no_sliver bs sz"
  shows "\<exists>p h' bs'. kmalloc h sz = Some (p, h') \<and>
    (if p = 0 then h' = h \<and> first_fit (sz + 12) bs = None \<and> 2 ^ 26 \<le> unat (heap_used h) + unat sz + 12
     else heap_ok h' bs' \<and>
       set (allocs (heap_start h) bs') = insert (p - 12, sz + 12) (set (allocs (heap_start h) bs)) \<and>
       load (km h') p (unat sz) = replicate (unat sz) 0 \<and>
       (\<forall>(a, s) \<in> set (allocs (heap_start h) bs). load (km h') a (unat s) = load (km h) a (unat s)))"
proof -
  let ?q = "heap_start h + of_nat (block_place bs sz)"
  have "total bs < 2 ^ 26" "heap_start h = 0x1000000"
    using assms(1) by (simp_all add: heap_ok_def KMALLOC_HEAP_START_def KMALLOC_HEAP_SIZE_def)
  moreover have "block_place bs sz \<le> total bs"
    using first_fit_Some [of "sz + 12" bs] by (fastforce simp: block_place_def split: option.splits)
  ultimately have "unat (?q + 12) = 0x1000000 + block_place bs sz + 12"
    by (simp add: unat_word_ariths unat_of_nat)
  then have nz: "?q + 12 \<noteq> 0" by auto
  from kmalloc_cases [OF assms] show ?thesis
  proof
    assume "\<exists>h'. kmalloc h sz = Some (?q + 12, h') \<and> heap_ok h' (allocated_list bs sz) \<and>
      load (km h') (?q + 12) (unat sz) = replicate (unat sz) 0 \<and>
      (\<forall>(a, s) \<in> set (allocs (heap_start h) bs). load (km h') a (unat s) = load (km h) a (unat s))"
    then obtain h' where h': "kmalloc h sz = Some (?q + 12, h')" "heap_ok h' (allocated_list bs sz)"
      "load (km h') (?q + 12) (unat sz) = replicate (unat sz) 0"
      "\<forall>(a, s) \<in> set (allocs (heap_start h) bs). load (km h') a (unat s) = load (km h) a (unat s)" by blast
    have "set (allocs (heap_start h) (allocated_list bs sz)) = insert (?q + 12 - 12, sz + 12) (set (allocs (heap_start h) bs))"
      using allocs_allocated_list [of "heap_start h" bs sz] by simp
    then show ?thesis using h' nz by (intro exI [of _ "?q + 12"] exI [of _ h'] exI [of _ "allocated_list bs sz"]) simp
  qed simp
qed

definition demo_heap :: kheap where
  "demo_heap = \<lparr>heap_start = 0x1000000, heap_used = 0, km = (\<lambda>_. 0xAA)\<rparr>"

lemma demo_heap_ok: "heap_ok demo_heap []"
  by (simp add: heap_ok_def demo_heap_def KMALLOC_HEAP_START_def KMALLOC_HEAP_SIZE_def)

theorem kmalloc_correct_witness:
  "\<exists>p h' bs'. kmalloc demo_heap 20 = Some (p, h') \<and> p \<noteq> 0 \<and> heap_ok h' bs' \<and>
     load (km h') p 20 = replicate 20 0"
proof -
  have "\<exists>p h' bs'. kmalloc demo_heap 20 = Some (p, h') \<and>
    (if p = 0 then h' = demo_heap \<and> first_fit (20 + 12) [] = None \<and> 2 ^ 26 \<le> unat (heap_used demo_heap) + unat (20 :: u32) + 12
     else heap_ok h' bs' \<and>
       set (allocs (heap_start demo_heap) bs') = insert (p - 12, 20 + 12) (set (allocs (heap_start demo_heap) [])) \<and>
       load (km h') p (unat (20 :: u32)) = replicate (unat (20 :: u32)) 0 \<and>
       (\<forall>(a, s) \<in> set (allocs (heap_start demo_heap) []). load (km h') a (unat s) = load (km demo_heap) a (unat s)))"
    by (rule kmalloc_correct [OF demo_heap_ok]) (simp_all add: no_sliver_def)
  then show ?thesis by (auto simp: demo_heap_def split: if_splits)
qed

text \<open>
  The allocations of a well-formed heap are pairwise disjoint regions of memory: two
  different pointers handed out by \<open>kmalloc\<close> never share a byte.
\<close>

theorem allocations_disjoint:
  assumes "heap_ok h bs" and "i < length (allocs (heap_start h) bs)" and "j < length (allocs (heap_start h) bs)" and "i \<noteq> j"
  shows "disjoint_regions (fst (allocs (heap_start h) bs ! i)) (unat (snd (allocs (heap_start h) bs ! i)))
    (fst (allocs (heap_start h) bs ! j)) (unat (snd (allocs (heap_start h) bs ! j)))"
proof -
  have T: "tiles (km h) (heap_start h) bs" using assms(1) unfolding heap_ok_def by blast
  have tot: "total bs < 2 ^ 32" using assms(1) by (simp add: heap_ok_def KMALLOC_HEAP_SIZE_def)
  have sym: "disjoint_regions a n b k \<Longrightarrow> disjoint_regions b k a n" for a b n k
    unfolding disjoint_regions_def by metis
  show ?thesis
  proof (cases "i < j")
    case True
    then show ?thesis using allocs_apart [OF T tot assms(2,3)] by simp
  next
    case False
    then have "j < i" using assms(4) by simp
    then show ?thesis by (rule sym [OF allocs_apart [OF T tot assms(3,2)]])
  qed
qed

text \<open>A heap after two requests, after the first block was freed and after it was used again.\<close>

lemma kmalloc_heap:
  assumes "heap_ok h bs" and "0 < sz" and "unat sz < 2 ^ 26" and "no_sliver bs sz" and "total bs + unat sz + 12 < 2 ^ 26"
  shows "\<exists>h'. heap_ok h' (allocated_list bs sz)"
proof -
  have "\<not> 2 ^ 26 \<le> unat (heap_used h) + unat sz + 12" using assms(1,5) by (simp add: heap_ok_def)
  with kmalloc_cases [OF assms(1-4)] show ?thesis by blast
qed

lemma demo_heap2: "\<exists>h. heap_ok h [KBlock 32 False False, KBlock 28 False False]"
proof -
  obtain h where "heap_ok h (allocated_list [] 20)"
    using kmalloc_heap [OF demo_heap_ok, of 20] by (auto simp: no_sliver_def)
  then have "heap_ok h [KBlock 32 False False]" by (simp add: allocated_list_def)
  from kmalloc_heap [OF this, of 16] show ?thesis by (simp add: no_sliver_def allocated_list_def)
qed

theorem allocations_disjoint_witness:
  "disjoint_regions KMALLOC_HEAP_START 32 (KMALLOC_HEAP_START + 32) 28"
proof -
  obtain h where h: "heap_ok h [KBlock 32 False False, KBlock 28 False False]" using demo_heap2 by blast
  then have "heap_start h = KMALLOC_HEAP_START" by (simp add: heap_ok_def)
  then show ?thesis using allocations_disjoint [OF h, of 0 1] by simp
qed

text \<open>
  C38. Freeing gives exactly one block back: \<open>kfree\<close> of a block that carries the magic of
  allocated blocks removes it from the allocations, keeps the others and their contents, and the
  heap stays well formed.
\<close>

theorem kfree_correct:
  assumes "heap_ok h (xs @ b # ys)" and "\<not> bfree b" and "\<not> bfreed b" and "p = heap_start h + of_nat (total xs) + 12"
  shows "heap_ok (kfree h p) (xs @ KBlock (bsize b) True True # ys) \<and>
    set (allocs (heap_start h) (xs @ b # ys)) =
      insert (p - 12, bsize b) (set (allocs (heap_start h) (xs @ KBlock (bsize b) True True # ys))) \<and>
    (\<forall>(a, s) \<in> set (allocs (heap_start h) (xs @ KBlock (bsize b) True True # ys)).
       load (km (kfree h p)) a (unat s) = load (km h) a (unat s))"
proof -
  let ?q = "heap_start h + of_nat (total xs)"
  have tot: "total (xs @ b # ys) < 2 ^ 26" using assms(1) by (simp add: heap_ok_def KMALLOC_HEAP_SIZE_def)
  have "tiles (km h) (heap_start h) (xs @ b # ys)" using assms(1) unfolding heap_ok_def by blast
  then have b12: "12 \<le> unat (bsize b)" by (simp add: tiles_append)
  from kfree_tiles [OF assms(1-3)] obtain m where m: "kfree h (?q + 12) = h\<lparr>km := m\<rparr>"
    "tiles m (heap_start h) (xs @ KBlock (bsize b) True True # ys)" "within ?q 12 (km h) m" by blast
  have w: "within ?q (unat (bsize b)) (km h) m" by (rule within_mono [OF m(3) b12])
  have "heap_ok (h\<lparr>km := m\<rparr>) (xs @ KBlock (bsize b) True True # ys)"
    using assms(1) m(2) by (simp add: heap_ok_def)
  moreover have "load m a (unat s) = load (km h) a (unat s)"
    if "(a, s) \<in> set (allocs (heap_start h) (xs @ KBlock (bsize b) True True # ys))" for a s
  proof -
    have "(a, s) \<in> set (allocs (heap_start h) xs) \<or>
        (a, s) \<in> set (allocs (?q + of_nat (unat (bsize b))) ys)"
      using that by (simp add: allocs_append)
    then show ?thesis using contents_before [OF _ w] contents_after [OF _ w] tot by auto
  qed
  ultimately show ?thesis using m(1) assms(2,4) by (auto simp: allocs_append)
qed

theorem kfree_correct_witness:
  "\<exists>h. heap_ok h [KBlock 32 False False, KBlock 28 False False] \<and>
     heap_ok (kfree h (heap_start h + 12)) [KBlock 32 True True, KBlock 28 False False]"
proof -
  obtain h where h: "heap_ok h ([] @ KBlock 32 False False # [KBlock 28 False False])" using demo_heap2 by auto
  show ?thesis using kfree_correct [OF h, of "heap_start h + 12"] h by auto
qed

lemma kfree_rejected:
  assumes "heap_ok h (xs @ b # ys)" and "bfreed b"
  shows "kfree h (heap_start h + of_nat (total xs) + 12) = h"
proof -
  have "tiles (km h) (heap_start h) (xs @ b # ys)" using assms(1) unfolding heap_ok_def by blast
  then have "header (km h) (heap_start h + of_nat (total xs)) b" by (simp add: tiles_append)
  then show ?thesis
    using assms(2) by (simp add: kfree_def Let_def header_def magic_of_def KMALLOC_MAGIC_def KMALLOC_FREED_MAGIC_def)
qed

lemma first_fit_at: "first_fit t xs = None \<Longrightarrow> bfree b \<Longrightarrow> t \<le> bsize b \<Longrightarrow> first_fit t (xs @ b # ys) = Some (xs, b, ys)"
  by (induction xs) (auto split: if_splits)

lemma kfree_start [simp]: "heap_start (kfree h p) = heap_start h"
  by (simp add: kfree_def Let_def)

text \<open>
  C39. A block that is handed out a second time can not be given back. \<open>p\<close> is an allocated
  block, of exactly the size of a later request or large enough to be split for it, and no
  free block before it fits that request. Freeing \<open>p\<close> and requesting \<open>sz\<close> bytes hands out
  \<open>p\<close> again, and the heap has an allocation of \<open>sz\<close> bytes at \<open>p\<close>; but \<open>kmalloc\<close> leaves the
  magic of freed blocks in its header, so freeing \<open>p\<close> now changes nothing and the
  allocation stays.
\<close>

theorem kfree_reused_block:
  assumes "heap_ok h (xs @ b # ys)" and "\<not> bfree b" and "\<not> bfreed b" and "p = heap_start h + of_nat (total xs) + 12"
    and "0 < sz" and "bsize b = sz + 12 \<or> unat sz + 24 \<le> unat (bsize b)" and "unat sz < 2 ^ 26"
    and "first_fit (sz + 12) xs = None"
  shows "\<exists>h' bs'. kmalloc (kfree h p) sz = Some (p, h') \<and> heap_ok h' bs' \<and>
    (p - 12, sz + 12) \<in> set (allocs (heap_start h') bs') \<and> kfree h' p = h'"
proof -
  let ?f = "KBlock (bsize b) True True" and ?q = "heap_start h + of_nat (total xs)"
  let ?bs = "xs @ ?f # ys" and ?h = "kfree h p"
  from kfree_tiles [OF assms(1-3)] obtain m where m: "kfree h (?q + 12) = h\<lparr>km := m\<rparr>"
    "tiles m (heap_start h) ?bs" by blast
  then have ok: "heap_ok ?h ?bs" using assms(1) by (simp add: assms(4) heap_ok_def)
  have ut: "unat (sz + 12) = unat sz + 12" using assms(7) by (intro unat_add_small [of sz 12, simplified]) simp
  have le: "sz + 12 \<le> bsize b" using assms(6) ut by (auto simp: word_le_nat_alt)
  have ff: "first_fit (sz + 12) ?bs = Some (xs, ?f, ys)"
    by (rule first_fit_at [OF assms(8)]) (use le in simp_all)
  have nos: "no_sliver ?bs sz" using assms(6) by (simp add: no_sliver_def ff)
  from kmalloc_cases [OF ok assms(5,7) nos] obtain h' where h':
    "kmalloc ?h sz = Some (?q + 12, h')" "heap_ok h' (allocated_list ?bs sz)"
    by (auto simp: ff block_place_def)
  have "\<exists>zs. allocated_list ?bs sz = xs @ KBlock (sz + 12) False True # zs"
    unfolding allocated_list_def ff by simp
  then obtain zs where zs: "allocated_list ?bs sz = xs @ KBlock (sz + 12) False True # zs" by blast
  have st: "heap_start h' = heap_start h" using h'(2) assms(1) by (simp add: heap_ok_def)
  have "kfree h' (heap_start h' + of_nat (total xs) + 12) = h'"
    by (rule kfree_rejected [OF h'(2) [unfolded zs]]) simp
  moreover have "(?q, sz + 12) \<in> set (allocs (heap_start h) (xs @ KBlock (sz + 12) False True # zs))"
    by (simp add: allocs_append)
  ultimately show ?thesis
    using h' zs st assms(4) by (intro exI [of _ h'] exI [of _ "allocated_list ?bs sz"]) simp
qed

theorem kfree_reused_block_witness:
  "\<exists>h h'. heap_ok h [KBlock 32 False False, KBlock 28 False False] \<and>
     kmalloc (kfree h (heap_start h + 12)) 20 = Some (heap_start h + 12, h') \<and>
     kfree h' (heap_start h + 12) = h'"
proof -
  obtain h where h: "heap_ok h ([] @ KBlock 32 False False # [KBlock 28 False False])" using demo_heap2 by auto
  have "\<exists>h' bs'. kmalloc (kfree h (heap_start h + 12)) 20 = Some (heap_start h + 12, h') \<and> heap_ok h' bs' \<and>
    (heap_start h + 12 - 12, 20 + 12) \<in> set (allocs (heap_start h') bs') \<and> kfree h' (heap_start h + 12) = h'"
    by (rule kfree_reused_block [OF h]) simp_all
  then show ?thesis using h by auto
qed

text \<open>The nine bytes that the header of a remainder consists of.\<close>

definition header_bytes :: "u32 \<Rightarrow> bytes" where
  "header_bytes t = le32 t @ le32 KMALLOC_MAGIC @ [1]"

lemma remainder_bytes: "load (remainder_block r t m) r 9 = header_bytes t"
proof -
  have s: "remainder_block r t m = store r (header_bytes t) m"
    by (simp add: remainder_block_def header_bytes_def wr_mem32_def le32_def store_Cons add.assoc)
  show ?thesis unfolding s using load_store_same [of "header_bytes t" r m] by (simp add: header_bytes_def)
qed

lemma load_drop: "load m (p + of_nat k) (n - k) = drop k (load m p n)"
  by (rule nth_equalityI) (auto simp: load_def less_diff_conv ac_simps)

text \<open>
  C40. A request that splits a free block with a remainder of one to eight bytes destroys the
  header of the next block: the first block \<open>c\<close> that fits is \<open>r\<close> bytes larger than the request
  with its header, and \<open>d\<close> is the block behind it. The request is served from \<open>c\<close>, and the
  header that \<open>split_block\<close> writes for the remainder covers the first \<open>9 - r\<close> bytes of the header
  of \<open>d\<close>: they are the last \<open>9 - r\<close> bytes of the size \<open>r\<close>, the magic and the free flag 1. (A
  remainder of nine to eleven bytes is too small for a header too, but the nine bytes
  written end before the next block.)
\<close>

theorem split_sliver_overwrites:
  assumes "heap_ok h (xs @ c # d # ys)" and "bfree c" and "first_fit (sz + 12) xs = None"
    and "0 < sz" and "unat (bsize c) = unat sz + 12 + r" and "1 \<le> r" and "r \<le> 8"
    and "q = heap_start h + of_nat (total xs)"
  shows "\<exists>h'. kmalloc h sz = Some (q + 12, h') \<and>
    load (km h') (q + bsize c) (9 - r) = drop r (le32 (of_nat r) @ le32 KMALLOC_MAGIC @ [1])"
proof -
  let ?bs = "xs @ c # d # ys" and ?t = "sz + 12"
  have T: "tiles (km h) (heap_start h) ?bs" using assms(1) unfolding heap_ok_def by blast
  have st: "heap_start h = 0x1000000" and tot: "total ?bs < 2 ^ 26"
    using assms(1) by (simp_all add: heap_ok_def KMALLOC_HEAP_START_def KMALLOC_HEAP_SIZE_def)
  have small: "unat sz < 2 ^ 26" "total xs < 2 ^ 26" using tot assms(5) by simp_all
  have ut: "unat ?t = unat sz + 12" using small by (intro unat_add_small [of sz 12, simplified]) simp
  have lt: "?t < bsize c" using assms(5,6) ut by (simp add: word_less_nat_alt)
  have ff: "first_fit ?t ?bs = Some (xs, c, d # ys)"
    by (rule first_fit_at [OF assms(3,2)]) (use lt in simp)
  have "unat q = 0x1000000 + total xs" unfolding assms(8) st using small by (simp add: unat_word_ariths unat_of_nat)
  then have q0: "q \<noteq> 0" by auto
  have rq: "rd_mem32 (km h) q = bsize c" using T by (simp add: tiles_append header_def assms(8))
  have size: "bsize c = ?t + of_nat r"
  proof -
    have r: "unat (of_nat r :: u32) = r" using assms(7) by (subst unat_of_nat) simp
    then have "unat (?t + of_nat r) = unat ?t + r" using ut small assms(7) by (subst unat_add_small) simp_all
    then show ?thesis using assms(5) ut by (simp add: word_unat_eq_iff)
  qed
  let ?m1 = "remainder_block (q + ?t) (of_nat r) (km h)"
  let ?m2 = "wr_mem32 q ?t ?m1"
  let ?m = "finish_block q (unat sz) ?m2"
  have "split_block q sz (km h) = ?m2"
    unfolding split_block_def remainder_block_def Let_def rq
    using lt size by (simp only: not_le [symmetric] if_False) simp
  moreover have "find_free_block h sz = Some q" using find_heap [OF assms(1), of sz] ff by (simp add: assms(8))
  ultimately have run: "kmalloc h sz = Some (q + 12, h\<lparr>km := ?m\<rparr>)"
    using word_gt_0 [of sz] assms(4) st q0 rq lt by (simp add: kmalloc_def finish_block_def Let_def)
  have n: "unat sz < 2 ^ 31" using small by simp
  have w: "within q (unat ?t) ?m1 ?m"
    unfolding finish_block_store [OF n]
    by (rule within_trans [OF within_wr [of 0, simplified] within_trans [OF within_store [of 8] within_store [of 12]]])
       (use ut small in simp_all)
  have "load ?m (q + ?t) 9 = load ?m1 (q + ?t) 9"
    using after_region [OF w] ut small by (auto simp: load_def)
  then have "load ?m (q + ?t) 9 = header_bytes (of_nat r)" by (simp only: remainder_bytes)
  then have "load ?m (q + ?t + of_nat r) (9 - r) = drop r (header_bytes (of_nat r))"
    using load_drop [where k = r and n = 9 and m = ?m and p = "q + ?t"] by simp
  then show ?thesis using run by (simp add: size header_bytes_def add.assoc)
qed

text \<open>Two blocks of 36 and 28 bytes, the first one freed: a request of 20 bytes leaves four.\<close>

lemma demo_heap3: "\<exists>h. heap_ok h ([] @ KBlock 36 True True # KBlock 28 False False # [])"
proof -
  obtain h where "heap_ok h (allocated_list [] 24)"
    using kmalloc_heap [OF demo_heap_ok, of 24] by (auto simp: no_sliver_def)
  then have "heap_ok h [KBlock 36 False False]" by (simp add: allocated_list_def)
  from kmalloc_heap [OF this, of 16] obtain k where
    k: "heap_ok k ([] @ KBlock 36 False False # [KBlock 28 False False])"
    by (auto simp: no_sliver_def allocated_list_def)
  from kfree_tiles [OF k] obtain m where "tiles m (heap_start k) [KBlock 36 True True, KBlock 28 False False]" by auto
  then have "heap_ok (k\<lparr>km := m\<rparr>) [KBlock 36 True True, KBlock 28 False False]" using k by (simp add: heap_ok_def)
  then show ?thesis by auto
qed

theorem split_sliver_overwrites_witness:
  "\<exists>h h'. heap_ok h [KBlock 36 True True, KBlock 28 False False] \<and>
     kmalloc h 20 = Some (heap_start h + 12, h') \<and> rd_mem32 (km h') (heap_start h + 36) = KMALLOC_MAGIC"
proof -
  obtain h where h: "heap_ok h ([] @ KBlock 36 True True # KBlock 28 False False # [])" using demo_heap3 by blast
  have "\<exists>h'. kmalloc h 20 = Some (heap_start h + 12, h') \<and>
      load (km h') (heap_start h + bsize (KBlock 36 True True)) (9 - 4) =
        drop 4 (le32 (of_nat 4) @ le32 KMALLOC_MAGIC @ [1])"
    by (rule split_sliver_overwrites [OF h]) simp_all
  then obtain h' where h': "kmalloc h 20 = Some (heap_start h + 12, h')"
    "load (km h') (heap_start h + 36) 5 = le32 KMALLOC_MAGIC @ [1]" by auto
  have "load (km h') (heap_start h + 36) 4 = take 4 (load (km h') (heap_start h + 36) 5)"
    by (simp add: load_def take_map)
  then have "rd_mem32 (km h') (heap_start h + 36) = KMALLOC_MAGIC"
    using h'(2) rd32_append [of KMALLOC_MAGIC "[]"] by (simp add: rd_mem32_def)
  then show ?thesis using h h'(1) by auto
qed

end
