(* ===== verification/Keymap.thy ===== *)
theory Keymap imports Ioport begin

text \<open>
  The keyboard: \<open>lib/c/driver/keyboard.c\<close> polls the controller, and
  \<open>lib/c/driver/input/keymaps/keymap.c\<close> tracks the modifier keys and translates scan codes by
  the English tables. A table has 128 entries; an index beyond it, which C leaves undefined,
  gives None.
\<close>

section \<open>Tables\<close>

record keyboard_struct =
  keyboard_name :: bytes
  keymap :: bytes
  shift_keymap :: bytes

definition keymap_english :: bytes where
  "keymap_english =
     [0, 27] @ str ''1234567890-='' @ [0x08, 0x09] @ str ''qwertyuiop[]'' @ [0x0A, 0] @
     str ''asdfghjkl;'' @ [0x27, 0x60, 0, 0x5C] @ str ''zxcvbnm,./'' @ [0, 0x2A, 0, 0x20] @ replicate 70 0"

definition keymap_english_shift :: bytes where
  "keymap_english_shift =
     [0, 27] @ str ''!@#$%^&*()_+'' @ [0x08, 0x09] @ str ''QWERTYUIOP{}'' @ [0x0A, 0] @
     str ''ASDFGHJKL:'' @ [0x22, 0x7E, 0, 0x7C] @ str ''ZXCVBNM<>?'' @ [0, 0x2A, 0, 0x20] @ replicate 70 0"

definition available_keyboards :: "keyboard_struct list" where
  "available_keyboards =
     [\<lparr>keyboard_name = str ''English'', keymap = keymap_english, shift_keymap = keymap_english_shift\<rparr>]"

definition keyboards_count :: nat where
  "keyboards_count = length available_keyboards"

section \<open>State and operations\<close>

text \<open>\<open>current_keyboard\<close> always points to the entry \<open>current_index\<close>.\<close>

record keyboard =
  key_state :: "bool list"
  shift_mode :: bool
  current_index :: nat

definition initial_keyboard :: keyboard where
  "initial_keyboard = \<lparr>key_state = replicate 128 False, shift_mode = False, current_index = 0\<rparr>"

abbreviation (input) "SC_PRESS_LEFT_SHIFT \<equiv> (0x2A :: u8)"
abbreviation (input) "SC_UNPRESS_LEFT_SHIFT \<equiv> (0xAA :: u8)"
abbreviation (input) "SC_PRESS_RIGHT_SHIFT \<equiv> (0x36 :: u8)"
abbreviation (input) "SC_UNPRESS_RIGHT_SHIFT \<equiv> (0xB6 :: u8)"
abbreviation (input) "SC_PRESS_CTRL \<equiv> (0x1D :: u8)"
abbreviation (input) "SC_UNPRESS_CTRL \<equiv> (0x9D :: u8)"
abbreviation (input) "SC_PRESS_ALT \<equiv> (0x38 :: u8)"
abbreviation (input) "SC_UNPRESS_ALT \<equiv> (0xB8 :: u8)"

definition key_down :: "keyboard \<Rightarrow> u8 \<Rightarrow> bool" where
  "key_down k sc = key_state k ! unat sc"

definition set_key :: "u8 \<Rightarrow> bool \<Rightarrow> keyboard \<Rightarrow> keyboard" where
  "set_key sc b k = k\<lparr>key_state := (key_state k)[unat sc := b]\<rparr>"

definition get_keymap :: "keyboard \<Rightarrow> bytes" where
  "get_keymap k =
     (if shift_mode k then shift_keymap (available_keyboards ! current_index k)
      else keymap (available_keyboards ! current_index k))"

definition get_char :: "keyboard \<Rightarrow> u8 \<Rightarrow> u8 option" where
  "get_char k scancode =
     (if scancode = 0x00 then Some 0x00
      else if unat scancode < length (get_keymap k) then Some (get_keymap k ! unat scancode)
      else None)"

definition switch_to_next_keyboard :: "keyboard \<Rightarrow> keyboard" where
  "switch_to_next_keyboard k =
     k\<lparr>current_index := (if keyboards_count \<le> current_index k + 1 then 0 else current_index k + 1)\<rparr>"

definition hot_key_handler :: "u8 \<Rightarrow> keyboard \<Rightarrow> keyboard" where
  "hot_key_handler scancode k =
     (let shift = (key_down k SC_PRESS_LEFT_SHIFT \<or> key_down k SC_PRESS_RIGHT_SHIFT);
          k1 = k\<lparr>shift_mode := shift\<rparr>
      in if key_down k1 SC_PRESS_CTRL \<and> shift then switch_to_next_keyboard k1 else k1)"

definition update_hot_key_state :: "u8 \<Rightarrow> keyboard \<Rightarrow> keyboard" where
  "update_hot_key_state scancode k0 =
     (let k1 = (if scancode = SC_PRESS_LEFT_SHIFT then set_key SC_PRESS_LEFT_SHIFT True k0 else k0);
          k2 = (if scancode = SC_UNPRESS_LEFT_SHIFT then set_key SC_PRESS_LEFT_SHIFT False k1 else k1);
          k3 = (if scancode = SC_PRESS_RIGHT_SHIFT then set_key SC_PRESS_RIGHT_SHIFT True k2 else k2);
          k4 = (if scancode = SC_UNPRESS_RIGHT_SHIFT then set_key SC_PRESS_RIGHT_SHIFT False k3 else k3);
          k5 = (if scancode = SC_PRESS_CTRL then set_key SC_PRESS_CTRL True k4 else k4);
          k6 = (if scancode = SC_UNPRESS_CTRL then set_key SC_PRESS_CTRL False k5 else k5);
          k7 = (if scancode = SC_PRESS_ALT then set_key SC_PRESS_ALT True k6 else k6)
      in (if scancode = SC_UNPRESS_ALT then set_key SC_PRESS_ALT False k7 else k7))"

definition keyboard_get_scancode :: "'d machine \<Rightarrow> 'd \<Rightarrow> u8 \<times> 'd" where
  "keyboard_get_scancode io d0 =
     (case inb io 0x64 d0 of (status, d1) \<Rightarrow>
        if status AND 0x01 = 0 then (0x00, d1) else inb io 0x60 d1)"

end
