(* ===== verification/Vga.thy ===== *)
theory Vga imports Keymap begin

text \<open>
  The text display: the cells of the VGA memory with the cursor registers of the CRT controller,
  \<open>lib/c/system/vga.c\<close> and \<open>lib/h/vga.h\<close>, on the state of the terminal. The controller is
  hardware: the locale \<open>crtc\<close> states its documented registers behind the ports, and the
  controller executed on its own registers interprets it.
\<close>

section \<open>State\<close>

abbreviation (input) "VGA_WIDTH \<equiv> (80 :: nat)"
abbreviation (input) "VGA_HEIGHT \<equiv> (25 :: nat)"
abbreviation (input) "VGA_START_CURSOR_POSITION \<equiv> (160 :: nat)"
abbreviation (input) "SCROLL_HISTORY_SIZE \<equiv> (1024 :: nat)"

abbreviation (input) "VGA_COLOR_BLACK \<equiv> (0 :: u8)"
abbreviation (input) "VGA_COLOR_LIGHT_GREY \<equiv> (7 :: u8)"
abbreviation (input) "VGA_COLOR_LIGHT_GREEN \<equiv> (10 :: u8)"
abbreviation (input) "VGA_COLOR_WHITE \<equiv> (15 :: u8)"

text \<open>
  The VGA memory, the static variables of \<open>terminal.c\<close> (the two history buffers with their line
  counts, the line that is being typed), those of \<open>keymap.c\<close>, and the hardware. \<open>fault\<close> records that an array was indexed out of its bounds, after which C
  promises nothing.
\<close>

record 'd tty =
  vga_memory :: "u16 list"
  terminal_top_buffer :: "u16 list list"
  terminal_bottom_buffer :: "u16 list list"
  top_buffer_count :: nat
  bottom_buffer_count :: nat
  input_buf :: bytes
  input_len :: nat
  prompt_shown :: bool
  kbd :: keyboard
  fault :: bool
  port :: 'd

definition tty_in :: "'d machine \<Rightarrow> u16 \<Rightarrow> ('d tty, u8) state" where
  "tty_in io p = State (\<lambda>t. case inb io p (port t) of (x, d) \<Rightarrow> (x, t\<lparr>port := d\<rparr>))"

definition tty_out :: "'d machine \<Rightarrow> u16 \<Rightarrow> u8 \<Rightarrow> ('d tty, unit) state" where
  "tty_out io p x = modify (\<lambda>t. t\<lparr>port := outb io p x (port t)\<rparr>)"

definition vga_entry :: "u8 \<Rightarrow> u8 \<Rightarrow> u8 \<Rightarrow> u16" where
  "vga_entry c fg bg = (ucast c OR push_bit 8 (push_bit 4 (ucast bg) OR ucast fg))"

definition blank :: u16 where
  "blank = vga_entry 0x00 VGA_COLOR_WHITE VGA_COLOR_BLACK"

definition poke :: "nat \<Rightarrow> u16 \<Rightarrow> ('d tty, unit) state" where
  "poke i x = modify (\<lambda>t. if i < length (vga_memory t) then t\<lparr>vga_memory := (vga_memory t)[i := x]\<rparr>
     else t\<lparr>fault := True\<rparr>)"

section \<open>Cursor\<close>

definition vga_set_cursor :: "'d machine \<Rightarrow> u16 \<Rightarrow> ('d tty, unit) state" where
  "vga_set_cursor io off = do {
     _ \<leftarrow> tty_out io 0x3D4 0x0E;
     _ \<leftarrow> tty_out io 0x3D5 (ucast (drop_bit 8 off AND 0xFF));
     _ \<leftarrow> tty_out io 0x3D4 0x0F;
     tty_out io 0x3D5 (ucast (off AND 0xFF))
   }"

definition vga_show_cursor :: "'d machine \<Rightarrow> ('d tty, unit) state" where
  "vga_show_cursor io = do {
     _ \<leftarrow> tty_out io 0x3D4 0x0A;
     val \<leftarrow> tty_in io 0x3D5;
     tty_out io 0x3D5 (val AND NOT 0x20)
   }"

definition vga_hide_cursor :: "'d machine \<Rightarrow> ('d tty, unit) state" where
  "vga_hide_cursor io = do {
     _ \<leftarrow> tty_out io 0x3D4 0x0A;
     val \<leftarrow> tty_in io 0x3D5;
     tty_out io 0x3D5 (val OR 0x20)
   }"

definition vga_get_cursor_position :: "'d machine \<Rightarrow> ('d tty, u16) state" where
  "vga_get_cursor_position io = do {
     _ \<leftarrow> tty_out io 0x3D4 0x0E;
     high \<leftarrow> tty_in io 0x3D5;
     _ \<leftarrow> tty_out io 0x3D4 0x0F;
     low \<leftarrow> tty_in io 0x3D5;
     State_Monad.return (push_bit 8 (ucast high) OR ucast low)
   }"

definition vga_increment_cursor_position :: "'d machine \<Rightarrow> ('d tty, u16) state" where
  "vga_increment_cursor_position io = do {
     c \<leftarrow> vga_get_cursor_position io;
     let cursor = (if 2000 \<le> c + 1 then 2000 - 1 else c + 1);
     _ \<leftarrow> vga_set_cursor io cursor;
     State_Monad.return cursor
   }"

definition vga_decrement_cursor_position :: "'d machine \<Rightarrow> ('d tty, u16) state" where
  "vga_decrement_cursor_position io = do {
     c \<leftarrow> vga_get_cursor_position io;
     let cursor = (if 0 < c then c - 1 else c);
     _ \<leftarrow> vga_set_cursor io cursor;
     State_Monad.return cursor
   }"

definition fill_cells :: "u16 \<Rightarrow> nat \<Rightarrow> nat \<Rightarrow> u16 list \<Rightarrow> u16 list" where
  "fill_cells x off n mem = fold (\<lambda>i m. m[off + i := x]) [0..<n] mem"

definition vga_clear :: "'d machine \<Rightarrow> u8 \<Rightarrow> u8 \<Rightarrow> bool \<Rightarrow> u16 \<Rightarrow> ('d tty, unit) state" where
  "vga_clear io fg bg show_cursor cursor_position = do {
     _ \<leftarrow> modify (\<lambda>t. t\<lparr>vga_memory := fill_cells (vga_entry 0x00 fg bg) 0 (VGA_WIDTH * VGA_HEIGHT) (vga_memory t)\<rparr>);
     if show_cursor then do {
       _ \<leftarrow> vga_set_cursor io cursor_position;
       vga_show_cursor io
     } else vga_hide_cursor io
   }"

section \<open>The CRT controller\<close>

text \<open>
  An address register that selects one of the registers, which the data port reads and writes.
  Of those the driver uses the cursor start (bit 5 turns the cursor off) and the two bytes of
  the cursor location.
\<close>

record crtc =
  crtc_index :: u8
  crtc_reg :: "u8 \<Rightarrow> u8"

definition cursor_register :: "u8 \<Rightarrow> bool" where
  "cursor_register i \<longleftrightarrow> i = 0x0A \<or> i = 0x0E \<or> i = 0x0F"

definition crtc_cursor :: "crtc \<Rightarrow> u16" where
  "crtc_cursor c = (push_bit 8 (ucast (crtc_reg c 0x0E)) OR ucast (crtc_reg c 0x0F))"

definition crtc_shown :: "crtc \<Rightarrow> bool" where
  "crtc_shown c \<longleftrightarrow> \<not> bit (crtc_reg c 0x0A) 5"

locale crtc =
  fixes io :: "'d machine" and view :: "'d \<Rightarrow> crtc"
  assumes select: "view (outb io 0x3D4 i d) = (view d)\<lparr>crtc_index := i\<rparr>"
    and store: "cursor_register (crtc_index (view d)) \<Longrightarrow>
      view (outb io 0x3D5 x d) = (view d)\<lparr>crtc_reg := (crtc_reg (view d))(crtc_index (view d) := x)\<rparr>"
    and load: "cursor_register (crtc_index (view d)) \<Longrightarrow> inb io 0x3D5 d = (x, d') \<Longrightarrow>
      x = crtc_reg (view d) (crtc_index (view d)) \<and> view d' = view d"

definition crtc_io :: "crtc machine" where
  "crtc_io = \<lparr>inb = (\<lambda>p d. (if p = 0x3D5 then crtc_reg d (crtc_index d) else 0, d)),
     outb = (\<lambda>p x d. if p = 0x3D4 then d\<lparr>crtc_index := x\<rparr>
                     else if p = 0x3D5 then d\<lparr>crtc_reg := (crtc_reg d)(crtc_index d := x)\<rparr> else d),
     inw = (\<lambda>_ d. (0, d)), outw = (\<lambda>_ _ d. d), uninit = (\<lambda>_. replicate 512 0)\<rparr>"

interpretation text_display: crtc crtc_io "\<lambda>d. d"
  by unfold_locales (auto simp: crtc_io_def)

end
