(* ===== verification/Terminal.thy ===== *)
theory Terminal imports Vga begin

text \<open>
  The scrolling terminal: output with \<open>putchar_color\<close> (\<open>lib/c/stdio/putchar.c\<close>) and the line
  history of \<open>lib/c/kernel/terminal.c\<close>. Lines leave the screen at the top into the top buffer;
  scrolling back moves lines from the bottom of the screen into the bottom buffer.
\<close>

section \<open>Lines of the VGA memory\<close>

abbreviation (input) "terminal_top_row \<equiv> (2 :: nat)"
abbreviation (input) "terminal_rows \<equiv> (23 :: nat)"

definition read_line_from_vga :: "nat \<Rightarrow> u16 list \<Rightarrow> u16 list" where
  "read_line_from_vga row mem = map (\<lambda>col. mem ! (row * VGA_WIDTH + col)) [0..<VGA_WIDTH]"

definition write_line_to_vga :: "nat \<Rightarrow> u16 list \<Rightarrow> u16 list \<Rightarrow> u16 list" where
  "write_line_to_vga row buffer mem = fold (\<lambda>col m. m[row * VGA_WIDTH + col := buffer ! col]) [0..<VGA_WIDTH] mem"

definition copy_cells :: "nat \<Rightarrow> nat \<Rightarrow> u16 list \<Rightarrow> u16 list" where
  "copy_cells dst_offset src_offset mem =
     fold (\<lambda>c m. m[dst_offset + c := m ! (src_offset + c)]) [0..<VGA_WIDTH] mem"

text \<open>The loops that move the lines of the terminal area up and down by one.\<close>

definition shift_lines_up :: "u16 list \<Rightarrow> u16 list" where
  "shift_lines_up mem =
     fold (\<lambda>r m. copy_cells ((terminal_top_row + r) * VGA_WIDTH) ((terminal_top_row + r + 1) * VGA_WIDTH) m)
       [0..<terminal_rows - 1] mem"

definition shift_lines_down :: "u16 list \<Rightarrow> u16 list" where
  "shift_lines_down mem =
     fold (\<lambda>r m. copy_cells ((terminal_top_row + r) * VGA_WIDTH) ((terminal_top_row + r - 1) * VGA_WIDTH) m)
       (rev [1..<terminal_rows]) mem"

definition clear_terminal_area :: "('d tty, unit) state" where
  "clear_terminal_area = modify (\<lambda>t. t\<lparr>vga_memory :=
     fold (\<lambda>r. fill_cells blank ((terminal_top_row + r) * VGA_WIDTH) VGA_WIDTH) [0..<terminal_rows] (vga_memory t)\<rparr>)"

definition screen :: "(u16 list \<Rightarrow> u16 list) \<Rightarrow> ('d tty, unit) state" where
  "screen f = modify (\<lambda>t. t\<lparr>vga_memory := f (vga_memory t)\<rparr>)"

section \<open>The history buffers\<close>

definition save_top :: "nat \<Rightarrow> ('d tty, unit) state" where
  "save_top i = modify (\<lambda>t. if i < length (terminal_top_buffer t)
     then t\<lparr>terminal_top_buffer := (terminal_top_buffer t)
              [i := read_line_from_vga terminal_top_row (vga_memory t)]\<rparr>
     else t\<lparr>fault := True\<rparr>)"

definition save_bottom :: "nat \<Rightarrow> ('d tty, unit) state" where
  "save_bottom i = modify (\<lambda>t. if i < length (terminal_bottom_buffer t)
     then t\<lparr>terminal_bottom_buffer := (terminal_bottom_buffer t)
              [i := read_line_from_vga (terminal_top_row + terminal_rows - 1) (vga_memory t)]\<rparr>
     else t\<lparr>fault := True\<rparr>)"

definition show_top :: "nat \<Rightarrow> ('d tty, unit) state" where
  "show_top i = modify (\<lambda>t. if i < length (terminal_top_buffer t)
     then t\<lparr>vga_memory := write_line_to_vga terminal_top_row (terminal_top_buffer t ! i) (vga_memory t)\<rparr>
     else t\<lparr>fault := True\<rparr>)"

definition show_bottom :: "nat \<Rightarrow> ('d tty, unit) state" where
  "show_bottom i = modify (\<lambda>t. if i < length (terminal_bottom_buffer t)
     then t\<lparr>vga_memory := write_line_to_vga (terminal_top_row + terminal_rows - 1)
              (terminal_bottom_buffer t ! i) (vga_memory t)\<rparr>
     else t\<lparr>fault := True\<rparr>)"

text \<open>The loop that moves the lines of a full top buffer by one.\<close>

definition shift_top_buffer :: "u16 list list \<Rightarrow> u16 list list" where
  "shift_top_buffer buf = fold (\<lambda>i b. b[i := b ! (i + 1)]) [0..<SCROLL_HISTORY_SIZE - 1] buf"

definition terminal_auto_scroll :: "('d tty, unit) state" where
  "terminal_auto_scroll = do {
     count \<leftarrow> gets top_buffer_count;
     _ \<leftarrow> if count < SCROLL_HISTORY_SIZE then do {
         _ \<leftarrow> save_top count;
         modify (\<lambda>t. t\<lparr>top_buffer_count := count + 1\<rparr>)
       } else do {
         _ \<leftarrow> modify (\<lambda>t. t\<lparr>terminal_top_buffer := shift_top_buffer (terminal_top_buffer t)\<rparr>);
         save_top (SCROLL_HISTORY_SIZE - 1)
       };
     _ \<leftarrow> modify (\<lambda>t. t\<lparr>bottom_buffer_count := 0\<rparr>);
     _ \<leftarrow> screen shift_lines_up;
     screen (fill_cells blank ((terminal_top_row + terminal_rows - 1) * VGA_WIDTH) VGA_WIDTH)
   }"

text \<open>One line towards the present: the body shared by \<open>scroll_down\<close> and the loop of \<open>return_to_present\<close>.\<close>

definition forward_line :: "('d tty, unit) state" where
  "forward_line = do {
     count \<leftarrow> gets top_buffer_count;
     _ \<leftarrow> save_top count;
     _ \<leftarrow> modify (\<lambda>t. t\<lparr>top_buffer_count := count + 1\<rparr>);
     _ \<leftarrow> screen shift_lines_up;
     bottom \<leftarrow> gets bottom_buffer_count;
     _ \<leftarrow> show_bottom (bottom - 1);
     modify (\<lambda>t. t\<lparr>bottom_buffer_count := bottom - 1\<rparr>)
   }"

text \<open>Every round takes a line off the bottom buffer, so as many rounds as it has lines suffice.\<close>

primrec present_loop :: "nat \<Rightarrow> ('d tty, unit) state" where
  "present_loop 0 = State_Monad.return ()"
| "present_loop (Suc n) = do {
     bottom \<leftarrow> gets bottom_buffer_count;
     if 0 < bottom then do { _ \<leftarrow> forward_line; present_loop n }
     else State_Monad.return ()
   }"

definition return_to_present :: "'d machine \<Rightarrow> ('d tty, unit) state" where
  "return_to_present io = do {
     bottom \<leftarrow> gets bottom_buffer_count;
     if bottom = 0 then State_Monad.return ()
     else do {
       _ \<leftarrow> present_loop bottom;
       vga_show_cursor io
     }
   }"

definition scroll_down :: "'d machine \<Rightarrow> ('d tty, unit) state" where
  "scroll_down io = do {
     bottom \<leftarrow> gets bottom_buffer_count;
     if bottom = 0 then State_Monad.return ()
     else do {
       _ \<leftarrow> forward_line;
       bottom' \<leftarrow> gets bottom_buffer_count;
       if bottom' = 0 then vga_show_cursor io else State_Monad.return ()
     }
   }"

text \<open>One line back in history, after the cursor is hidden.\<close>

definition back_line :: "nat \<Rightarrow> ('d tty, unit) state" where
  "back_line count = do {
     bottom \<leftarrow> gets bottom_buffer_count;
     _ \<leftarrow> if bottom < SCROLL_HISTORY_SIZE then do {
         _ \<leftarrow> save_bottom bottom;
         modify (\<lambda>t. t\<lparr>bottom_buffer_count := bottom + 1\<rparr>)
       } else State_Monad.return ();
     _ \<leftarrow> screen shift_lines_down;
     _ \<leftarrow> show_top (count - 1);
     modify (\<lambda>t. t\<lparr>top_buffer_count := count - 1\<rparr>)
   }"

definition scroll_up :: "'d machine \<Rightarrow> ('d tty, unit) state" where
  "scroll_up io = do {
     count \<leftarrow> gets top_buffer_count;
     if count = 0 then State_Monad.return ()
     else do {
       _ \<leftarrow> vga_hide_cursor io;
       back_line count
     }
   }"

section \<open>Output\<close>

definition print_header :: "('d tty, unit) state" where
  "print_header = do {
     _ \<leftarrow> screen (fold (\<lambda>i m. m[i := vga_entry (str ''IPO_OS'' ! i) VGA_COLOR_LIGHT_GREEN VGA_COLOR_BLACK]) [0..<6]);
     screen (fold (\<lambda>i m. m[VGA_WIDTH - 22 + i :=
       vga_entry (str ''Created by IPOleksenko'' ! i) VGA_COLOR_LIGHT_GREEN VGA_COLOR_BLACK]) [0..<22])
   }"

definition terminal_initialize :: "'d machine \<Rightarrow> ('d tty, unit) state" where
  "terminal_initialize io = do {
     _ \<leftarrow> vga_clear io VGA_COLOR_WHITE VGA_COLOR_BLACK True 160;
     _ \<leftarrow> print_header;
     modify (\<lambda>t. t\<lparr>terminal_top_buffer := (terminal_top_buffer t)[0 := (terminal_top_buffer t ! 0)[0 := 0]],
       terminal_bottom_buffer := (terminal_bottom_buffer t)[0 := (terminal_bottom_buffer t ! 0)[0 := 0]],
       top_buffer_count := 0, bottom_buffer_count := 0, input_len := 0, prompt_shown := False\<rparr>)
   }"

text \<open>How \<open>putchar_color\<close> moves the cursor for a character, before the overflow check.\<close>

definition advance :: "u8 \<Rightarrow> u8 \<Rightarrow> u8 \<Rightarrow> u16 \<Rightarrow> ('d tty, u16) state" where
  "advance c fg bg cursor =
     (if c = 0x0A then State_Monad.return ((cursor div 80 + 1) * 80)
      else if c = 0x0D then State_Monad.return (cursor div 80 * 80)
      else if c = 0x09 then
        (let spaces = 8 - cursor mod 80 mod 8
         in State_Monad.return (if 2000 \<le> cursor + spaces then 2000 - 80 else cursor + spaces))
      else do {
        _ \<leftarrow> poke (unat cursor) (vga_entry c fg bg);
        State_Monad.return (cursor + 1)
      })"

definition putchar_color :: "'d machine \<Rightarrow> u8 \<Rightarrow> u8 \<Rightarrow> u8 \<Rightarrow> ('d tty, unit) state" where
  "putchar_color io c fg bg = do {
     hw \<leftarrow> vga_get_cursor_position io;
     let start = (if 2000 \<le> hw \<or> hw < 160 then 160 else hw);
     next \<leftarrow> advance c fg bg start;
     cursor \<leftarrow> if 2000 \<le> next then do {
         _ \<leftarrow> terminal_auto_scroll;
         State_Monad.return (2000 - 80)
       } else State_Monad.return next;
     vga_set_cursor io cursor
   }"

definition putchar :: "'d machine \<Rightarrow> u8 \<Rightarrow> ('d tty, unit) state" where
  "putchar io c = putchar_color io c VGA_COLOR_LIGHT_GREY VGA_COLOR_BLACK"

end
