(* ===== verification/Stdio.thy ===== *)
theory Stdio imports Terminal begin

text \<open>
  Formatted output, \<open>lib/c/stdio\<close>: the conversion of numbers, the format loop that \<open>printf\<close> (to the
  screen) and \<open>serial_printf\<close> (to the serial port) share word for word, and \<open>snprintf\<close>. Characters
  are bytes; a format and a string argument are the bytes before their NUL.
\<close>

section \<open>Conversion of numbers\<close>

text \<open>The loop that collects the digits, least significant first; the array bounds their number.\<close>

primrec digit_loop :: "nat \<Rightarrow> 'a::len word \<Rightarrow> 'a word \<Rightarrow> 'a word list" where
  "digit_loop 0 num base = []"
| "digit_loop (Suc n) num base = (if 0 < num then num mod base # digit_loop n (num div base) base else [])"

definition digit_char :: "'a::len word \<Rightarrow> u8" where
  "digit_char digit = (if digit < 10 then 0x30 + ucast digit else 0x61 + ucast (digit - 10))"

fun emit_digits :: "nat \<Rightarrow> 'a::len word list \<Rightarrow> nat \<Rightarrow> bytes \<Rightarrow> nat \<times> bytes" where
  "emit_digits limit [] len buf = (len, buf)"
| "emit_digits limit (d # ds) len buf =
     (if limit \<le> len then (len, buf) else emit_digits limit ds (len + 1) (buf[len := digit_char d]))"

definition itoa64 :: "u64 \<Rightarrow> bytes \<Rightarrow> u64 \<Rightarrow> nat \<times> bytes" where
  "itoa64 num buf base =
     (if num = 0 then (1, buf[0 := 0x30, 1 := 0])
      else case emit_digits 63 (rev (digit_loop 63 num base)) 0 buf of (len, b) \<Rightarrow> (len, b[len := 0]))"

definition itoa :: "u32 \<Rightarrow> bytes \<Rightarrow> u32 \<Rightarrow> nat \<times> bytes" where
  "itoa num buf base =
     (if num = 0 then (1, buf[0 := 0x30])
      else case emit_digits 31 (rev (digit_loop 32 num base)) 0 buf of (len, b) \<Rightarrow> (len, b[len := 0]))"

section \<open>Variadic arguments\<close>

text \<open>
  What the caller passed, in order: a 32-bit integer, a 64-bit integer, or a string (None is NULL).
  Fetching an argument of another type, or one that was not passed, is undefined in C; the
  functions then return None.
\<close>

datatype arg = ArgInt u32 | ArgLong u64 | ArgPtr "bytes option"

text \<open>The length modifier after a percent sign, and the rest of the format.\<close>

fun length_modifier :: "bytes \<Rightarrow> bool \<times> bytes" where
  "length_modifier [] = (False, [])"
| "length_modifier (c # fmt) =
     (if c = 0x6C then (if fmt \<noteq> [] \<and> hd fmt = 0x6C then (True, tl fmt) else (True, fmt)) else (False, c # fmt))"

lemma length_modifier_le: "length_modifier fmt = (b, fmt') \<Longrightarrow> length fmt' \<le> length fmt"
  by (cases fmt) (auto split: if_splits)

section \<open>The format loop\<close>

text \<open>Sending characters one by one through \<open>putc\<close>.\<close>

primrec put_all :: "(u8 \<Rightarrow> ('s, unit) state) \<Rightarrow> bytes \<Rightarrow> ('s, unit) state" where
  "put_all putc [] = State_Monad.return ()"
| "put_all putc (c # cs) = do { _ \<leftarrow> putc c; put_all putc cs }"

text \<open>
  The local arrays \<open>buf\<close> are not initialised; only characters that \<open>itoa\<close> wrote are sent, so
  what they hold before does not matter and zeros stand for it.
\<close>

definition put_number :: "(u8 \<Rightarrow> ('s, unit) state) \<Rightarrow> nat \<times> bytes \<Rightarrow> ('s, nat) state" where
  "put_number putc r = do { _ \<leftarrow> put_all putc (take (fst r) (snd r)); State_Monad.return (fst r) }"

text \<open>
  The magnitude of a negative number, \<open>(unsigned int)(-(long)val)\<close>. A \<open>long\<close> has 32 bits on this
  target, so for the smallest number the negation overflows, which is undefined in C: what is printed
  there is left unspecified.
\<close>

definition negated_long :: "u32 \<Rightarrow> u32" where
  "negated_long val = (if val = 0x80000000 then undefined else - val)"

text \<open>One directive: how many characters it wrote and the arguments that are left.\<close>

definition directive :: "(u8 \<Rightarrow> ('s, unit) state) \<Rightarrow> u8 \<Rightarrow> bool \<Rightarrow> arg list \<Rightarrow> ('s, (nat \<times> arg list) option) state" where
  "directive putc d is_long args =
     (if d = 0x64 then
        (case args of
           ArgInt val # args' \<Rightarrow>
             if sint val < 0 then do {
               _ \<leftarrow> putc 0x2D;
               n \<leftarrow> put_number putc (itoa (negated_long val) (replicate 32 0) 10);
               State_Monad.return (Some (1 + n, args'))
             } else do {
               n \<leftarrow> put_number putc (itoa val (replicate 32 0) 10);
               State_Monad.return (Some (n, args'))
             }
         | _ \<Rightarrow> State_Monad.return None)
      else if d = 0x75 then
        (if is_long then
           (case args of
              ArgLong val # args' \<Rightarrow> do {
                n \<leftarrow> put_number putc (itoa64 val (replicate 64 0) 10);
                State_Monad.return (Some (n, args'))
              }
            | _ \<Rightarrow> State_Monad.return None)
         else
           (case args of
              ArgInt val # args' \<Rightarrow> do {
                n \<leftarrow> put_number putc (itoa val (replicate 32 0) 10);
                State_Monad.return (Some (n, args'))
              }
            | _ \<Rightarrow> State_Monad.return None))
      else if d = 0x78 then
        (case args of
           ArgInt val # args' \<Rightarrow> do {
             n \<leftarrow> put_number putc (itoa val (replicate 32 0) 16);
             State_Monad.return (Some (n, args'))
           }
         | _ \<Rightarrow> State_Monad.return None)
      else if d = 0x63 then
        (case args of
           ArgInt val # args' \<Rightarrow> do {
             _ \<leftarrow> putc (ucast val);
             State_Monad.return (Some (1, args'))
           }
         | _ \<Rightarrow> State_Monad.return None)
      else if d = 0x73 then
        (case args of
           ArgPtr None # args' \<Rightarrow> State_Monad.return (Some (0, args'))
         | ArgPtr (Some s) # args' \<Rightarrow> do {
             _ \<leftarrow> put_all putc s;
             State_Monad.return (Some (length s, args'))
           }
         | _ \<Rightarrow> State_Monad.return None)
      else if d = 0x25 then do {
        _ \<leftarrow> putc 0x25;
        State_Monad.return (Some (1, args))
      }
      else do {
        _ \<leftarrow> putc 0x25;
        _ \<leftarrow> putc d;
        State_Monad.return (Some (2, args))
      })"

function format_loop :: "(u8 \<Rightarrow> ('s, unit) state) \<Rightarrow> bytes \<Rightarrow> arg list \<Rightarrow> nat \<Rightarrow> ('s, nat option) state" where
  "format_loop putc [] args count = State_Monad.return (Some count)"
| "format_loop putc (c # rest) args count =
     (if c = 0x25 \<and> rest \<noteq> [] then
        (case length_modifier rest of
           (is_long, []) \<Rightarrow> State_Monad.return (Some count)
         | (is_long, d # rest') \<Rightarrow> do {
             r \<leftarrow> directive putc d is_long args;
             case r of
               None \<Rightarrow> State_Monad.return None
             | Some (n, args') \<Rightarrow> format_loop putc rest' args' (count + n)
           })
      else do {
        _ \<leftarrow> putc c;
        format_loop putc rest args (count + 1)
      })"
  by pat_completeness auto
termination by (relation "measure (\<lambda>(_, fmt, _). length fmt)") (auto dest!: length_modifier_le [OF sym])

definition printf :: "'d machine \<Rightarrow> bytes \<Rightarrow> arg list \<Rightarrow> ('d tty, nat option) state" where
  "printf io fmt args = format_loop (putchar io) fmt args 0"

section \<open>The serial port\<close>

text \<open>\<open>serial_putc\<close> polls until the transmitter is free; a port that never is makes it hang (None).\<close>

partial_function (option) uart_wait :: "'d machine \<Rightarrow> 'd \<Rightarrow> 'd option" where
  "uart_wait io d =
     (case inb io 0x3FD d of (st, d') \<Rightarrow> if st AND 0x20 = 0 then uart_wait io d' else Some d')"

definition serial_putc :: "'d machine \<Rightarrow> u8 \<Rightarrow> ('d option, unit) state" where
  "serial_putc io c = modify (\<lambda>s. case s of
     None \<Rightarrow> None
   | Some d \<Rightarrow> map_option (outb io 0x3F8 c) (uart_wait io d))"

definition serial_printf :: "'d machine \<Rightarrow> bytes \<Rightarrow> arg list \<Rightarrow> ('d option, nat option) state" where
  "serial_printf io fmt args = format_loop (serial_putc io) fmt args 0"

section \<open>Formatting into a buffer\<close>

text \<open>Copying characters to \<open>buf[written]\<close> and on.\<close>

definition store_chars :: "bytes \<Rightarrow> nat \<times> bytes \<Rightarrow> nat \<times> bytes" where
  "store_chars cs wb = fold (\<lambda>c (written, buf). (written + 1, buf[written := c])) cs wb"

text \<open>
  The room that is left is cast to \<open>int\<close> for the comparison with the number's length, and again
  when it is assigned to \<open>to_copy\<close>: in a buffer of more than \<open>2 ^ 31\<close> bytes it can be negative,
  and then nothing is copied. The copy loop runs \<open>to_copy\<close> times.
\<close>

definition store_number :: "nat \<Rightarrow> nat \<times> bytes \<Rightarrow> nat \<times> bytes \<Rightarrow> nat \<times> bytes" where
  "store_number max_write r wb =
     (let n = int (fst r);
          room = sint (of_nat (max_write - fst wb) :: u32);
          to_copy = (if room < n then room else n)
      in if 0 < n then store_chars (take (nat to_copy) (snd r)) wb else wb)"

definition store_bounded :: "nat \<Rightarrow> bytes \<Rightarrow> nat \<times> bytes \<Rightarrow> nat \<times> bytes" where
  "store_bounded max_write cs wb = store_chars (take (max_write - fst wb) cs) wb"

definition sn_directive :: "nat \<Rightarrow> u8 \<Rightarrow> bool \<Rightarrow> arg list \<Rightarrow> nat \<times> bytes \<Rightarrow> ((nat \<times> bytes) \<times> arg list) option" where
  "sn_directive max_write d is_long args wb =
     (if d = 0x64 \<or> d = 0x69 then
        (if is_long then
           (case args of
              ArgLong val # args' \<Rightarrow> Some (store_number max_write (itoa (ucast val) (replicate 32 0) 10) wb, args')
            | _ \<Rightarrow> None)
         else
           (case args of
              ArgInt val # args' \<Rightarrow> Some (store_number max_write (itoa (ucast (scast val :: u64)) (replicate 32 0) 10) wb, args')
            | _ \<Rightarrow> None))
      else if d = 0x73 then
        (case args of
           ArgPtr s # args' \<Rightarrow>
             Some (store_bounded max_write (case s of None \<Rightarrow> str ''(null)'' | Some cs \<Rightarrow> cs) wb, args')
         | _ \<Rightarrow> None)
      else if d = 0x78 then
        (case args of
           ArgInt val # args' \<Rightarrow> Some (store_number max_write (itoa val (replicate 32 0) 16) wb, args')
         | _ \<Rightarrow> None)
      else if d = 0x63 then
        (case args of
           ArgInt val # args' \<Rightarrow> Some (store_bounded max_write [ucast val] wb, args')
         | _ \<Rightarrow> None)
      else if d = 0x25 then Some (store_bounded max_write [0x25] wb, args)
      else Some (store_bounded max_write [d] (store_bounded max_write [0x25] wb), args))"

function sn_loop :: "nat \<Rightarrow> bytes \<Rightarrow> arg list \<Rightarrow> nat \<times> bytes \<Rightarrow> (nat \<times> bytes) option" where
  "sn_loop max_write [] args wb = Some wb"
| "sn_loop max_write (c # rest) args wb =
     (if max_write \<le> fst wb then Some wb
      else if c = 0x25 \<and> rest \<noteq> [] then
        (case length_modifier rest of
           (is_long, []) \<Rightarrow> Some wb
         | (is_long, d # rest') \<Rightarrow>
             (case sn_directive max_write d is_long args wb of
                None \<Rightarrow> None
              | Some (wb', args') \<Rightarrow> sn_loop max_write rest' args' wb'))
      else sn_loop max_write rest args (store_bounded max_write [c] wb))"
  by pat_completeness auto
termination by (relation "measure (\<lambda>(_, fmt, _). length fmt)") (auto dest!: length_modifier_le [OF sym])

text \<open>The number of characters and the buffer, which must hold \<open>sz\<close> bytes.\<close>

definition snprintf :: "bytes option \<Rightarrow> nat \<Rightarrow> bytes \<Rightarrow> arg list \<Rightarrow> (nat \<times> bytes option) option" where
  "snprintf buf sz fmt args =
     (case buf of
        None \<Rightarrow> Some (0, None)
      | Some b \<Rightarrow>
          if sz = 0 then Some (0, Some b)
          else case sn_loop (sz - 1) fmt args (0, b) of
            None \<Rightarrow> None
          | Some (written, b') \<Rightarrow> Some (written, Some (b'[written := 0])))"

end
