(* ===== verification/Console.thy ===== *)
theory Console imports Stdio begin

text \<open>
  The interactive console: \<open>terminal_console\<close> of \<open>lib/c/kernel/terminal.c\<close>, which polls the keyboard
  once, scrolls the history, edits the input line and executes it. The execution of a command
  line (theory Shell) and the exit code of the last process are arguments: a command may do
  anything to the terminal it prints on and to the rest of the machine.
\<close>

section \<open>The input line\<close>

definition store_input :: "nat \<Rightarrow> u8 \<Rightarrow> ('d tty, unit) state" where
  "store_input i x = modify (\<lambda>t. if i < length (input_buf t) then t\<lparr>input_buf := (input_buf t)[i := x]\<rparr>
     else t\<lparr>fault := True\<rparr>)"

definition set_input_len :: "nat \<Rightarrow> ('d tty, unit) state" where
  "set_input_len n = modify (\<lambda>t. t\<lparr>input_len := n\<rparr>)"

definition print_prompt :: "'d machine \<Rightarrow> ('d tty, unit) state" where
  "print_prompt io = do {
     _ \<leftarrow> putchar_color io (of_char CHR ''>'') VGA_COLOR_LIGHT_GREEN VGA_COLOR_BLACK;
     _ \<leftarrow> putchar_color io (of_char CHR '' '') VGA_COLOR_LIGHT_GREEN VGA_COLOR_BLACK;
     modify (\<lambda>t. t\<lparr>prompt_shown := True\<rparr>)
   }"

definition newline :: bytes where "newline = [0x0A]"

text \<open>Executing the line and reporting the result.\<close>

definition run_line :: "'d machine \<Rightarrow> (bytes \<Rightarrow> ('d tty, int) state) \<Rightarrow> ('d tty, int) state \<Rightarrow> ('d tty, unit) state" where
  "run_line io execute exit_code = do {
     buf \<leftarrow> gets input_buf;
     let line = takeWhile (\<lambda>x. x \<noteq> 0) buf;
     exec \<leftarrow> execute line;
     if exec = 0 then do {
       buf' \<leftarrow> gets input_buf;
       _ \<leftarrow> printf io (str ''Command not found: %s'' @ newline) [ArgPtr (Some (takeWhile (\<lambda>x. x \<noteq> 0) buf'))];
       State_Monad.return ()
     } else if exec < 0 then do {
       buf' \<leftarrow> gets input_buf;
       _ \<leftarrow> printf io (str ''Execution failed (error %d): %s'' @ newline)
              [ArgInt (word_of_int exec), ArgPtr (Some (takeWhile (\<lambda>x. x \<noteq> 0) buf'))];
       State_Monad.return ()
     } else do {
       ret \<leftarrow> exit_code;
       _ \<leftarrow> printf io (str ''Return value: %d'' @ newline) [ArgInt (word_of_int ret)];
       State_Monad.return ()
     }
   }"

definition enter_key :: "'d machine \<Rightarrow> (bytes \<Rightarrow> ('d tty, int) state) \<Rightarrow> ('d tty, int) state \<Rightarrow> ('d tty, unit) state" where
  "enter_key io execute exit_code = do {
     _ \<leftarrow> putchar io 0x0A;
     len \<leftarrow> gets input_len;
     _ \<leftarrow> store_input len 0;
     _ \<leftarrow> if 0 < len then run_line io execute exit_code else State_Monad.return ();
     _ \<leftarrow> set_input_len 0;
     _ \<leftarrow> modify (\<lambda>t. t\<lparr>prompt_shown := False\<rparr>);
     print_prompt io
   }"

definition backspace_key :: "'d machine \<Rightarrow> ('d tty, unit) state" where
  "backspace_key io = do {
     len \<leftarrow> gets input_len;
     if 0 < len then do {
       cur \<leftarrow> vga_get_cursor_position io;
       _ \<leftarrow> if 0 < cur then do {
           _ \<leftarrow> vga_set_cursor io (cur - 1);
           _ \<leftarrow> putchar io 0x20;
           vga_set_cursor io (cur - 1)
         } else State_Monad.return ();
       set_input_len (len - 1)
     } else State_Monad.return ()
   }"

primrec tab_loop :: "'d machine \<Rightarrow> nat \<Rightarrow> ('d tty, unit) state" where
  "tab_loop io 0 = State_Monad.return ()"
| "tab_loop io (Suc n) = do {
     _ \<leftarrow> putchar io 0x20;
     len \<leftarrow> gets input_len;
     _ \<leftarrow> store_input len 0x20;
     _ \<leftarrow> set_input_len (len + 1);
     tab_loop io n
   }"

abbreviation (input) "INPUT_BUF_SIZE \<equiv> (256 :: nat)"

definition tab_key :: "'d machine \<Rightarrow> ('d tty, unit) state" where
  "tab_key io = do {
     cur \<leftarrow> vga_get_cursor_position io;
     len \<leftarrow> gets input_len;
     let spaces = 4 - unat cur mod VGA_WIDTH mod 4;
     let free_space = INPUT_BUF_SIZE - 1 - len;
     if free_space = 0 then State_Monad.return ()
     else tab_loop io (if free_space < spaces then free_space else spaces)
   }"

definition printable_key :: "'d machine \<Rightarrow> u8 \<Rightarrow> ('d tty, unit) state" where
  "printable_key io c = do {
     len \<leftarrow> gets input_len;
     if len < INPUT_BUF_SIZE - 1 then do {
       _ \<leftarrow> putchar io c;
       _ \<leftarrow> store_input len c;
       set_input_len (len + 1)
     } else State_Monad.return ()
   }"

definition edit_key :: "'d machine \<Rightarrow> (bytes \<Rightarrow> ('d tty, int) state) \<Rightarrow> ('d tty, int) state \<Rightarrow> u8 \<Rightarrow> ('d tty, unit) state" where
  "edit_key io execute exit_code c =
     (if c = 0x0A \<or> c = 0x0D then enter_key io execute exit_code
      else if c = 0x08 \<or> c = 127 then backspace_key io
      else if c = 0x09 then tab_key io
      else if 32 \<le> c \<and> c < 127 then printable_key io c
      else State_Monad.return ())"

section \<open>One round of the console\<close>

definition poll_keyboard :: "'d machine \<Rightarrow> ('d tty, u8) state" where
  "poll_keyboard io = State (\<lambda>t. case keyboard_get_scancode io (port t) of (sc, d) \<Rightarrow> (sc, t\<lparr>port := d\<rparr>))"

definition track_keys :: "u8 \<Rightarrow> ('d tty, unit) state" where
  "track_keys sc = modify (\<lambda>t. t\<lparr>kbd := hot_key_handler sc (update_hot_key_state sc (kbd t))\<rparr>)"

definition key_pressed :: "'d machine \<Rightarrow> (bytes \<Rightarrow> ('d tty, int) state) \<Rightarrow> ('d tty, int) state \<Rightarrow> u8 \<Rightarrow> ('d tty, unit) state" where
  "key_pressed io execute exit_code sc = do {
     _ \<leftarrow> track_keys sc;
     if sc AND 0x80 \<noteq> 0 then State_Monad.return ()
     else if sc = 0x51 \<or> sc = 0x50 then scroll_down io
     else if sc = 0x49 \<or> sc = 0x48 then scroll_up io
     else do {
       k \<leftarrow> gets kbd;
       case get_char k sc of
         None \<Rightarrow> modify (\<lambda>t. t\<lparr>fault := True\<rparr>)
       | Some c \<Rightarrow>
           if c = 0 then State_Monad.return ()
           else do {
             _ \<leftarrow> return_to_present io;
             edit_key io execute exit_code c
           }
     }
   }"

definition terminal_console :: "'d machine \<Rightarrow> (bytes \<Rightarrow> ('d tty, int) state) \<Rightarrow> ('d tty, int) state \<Rightarrow> ('d tty, unit) state" where
  "terminal_console io execute exit_code = do {
     sc \<leftarrow> poll_keyboard io;
     _ \<leftarrow> track_keys sc;
     shown \<leftarrow> gets prompt_shown;
     _ \<leftarrow> if shown then State_Monad.return () else print_prompt io;
     if sc = 0x00 then State_Monad.return () else key_pressed io execute exit_code sc
   }"

end
