(* ===== verification/StdioProof.thy ===== *)
theory StdioProof imports Stdio begin

text \<open>
  Formatted output against declarative references: \<open>itoa\<close> against the numeral of a number,
  the format loop against the text of a list of pieces, for the screen, the serial port and
  the bounded buffer.
\<close>

section \<open>Numerals\<close>

definition numeral_digit :: "nat \<Rightarrow> u8" where
  "numeral_digit n = (if n < 10 then 0x30 + of_nat n else 0x61 + of_nat (n - 10))"

fun numeral_text :: "nat \<Rightarrow> nat \<Rightarrow> bytes" where
  "numeral_text b n = (if b < 2 \<or> n < b then [numeral_digit n] else numeral_text b (n div b) @ [numeral_digit (n mod b)])"

declare numeral_text.simps [simp del]

definition digit_value :: "u8 \<Rightarrow> nat" where
  "digit_value c = (if c \<le> 0x39 then unat c - 0x30 else unat c - 0x57)"

definition text_value :: "nat \<Rightarrow> bytes \<Rightarrow> nat" where
  "text_value b cs = foldl (\<lambda>v c. v * b + digit_value c) 0 cs"

lemma digit_value_numeral [simp]: "n < 36 \<Longrightarrow> digit_value (numeral_digit n) = n"
proof -
  assume n: "n < 36"
  show ?thesis
  proof (cases "n < 10")
    case True
    then have "unat (0x30 + of_nat n :: u8) = 0x30 + n" by (simp add: unat_word_ariths unat_of_nat)
    then show ?thesis using True by (simp add: digit_value_def numeral_digit_def word_le_nat_alt)
  next
    case False
    then have "unat (0x61 + of_nat (n - 10) :: u8) = 0x61 + (n - 10)" using n by (simp add: unat_word_ariths unat_of_nat)
    then show ?thesis using False n by (simp add: digit_value_def numeral_digit_def word_le_nat_alt)
  qed
qed

lemma text_value_numeral: "2 \<le> b \<Longrightarrow> b \<le> 36 \<Longrightarrow> text_value b (numeral_text b n) = n"
proof (induction b n rule: numeral_text.induct)
  case (1 b n)
  then have "n mod b < 36" using mod_less_divisor [of b n] by linarith
  then have "digit_value (numeral_digit (n mod b)) = n mod b" by simp
  with 1 show ?case
    by (subst numeral_text.simps) (auto simp: text_value_def)
qed

lemma length_numeral: "2 \<le> b \<Longrightarrow> n < b ^ k \<Longrightarrow> 0 < k \<Longrightarrow> length (numeral_text b n) \<le> k"
proof (induction k arbitrary: n)
  case (Suc k)
  show ?case
  proof (cases "n < b")
    case False
    then have "0 < k" using Suc.prems by (cases k) auto
    moreover have "n div b < b ^ k" using Suc.prems by (simp add: less_mult_imp_div_less mult.commute)
    ultimately have "length (numeral_text b (n div b)) \<le> k" using Suc by simp
    then show ?thesis using False Suc.prems(1) by (subst numeral_text.simps) simp
  qed (simp add: numeral_text.simps)
qed simp

lemma numeral_text_neq_Nil [simp]: "numeral_text b n \<noteq> []"
  by (subst numeral_text.simps) simp

section \<open>itoa\<close>

lemma digit_char_numeral:
  fixes d :: "'a::len word"
  assumes "unat d < 36" and "8 \<le> LENGTH('a)"
  shows "digit_char d = numeral_digit (unat d)"
proof -
  have "2 ^ 8 \<le> (2 :: nat) ^ LENGTH('a)" using assms(2) by (intro power_increasing) simp_all
  then have ten: "unat (10 :: 'a word) = 10" by (simp add: unsigned_numeral take_bit_eq_mod)
  have 1: "d < 10 \<longleftrightarrow> unat d < 10" by (simp only: word_less_nat_alt ten)
  have 2: "\<not> unat d < 10 \<Longrightarrow> unat (d - 10) = unat d - 10"
    by (subst unat_sub) (simp_all only: word_le_nat_alt ten)
  show ?thesis
  proof (cases "unat d < 10")
    case True
    then show ?thesis by (simp add: digit_char_def numeral_digit_def 1)
  next
    case False
    have "of_nat (unat (d - 10)) = (ucast (d - 10) :: u8)" by (rule of_nat_unat)
    then have "of_nat (unat d - 10) = (ucast (d - 10) :: u8)" unfolding 2 [OF False] .
    with False show ?thesis by (simp only: digit_char_def numeral_digit_def 1 if_False)
  qed
qed

lemma digit_loop_numeral:
  fixes base :: "'a::len word"
  assumes "2 \<le> unat base" and "unat base \<le> 36" and "8 \<le> LENGTH('a)" and "unat num < unat base ^ k" and "0 < num"
  shows "map digit_char (rev (digit_loop k num base)) = numeral_text (unat base) (unat num)"
  using assms(4,5)
proof (induction k arbitrary: num)
  case 0
  then show ?case by (simp add: word_less_nat_alt)
next
  case (Suc k)
  have m: "digit_char (num mod base) = numeral_digit (unat num mod unat base)"
  proof -
    have "unat (num mod base) = unat num mod unat base" by (rule unat_mod_distrib)
    moreover have "unat num mod unat base < 36" 
      using assms(1,2) mod_less_divisor [of "unat base" "unat num"] by linarith
    ultimately show ?thesis using digit_char_numeral [of "num mod base"] assms(3) by simp
  qed
  have d: "unat (num div base) = unat num div unat base" by (rule unat_div_distrib)
  show ?case
  proof (cases "unat num < unat base")
    case True
    then have "num div base = 0" using d by (simp add: unat_eq_0 [symmetric])
    then have "digit_loop k (num div base) base = []" by (cases k) simp_all
    then show ?thesis using Suc.prems True m assms(1) by (subst numeral_text.simps) simp
  next
    case False
    have "unat num div unat base < unat base ^ k" using Suc.prems by (simp add: less_mult_imp_div_less mult.commute)
    moreover have "0 < num div base"
      using False assms(1) by (simp add: word_less_nat_alt d) (simp add: div_greater_zero_iff)
    ultimately show ?thesis
      using Suc.IH [of "num div base"] Suc.prems False m d assms(1) by (subst numeral_text.simps) simp
  qed
qed

lemma emit_digits_patch:
  "len + length ds \<le> limit \<Longrightarrow> len + length ds \<le> length buf \<Longrightarrow>
     emit_digits limit ds len buf = (len + length ds, patch len (map digit_char ds) buf)"
proof (induction ds arbitrary: len buf)
  case (Cons d ds)
  have "patch (Suc len) (map digit_char ds) (buf[len := digit_char d]) = patch len (digit_char d # map digit_char ds) buf"
    using Cons.prems by (intro nth_equalityI) (auto simp: nth_patch nth_Cons' nth_list_update)
  with Cons show ?case by simp
qed simp

lemma itoa_digits:
  fixes num base :: "'a::len word"
  assumes "0 < num" and "2 \<le> unat base" and "unat base \<le> 36" and "unat num < unat base ^ limit" and "8 \<le> LENGTH('a)"
    and "limit \<le> k" and "limit < length buf" and "0 < limit"
  shows "(case emit_digits limit (rev (digit_loop k num base)) 0 buf of (len, b) \<Rightarrow> (len, b[len := 0])) =
    (length (numeral_text (unat base) (unat num)), patch 0 (numeral_text (unat base) (unat num) @ [0]) buf)"
proof -
  let ?t = "numeral_text (unat base) (unat num)"
  have "unat num < unat base ^ k"
    using assms(2,4,6) by (meson less_le_trans one_le_numeral order.trans power_increasing)
  with digit_loop_numeral [OF assms(2,3,5)] assms(1) have 1: "map digit_char (rev (digit_loop k num base)) = ?t" by blast
  then have 2: "length (digit_loop k num base) = length ?t" by (metis length_map length_rev)
  have 3: "length ?t \<le> limit" using length_numeral [OF assms(2,4,8)] .
  have "(patch 0 ?t buf)[length ?t := 0] = patch 0 (?t @ [0]) buf"
    using 3 assms(7) by (intro nth_equalityI) (auto simp: nth_patch nth_list_update nth_append)
  with 1 2 3 assms(7) show ?thesis by (simp add: emit_digits_patch)
qed

lemma itoa_numeral:
  assumes "2 \<le> unat base" and "unat base \<le> 36" and "unat num < unat base ^ 31" and "32 \<le> length buf"
  shows "itoa num buf base = (length (numeral_text (unat base) (unat num)),
    patch 0 (numeral_text (unat base) (unat num) @ (if num = 0 then [] else [0])) buf)"
proof (cases "num = 0")
  case True
  have "numeral_text (unat base) 0 = [0x30]" using assms(1) by (subst numeral_text.simps) (simp add: numeral_digit_def)
  then show ?thesis using True assms(4) by (cases buf) (simp_all add: itoa_def patch_def)
next
  case False
  with itoa_digits [of num base 31 32 buf] assms show ?thesis by (simp add: itoa_def word_greater_zero_iff)
qed

lemma itoa64_numeral:
  assumes "2 \<le> unat base" and "unat base \<le> 36" and "unat num < unat base ^ 63" and "64 \<le> length buf"
  shows "itoa64 num buf base = (length (numeral_text (unat base) (unat num)),
    patch 0 (numeral_text (unat base) (unat num) @ [0]) buf)"
proof (cases "num = 0")
  case True
  have "numeral_text (unat base) 0 = [0x30]" using assms(1) by (subst numeral_text.simps) (simp add: numeral_digit_def)
  moreover obtain a b cs where "buf = a # b # cs" using assms(4) by (cases buf; cases "tl buf") auto
  ultimately show ?thesis using True by (simp add: itoa64_def patch_def)
next
  case False
  with itoa_digits [of num base 63 63 buf] assms show ?thesis by (simp add: itoa64_def word_greater_zero_iff)
qed

lemma take_patch_start: "length t \<le> length buf \<Longrightarrow> length (t @ u) \<le> length buf \<Longrightarrow> take (length t) (patch 0 (t @ u) buf) = t"
  by (simp add: patch_def)

lemma put_number_itoa:
  assumes "unat num < unat base ^ 31" and "2 \<le> unat base" and "unat base \<le> 36"
  shows "put_number putc (itoa num (replicate 32 0) base) =
    State_Monad.bind (put_all putc (numeral_text (unat base) (unat num)))
      (\<lambda>_. State_Monad.return (length (numeral_text (unat base) (unat num))))"
proof -
  let ?t = "numeral_text (unat base) (unat num)"
  have "length ?t \<le> 31" using length_numeral [OF assms(2,1)] by simp
  then have "take (length ?t) (patch 0 (?t @ u) (replicate 32 0)) = ?t" if "length u \<le> 1" for u
    using that by (intro take_patch_start) auto
  then show ?thesis
    using itoa_numeral [OF assms(2,3,1), of "replicate 32 0"] by (simp only: put_number_def fst_conv snd_conv) simp
qed

lemma put_number_itoa64:
  assumes "unat num < unat base ^ 63" and "2 \<le> unat base" and "unat base \<le> 36"
  shows "put_number putc (itoa64 num (replicate 64 0) base) =
    State_Monad.bind (put_all putc (numeral_text (unat base) (unat num)))
      (\<lambda>_. State_Monad.return (length (numeral_text (unat base) (unat num))))"
proof -
  let ?t = "numeral_text (unat base) (unat num)"
  have "length ?t \<le> 63" using length_numeral [OF assms(2,1)] by simp
  then have "take (length ?t) (patch 0 (?t @ u) (replicate 64 0)) = ?t" if "length u \<le> 1" for u
    using that by (intro take_patch_start) auto
  then show ?thesis
    using itoa64_numeral [OF assms(2,3,1), of "replicate 64 0"] by (simp only: put_number_def fst_conv snd_conv) simp
qed

section \<open>Pieces of formatted text\<close>

datatype piece = Lit u8 | Percent | Decimal u32 | Unsigned u32 | Unsigned64 u64 | Hexadecimal u32 | Char u8 | Text bytes

fun piece_format :: "piece \<Rightarrow> bytes" where
  "piece_format (Lit c) = [c]"
| "piece_format Percent = str ''%%''"
| "piece_format (Decimal v) = str ''%d''"
| "piece_format (Unsigned v) = str ''%u''"
| "piece_format (Unsigned64 v) = str ''%llu''"
| "piece_format (Hexadecimal v) = str ''%x''"
| "piece_format (Char c) = str ''%c''"
| "piece_format (Text s) = str ''%s''"

fun piece_args :: "piece \<Rightarrow> arg list" where
  "piece_args (Decimal v) = [ArgInt v]"
| "piece_args (Unsigned v) = [ArgInt v]"
| "piece_args (Unsigned64 v) = [ArgLong v]"
| "piece_args (Hexadecimal v) = [ArgInt v]"
| "piece_args (Char c) = [ArgInt (ucast c)]"
| "piece_args (Text s) = [ArgPtr (Some s)]"
| "piece_args _ = []"

lemma sint_negative:
  "sint v < 0 \<Longrightarrow> unat (- v) = nat (- sint (v :: u32))" "\<not> sint v < 0 \<Longrightarrow> unat v = nat (sint (v :: u32))"
proof -
  have bounds: "- (2 ^ 31) \<le> sint v" "sint v < 2 ^ 31" using sint_ge [of v] sint_lt [of v] by simp_all
  have "uint (word_of_int (- sint v) :: u32) = take_bit 32 (- sint v)" by (subst uint_word_of_int_eq) simp
  moreover have "word_of_int (- sint v) = - v" by simp
  ultimately have neg: "uint (- v) = take_bit 32 (- sint v)" by (simp only:)
  show "unat (- v) = nat (- sint v)" if "sint v < 0"
    using that bounds neg by (simp add: unat_eq_nat_uint take_bit_eq_mod)
  show "unat v = nat (sint v)" if "\<not> sint v < 0"
    using that bounds uint_sint [of v] by (simp add: unat_eq_nat_uint take_bit_eq_mod)
qed

text \<open>A signed number; the digits of the smallest one are those of an unspecified number.\<close>

definition signed_text :: "int \<Rightarrow> bytes" where
  "signed_text i =
     (if i = - (2 ^ 31) then 0x2D # numeral_text 10 (unat (negated_long 0x80000000))
      else if i < 0 then 0x2D # numeral_text 10 (nat (- i))
      else numeral_text 10 (nat i))"

lemma smallest_int: "sint (v :: u32) = - (2 ^ 31) \<longleftrightarrow> v = 0x80000000"
proof -
  have "sint (0x80000000 :: u32) = - (2 ^ 31)" by simp
  then show ?thesis by (metis signed_word_eqI)
qed

lemma negated_long_text:
  "sint v < 0 \<Longrightarrow> 0x2D # numeral_text 10 (unat (negated_long v)) = signed_text (sint v)"
  using smallest_int [of v] by (auto simp: signed_text_def negated_long_def sint_negative)

fun piece_text :: "piece \<Rightarrow> bytes" where
  "piece_text (Lit c) = [c]"
| "piece_text Percent = [0x25]"
| "piece_text (Decimal v) = signed_text (sint v)"
| "piece_text (Unsigned v) = numeral_text 10 (unat v)"
| "piece_text (Unsigned64 v) = numeral_text 10 (unat v)"
| "piece_text (Hexadecimal v) = numeral_text 16 (unat v)"
| "piece_text (Char c) = [c]"
| "piece_text (Text s) = s"

definition plain_piece :: "piece \<Rightarrow> bool" where
  "plain_piece p \<longleftrightarrow> p \<noteq> Lit 0x25"

definition format_of :: "piece list \<Rightarrow> bytes" where
  "format_of ps = concat (map piece_format ps)"

definition args_of :: "piece list \<Rightarrow> arg list" where
  "args_of ps = concat (map piece_args ps)"

definition text_of :: "piece list \<Rightarrow> bytes" where
  "text_of ps = concat (map piece_text ps)"

lemma byte_up_down [simp]: "ucast (ucast c :: u32) = (c :: u8)"
  by (rule bit_word_eqI) (auto simp: bit_simps)

lemma put_all_append: "put_all putc (cs @ ds) = State_Monad.bind (put_all putc cs) (\<lambda>_. put_all putc ds)"
  by (induction cs) simp_all

lemma number_bounds:
  "unat (v :: u32) < 10 ^ 31" "unat (v :: u32) < 16 ^ 31" "unat (w :: u64) < 10 ^ 63"
proof -
  have "unat v < 2 ^ 32" "unat w < 2 ^ 64" using unsigned_less [of v, where 'a = nat] unsigned_less [of w, where 'a = nat] by simp_all
  then show "unat (v :: u32) < 10 ^ 31" "unat (v :: u32) < 16 ^ 31" "unat (w :: u64) < 10 ^ 63" by simp_all
qed

lemma put_decimal:
  "put_number putc (itoa v (replicate 32 0) 10) =
     State_Monad.bind (put_all putc (numeral_text 10 (unat v))) (\<lambda>_. State_Monad.return (length (numeral_text 10 (unat v))))"
  "put_number putc (itoa v (replicate 32 0) 16) =
     State_Monad.bind (put_all putc (numeral_text 16 (unat v))) (\<lambda>_. State_Monad.return (length (numeral_text 16 (unat v))))"
  "put_number putc (itoa64 w (replicate 64 0) 10) =
     State_Monad.bind (put_all putc (numeral_text 10 (unat w))) (\<lambda>_. State_Monad.return (length (numeral_text 10 (unat w))))"
  using put_number_itoa [of v 10] put_number_itoa [of v 16] put_number_itoa64 [of w 10] number_bounds by simp_all

lemma format_piece:
  assumes "plain_piece p"
  shows "format_loop putc (piece_format p @ fmt) (piece_args p @ args) n =
    State_Monad.bind (put_all putc (piece_text p)) (\<lambda>_. format_loop putc fmt args (n + length (piece_text p)))"
proof (cases p)
  case (Decimal v)
  then show ?thesis
    using negated_long_text [of v] sint_ge [of v]
    by (auto simp: directive_def put_decimal sint_negative signed_text_def)
qed (use assms in \<open>simp_all add: plain_piece_def directive_def put_decimal\<close>)

lemma format_pieces:
  "list_all plain_piece ps \<Longrightarrow> format_loop putc (format_of ps) (args_of ps) n =
     State_Monad.bind (put_all putc (text_of ps)) (\<lambda>_. State_Monad.return (Some (n + length (text_of ps))))"
proof (induction ps arbitrary: n)
  case (Cons p ps)
  then show ?case
    using format_piece [of p putc "format_of ps" "args_of ps" n]
    by (simp add: format_of_def args_of_def text_of_def put_all_append add.assoc)
qed (simp add: format_of_def args_of_def text_of_def)

section \<open>Bounded output\<close>

fun bounded_piece :: "piece \<Rightarrow> bool" where
  "bounded_piece (Unsigned v) = False"
| "bounded_piece (Unsigned64 v) = False"
| "bounded_piece p = plain_piece p"

text \<open>What \<open>snprintf\<close> writes for a piece: it converts the bits of an integer as an unsigned number.\<close>

fun bounded_text :: "piece \<Rightarrow> bytes" where
  "bounded_text (Decimal v) = numeral_text 10 (unat v)"
| "bounded_text p = piece_text p"

lemma store_chars_patch:
  "w + length cs \<le> length buf \<Longrightarrow> store_chars cs (w, buf) = (w + length cs, patch w cs buf)"
proof (induction cs arbitrary: w buf)
  case (Cons c cs)
  have "patch (Suc w) cs (buf[w := c]) = patch w (c # cs) buf"
    using Cons.prems by (intro nth_equalityI) (auto simp: nth_patch nth_Cons' nth_list_update)
  with Cons.IH [of "Suc w" "buf[w := c]"] Cons.prems show ?case by (simp add: store_chars_def)
qed (simp add: store_chars_def)

lemma store_bounded_patch:
  "w \<le> m \<Longrightarrow> m < length buf \<Longrightarrow> store_bounded m cs (w, buf) =
     (w + length (take (m - w) cs), patch w (take (m - w) cs) buf)"
  by (simp add: store_bounded_def store_chars_patch)

lemma sint_room: "n < 2 ^ 31 \<Longrightarrow> sint (of_nat n :: u32) = int n"
proof -
  assume n: "n < 2 ^ 31"
  then have u: "uint (of_nat n :: u32) = int n" by (simp add: uint_nat unat_of_nat)
  with n have "signed_take_bit 31 (uint (of_nat n :: u32)) = int n"
    by (simp add: signed_take_bit_int_eq_self)
  then show ?thesis by (simp add: sint_uint)
qed

lemma store_number_patch:
  assumes "w \<le> m" and "m < length buf" and "m < 2 ^ 31" and "take (fst r) (snd r) = t" and "fst r = length t"
  shows "store_number m r (w, buf) = (w + length (take (m - w) t), patch w (take (m - w) t) buf)"
proof -
  have "take (if m - w < fst r then m - w else fst r) (snd r) = take (m - w) t"
    unfolding assms(4) [symmetric] assms(5) [symmetric] by auto
  moreover have "sint (of_nat (m - w) :: u32) = int (m - w)" by (rule sint_room) (use assms(3) in simp)
  then have "nat (if sint (of_nat (m - w) :: u32) < int (fst r) then sint (of_nat (m - w) :: u32) else int (fst r)) =
      (if m - w < fst r then m - w else fst r)" by simp
  ultimately show ?thesis
    unfolding store_number_def Let_def fst_conv using assms by (auto simp: store_chars_patch)
qed

lemma itoa_text:
  "take (fst (itoa v (replicate 32 0) 10)) (snd (itoa v (replicate 32 0) 10)) = numeral_text 10 (unat v)"
  "take (fst (itoa v (replicate 32 0) 16)) (snd (itoa v (replicate 32 0) 16)) = numeral_text 16 (unat v)"
  "fst (itoa v (replicate 32 0) 10) = length (numeral_text 10 (unat v))"
  "fst (itoa v (replicate 32 0) 16) = length (numeral_text 16 (unat v))"
proof -
  note n = itoa_numeral [of 10 v "replicate 32 0"] itoa_numeral [of 16 v "replicate 32 0"]
  have 1: "length (numeral_text 10 (unat v)) \<le> 31" "length (numeral_text 16 (unat v)) \<le> 31"
    using length_numeral [of 10 "unat v" 31] length_numeral [of 16 "unat v" 31] number_bounds(1,2) [of v] by simp_all
  show "take (fst (itoa v (replicate 32 0) 10)) (snd (itoa v (replicate 32 0) 10)) = numeral_text 10 (unat v)"
    "take (fst (itoa v (replicate 32 0) 16)) (snd (itoa v (replicate 32 0) 16)) = numeral_text 16 (unat v)"
    "fst (itoa v (replicate 32 0) 10) = length (numeral_text 10 (unat v))"
    "fst (itoa v (replicate 32 0) 16) = length (numeral_text 16 (unat v))"
    using n 1 number_bounds(1,2) [of v] by (simp_all add: patch_def)
qed

lemma sn_piece:
  assumes "bounded_piece p" and "w < m" and "m < length buf" and "m < 2 ^ 31"
  shows "sn_loop m (piece_format p @ fmt) (piece_args p @ args) (w, buf) =
    sn_loop m fmt args (w + length (take (m - w) (bounded_text p)), patch w (take (m - w) (bounded_text p)) buf)"
proof -
  note store = store_bounded_patch [of w m buf] store_number_patch [OF _ assms(3,4) itoa_text(1,3)]
    store_number_patch [OF _ assms(3,4) itoa_text(2,4)]
  have sign: "ucast (scast v :: u64) = v" for v :: u32 by (rule bit_word_eqI) (auto simp: bit_simps)
  show ?thesis
    using assms by (cases p) (simp_all add: plain_piece_def sn_directive_def store sign)
qed

lemma sn_full: "m \<le> fst wb \<Longrightarrow> sn_loop m fmt args wb = Some wb"
  by (cases fmt) simp_all

lemma sn_pieces:
  "list_all bounded_piece ps \<Longrightarrow> w \<le> m \<Longrightarrow> m < length buf \<Longrightarrow> m < 2 ^ 31 \<Longrightarrow>
     sn_loop m (format_of ps) (args_of ps) (w, buf) =
       Some (w + length (take (m - w) (concat (map bounded_text ps))), patch w (take (m - w) (concat (map bounded_text ps))) buf)"
proof (induction ps arbitrary: w buf)
  case (Cons p ps)
  show ?case
  proof (cases "w = m")
    case False
    let ?t = "take (m - w) (bounded_text p)"
    have 1: "w + length ?t \<le> m" "m - (w + length ?t) = m - w - length (bounded_text p)" using Cons.prems by auto
    have "patch (w + length ?t) (take (m - (w + length ?t)) (concat (map bounded_text ps))) (patch w ?t buf) =
        patch w (?t @ take (m - (w + length ?t)) (concat (map bounded_text ps))) buf"
    proof (rule patch_append)
      have "length (take (m - (w + length ?t)) (concat (map bounded_text ps))) \<le> m - (w + length ?t)" by simp
      then show "w + length ?t + length (take (m - (w + length ?t)) (concat (map bounded_text ps))) \<le> length buf"
        using 1(1) Cons.prems(3) by linarith
    qed
    then show ?thesis
      using Cons.IH [of "w + length ?t" "patch w ?t buf"] sn_piece [of p w m buf "format_of ps" "args_of ps"] Cons.prems 1 False
      by (simp add: format_of_def args_of_def)
  qed (simp add: sn_full)
qed (simp add: format_of_def args_of_def)

lemma snprintf_pieces:
  assumes "list_all bounded_piece ps" and "0 < sz" and "sz \<le> length buf" and "sz \<le> 2 ^ 31"
  defines "t \<equiv> take (sz - 1) (concat (map bounded_text ps))"
  shows "snprintf (Some buf) sz (format_of ps) (args_of ps) = Some (length t, Some (patch 0 (t @ [0]) buf))"
proof -
  have "(patch 0 t buf)[length t := 0] = patch 0 (t @ [0]) buf"
    using assms(2,3) unfolding t_def by (intro nth_equalityI) (auto simp: nth_patch nth_list_update nth_append)
  moreover have "sn_loop (sz - 1) (format_of ps) (args_of ps) (0, buf) = Some (length t, patch 0 t buf)"
    unfolding t_def using sn_pieces [OF assms(1), of 0 "sz - 1" buf] assms(2-4) by simp
  ultimately show ?thesis using assms(2) by (simp add: snprintf_def)
qed

end
