(* ===== verification/TerminalProof.thy ===== *)
theory TerminalProof imports Terminal begin

text \<open>
  The terminal as a window on a document: the abstract display holds the lines above the screen,
  on it and below it with the cursor; every operation of the terminal and of \<open>putchar\<close> refines an
  operation on displays. The loops over cells are first shown to move whole lines.
\<close>

text \<open>Loops over 80 columns are not to be unrolled.\<close>

declare upt_rec_numeral [simp del]

section \<open>Rows of cells\<close>

definition row :: "nat \<Rightarrow> u16 list \<Rightarrow> u16 list" where
  "row r mem = chunk (r * 80) 80 mem"

definition header_of :: "u16 list \<Rightarrow> u16 list list" where
  "header_of mem = map (\<lambda>r. row r mem) [0..<2]"

definition lines_of :: "u16 list \<Rightarrow> u16 list list" where
  "lines_of mem = map (\<lambda>r. row r mem) [2..<25]"

lemma length_row [simp]: "length mem = 2000 \<Longrightarrow> r < 25 \<Longrightarrow> length (row r mem) = 80"
  by (simp add: row_def)

lemma length_lines_of [simp]: "length (lines_of mem) = 23"
  by (simp add: lines_of_def)

lemma nth_lines_of: "i < 23 \<Longrightarrow> lines_of mem ! i = row (2 + i) mem"
  unfolding lines_of_def by (subst nth_map) (simp_all only: length_upt nth_upt)

lemma lines_of_eqI:
  "length ls = 23 \<Longrightarrow> (\<And>i. i < 23 \<Longrightarrow> ls ! i = row (2 + i) mem) \<Longrightarrow> lines_of mem = ls"
  by (rule nth_equalityI) (auto simp: nth_lines_of)

lemma hd_lines_of: "hd (lines_of mem) = row 2 mem"
  by (simp add: lines_of_def hd_map)

lemma last_lines_of: "last (lines_of mem) = row 24 mem"
  by (simp add: lines_of_def last_map)

lemma fold_update:
  "off + n \<le> length m \<Longrightarrow> fold (\<lambda>c m. m[off + c := f c]) [0..<n] m = patch off (map f [0..<n]) m"
proof (induction n)
  case (Suc n)
  have "(patch off (map f [0..<n]) m)[off + n := f n] = patch off (map f [0..<Suc n]) m"
    using Suc.prems by (intro nth_equalityI) (auto simp: nth_patch nth_list_update nth_append)
  with Suc show ?case by simp
qed simp

lemma rows_apart:
  fixes p q :: nat
  assumes "p \<noteq> q"
  shows "p * 80 + 80 \<le> q * 80 \<or> q * 80 + 80 \<le> p * 80"
proof -
  have "Suc p \<le> q \<or> Suc q \<le> p" using assms by auto
  then have "Suc p * 80 \<le> q * 80 \<or> Suc q * 80 \<le> p * 80" using mult_le_mono1 by blast
  then show ?thesis by (simp add: add.commute)
qed

lemma row_patch:
  assumes "length mem = 2000" and "length l = 80" and "q < 25" and "r < 25"
  shows "row r (patch (q * 80) l mem) = (if r = q then l else row r mem)"
proof (cases "r = q")
  case False
  then have "r * 80 + 80 \<le> q * 80 \<or> q * 80 + 80 \<le> r * 80" by (rule rows_apart)
  then show ?thesis using False assms by (simp add: row_def chunk_patch_other)
qed (use assms in \<open>simp add: row_def\<close>)

lemma read_line_row [simp]: "length mem = 2000 \<Longrightarrow> r < 25 \<Longrightarrow> read_line_from_vga r mem = row r mem"
  by (intro nth_equalityI) (auto simp: read_line_from_vga_def row_def nth_chunk)

lemma write_line_patch:
  assumes "length mem = 2000" and "r < 25" and "length l = 80"
  shows "write_line_to_vga r l mem = patch (r * 80) l mem"
proof -
  have "map ((!) l) [0..<80] = l" using map_nth [of l] assms(3) by simp
  then show ?thesis using assms by (simp add: write_line_to_vga_def fold_update)
qed

lemma fill_cells_patch: "off + n \<le> length m \<Longrightarrow> fill_cells x off n m = patch off (replicate n x) m"
  by (simp add: fill_cells_def fold_update map_replicate_const)

lemma copy_cells_loop:
  assumes "d + 80 \<le> length m" and "s + 80 \<le> length m" and "s + 80 \<le> d \<or> d + 80 \<le> s" and "n \<le> 80"
  shows "fold (\<lambda>c m. m[d + c := m ! (s + c)]) [0..<n] m = patch d (chunk s n m) m"
  using assms(4)
proof (induction n)
  case 0
  then show ?case by (simp add: chunk_def)
next
  case (Suc n)
  have "(patch d (chunk s n m) m)[d + n := patch d (chunk s n m) m ! (s + n)] = patch d (chunk s (Suc n) m) m"
    using assms(1-3) Suc.prems by (intro nth_equalityI) (auto simp: nth_patch nth_list_update nth_chunk)
  with Suc show ?case by simp
qed

lemma copy_cells_row:
  assumes "length mem = 2000" and "q < 25" and "p < 25" and "q \<noteq> p" and "d = q * 80" and "s = p * 80"
  shows "length (copy_cells d s mem) = 2000"
    and "r < 25 \<Longrightarrow> row r (copy_cells d s mem) = (if r = q then row p mem else row r mem)"
proof -
  have "p * 80 + 80 \<le> q * 80 \<or> q * 80 + 80 \<le> p * 80" using assms(4) by (metis rows_apart)
  then have 1: "copy_cells d s mem = patch (q * 80) (row p mem) mem"
    using assms by (simp add: copy_cells_def copy_cells_loop row_def)
  show "length (copy_cells d s mem) = 2000" using assms(1-3) by (simp add: 1)
  show "r < 25 \<Longrightarrow> row r (copy_cells d s mem) = (if r = q then row p mem else row r mem)"
    unfolding 1 using assms(1-3) by (intro row_patch) simp_all
qed

lemma shift_up_loop:
  assumes "length mem = 2000" and "n \<le> 22"
  shows "length (fold (\<lambda>r m. copy_cells ((2 + r) * 80) ((2 + r + 1) * 80) m) [0..<n] mem) = 2000 \<and>
    (\<forall>r < 25. row r (fold (\<lambda>r m. copy_cells ((2 + r) * 80) ((2 + r + 1) * 80) m) [0..<n] mem) =
      (if 2 \<le> r \<and> r < 2 + n then row (r + 1) mem else row r mem))"
  using assms(2)
proof (induction n)
  case (Suc n)
  note copy = copy_cells_row [where q = "2 + n" and p = "2 + n + 1" and d = "(2 + n) * 80" and s = "(2 + n + 1) * 80"]
  from Suc have "n < 22" by simp
  with Suc copy show ?case unfolding upt_Suc by (simp del: mult_Suc add_2_eq_Suc)
qed (use assms in auto)

lemma shift_down_loop:
  assumes "length mem = 2000" and "n \<le> 22"
  shows "length (fold (\<lambda>r m. copy_cells ((2 + r) * 80) ((2 + r - 1) * 80) m) (rev [1..<Suc n]) mem) = 2000 \<and>
    (\<forall>r < 25. row r (fold (\<lambda>r m. copy_cells ((2 + r) * 80) ((2 + r - 1) * 80) m) (rev [1..<Suc n]) mem) =
      (if 3 \<le> r \<and> r \<le> 2 + n then row (r - 1) mem else row r mem))"
  using assms
proof (induction n arbitrary: mem)
  case (Suc n)
  let ?m = "copy_cells ((2 + Suc n) * 80) ((2 + Suc n - 1) * 80) mem"
  note copy = copy_cells_row [OF Suc.prems(1), of "2 + Suc n" "2 + n" "(2 + Suc n) * 80" "(2 + Suc n - 1) * 80"]
  have 3: "length ?m = 2000" using copy(1) Suc.prems(2) by simp
  have 4: "row r ?m = (if r = 2 + Suc n then row (2 + n) mem else row r mem)" if "r < 25" for r
    using copy(2) that Suc.prems(2) by simp
  have "rev [1..<Suc (Suc n)] = Suc n # rev [1..<Suc n]" by simp
  then show ?case
    using Suc.IH [OF 3] Suc.prems(2) 4 by (auto simp: le_Suc_eq simp del: mult_Suc upt_Suc)
qed auto

lemma shift_lines_up_rows:
  assumes "length mem = 2000"
  shows "length (shift_lines_up mem) = 2000"
    and "r < 25 \<Longrightarrow> row r (shift_lines_up mem) = (if 2 \<le> r \<and> r < 24 then row (r + 1) mem else row r mem)"
  using shift_up_loop [OF assms, of 22] by (simp_all add: shift_lines_up_def)

lemma shift_lines_down_rows:
  assumes "length mem = 2000"
  shows "length (shift_lines_down mem) = 2000"
    and "r < 25 \<Longrightarrow> row r (shift_lines_down mem) = (if 3 \<le> r then row (r - 1) mem else row r mem)"
  using shift_down_loop [OF assms, of 22] by (simp_all add: shift_lines_down_def)

end
