(* ===== verification/TerminalView.thy ===== *)
theory TerminalView imports TerminalProof begin

text \<open>
  The abstract display, the invariant of the terminal's state, and for every operation the lemma
  that it refines the operation on displays.
\<close>

section \<open>The display\<close>

record display =
  header :: "u16 list list"
  above :: "u16 list list"
  screen_lines :: "u16 list list"
  below :: "u16 list list"
  cursor :: u16
  cursor_on :: bool
  typing :: "bytes \<times> nat \<times> bool \<times> keyboard"

definition display :: "('d \<Rightarrow> crtc) \<Rightarrow> 'd tty \<Rightarrow> display" where
  "display view t = \<lparr>header = header_of (vga_memory t),
     above = take (top_buffer_count t) (terminal_top_buffer t),
     screen_lines = lines_of (vga_memory t),
     below = rev (take (bottom_buffer_count t) (terminal_bottom_buffer t)),
     cursor = crtc_cursor (view (port t)), cursor_on = crtc_shown (view (port t)),
     typing = (input_buf t, input_len t, prompt_shown t, kbd t)\<rparr>"

definition tty_ok :: "'d tty \<Rightarrow> bool" where
  "tty_ok t \<longleftrightarrow> \<not> fault t \<and> length (vga_memory t) = 2000 \<and>
     length (terminal_top_buffer t) = 1024 \<and> (\<forall>l \<in> set (terminal_top_buffer t). length l = 80) \<and>
     length (terminal_bottom_buffer t) = 1024 \<and> (\<forall>l \<in> set (terminal_bottom_buffer t). length l = 80) \<and>
     top_buffer_count t + bottom_buffer_count t \<le> 1024"

text \<open>The window moves over the document by one line.\<close>

definition move_forward :: "display \<Rightarrow> display" where
  "move_forward d = d\<lparr>above := above d @ [hd (screen_lines d)],
     screen_lines := tl (screen_lines d) @ [hd (below d)], below := tl (below d)\<rparr>"

definition move_back :: "display \<Rightarrow> display" where
  "move_back d = d\<lparr>above := butlast (above d), screen_lines := last (above d) # butlast (screen_lines d),
     below := last (screen_lines d) # below d\<rparr>"

definition new_line :: "display \<Rightarrow> display" where
  "new_line d = d\<lparr>above := drop (length (above d) - 1023) (above d) @ [hd (screen_lines d)],
     screen_lines := tl (screen_lines d) @ [replicate 80 blank], below := []\<rparr>"

definition page_back :: "display \<Rightarrow> display" where
  "page_back d = (if above d = [] then d else (move_back d)\<lparr>cursor_on := False\<rparr>)"

definition page_forward :: "display \<Rightarrow> display" where
  "page_forward d = (if below d = [] then d
     else (move_forward d)\<lparr>cursor_on := cursor_on d \<or> tl (below d) = []\<rparr>)"

definition to_present :: "display \<Rightarrow> display" where
  "to_present d = (if below d = [] then d
     else ((move_forward ^^ length (below d)) d)\<lparr>cursor_on := True\<rparr>)"

section \<open>The cursor\<close>

context crtc begin

lemma cursor_bytes:
  fixes off :: u16
  shows "push_bit 8 (ucast (ucast (drop_bit 8 off AND 0xFF) :: u8)) OR ucast (ucast (off AND 0xFF) :: u8) = off"
proof -
  have 1: "(0xFF :: u16) = mask 8" by (simp add: mask_eq_exp_minus_1)
  show ?thesis unfolding 1 by (rule bit_word_eqI) (auto simp: bit_simps simp del: mask_numeral)
qed

lemma run_set_cursor:
  "\<exists>d. run_state (vga_set_cursor io off) t = ((), t\<lparr>port := d\<rparr>) \<and>
     crtc_cursor (view d) = off \<and> crtc_shown (view d) = crtc_shown (view (port t))"
  by (rule exI, rule conjI) (simp add: vga_set_cursor_def tty_out_def,
    simp add: select store cursor_register_def crtc_cursor_def crtc_shown_def cursor_bytes)

lemma run_get_cursor:
  "\<exists>d. run_state (vga_get_cursor_position io) t = (crtc_cursor (view (port t)), t\<lparr>port := d\<rparr>) \<and>
     crtc_cursor (view d) = crtc_cursor (view (port t)) \<and> crtc_shown (view d) = crtc_shown (view (port t))"
proof -
  define d1 where "d1 = outb io 0x3D4 0x0E (port t)"
  obtain h d2 where 2: "inb io 0x3D5 d1 = (h, d2)" by force
  define d3 where "d3 = outb io 0x3D4 0x0F d2"
  obtain l d4 where 4: "inb io 0x3D5 d3 = (l, d4)" by force
  have "view d1 = (view (port t))\<lparr>crtc_index := 0x0E\<rparr>" by (simp add: d1_def select)
  with load [OF _ 2] have 5: "h = crtc_reg (view (port t)) 0x0E" "view d2 = (view (port t))\<lparr>crtc_index := 0x0E\<rparr>"
    by (simp_all add: cursor_register_def)
  then have "view d3 = (view (port t))\<lparr>crtc_index := 0x0F\<rparr>" by (simp add: d3_def select)
  with load [OF _ 4] have 6: "l = crtc_reg (view (port t)) 0x0F" "view d4 = (view (port t))\<lparr>crtc_index := 0x0F\<rparr>"
    by (simp_all add: cursor_register_def)
  show ?thesis
    using 2 4 5 6
    by (intro exI [of _ d4]) (simp add: vga_get_cursor_position_def tty_out_def tty_in_def crtc_cursor_def crtc_shown_def
        d1_def [symmetric] d3_def [symmetric])
qed

lemma run_toggle_cursor:
  "\<exists>d. run_state (vga_show_cursor io) t = ((), t\<lparr>port := d\<rparr>) \<and>
     crtc_cursor (view d) = crtc_cursor (view (port t)) \<and> crtc_shown (view d)"
  "\<exists>d. run_state (vga_hide_cursor io) t = ((), t\<lparr>port := d\<rparr>) \<and>
     crtc_cursor (view d) = crtc_cursor (view (port t)) \<and> \<not> crtc_shown (view d)"
proof -
  define d1 where "d1 = outb io 0x3D4 0x0A (port t)"
  obtain x d2 where 2: "inb io 0x3D5 d1 = (x, d2)" by force
  have "view d1 = (view (port t))\<lparr>crtc_index := 0x0A\<rparr>" by (simp add: d1_def select)
  with load [OF _ 2] have 3: "view d2 = (view (port t))\<lparr>crtc_index := 0x0A\<rparr>"
    by (simp_all add: cursor_register_def)
  have "\<not> bit (x AND NOT 0x20) 5" "bit (x OR 0x20) 5" by (simp_all add: bit_simps)
  note toggle = 2 3 this
  show "\<exists>d. run_state (vga_show_cursor io) t = ((), t\<lparr>port := d\<rparr>) \<and>
      crtc_cursor (view d) = crtc_cursor (view (port t)) \<and> crtc_shown (view d)"
    using toggle
    by - (rule exI, rule conjI, simp add: vga_show_cursor_def tty_out_def tty_in_def d1_def [symmetric],
      simp add: crtc_cursor_def crtc_shown_def store cursor_register_def)
  show "\<exists>d. run_state (vga_hide_cursor io) t = ((), t\<lparr>port := d\<rparr>) \<and>
      crtc_cursor (view d) = crtc_cursor (view (port t)) \<and> \<not> crtc_shown (view d)"
    using toggle
    by - (rule exI, rule conjI, simp add: vga_hide_cursor_def tty_out_def tty_in_def d1_def [symmetric],
      simp add: crtc_cursor_def crtc_shown_def store cursor_register_def)
qed

lemma evals_set_cursor [evals_rules]:
  "evals tty_ok (display view) d (vga_set_cursor io off) () (d\<lparr>cursor := off\<rparr>)"
  by (rule evalsI) (use run_set_cursor in \<open>fastforce simp: display_def tty_ok_def\<close>)

lemma evals_get_cursor [evals_rules]:
  "evals tty_ok (display view) d (vga_get_cursor_position io) (cursor d) d"
  by (rule evalsI) (use run_get_cursor in \<open>fastforce simp: display_def tty_ok_def\<close>)

lemma evals_show_cursor [evals_rules]:
  "evals tty_ok (display view) d (vga_show_cursor io) () (d\<lparr>cursor_on := True\<rparr>)"
  by (rule evalsI) (use run_toggle_cursor(1) in \<open>fastforce simp: display_def tty_ok_def\<close>)

lemma evals_hide_cursor [evals_rules]:
  "evals tty_ok (display view) d (vga_hide_cursor io) () (d\<lparr>cursor_on := False\<rparr>)"
  by (rule evalsI) (use run_toggle_cursor(2) in \<open>fastforce simp: display_def tty_ok_def\<close>)

end

section \<open>Moving the window\<close>

lemma row_patch_ends:
  assumes "length mem = 2000" and "length l = 80" and "r < 25"
  shows "row r (patch 160 l mem) = (if r = 2 then l else row r mem)"
    and "row r (patch 1920 l mem) = (if r = 24 then l else row r mem)"
  using row_patch [OF assms(1,2) _ assms(3), of 2] row_patch [OF assms(1,2) _ assms(3), of 24] by simp_all

lemma header_of_patch:
  "length mem = 2000 \<Longrightarrow> length l = 80 \<Longrightarrow> header_of (patch 160 l mem) = header_of mem"
  "length mem = 2000 \<Longrightarrow> length l = 80 \<Longrightarrow> header_of (patch 1920 l mem) = header_of mem"
  by (auto simp: header_of_def row_patch_ends)

lemma header_of_shift:
  "length mem = 2000 \<Longrightarrow> header_of (shift_lines_up mem) = header_of mem"
  "length mem = 2000 \<Longrightarrow> header_of (shift_lines_down mem) = header_of mem"
  by (auto simp: header_of_def shift_lines_up_rows shift_lines_down_rows)

lemma lines_shifted_up:
  assumes "length mem = 2000" and "length l = 80"
  shows "lines_of (patch 1920 l (shift_lines_up mem)) = tl (lines_of mem) @ [l]"
  using assms shift_lines_up_rows
  by (intro lines_of_eqI) (auto simp: row_patch_ends nth_append nth_tl nth_lines_of)

lemma lines_shifted_down:
  assumes "length mem = 2000" and "length l = 80"
  shows "lines_of (patch 160 l (shift_lines_down mem)) = l # butlast (lines_of mem)"
  using assms shift_lines_down_rows
  by (intro lines_of_eqI) (auto simp: row_patch_ends nth_Cons' nth_butlast nth_lines_of)

lemma take_Suc_update: "n < length xs \<Longrightarrow> take (Suc n) (xs[n := x]) = take n xs @ [x]"
  by (simp add: take_Suc_conv_app_nth)

lemma rev_take_pos: "0 < n \<Longrightarrow> n \<le> length xs \<Longrightarrow> rev (take n xs) = xs ! (n - 1) # rev (take (n - 1) xs)"
  by (cases n) (auto simp: take_Suc_conv_app_nth)

lemma tty_ok_lengths:
  assumes "tty_ok t"
  shows "length (vga_memory t) = 2000" "length (terminal_top_buffer t) = 1024"
    "length (terminal_bottom_buffer t) = 1024" "\<not> fault t"
    "i < 1024 \<Longrightarrow> length (terminal_top_buffer t ! i) = 80"
    "i < 1024 \<Longrightarrow> length (terminal_bottom_buffer t ! i) = 80"
  using assms by (auto simp: tty_ok_def)

lemma below_display: "tty_ok t \<Longrightarrow> below (display view t) = [] \<longleftrightarrow> bottom_buffer_count t = 0"
  by (auto simp: display_def tty_ok_def)

lemma above_display: "tty_ok t \<Longrightarrow> above (display view t) = [] \<longleftrightarrow> top_buffer_count t = 0"
  by (auto simp: display_def tty_ok_def)

lemma forward_line_run:
  assumes "tty_ok t" and "0 < bottom_buffer_count t"
  shows "run_state forward_line t = ((), t\<lparr>
      terminal_top_buffer := (terminal_top_buffer t)[top_buffer_count t := row 2 (vga_memory t)],
      top_buffer_count := top_buffer_count t + 1,
      vga_memory := patch 1920 (terminal_bottom_buffer t ! (bottom_buffer_count t - 1)) (shift_lines_up (vga_memory t)),
      bottom_buffer_count := bottom_buffer_count t - 1\<rparr>)"
  using assms tty_ok_lengths [OF assms(1)] tty_ok_lengths(6) [OF assms(1), of "bottom_buffer_count t - 1"]
  by (auto simp: forward_line_def save_top_def show_bottom_def screen_def tty_ok_def write_line_patch shift_lines_up_rows)

lemma evals_forward_line [evals_rules]:
  assumes "below d \<noteq> []"
  shows "evals tty_ok (display view) d forward_line () (move_forward d)"
proof (rule evalsI)
  fix t :: "'a tty"
  assume 1: "tty_ok t" and 2: "display view t = d"
  from below_display [OF 1] 2 assms have 3: "0 < bottom_buffer_count t" by auto
  note len = tty_ok_lengths [OF 1]
  have 4: "top_buffer_count t < 1024" "bottom_buffer_count t \<le> 1024" using 1 3 by (auto simp: tty_ok_def)
  have 5: "length (terminal_bottom_buffer t ! (bottom_buffer_count t - 1)) = 80" using len(6) 4 3 by simp
  show "\<exists>t'. run_state forward_line t = ((), t') \<and> tty_ok t' \<and> display view t' = move_forward d"
    unfolding forward_line_run [OF 1 3] 2 [symmetric] using 1 3 4 5 len(1-4)
    by (auto simp: tty_ok_def display_def move_forward_def lines_shifted_up header_of_patch header_of_shift
        shift_lines_up_rows hd_lines_of take_Suc_update rev_take_pos dest!: set_update_subset_insert [THEN subsetD])
qed


lemma evals_present_loop [evals_rules]:
  "n = length (below d) \<Longrightarrow> evals tty_ok (display view) d (present_loop n) () ((move_forward ^^ n) d)"
proof (induction n arbitrary: d)
  case 0
  then show ?case by (simp add: evals_return)
next
  case (Suc n)
  then have 1: "below d \<noteq> []" by auto
  have "length (below (move_forward d)) = n" using Suc.prems by (simp add: move_forward_def)
  with Suc.IH [of "move_forward d"]
  have 2: "evals tty_ok (display view) (move_forward d) (present_loop n) () ((move_forward ^^ Suc n) d)"
    by (simp add: funpow_swap1)
  show ?case
  proof (rule evalsI)
    fix t :: "'a tty"
    assume 3: "tty_ok t" "display view t = d"
    with 1 below_display have "0 < bottom_buffer_count t" by blast
    then show "\<exists>t'. run_state (present_loop (Suc n)) t = ((), t') \<and> tty_ok t' \<and> display view t' = (move_forward ^^ Suc n) d"
      using evalsD [OF evals_bind [OF evals_forward_line [OF 1, where view = view] 2] 3] by simp
  qed
qed

lemma evals_bottom_count:
  assumes "\<And>n. n = length (below d) \<Longrightarrow> evals tty_ok (display view) d (f n) r d'"
  shows "evals tty_ok (display view) d (State_Monad.bind (gets bottom_buffer_count) f) r d'"
proof (rule evalsI)
  fix t :: "'a tty"
  assume 1: "tty_ok t" "display view t = d"
  then have "bottom_buffer_count t = length (below d)" by (auto simp: tty_ok_def display_def)
  from evalsD [OF assms [OF this] 1]
  show "\<exists>t'. run_state (State_Monad.bind (gets bottom_buffer_count) f) t = (r, t') \<and> tty_ok t' \<and> display view t' = d'"
    by simp
qed

lemma evals_top_count:
  assumes "\<And>n. n = length (above d) \<Longrightarrow> evals tty_ok (display view) d (f n) r d'"
  shows "evals tty_ok (display view) d (State_Monad.bind (gets top_buffer_count) f) r d'"
proof (rule evalsI)
  fix t :: "'a tty"
  assume 1: "tty_ok t" "display view t = d"
  then have "top_buffer_count t = length (above d)" by (auto simp: tty_ok_def display_def)
  from evalsD [OF assms [OF this] 1]
  show "\<exists>t'. run_state (State_Monad.bind (gets top_buffer_count) f) t = (r, t') \<and> tty_ok t' \<and> display view t' = d'"
    by simp
qed

context crtc begin

lemma evals_return_to_present:
  "evals tty_ok (display view) d (return_to_present io) () (to_present d)"
  unfolding return_to_present_def
proof (rule evals_bottom_count)
  fix n assume 1: "n = length (below d)"
  show "evals tty_ok (display view) d
    (if n = 0 then State_Monad.return () else present_loop n \<bind> (\<lambda>_. vga_show_cursor io)) () (to_present d)"
    using evals_bind [OF evals_present_loop [OF 1, where view = view] evals_show_cursor] 1
    by (auto simp: to_present_def evals_return)
qed

lemma evals_scroll_down:
  "evals tty_ok (display view) d (scroll_down io) () (page_forward d)"
  unfolding scroll_down_def
proof (rule evals_bottom_count)
  fix n assume 1: "n = length (below d)"
  have "evals tty_ok (display view) d (forward_line \<bind> (\<lambda>_. gets bottom_buffer_count \<bind>
      (\<lambda>m. if m = 0 then vga_show_cursor io else State_Monad.return ()))) () (page_forward d)" if 2: "below d \<noteq> []"
  proof (rule evals_bind [OF evals_forward_line [OF 2]], rule evals_bottom_count)
    fix m assume "m = length (below (move_forward d))"
    then show "evals tty_ok (display view) (move_forward d)
        (if m = 0 then vga_show_cursor io else State_Monad.return ()) () (page_forward d)"
      using 2 evals_show_cursor [of "move_forward d"] evals_return [of tty_ok "display view" "move_forward d"]
      by (auto simp: page_forward_def move_forward_def Nitpick.size_list_simp(2))
  qed
  then show "evals tty_ok (display view) d (if n = 0 then State_Monad.return () else forward_line \<bind>
      (\<lambda>_. gets bottom_buffer_count \<bind> (\<lambda>m. if m = 0 then vga_show_cursor io else State_Monad.return ()))) () (page_forward d)"
    using 1 by (auto simp: page_forward_def evals_return)
qed

end


lemma move_back_hidden: "(move_back d)\<lparr>cursor_on := False\<rparr> = move_back (d\<lparr>cursor_on := False\<rparr>)"
  by (cases d) (simp add: move_back_def)

lemma back_line_run:
  assumes "tty_ok t" and "0 < top_buffer_count t"
  shows "run_state (back_line (top_buffer_count t)) t = ((), t\<lparr>
      terminal_bottom_buffer := (terminal_bottom_buffer t)[bottom_buffer_count t := row 24 (vga_memory t)],
      bottom_buffer_count := bottom_buffer_count t + 1,
      vga_memory := patch 160 (terminal_top_buffer t ! (top_buffer_count t - 1)) (shift_lines_down (vga_memory t)),
      top_buffer_count := top_buffer_count t - 1\<rparr>)"
  using assms tty_ok_lengths [OF assms(1)] tty_ok_lengths(5) [OF assms(1), of "top_buffer_count t - 1"]
  by (auto simp: back_line_def save_bottom_def show_top_def screen_def tty_ok_def write_line_patch shift_lines_down_rows)

lemma evals_back_line:
  assumes "above d \<noteq> []" and "n = length (above d)"
  shows "evals tty_ok (display view) d (back_line n) () (move_back d)"
proof (rule evalsI)
  fix t :: "'a tty"
  assume 1: "tty_ok t" and 2: "display view t = d"
  from above_display [OF 1] 2 assms have 3: "0 < top_buffer_count t" by auto
  have n: "n = top_buffer_count t" using assms(2) 1 by (auto simp: 2 [symmetric] display_def tty_ok_def)
  note len = tty_ok_lengths [OF 1]
  have 4: "bottom_buffer_count t < 1024" "top_buffer_count t \<le> 1024" using 1 3 by (auto simp: tty_ok_def)
  have 5: "length (terminal_top_buffer t ! (top_buffer_count t - 1)) = 80" using len(5) 4 3 by simp
  have 6: "take (top_buffer_count t) (terminal_top_buffer t) =
      take (top_buffer_count t - 1) (terminal_top_buffer t) @ [terminal_top_buffer t ! (top_buffer_count t - 1)]"
    using 3 4 len(2) by (cases "top_buffer_count t") (auto simp: take_Suc_conv_app_nth)
  show "\<exists>t'. run_state (back_line n) t = ((), t') \<and> tty_ok t' \<and> display view t' = move_back d"
    unfolding n back_line_run [OF 1 3] 2 [symmetric] using 1 3 4 5 len(1-4)
    by (auto simp: tty_ok_def display_def move_back_def lines_shifted_down header_of_patch header_of_shift
        shift_lines_down_rows last_lines_of take_Suc_update 6 dest!: set_update_subset_insert [THEN subsetD])
qed

context crtc begin

lemma evals_scroll_up:
  "evals tty_ok (display view) d (scroll_up io) () (page_back d)"
  unfolding scroll_up_def
proof (rule evals_top_count)
  fix n assume 1: "n = length (above d)"
  have "evals tty_ok (display view) d (vga_hide_cursor io \<bind> (\<lambda>_. back_line n)) () (page_back d)" if 2: "above d \<noteq> []"
    using evals_bind [OF evals_hide_cursor evals_back_line [where view = view and n = n], of d] 1 2
    by (simp add: page_back_def move_back_hidden)
  then show "evals tty_ok (display view) d (if n = 0 then State_Monad.return () else vga_hide_cursor io \<bind>
      (\<lambda>_. back_line n)) () (page_back d)"
    using 1 by (auto simp: page_back_def evals_return)
qed

end

section \<open>Output\<close>

lemma shift_top_buffer_loop:
  assumes "n < length buf"
  shows "fold (\<lambda>i b. b[i := b ! (i + 1)]) [0..<n] buf = take n (tl buf) @ drop n buf"
  using assms
proof (induction n)
  case (Suc n)
  have 1: "drop n buf = buf ! n # buf ! Suc n # drop (Suc (Suc n)) buf" "drop (Suc n) buf = buf ! Suc n # drop (Suc (Suc n)) buf"
    using Suc.prems by (simp_all add: Cons_nth_drop_Suc)
  have 2: "length (take n (tl buf)) = n" using Suc.prems by simp
  have 3: "take (Suc n) (tl buf) = take n (tl buf) @ [buf ! Suc n]"
    using Suc.prems by (simp add: take_Suc_conv_app_nth nth_tl)
  have "(take n (tl buf) @ drop n buf)[n := (take n (tl buf) @ drop n buf) ! (n + 1)] = take (Suc n) (tl buf) @ drop (Suc n) buf"
    unfolding 1 3 using 2 by (simp add: list_update_append nth_append)
  with Suc show ?case by simp
qed simp

lemma new_line_run:
  assumes "tty_ok t"
  shows "\<exists>b. run_state terminal_auto_scroll t = ((), t\<lparr>
      terminal_top_buffer := b, top_buffer_count := min 1024 (top_buffer_count t + 1), bottom_buffer_count := 0,
      vga_memory := patch 1920 (replicate 80 blank) (shift_lines_up (vga_memory t))\<rparr>) \<and>
    length b = 1024 \<and> (\<forall>l \<in> set b. length l = 80) \<and>
    take (min 1024 (top_buffer_count t + 1)) b =
      drop (top_buffer_count t - 1023) (take (top_buffer_count t) (terminal_top_buffer t)) @ [row 2 (vga_memory t)]"
proof (cases "top_buffer_count t < 1024")
  case True
  then have 1: "min 1024 (top_buffer_count t + 1) = Suc (top_buffer_count t)" by simp
  have 2: "take (Suc (top_buffer_count t)) ((terminal_top_buffer t)[top_buffer_count t := row 2 (vga_memory t)]) =
      drop (top_buffer_count t - 1023) (take (top_buffer_count t) (terminal_top_buffer t)) @ [row 2 (vga_memory t)]"
    using True assms by (simp add: take_Suc_update tty_ok_def)
  show ?thesis
    unfolding 1 using assms True 2 tty_ok_lengths [OF assms]
    by (intro exI [of _ "(terminal_top_buffer t)[top_buffer_count t := row 2 (vga_memory t)]"])
      (auto simp: terminal_auto_scroll_def save_top_def screen_def tty_ok_def fill_cells_patch shift_lines_up_rows
        dest!: set_update_subset_insert [THEN subsetD])
next
  case False
  then have 1: "top_buffer_count t = 1024" using assms by (simp add: tty_ok_def)
  let ?b = "terminal_top_buffer t"
  have len: "length ?b = 1024" "length (vga_memory t) = 2000" using assms by (auto simp: tty_ok_def)
  have "drop 1023 ?b = [?b ! 1023]" using Cons_nth_drop_Suc [of 1023 ?b] len by simp
  then have 2: "shift_top_buffer ?b = tl ?b @ [?b ! 1023]"
    using shift_top_buffer_loop [of 1023 ?b] len by (simp add: shift_top_buffer_def)
  have 3: "(tl ?b @ [?b ! 1023])[1023 := row 2 (vga_memory t)] = tl ?b @ [row 2 (vga_memory t)]"
    using len by (simp add: list_update_append)
  have 4: "\<forall>l \<in> set (tl ?b @ [row 2 (vga_memory t)]). length l = 80"
    using assms by (cases ?b) (auto simp: tty_ok_def)
  have 5: "drop (top_buffer_count t - 1023) (take (top_buffer_count t) ?b) = tl ?b"
    using len by (simp add: 1 drop_Suc)
  have 6: "length (tl ?b @ [row 2 (vga_memory t)]) = 1024" using len by simp
  have "run_state terminal_auto_scroll t = ((), t\<lparr>
      terminal_top_buffer := tl ?b @ [row 2 (vga_memory t)], bottom_buffer_count := 0,
      vga_memory := patch 1920 (replicate 80 blank) (shift_lines_up (vga_memory t))\<rparr>)"
    using len by (simp add: terminal_auto_scroll_def save_top_def screen_def fill_cells_patch shift_lines_up_rows 1 2 3)
  then show ?thesis
    using 1 4 6 len unfolding 5 by (intro exI [of _ "tl ?b @ [row 2 (vga_memory t)]"]) simp
qed

lemma evals_auto_scroll [evals_rules]:
  "evals tty_ok (display view) d terminal_auto_scroll () (new_line d)"
proof (rule evalsI)
  fix t :: "'a tty"
  assume 1: "tty_ok t" and 2: "display view t = d"
  from new_line_run [OF 1] show "\<exists>t'. run_state terminal_auto_scroll t = ((), t') \<and> tty_ok t' \<and> display view t' = new_line d"
    unfolding 2 [symmetric] using 1
    by (auto simp: tty_ok_def display_def new_line_def lines_shifted_up header_of_patch header_of_shift
        shift_lines_up_rows hd_lines_of)
qed

end
