(* ===== verification/TerminalOutput.thy ===== *)
theory TerminalOutput imports TerminalView begin

text \<open>
  Character output on displays: \<open>putchar_color\<close> refines \<open>type_char\<close>, which writes one cell, moves the
  cursor and starts a new line at the end of the screen. The terminal's start and the step
  relation of everything that acts on the display give its reachable states.
\<close>

section \<open>One character\<close>

definition put_cell :: "nat \<Rightarrow> u16 \<Rightarrow> display \<Rightarrow> display" where
  "put_cell i x d = d\<lparr>screen_lines :=
     (screen_lines d)[i div 80 - 2 := (screen_lines d ! (i div 80 - 2))[i mod 80 := x]]\<rparr>"

definition on_screen :: "u16 \<Rightarrow> bool" where
  "on_screen p \<longleftrightarrow> 160 \<le> p \<and> p < 2000"

definition start_position :: "u16 \<Rightarrow> u16" where
  "start_position p = (if on_screen p then p else 160)"

definition next_position :: "u8 \<Rightarrow> u16 \<Rightarrow> u16" where
  "next_position c p =
     (if c = 0x0A then (p div 80 + 1) * 80
      else if c = 0x0D then p div 80 * 80
      else if c = 0x09 then
        (if 2000 \<le> p + (8 - p mod 80 mod 8) then 2000 - 80 else p + (8 - p mod 80 mod 8))
      else p + 1)"

definition plain :: "u8 \<Rightarrow> bool" where
  "plain c \<longleftrightarrow> c \<noteq> 0x0A \<and> c \<noteq> 0x0D \<and> c \<noteq> 0x09"

definition settle :: "u16 \<Rightarrow> display \<Rightarrow> display" where
  "settle p d = (if 2000 \<le> p then (new_line d)\<lparr>cursor := 1920\<rparr> else d\<lparr>cursor := p\<rparr>)"

definition type_char :: "u8 \<Rightarrow> u8 \<Rightarrow> u8 \<Rightarrow> display \<Rightarrow> display" where
  "type_char c fg bg d =
     (let p = start_position (cursor d);
          d1 = (if plain c then put_cell (unat p) (vga_entry c fg bg) d else d)
      in settle (next_position c p) d1)"

lemma on_screen_unat: "on_screen p \<longleftrightarrow> 160 \<le> unat p \<and> unat p < 2000"
  by (simp add: on_screen_def word_le_nat_alt word_less_nat_alt)

lemma on_screen_start [simp]: "on_screen (start_position p)"
  by (simp add: start_position_def) (simp add: on_screen_def)

lemma row_update:
  assumes "length mem = 2000" and "i < 2000" and "r < 25"
  shows "row r (mem[i := x]) = (if r = i div 80 then (row r mem)[i mod 80 := x] else row r mem)"
proof (rule nth_equalityI)
  fix k assume "k < length (row r (mem[i := x]))"
  then have k: "k < 80" using assms by simp
  have "r * 80 + k = i \<longleftrightarrow> r = i div 80 \<and> k = i mod 80"
  proof
    assume "r * 80 + k = i"
    then show "r = i div 80 \<and> k = i mod 80" using k by auto
  next
    assume "r = i div 80 \<and> k = i mod 80"
    then show "r * 80 + k = i" by simp
  qed
  then show "row r (mem[i := x]) ! k = (if r = i div 80 then (row r mem)[i mod 80 := x] else row r mem) ! k"
    using assms k by (auto simp: row_def nth_chunk nth_list_update)
qed (use assms in auto)

lemma evals_poke:
  assumes "on_screen p"
  shows "evals tty_ok (display view) d (poke (unat p) x) () (put_cell (unat p) x d)"
proof (rule evalsI)
  fix t :: "'a tty"
  assume 1: "tty_ok t" and 2: "display view t = d"
  from assms have p: "160 \<le> unat p" "unat p < 2000" by (simp_all add: on_screen_unat)
  have q: "2 \<le> unat p div 80" "unat p div 80 < 25" using p by (auto simp: div_less_iff_less_mult le_div_geq)
  note len = tty_ok_lengths [OF 1]
  have 3: "header_of ((vga_memory t)[unat p := x]) = header_of (vga_memory t)"
    using q p len(1) by (auto simp: header_of_def row_update)
  have 4: "lines_of ((vga_memory t)[unat p := x]) = (lines_of (vga_memory t))
      [unat p div 80 - 2 := (lines_of (vga_memory t) ! (unat p div 80 - 2))[unat p mod 80 := x]]"
    using q p len(1) by (intro lines_of_eqI) (auto simp: row_update nth_list_update nth_lines_of)
  show "\<exists>t'. run_state (poke (unat p) x) t = ((), t') \<and> tty_ok t' \<and> display view t' = put_cell (unat p) x d"
    using 1 p 3 4 len by (auto simp: poke_def 2 [symmetric] display_def put_cell_def tty_ok_def)
qed

lemma put_cell_cursor: "cursor (put_cell i x d) = cursor d"
  by (simp add: put_cell_def)

lemma evals_advance:
  assumes "on_screen p"
  shows "evals tty_ok (display view) d (advance c fg bg p) (next_position c p)
    (if plain c then put_cell (unat p) (vga_entry c fg bg) d else d)"
  unfolding advance_def next_position_def plain_def Let_def
  using evals_bind [OF evals_poke [OF assms, where view = view] evals_return]
  by (auto intro: evals_return)

context crtc begin

lemma evals_putchar_color:
  "evals tty_ok (display view) d (putchar_color io c fg bg) () (type_char c fg bg d)"
proof -
  let ?p = "start_position (cursor d)"
  let ?d = "if plain c then put_cell (unat ?p) (vga_entry c fg bg) d else d"
  have 1: "(if 2000 \<le> hw \<or> hw < 160 then 160 else hw) = start_position hw" for hw :: u16
    by (auto simp: start_position_def on_screen_def)
  have 2: "evals tty_ok (display view) e
      ((if 2000 \<le> q then terminal_auto_scroll \<bind> (\<lambda>_. State_Monad.return (2000 - 80)) else State_Monad.return q) \<bind>
       vga_set_cursor io) () (settle q e)" for q :: u16 and e
  proof (cases "2000 \<le> q")
    case True
    then show ?thesis
      unfolding settle_def if_P [OF True]
      by (intro evals_bind [OF evals_bind [OF evals_auto_scroll evals_return]])
        (use evals_set_cursor [of "new_line e" 1920] in simp)
  qed (simp add: settle_def evals_set_cursor)
  show ?thesis
    unfolding putchar_color_def Let_def 1 type_char_def
    by (rule evals_bind [OF evals_get_cursor], rule evals_bind [OF evals_advance [OF on_screen_start]], rule 2)
qed

end

section \<open>The start of the terminal\<close>

definition title :: "u16 list list" where
  "title = [map (\<lambda>c. vga_entry c VGA_COLOR_LIGHT_GREEN VGA_COLOR_BLACK) (str ''IPO_OS'') @ replicate 52 blank @
     map (\<lambda>c. vga_entry c VGA_COLOR_LIGHT_GREEN VGA_COLOR_BLACK) (str ''Created by IPOleksenko''), replicate 80 blank]"

text \<open>The arrays have their declared sizes; their contents do not matter.\<close>

definition tty_arrays :: "'d tty \<Rightarrow> bool" where
  "tty_arrays t \<longleftrightarrow> \<not> fault t \<and> length (vga_memory t) = 2000 \<and>
     length (terminal_top_buffer t) = 1024 \<and> (\<forall>l \<in> set (terminal_top_buffer t). length l = 80) \<and>
     length (terminal_bottom_buffer t) = 1024 \<and> (\<forall>l \<in> set (terminal_bottom_buffer t). length l = 80)"

definition fresh_display :: "bytes \<Rightarrow> keyboard \<Rightarrow> display" where
  "fresh_display buf k = \<lparr>header = title, above = [], screen_lines = replicate 23 (replicate 80 blank), below = [],
     cursor = 160, cursor_on = True, typing = (buf, 0, False, k)\<rparr>"

lemma map_nth_upt: "n = length xs \<Longrightarrow> map (\<lambda>i. g (xs ! i)) [0..<n] = map g xs"
  by (rule nth_equalityI) auto

definition titled :: "u16 list \<Rightarrow> u16 list" where
  "titled mem = patch 58 (map (\<lambda>c. vga_entry c VGA_COLOR_LIGHT_GREEN VGA_COLOR_BLACK) (str ''Created by IPOleksenko''))
     (patch 0 (map (\<lambda>c. vga_entry c VGA_COLOR_LIGHT_GREEN VGA_COLOR_BLACK) (str ''IPO_OS'')) mem)"

lemma print_header_run:
  assumes "length (vga_memory t) = 2000"
  shows "run_state print_header t = ((), t\<lparr>vga_memory := titled (vga_memory t)\<rparr>)"
proof -
  note loop = fold_update [where off = 0, unfolded add_0]
  have 1: "fold (\<lambda>i m. m[i := vga_entry (str ''IPO_OS'' ! i) 10 0]) [0..<6] (vga_memory t) =
      patch 0 (map (\<lambda>c. vga_entry c 10 0) (str ''IPO_OS'')) (vga_memory t)"
    using assms by (subst loop) (simp, subst map_nth_upt [where g = "\<lambda>c. vga_entry c 10 0"], simp_all del: str_Cons)
  have 2: "fold (\<lambda>i m. m[58 + i := vga_entry (str ''Created by IPOleksenko'' ! i) 10 0]) [0..<22] m =
      patch 58 (map (\<lambda>c. vga_entry c 10 0) (str ''Created by IPOleksenko'')) m" if "length m = 2000" for m
    using that by (subst fold_update) (simp, subst map_nth_upt [where g = "\<lambda>c. vga_entry c 10 0"], simp_all del: str_Cons)
  show ?thesis
    using assms 1 2 by (simp add: print_header_def screen_def titled_def del: str_Cons)
qed

lemma titled_blank:
  "header_of (titled (replicate 2000 blank)) = title"
  "lines_of (titled (replicate 2000 blank)) = replicate 23 (replicate 80 blank)"
  "length (titled (replicate 2000 blank)) = 2000"
proof -
  let ?a = "map (\<lambda>c. vga_entry c 10 0) (str ''IPO_OS'')"
  let ?b = "map (\<lambda>c. vga_entry c 10 0) (str ''Created by IPOleksenko'')"
  have len: "length ?a = 6" "length ?b = 22" by simp_all
  have 1: "titled (replicate 2000 blank) = ?a @ replicate 52 blank @ ?b @ replicate 1920 blank"
    using len unfolding titled_def by (simp add: patch_def take_Cons' drop_Cons' del: str_Cons list.map)
  have row0: "row 0 (titled (replicate 2000 blank)) = ?a @ replicate 52 blank @ ?b"
    unfolding 1 row_def chunk_def using len by (simp del: str_Cons list.map)
  have rows: "row r (titled (replicate 2000 blank)) = replicate 80 blank" if "0 < r" "r < 25" for r
  proof -
    have "chunk (r * 80) 80 (?a @ replicate 52 blank @ ?b @ replicate 1920 blank) =
        chunk (r * 80 - 80) 80 (replicate 1920 blank)"
      using len that unfolding chunk_def by (simp del: str_Cons list.map)
    then show ?thesis using that unfolding 1 row_def by simp
  qed
  show "header_of (titled (replicate 2000 blank)) = title"
    using row0 rows [of 1] by (simp add: header_of_def title_def upt_rec del: str_Cons)
  show "lines_of (titled (replicate 2000 blank)) = replicate 23 (replicate 80 blank)"
    using rows by (intro lines_of_eqI) auto
  show "length (titled (replicate 2000 blank)) = 2000" unfolding 1 using len by (simp del: str_Cons list.map)
qed

context crtc begin

lemma terminal_initialize_run:
  assumes "tty_arrays t"
  shows "\<exists>t'. run_state (terminal_initialize io) t = ((), t') \<and> tty_ok t' \<and>
    display view t' = fresh_display (input_buf t) (kbd t)"
proof -
  define m where "m = (replicate 2000 blank :: u16 list)"
  have 1: "fill_cells blank 0 2000 (vga_memory t) = m"
    using assms by (simp add: fill_cells_patch tty_arrays_def m_def patch_all)
  define t0 where "t0 = t\<lparr>vga_memory := m\<rparr>"
  obtain d1 where 2: "run_state (vga_set_cursor io 160) t0 = ((), t0\<lparr>port := d1\<rparr>)" "crtc_cursor (view d1) = 160"
    using run_set_cursor by blast
  obtain d2 where 3: "run_state (vga_show_cursor io) (t0\<lparr>port := d1\<rparr>) = ((), t0\<lparr>port := d2\<rparr>)"
    "crtc_cursor (view d2) = 160" "crtc_shown (view d2)"
    using run_toggle_cursor(1) [of "t0\<lparr>port := d1\<rparr>"] 2 by auto
  let ?t1 = "t0\<lparr>port := d2\<rparr>"
  have 4: "run_state print_header ?t1 = ((), ?t1\<lparr>vga_memory := titled m\<rparr>)"
    using print_header_run [of ?t1] by (simp add: t0_def m_def)
  have 5: "run_state (vga_clear io 15 0 True 160) t = ((), ?t1)"
    using 2 3 1 by (simp add: vga_clear_def blank_def [symmetric] t0_def [symmetric])
  have 6: "\<forall>l \<in> set (b[0 := (b ! 0)[0 := 0]]). length l = 80" if "\<forall>l \<in> set b. length l = 80" "length b = 1024"
    for b :: "u16 list list"
    using that by (auto dest!: set_update_subset_insert [THEN subsetD])
  note arrays = assms [unfolded tty_arrays_def]
  let ?top = "(terminal_top_buffer t)[0 := (terminal_top_buffer t ! 0)[0 := 0]]"
  let ?bottom = "(terminal_bottom_buffer t)[0 := (terminal_bottom_buffer t ! 0)[0 := 0]]"
  let ?t2 = "t0\<lparr>port := d2, vga_memory := titled m, terminal_top_buffer := ?top,
    terminal_bottom_buffer := ?bottom, top_buffer_count := 0, bottom_buffer_count := 0, input_len := 0,
    prompt_shown := False\<rparr>"
  have 7: "run_state (terminal_initialize io) t = ((), ?t2)"
    using 4 5 by (simp add: terminal_initialize_def t0_def)
  have "\<forall>l \<in> set ?top. length l = 80" "\<forall>l \<in> set ?bottom. length l = 80"
    using 6 arrays by blast+
  then have 8: "tty_ok ?t2"
    using arrays titled_blank(3) [folded m_def] unfolding tty_ok_def t0_def by simp
  have 9: "display view ?t2 = fresh_display (input_buf t) (kbd t)"
    using 3 titled_blank(1,2) [folded m_def] by (simp add: display_def fresh_display_def t0_def)
  show ?thesis using 7 8 9 by blast
qed

end

section \<open>Reachable states\<close>

text \<open>
  Everything that acts on the terminal's state: characters of any colour from the kernel and its
  programs, the history keys, a change of the cursor, of the rest of the hardware, or of what is
  being typed.
\<close>

inductive tty_step :: "'d machine \<Rightarrow> 'd tty \<Rightarrow> 'd tty \<Rightarrow> bool" for io where
  character: "run_state (putchar_color io c fg bg) t = ((), t') \<Longrightarrow> tty_step io t t'"
| key_up: "run_state (scroll_up io) t = ((), t') \<Longrightarrow> tty_step io t t'"
| key_down: "run_state (scroll_down io) t = ((), t') \<Longrightarrow> tty_step io t t'"
| typing_starts: "run_state (return_to_present io) t = ((), t') \<Longrightarrow> tty_step io t t'"
| set_cursor: "run_state (vga_set_cursor io p) t = ((), t') \<Longrightarrow> tty_step io t t'"
| device: "tty_step io t (t\<lparr>port := d\<rparr>)"
| input: "tty_step io t (t\<lparr>input_buf := b, input_len := n, prompt_shown := q, kbd := k\<rparr>)"

inductive tty_reachable :: "'d machine \<Rightarrow> 'd tty \<Rightarrow> bool" for io where
  start: "tty_arrays t \<Longrightarrow> run_state (terminal_initialize io) t = ((), t') \<Longrightarrow> tty_reachable io t'"
| step: "tty_reachable io t \<Longrightarrow> tty_step io t t' \<Longrightarrow> tty_reachable io t'"

inductive_cases tty_stepE: "tty_step io t t'"

lemma header_abs [simp]:
  "header (put_cell i x d) = header d" "header (new_line d) = header d"
  "header (settle p d) = header d" "header (type_char c fg bg d) = header d"
  by (simp_all add: put_cell_def new_line_def settle_def type_char_def Let_def)

lemma header_move [simp]:
  "header (move_forward d) = header d" "header (move_back d) = header d"
  "header ((move_forward ^^ n) d) = header d"
  by (induction n) (simp_all add: move_forward_def move_back_def)

lemma header_page [simp]:
  "header (page_back d) = header d" "header (page_forward d) = header d" "header (to_present d) = header d"
  by (simp_all add: page_back_def page_forward_def to_present_def)

lemma header_display [simp]: "header (display view t) = header_of (vga_memory t)"
  by (simp add: display_def)

context crtc begin

lemma tty_step_keeps:
  assumes "tty_step io t t'" and "tty_ok t"
  shows "tty_ok t' \<and> header_of (vga_memory t') = header_of (vga_memory t)"
proof -
  have keep: "tty_ok t' \<and> header_of (vga_memory t') = header_of (vga_memory t)"
    if "evals tty_ok (display view) (display view t) m () d" "header d = header (display view t)" "run_state m t = ((), t')" for m d
    using evalsD [OF that(1) assms(2) refl] that(2,3) by (metis header_display snd_conv)
  from assms(1) show ?thesis
  proof (cases rule: tty_step.cases)
    case (character c fg bg)
    then show ?thesis by (intro keep [OF evals_putchar_color]) simp_all
  next
    case key_up
    then show ?thesis by (intro keep [OF evals_scroll_up]) simp_all
  next
    case key_down
    then show ?thesis by (intro keep [OF evals_scroll_down]) simp_all
  next
    case typing_starts
    then show ?thesis by (intro keep [OF evals_return_to_present]) simp_all
  next
    case (set_cursor p)
    then show ?thesis by (intro keep [OF evals_set_cursor]) simp_all
  qed (use assms(2) in \<open>simp_all add: tty_ok_def\<close>)
qed

lemma tty_reachable_ok:
  "tty_reachable io t \<Longrightarrow> tty_ok t \<and> header_of (vga_memory t) = title"
proof (induction rule: tty_reachable.induct)
  case (start t t')
  from terminal_initialize_run [OF start(1)] start(2) show ?case
    by (metis header_display fresh_display_def display.select_convs(1) snd_conv)
next
  case (step t t')
  then show ?case using tty_step_keeps by metis
qed

end

end
