(* ===== verification/TerminalProps.thy ===== *)
theory TerminalProps imports TerminalOutput begin

text \<open>
  Terminal properties: scrolling moves a window over a document and loses no line, printed text
  appears where the cursor stood, and no reachable state indexes an array out of its bounds.
\<close>

section \<open>The document\<close>

definition document :: "display \<Rightarrow> u16 list list" where
  "document d = above d @ screen_lines d @ below d"

definition window :: "display \<Rightarrow> display" where
  "window d = d\<lparr>above := [], screen_lines := [], below := [], cursor_on := True\<rparr>"

definition wf_lines :: "display \<Rightarrow> bool" where
  "wf_lines d \<longleftrightarrow> length (screen_lines d) = 23 \<and> (\<forall>l \<in> set (screen_lines d). length l = 80)"

text \<open>The same document behind another window; the cursor shows exactly at the present.\<close>

definition same_text :: "display \<Rightarrow> display \<Rightarrow> bool" where
  "same_text e d \<longleftrightarrow> document d = document e \<and> length (screen_lines d) = 23 \<and> window d = window e \<and>
     (cursor_on d \<longleftrightarrow> below d = [])"

lemma wf_display: "tty_ok t \<Longrightarrow> wf_lines (display view t)"
  by (auto simp: wf_lines_def display_def tty_ok_def lines_of_def)

lemma same_text_back:
  assumes "same_text e d"
  shows "same_text e (page_back d)"
proof (cases "above d = []")
  case False
  have "screen_lines d \<noteq> []" using assms by (auto simp: same_text_def)
  then obtain ls l where 3: "screen_lines d = ls @ [l]" using rev_exhaust by blast
  obtain hs h where 4: "above d = hs @ [h]" using False rev_exhaust by blast
  have 1: "document (move_back d) = document d" by (simp add: document_def move_back_def 3 4)
  have 2: "document ((move_back d)\<lparr>cursor_on := False\<rparr>) = document (move_back d)"
    "window ((move_back d)\<lparr>cursor_on := False\<rparr>) = window d"
    "length (screen_lines (move_back d)) = length (screen_lines d) - 1 + 1" "below (move_back d) \<noteq> []"
    by (simp_all add: document_def window_def move_back_def)
  show ?thesis
    using assms False 1 2 by (simp add: same_text_def page_back_def)
qed (use assms in \<open>simp add: page_back_def\<close>)

lemma document_forward:
  assumes "below d \<noteq> []" and "length (screen_lines d) = 23"
  shows "document (move_forward d) = document d" "length (screen_lines (move_forward d)) = 23"
    "window (move_forward d) = window d"
  using assms by (cases "screen_lines d"; cases "below d"; simp add: document_def move_forward_def window_def)+

lemma same_text_forward:
  assumes "same_text e d"
  shows "same_text e (page_forward d)"
proof (cases "below d = []")
  case False
  from assms False document_forward [of d] show ?thesis
    by (auto simp: same_text_def page_forward_def document_def window_def move_forward_def)
qed (use assms in \<open>simp add: page_forward_def\<close>)

lemma below_forward [simp]: "below (move_forward d) = tl (below d)"
  by (simp add: move_forward_def)

lemma document_present:
  "length (screen_lines d) = 23 \<Longrightarrow> n \<le> length (below d) \<Longrightarrow>
     document ((move_forward ^^ n) d) = document d \<and> length (screen_lines ((move_forward ^^ n) d)) = 23 \<and>
     window ((move_forward ^^ n) d) = window d \<and> below ((move_forward ^^ n) d) = drop n (below d)"
proof (induction n)
  case (Suc n)
  then have "below ((move_forward ^^ n) d) \<noteq> []" by auto
  with Suc document_forward [of "(move_forward ^^ n) d"] show ?case
    by (simp add: tl_drop drop_Suc)
qed simp

lemma same_text_present:
  assumes "same_text e d" and "below e = []" and "cursor_on e" and "length (screen_lines e) = 23"
  shows "to_present d = e"
proof -
  have unchanged: "d' = e" if "document d' = document e" "length (screen_lines d') = 23" "window d' = window e"
    "below d' = []" "cursor_on d'" for d'
  proof -
    have "above d' @ screen_lines d' = above e @ screen_lines e" using that(1,4) assms(2) by (simp add: document_def)
    then have "above d' = above e" "screen_lines d' = screen_lines e" using that(2) assms(4) by simp_all
    with that(3-5) assms(2,3) show ?thesis by (cases d'; cases e) (simp add: window_def)
  qed
  show ?thesis
  proof (cases "below d = []")
    case True
    with assms(1) unchanged [of d] show ?thesis by (simp add: to_present_def same_text_def)
  next
    case False
    let ?d = "((move_forward ^^ length (below d)) d)\<lparr>cursor_on := True\<rparr>"
    have "document ?d = document ((move_forward ^^ length (below d)) d)" "window ?d = window ((move_forward ^^ length (below d)) d)"
      by (simp_all add: document_def window_def)
    then have "?d = e"
      using document_present [of d "length (below d)"] assms(1) by (intro unchanged) (simp_all add: same_text_def)
    with False show ?thesis by (simp add: to_present_def)
  qed
qed

section \<open>Browsing the history\<close>

datatype history_key = Up | Down

primrec browse :: "'d machine \<Rightarrow> history_key list \<Rightarrow> ('d tty, unit) state" where
  "browse io [] = State_Monad.return ()"
| "browse io (k # ks) = do {
     _ \<leftarrow> (case k of Up \<Rightarrow> scroll_up io | Down \<Rightarrow> scroll_down io);
     browse io ks
   }"

context crtc begin

lemma evals_browse:
  assumes "same_text e d"
  shows "\<exists>d'. evals tty_ok (display view) d (browse io ks) () d' \<and> same_text e d'"
  using assms
proof (induction ks arbitrary: d)
  case Nil
  then show ?case by (auto intro: evals_return)
next
  case (Cons k ks)
  have "\<exists>d1. evals tty_ok (display view) d (case k of Up \<Rightarrow> scroll_up io | Down \<Rightarrow> scroll_down io) () d1 \<and> same_text e d1"
    using evals_scroll_up [of d] evals_scroll_down [of d] same_text_back [OF Cons.prems] same_text_forward [OF Cons.prems]
    by (cases k) auto
  then obtain d1 where "evals tty_ok (display view) d (case k of Up \<Rightarrow> scroll_up io | Down \<Rightarrow> scroll_down io) () d1"
    "same_text e d1" by blast
  with Cons.IH [of d1] show ?case by (auto intro: evals_bind)
qed

lemma evals_browse_present:
  assumes "below d = []" and "cursor_on d" and "wf_lines d"
  shows "evals tty_ok (display view) d (browse io ks \<bind> (\<lambda>_. return_to_present io)) () d"
proof -
  have "same_text d d" using assms by (simp add: same_text_def wf_lines_def)
  from evals_browse [OF this] obtain d' where 1: "evals tty_ok (display view) d (browse io ks) () d'" "same_text d d'"
    by blast
  with same_text_present [OF 1(2) assms(1,2)] assms(3) have "to_present d' = d" by (simp add: wf_lines_def)
  with evals_bind [OF 1(1) evals_return_to_present] show ?thesis by simp
qed

end

section \<open>Text\<close>

primrec print_chars :: "'d machine \<Rightarrow> u8 \<Rightarrow> u8 \<Rightarrow> bytes \<Rightarrow> ('d tty, unit) state" where
  "print_chars io fg bg [] = State_Monad.return ()"
| "print_chars io fg bg (c # cs) = do { _ \<leftarrow> putchar_color io c fg bg; print_chars io fg bg cs }"

lemma concat_update:
  "\<forall>l \<in> set ls. length l = 80 \<Longrightarrow> i < length ls \<Longrightarrow> j < 80 \<Longrightarrow>
     concat (ls[i := (ls ! i)[j := x]]) = (concat ls)[i * 80 + j := x]"
proof (induction ls arbitrary: i)
  case (Cons l ls)
  then show ?case
    by (cases i) (auto simp: list_update_append add.assoc)
qed simp

lemma wf_lines_put:
  assumes "wf_lines d" and "160 \<le> i" and "i < 2000"
  shows "wf_lines (put_cell i x d)" and "concat (screen_lines (put_cell i x d)) = (concat (screen_lines d))[i - 160 := x]"
proof -
  have 1: "i div 80 - 2 < 23" using assms(3) by (auto simp: div_less_iff_less_mult)
  have 2: "(i div 80 - 2) * 80 + i mod 80 = i - 160"
  proof -
    have "2 \<le> i div 80" using assms(2) by (simp add: less_eq_div_iff_mult_less_eq)
    then have "(i div 80 - 2) * 80 + 160 = i div 80 * 80" by (simp add: diff_mult_distrib)
    then show ?thesis using div_mult_mod_eq [of i 80] by linarith
  qed
  show "wf_lines (put_cell i x d)"
    using assms(1) 1 by (auto simp: wf_lines_def put_cell_def dest!: set_update_subset_insert [THEN subsetD])
  show "concat (screen_lines (put_cell i x d)) = (concat (screen_lines d))[i - 160 := x]"
    using assms(1) 1 concat_update [of "screen_lines d" "i div 80 - 2" "i mod 80" x] 2
    by (simp add: wf_lines_def put_cell_def)
qed

lemma type_char_plain:
  assumes "plain c" and "on_screen p" and "unat p < 1999" and "cursor d = p"
  shows "type_char c fg bg d = (put_cell (unat p) (vga_entry c fg bg) d)\<lparr>cursor := p + 1\<rparr>"
proof -
  have "unat (p + 1) = unat p + 1" using assms(3) by (simp add: unat_word_ariths)
  then have "\<not> 2000 \<le> p + 1" using assms(3) by (simp add: word_le_nat_alt)
  then show ?thesis
    using assms by (simp add: type_char_def start_position_def Let_def settle_def next_position_def plain_def)
qed

definition typed_text :: "u8 \<Rightarrow> u8 \<Rightarrow> bytes \<Rightarrow> display \<Rightarrow> display \<Rightarrow> bool" where
  "typed_text fg bg cs d d' \<longleftrightarrow>
     concat (screen_lines d') = patch (unat (cursor d) - 160) (map (\<lambda>c. vga_entry c fg bg) cs) (concat (screen_lines d)) \<and>
     cursor d' = cursor d + of_nat (length cs) \<and> wf_lines d' \<and>
     header d' = header d \<and> above d' = above d \<and> below d' = below d"

lemma length_concat_lines: "wf_lines d \<Longrightarrow> length (concat (screen_lines d)) = 1840"
proof -
  have "\<forall>l \<in> set ls. length l = 80 \<Longrightarrow> length (concat ls) = length ls * 80" for ls :: "u16 list list"
    by (induction ls) auto
  then show "wf_lines d \<Longrightarrow> length (concat (screen_lines d)) = 1840" by (simp add: wf_lines_def)
qed

lemma patch_Cons_update:
  "off + 1 + length cs \<le> length xs \<Longrightarrow> patch (Suc off) cs (xs[off := c]) = patch off (c # cs) xs"
  by (intro nth_equalityI) (auto simp: nth_patch nth_Cons' nth_list_update)

context crtc begin

lemma evals_print_chars:
  assumes "wf_lines d" and "on_screen (cursor d)" and "unat (cursor d) + length cs < 2000" and "\<forall>c \<in> set cs. plain c"
  shows "\<exists>d'. evals tty_ok (display view) d (print_chars io fg bg cs) () d' \<and> typed_text fg bg cs d d'"
  using assms
proof (induction cs arbitrary: d)
  case Nil
  then show ?case by (auto intro!: exI [of _ d] evals_return simp: typed_text_def)
next
  case (Cons c cs)
  let ?p = "cursor d"
  let ?d = "(put_cell (unat ?p) (vga_entry c fg bg) d)\<lparr>cursor := ?p + 1\<rparr>"
  have p: "160 \<le> unat ?p" "unat ?p < 1999" using Cons.prems(2,3) by (auto simp: on_screen_unat)
  have 1: "type_char c fg bg d = ?d" using type_char_plain [of c ?p d] Cons.prems p by simp
  have 2: "unat (?p + 1) = unat ?p + 1" using p by (simp add: unat_word_ariths)
  have 3: "wf_lines ?d" "concat (screen_lines ?d) = (concat (screen_lines d))[unat ?p - 160 := vga_entry c fg bg]"
    using wf_lines_put [OF Cons.prems(1) p(1)] p(2) by (simp_all add: wf_lines_def)
  from Cons.IH [OF 3(1)] obtain d' where 4: "evals tty_ok (display view) ?d (print_chars io fg bg cs) () d'" "typed_text fg bg cs ?d d'"
    using Cons.prems 2 by (auto simp: on_screen_unat)
  have 5: "unat ?p - 159 = Suc (unat ?p - 160)" using p by simp
  have "typed_text fg bg (c # cs) d d'"
    using 4(2) patch_Cons_update [of "unat ?p - 160" "map (\<lambda>c. vga_entry c fg bg) cs" "concat (screen_lines d)" "vga_entry c fg bg"]
      Cons.prems(3) p length_concat_lines [OF Cons.prems(1)] 3(2)
    by (auto simp: typed_text_def 2 5 put_cell_def)
  moreover have "evals tty_ok (display view) d (print_chars io fg bg (c # cs)) () d'"
    using evals_bind [OF evals_putchar_color 4(1) [folded 1]] by simp
  ultimately show ?case by blast
qed

end

lemma tab_past_end:
  assumes "unat p \<in> {1992..1999}"
  shows "(2000 :: u16) \<le> p + (8 - p mod 80 mod 8)"
proof -
  from assms have "unat p \<in> {1992, 1993, 1994, 1995, 1996, 1997, 1998, 1999}" by auto
  moreover have "p = of_nat (unat p)" by simp
  ultimately obtain n where "p = of_nat n" "n \<in> {1992, 1993, 1994, 1995, 1996, 1997, 1998, 1999}" by blast
  then show ?thesis by auto
qed

section \<open>Properties\<close>

text \<open>A terminal with three lines of history, for the witnesses.\<close>

definition demo_tty :: "crtc tty" where
  "demo_tty = \<lparr>vga_memory = replicate 2000 blank, terminal_top_buffer = replicate 1024 (replicate 80 0x0741),
     terminal_bottom_buffer = replicate 1024 (replicate 80 0), top_buffer_count = 3, bottom_buffer_count = 0,
     input_buf = replicate 256 0, input_len = 0, prompt_shown = True, kbd = initial_keyboard, fault = False,
     port = \<lparr>crtc_index = 0, crtc_reg = (\<lambda>_. 0)(0x0F := 0xA5)\<rparr>\<rparr>"

lemma demo_tty_ok: "tty_ok demo_tty"
  by (simp add: tty_ok_def demo_tty_def)

lemma demo_tty_display:
  "below (display (\<lambda>d. d) demo_tty) = []" "above (display (\<lambda>d. d) demo_tty) = replicate 3 (replicate 80 0x0741)"
  "cursor_on (display (\<lambda>d. d) demo_tty)" "cursor (display (\<lambda>d. d) demo_tty) = 165"
  by (simp_all add: display_def demo_tty_def crtc_shown_def crtc_cursor_def)

text \<open>
  C12. The terminal refines a window on a document: scrolling back and forward, returning to the present
  and printing a character never index an array out of its bounds, and act on the lines above, on
  and below the screen and on the cursor as the abstract display says.
\<close>

theorem terminal_refines_display:
  assumes "crtc io view" and "tty_ok t"
  shows "(\<exists>t'. run_state (scroll_up io) t = ((), t') \<and> tty_ok t' \<and> display view t' = page_back (display view t)) \<and>
    (\<exists>t'. run_state (scroll_down io) t = ((), t') \<and> tty_ok t' \<and> display view t' = page_forward (display view t)) \<and>
    (\<exists>t'. run_state (return_to_present io) t = ((), t') \<and> tty_ok t' \<and> display view t' = to_present (display view t)) \<and>
    (\<exists>t'. run_state terminal_auto_scroll t = ((), t') \<and> tty_ok t' \<and> display view t' = new_line (display view t)) \<and>
    (\<exists>t'. run_state (putchar_color io c fg bg) t = ((), t') \<and> tty_ok t' \<and> display view t' = type_char c fg bg (display view t))"
  using crtc.evals_scroll_up [OF assms(1)] crtc.evals_scroll_down [OF assms(1)] crtc.evals_return_to_present [OF assms(1)]
    crtc.evals_putchar_color [OF assms(1)] evals_auto_scroll assms(2)
  by (intro conjI) (blast intro: evalsD)+

theorem terminal_refines_display_witness:
  "\<exists>t'. run_state (scroll_up crtc_io) demo_tty = ((), t') \<and> hd (screen_lines (display (\<lambda>d. d) t')) = replicate 80 0x0741"
proof -
  obtain t' where "run_state (scroll_up crtc_io) demo_tty = ((), t')"
    "display (\<lambda>d. d) t' = page_back (display (\<lambda>d. d) demo_tty)"
    using terminal_refines_display [OF text_display.crtc_axioms demo_tty_ok] by blast
  then show ?thesis using demo_tty_display by (auto simp: page_back_def move_back_def numeral_3_eq_3)
qed

text \<open>
  C13. Looking at the history loses nothing: whatever keys are pressed to scroll back and forward, the
  return to the present restores the screen, the history and the cursor exactly as they were.
\<close>

theorem history_lossless:
  assumes "crtc io view" and "tty_ok t" and "below (display view t) = []" and "cursor_on (display view t)"
  shows "\<exists>t'. run_state (browse io keys \<bind> (\<lambda>_. return_to_present io)) t = ((), t') \<and> tty_ok t' \<and>
    display view t' = display view t"
  using evalsD [OF crtc.evals_browse_present [OF assms(1,3,4) wf_display [OF assms(2)]] assms(2) refl] .

theorem history_lossless_witness:
  "\<exists>t'. run_state (browse crtc_io [Up, Up, Down, Up] \<bind> (\<lambda>_. return_to_present crtc_io)) demo_tty = ((), t') \<and>
    display (\<lambda>d. d) t' = display (\<lambda>d. d) demo_tty"
  using history_lossless [OF text_display.crtc_axioms demo_tty_ok demo_tty_display(1,3)] by blast

text \<open>
  C15. Printed text stands where the cursor was: characters other than newline, return and tab that fit
  before the end of the screen fill consecutive cells, move the cursor behind them and change no
  other cell, nor the header or the history.
\<close>

theorem print_text_correct:
  assumes "crtc io view" and "tty_ok t" and "on_screen (cursor (display view t))"
    and "unat (cursor (display view t)) + length cs < 2000" and "\<forall>c \<in> set cs. plain c"
  shows "\<exists>t'. run_state (print_chars io fg bg cs) t = ((), t') \<and> tty_ok t' \<and>
    typed_text fg bg cs (display view t) (display view t')"
proof -
  obtain d' where "evals tty_ok (display view) (display view t) (print_chars io fg bg cs) () d'"
    "typed_text fg bg cs (display view t) d'"
    using crtc.evals_print_chars [OF assms(1) wf_display [OF assms(2)] assms(3-5)] by blast
  with evalsD [OF this(1) assms(2) refl] show ?thesis by auto
qed

theorem print_text_correct_witness:
  "\<exists>t'. run_state (print_chars crtc_io 7 0 (str ''Hi'')) demo_tty = ((), t') \<and> cursor (display (\<lambda>d. d) t') = 167"
proof -
  have "unat (cursor (display (\<lambda>d. d) demo_tty)) + length (str ''Hi'') < 2000" "on_screen (cursor (display (\<lambda>d. d) demo_tty))"
    "\<forall>c \<in> set (str ''Hi''). plain c"
    by (simp_all add: demo_tty_display on_screen_def plain_def)
  from print_text_correct [OF text_display.crtc_axioms demo_tty_ok this(2,1,3), of 7 0] show ?thesis
    by (auto simp: typed_text_def demo_tty_display)
qed

text \<open>
  C14. Terminal safety: in every state the terminal can reach from its initialisation, by any order of
  characters, history keys, cursor moves and hardware events, no array has been indexed out of
  its bounds, at most 1024 lines are kept, and the two header lines still show the title.
\<close>

theorem terminal_reachable_safe:
  assumes "crtc io view" and "tty_reachable io t"
  shows "\<not> fault t \<and> top_buffer_count t + bottom_buffer_count t \<le> 1024 \<and> header_of (vga_memory t) = title"
  using crtc.tty_reachable_ok [OF assms] by (simp add: tty_ok_def)

theorem terminal_reachable_safe_witness:
  "\<exists>t. tty_reachable crtc_io t \<and> header_of (vga_memory t) = title"
proof -
  have "tty_arrays demo_tty" by (simp add: tty_arrays_def demo_tty_def)
  from text_display.terminal_initialize_run [OF this] obtain t1 where "tty_reachable crtc_io t1"
    using tty_reachable.start [OF \<open>tty_arrays demo_tty\<close>] by blast
  moreover obtain t2 where "run_state (putchar_color crtc_io 0x41 7 0) t1 = ((), t2)" by (metis old.unit.exhaust surj_pair)
  ultimately have "tty_reachable crtc_io t2" using tty_reachable.step tty_step.character by metis
  from this terminal_reachable_safe [OF text_display.crtc_axioms this] show ?thesis by blast
qed

text \<open>
  C16. A tab in the last columns of the screen goes back: with the cursor in the last eight columns of
  the last line, a tab moves it to the start of that line instead of a new one, and the next
  character overwrites the line's first cell.
\<close>

theorem tab_overwrites_line:
  assumes "crtc io view" and "tty_ok t" and "1992 \<le> cursor (display view t)" and "cursor (display view t) < 2000"
    and "plain c"
  shows "\<exists>t'. run_state (putchar io 0x09 \<bind> (\<lambda>_. putchar io c)) t = ((), t') \<and>
    concat (screen_lines (display view t')) = (concat (screen_lines (display view t)))[1760 := vga_entry c 7 0] \<and>
    cursor (display view t') = 1921 \<and> above (display view t') = above (display view t)"
proof -
  let ?d = "display view t"
  have p: "1992 \<le> unat (cursor ?d)" "unat (cursor ?d) < 2000"
    using assms(3,4) by (simp_all add: word_le_nat_alt word_less_nat_alt)
  have os: "on_screen (cursor ?d)" using p by (simp add: on_screen_unat)
  have "2000 \<le> cursor ?d + (8 - cursor ?d mod 80 mod 8)" using p by (intro tab_past_end) auto
  then have 1: "type_char 0x09 7 0 ?d = ?d\<lparr>cursor := 1920\<rparr>"
    using os by (simp add: type_char_def start_position_def Let_def settle_def next_position_def plain_def)
  have os2: "on_screen 1920" by (simp add: on_screen_def)
  have 2: "type_char c 7 0 (?d\<lparr>cursor := 1920\<rparr>) = (put_cell 1920 (vga_entry c 7 0) ?d)\<lparr>cursor := 1921\<rparr>"
    using type_char_plain [OF assms(5) os2, of "?d\<lparr>cursor := 1920\<rparr>" 7 0] by (simp add: put_cell_def)
  note put = crtc.evals_putchar_color [OF assms(1)]
  have "evals tty_ok (display view) ?d (putchar io 0x09 \<bind> (\<lambda>_. putchar io c)) ()
      ((put_cell 1920 (vga_entry c 7 0) ?d)\<lparr>cursor := 1921\<rparr>)"
    unfolding putchar_def by (rule evals_bind [OF put]) (use put [of "?d\<lparr>cursor := 1920\<rparr>" c 7 0] in \<open>simp add: 1 2\<close>)
  from evalsD [OF this assms(2) refl] wf_lines_put(2) [OF wf_display [OF assms(2)], where i = 1920 and x = "vga_entry c 7 0"]
  show ?thesis by (auto simp: put_cell_def)
qed

theorem tab_overwrites_line_witness:
  "\<exists>t'. run_state (putchar crtc_io 0x09 \<bind> (\<lambda>_. putchar crtc_io 0x41))
      (demo_tty\<lparr>port := \<lparr>crtc_index = 0, crtc_reg = (\<lambda>_. 0)(0x0E := 0x07, 0x0F := 0xCA)\<rparr>\<rparr>) = ((), t') \<and>
    cursor (display (\<lambda>d. d) t') = 1921"
proof -
  let ?t = "demo_tty\<lparr>port := \<lparr>crtc_index = 0, crtc_reg = (\<lambda>_. 0)(0x0E := 0x07, 0x0F := 0xCA)\<rparr>\<rparr>"
  have "tty_ok ?t" "cursor (display (\<lambda>d. d) ?t) = 1994"
    using demo_tty_ok by (simp_all add: tty_ok_def display_def crtc_cursor_def)
  with tab_overwrites_line [OF text_display.crtc_axioms, of ?t "0x41"] show ?thesis by (auto simp: plain_def)
qed

end
