(* ===== verification/StdioProps.thy ===== *)
theory StdioProps imports StdioProof TerminalProps begin

text \<open>
  Properties of formatted output: numbers, text on the screen, text on the serial line, and text in
  a bounded buffer.
\<close>

section \<open>The transmitter of the serial port\<close>

text \<open>
  The documented line status and transmit registers: the transmitter reports that it is free after
  finitely many polls, and takes a byte when it is free.
\<close>

record uart =
  uart_busy :: nat
  uart_sent :: bytes

locale uart =
  fixes io :: "'d machine" and view :: "'d \<Rightarrow> uart"
  assumes poll_busy: "inb io 0x3FD d = (st, d') \<Longrightarrow> 0 < uart_busy (view d) \<Longrightarrow>
      st AND 0x20 = 0 \<and> (\<exists>b < uart_busy (view d). view d' = (view d)\<lparr>uart_busy := b\<rparr>)"
    and poll_free: "inb io 0x3FD d = (st, d') \<Longrightarrow> uart_busy (view d) = 0 \<Longrightarrow> st AND 0x20 \<noteq> 0 \<and> view d' = view d"
    and transmit: "uart_busy (view d) = 0 \<Longrightarrow>
      \<exists>b. view (outb io 0x3F8 x d) = (view d)\<lparr>uart_sent := uart_sent (view d) @ [x], uart_busy := b\<rparr>"
begin

lemma uart_wait_returns:
  "\<exists>d'. uart_wait io d = Some d' \<and> view d' = (view d)\<lparr>uart_busy := 0\<rparr>"
proof (induction "uart_busy (view d)" arbitrary: d rule: less_induct)
  case less
  obtain st d1 where 1: "inb io 0x3FD d = (st, d1)" by force
  show ?case
  proof (cases "uart_busy (view d) = 0")
    case True
    with poll_free [OF 1] 1 show ?thesis by (subst uart_wait.simps) auto
  next
    case False
    with poll_busy [OF 1] obtain b where 2: "st AND 0x20 = 0" "b < uart_busy (view d)" "view d1 = (view d)\<lparr>uart_busy := b\<rparr>"
      by auto
    with less [of d1] 1 show ?thesis by (subst uart_wait.simps) auto
  qed
qed

lemma serial_putc_sends:
  "\<exists>d'. run_state (serial_putc io c) (Some d) = ((), Some d') \<and> uart_sent (view d') = uart_sent (view d) @ [c]"
proof -
  obtain d1 where 1: "uart_wait io d = Some d1" "view d1 = (view d)\<lparr>uart_busy := 0\<rparr>" using uart_wait_returns by blast
  with transmit [of d1 c] show ?thesis by (auto simp: serial_putc_def)
qed

lemma put_all_sends:
  "\<exists>d'. run_state (put_all (serial_putc io) cs) (Some d) = ((), Some d') \<and> uart_sent (view d') = uart_sent (view d) @ cs"
proof (induction cs arbitrary: d)
  case (Cons c cs)
  obtain d1 where 1: "run_state (serial_putc io c) (Some d) = ((), Some d1)" "uart_sent (view d1) = uart_sent (view d) @ [c]"
    using serial_putc_sends by blast
  with Cons.IH [of d1] show ?case by auto
qed auto

end

definition uart_io :: "uart machine" where
  "uart_io = \<lparr>inb = (\<lambda>p d. if p = 0x3FD then
       (if uart_busy d = 0 then (0x60, d) else (0x40, d\<lparr>uart_busy := uart_busy d - 1\<rparr>)) else (0, d)),
     outb = (\<lambda>p x d. if p = 0x3F8 \<and> uart_busy d = 0 then d\<lparr>uart_sent := uart_sent d @ [x], uart_busy := 3\<rparr> else d),
     inw = (\<lambda>_ d. (0, d)), outw = (\<lambda>_ _ d. d), uninit = (\<lambda>_. replicate 512 0)\<rparr>"

interpretation serial_line: uart uart_io "\<lambda>d. d"
proof unfold_locales
  fix d d' :: uart and st
  assume "inb uart_io 0x3FD d = (st, d')" and "0 < uart_busy d"
  then show "st AND 0x20 = 0 \<and> (\<exists>b < uart_busy d. d' = d\<lparr>uart_busy := b\<rparr>)"
    by (auto simp: uart_io_def intro!: exI [of _ "uart_busy d - 1"])
qed (auto simp: uart_io_def split: if_splits)

section \<open>Text on the screen\<close>

lemma put_all_print_chars: "put_all (putchar io) cs = print_chars io 7 0 cs"
  by (induction cs) (simp_all add: putchar_def)

lemma evals_print_text:
  "crtc io view \<Longrightarrow> evals tty_ok (display view) d (print_chars io 7 0 cs) () (fold (\<lambda>c. type_char c 7 0) cs d)"
  by (induction cs arbitrary: d) (auto intro: evals_return evals_bind [OF crtc.evals_putchar_color])

lemma bounded_text_text:
  assumes "list_all (\<lambda>p. \<forall>v. p = Decimal v \<longrightarrow> 0 \<le> sint v) ps"
  shows "concat (map bounded_text ps) = text_of ps"
proof -
  have "bounded_text p = piece_text p" if "\<forall>v. p = Decimal v \<longrightarrow> 0 \<le> sint v" for p
    using that sint_negative(2) by (cases p) (auto simp: signed_text_def)
  with assms show ?thesis unfolding text_of_def by (induction ps) auto
qed

section \<open>Properties\<close>

text \<open>
  C21. Number conversion: for a base from 2 to 36 and a number of at most 31 digits, \<open>itoa\<close> writes
  the number's numeral without leading zeros, most significant digit first, returns its length
  and keeps the rest of the buffer; read back, the numeral has the number's value.
\<close>

theorem itoa_correct:
  assumes "2 \<le> unat base" and "unat base \<le> 36" and "unat num < unat base ^ 31" and "32 \<le> length buf"
  defines "t \<equiv> numeral_text (unat base) (unat num)"
  shows "itoa num buf base = (length t, patch 0 (t @ (if num = 0 then [] else [0])) buf) \<and>
    text_value (unat base) t = unat num \<and> length t \<le> 31"
  unfolding t_def
  using itoa_numeral [OF assms(1-4)] text_value_numeral [OF assms(1,2)] length_numeral [OF assms(1,3)] by simp

theorem itoa_correct_witness:
  "\<exists>b. itoa 1048703 (replicate 32 1) 16 = (6, b) \<and> take 7 b = str ''10007f'' @ [0]"
proof -
  have "numeral_text 16 1048703 = str ''10007f''"
    by (simp add: numeral_text.simps numeral_digit_def)
  with itoa_correct [of 16 1048703 "replicate 32 1"] show ?thesis by (simp add: patch_def)
qed

text \<open>
  C20. \<open>printf\<close> shows its text: for a format made of literal characters and the directives \<open>%%\<close>, \<open>%d\<close>,
  \<open>%u\<close>, \<open>%llu\<close>, \<open>%x\<close>, \<open>%c\<close> and \<open>%s\<close> with the matching arguments, the result is the number of characters of
  the literal characters and the arguments' text in order, and the display is the one on which these
  characters were typed one after the other, line feeds, returns, tabs and the scrolling at the end of the
  screen included. Where the text has none of the first three and ends before the last cell of the screen,
  the cells from the cursor on hold it and nothing else changed. In the text of the smallest signed
  number, the digits behind the minus sign are unspecified.
\<close>

theorem printf_shows_text:
  assumes "crtc io view" and "tty_ok t" and "list_all plain_piece ps"
  shows "\<exists>t'. run_state (printf io (format_of ps) (args_of ps)) t = (Some (length (text_of ps)), t') \<and> tty_ok t' \<and>
    display view t' = fold (\<lambda>c. type_char c 7 0) (text_of ps) (display view t) \<and>
    (on_screen (cursor (display view t)) \<and> unat (cursor (display view t)) + length (text_of ps) < 2000 \<and>
       (\<forall>c \<in> set (text_of ps). plain c) \<longrightarrow> typed_text 7 0 (text_of ps) (display view t) (display view t'))"
proof -
  from evalsD [OF evals_print_text [OF assms(1)] assms(2) refl] obtain t' where
    t': "run_state (print_chars io 7 0 (text_of ps)) t = ((), t')" "tty_ok t'"
      "display view t' = fold (\<lambda>c. type_char c 7 0) (text_of ps) (display view t)" by blast
  have "typed_text 7 0 (text_of ps) (display view t) (display view t')"
    if a: "on_screen (cursor (display view t))" "unat (cursor (display view t)) + length (text_of ps) < 2000"
      "\<forall>c \<in> set (text_of ps). plain c"
  proof -
    obtain d' where d': "evals tty_ok (display view) (display view t) (print_chars io 7 0 (text_of ps)) () d'"
      "typed_text 7 0 (text_of ps) (display view t) d'"
      using crtc.evals_print_chars [OF assms(1) wf_display [OF assms(2)] a] by blast
    with evalsD [OF d'(1) assms(2) refl] t'(1) show ?thesis by auto
  qed
  with t' show ?thesis by (auto simp: printf_def format_pieces [OF assms(3)] put_all_print_chars)
qed

theorem printf_shows_text_witness:
  "\<exists>t'. run_state (printf crtc_io (str ''n=%d!'') [ArgInt 0xFFFFFFFE]) demo_tty = (Some 5, t') \<and>
    typed_text 7 0 (str ''n=-2!'') (display (\<lambda>d. d) demo_tty) (display (\<lambda>d. d) t')"
proof -
  let ?ps = "[Lit 0x6E, Lit 0x3D, Decimal 0xFFFFFFFE, Lit 0x21]"
  have 1: "format_of ?ps = str ''n=%d!''" "args_of ?ps = [ArgInt 0xFFFFFFFE]" "text_of ?ps = str ''n=-2!''"
    by (simp_all add: format_of_def args_of_def text_of_def signed_text_def numeral_text.simps numeral_digit_def)
  have 2: "on_screen (cursor (display (\<lambda>d. d) demo_tty))" "unat (cursor (display (\<lambda>d. d) demo_tty)) + length (str ''n=-2!'') < 2000"
    "\<forall>c \<in> set (str ''n=-2!''). plain c" "length (str ''n=-2!'') = 5"
    by (simp_all add: demo_tty_display on_screen_def plain_def)
  have "list_all plain_piece ?ps" by (simp add: plain_piece_def)
  from printf_shows_text [OF text_display.crtc_axioms demo_tty_ok this] show ?thesis using 2 unfolding 1 by metis
qed

text \<open>
  C22. Serial output gets through: on a line whose transmitter becomes free after finitely many polls,
  \<open>serial_printf\<close> returns, and has sent exactly the text of its format and arguments. In the
  text of the smallest signed number, the digits behind the minus sign are unspecified.
\<close>

theorem serial_printf_transmits:
  assumes "uart io view" and "list_all plain_piece ps"
  shows "\<exists>d'. run_state (serial_printf io (format_of ps) (args_of ps)) (Some d) = (Some (length (text_of ps)), Some d') \<and>
    uart_sent (view d') = uart_sent (view d) @ text_of ps"
  using uart.put_all_sends [OF assms(1), of "text_of ps" d] by (auto simp: serial_printf_def format_pieces [OF assms(2)])

theorem serial_printf_transmits_witness:
  "\<exists>d'. run_state (serial_printf uart_io (str ''%s'') [ArgPtr (Some (str ''ok''))]) (Some \<lparr>uart_busy = 2, uart_sent = []\<rparr>) =
     (Some 2, Some d') \<and> uart_sent d' = str ''ok''"
proof -
  have "format_of [Text (str ''ok'')] = str ''%s''" "args_of [Text (str ''ok'')] = [ArgPtr (Some (str ''ok''))]"
    "text_of [Text (str ''ok'')] = str ''ok''"
    by (simp_all add: format_of_def args_of_def text_of_def)
  with serial_printf_transmits [OF serial_line.uart_axioms, of "[Text (str ''ok'')]" "\<lparr>uart_busy = 2, uart_sent = []\<rparr>"]
  show ?thesis by (simp add: plain_piece_def numeral_2_eq_2)
qed

text \<open>
  C23. \<open>snprintf\<close> stays in its buffer, which may have up to \<open>2 ^ 31\<close> bytes, the sizes that the casts to
  \<open>int\<close> in the code keep: it writes the longest prefix of the text that fits in \<open>sz - 1\<close>
  characters, the NUL behind it and nothing else, and returns the prefix's length; the text is
  that of \<open>printf\<close> as long as no \<open>%d\<close> argument is negative.
\<close>

theorem snprintf_bounded:
  assumes "list_all bounded_piece ps" and "0 < sz" and "sz \<le> length buf" and "sz \<le> 2 ^ 31"
    and "list_all (\<lambda>p. \<forall>v. p = Decimal v \<longrightarrow> 0 \<le> sint v) ps"
  defines "t \<equiv> take (sz - 1) (text_of ps)"
  shows "snprintf (Some buf) sz (format_of ps) (args_of ps) = Some (length t, Some (patch 0 (t @ [0]) buf))"
  unfolding t_def using snprintf_pieces [OF assms(1-4)] bounded_text_text [OF assms(5)] by simp

theorem snprintf_bounded_witness:
  "snprintf (Some (replicate 7 1)) 6 (str ''/app/%s'') [ArgPtr (Some (str ''hello''))] =
    Some (5, Some (str ''/app/'' @ [0, 1]))"
proof -
  let ?ps = "map Lit (str ''/app/'') @ [Text (str ''hello'')]"
  have 1: "format_of ?ps = str ''/app/%s''" "args_of ?ps = [ArgPtr (Some (str ''hello''))]" "text_of ?ps = str ''/app/hello''"
    by (simp_all add: format_of_def args_of_def text_of_def)
  show ?thesis
    using snprintf_bounded [of ?ps 6 "replicate 7 1"] unfolding 1 by (simp add: plain_piece_def patch_def)
qed

text \<open>
  \<open>snprintf\<close> loses the sign: a negative argument of \<open>%d\<close> is written as the unsigned number with the
  same bits, where \<open>printf\<close> writes a minus sign and the magnitude (of any but the smallest number).
\<close>

theorem snprintf_loses_sign:
  assumes "sint v < 0" and "sint v \<noteq> - (2 ^ 31)" and "11 \<le> sz" and "sz \<le> length buf" and "sz \<le> 2 ^ 31"
  defines "t \<equiv> numeral_text 10 (nat (sint v + 2 ^ 32))"
  shows "snprintf (Some buf) sz (str ''%d'') [ArgInt v] = Some (length t, Some (patch 0 (t @ [0]) buf)) \<and>
    piece_text (Decimal v) = 0x2D # numeral_text 10 (nat (- sint v))"
proof -
  have "uint v = (sint v + 2 ^ 32) mod 2 ^ 32" using uint_sint [of v] by (simp add: take_bit_eq_mod)
  also have "\<dots> = sint v + 2 ^ 32" using assms(1) sint_ge [of v] by (intro mod_pos_pos_trivial) simp_all
  finally have v: "unat v = nat (sint v + 2 ^ 32)" by (simp only: unat_eq_nat_uint)
  have "length t \<le> 10" unfolding t_def v [symmetric] using length_numeral [of 10 "unat v" 10] unsigned_less [of v, where 'a = nat] by simp
  then have "take (sz - 1) t = t" using assms(3) by simp
  then show ?thesis
    using snprintf_pieces [of "[Decimal v]" sz buf] assms(1-5) v
    by (simp add: format_of_def args_of_def plain_piece_def t_def signed_text_def)
qed

theorem snprintf_loses_sign_witness:
  "snprintf (Some (replicate 12 0)) 12 (str ''%d'') [ArgInt (- 1)] = Some (10, Some (str ''4294967295'' @ [0, 0]))"
proof -
  have "numeral_text 10 4294967295 = str ''4294967295''" by (simp add: numeral_text.simps numeral_digit_def)
  with snprintf_loses_sign [of "- 1" 12 "replicate 12 0"] show ?thesis by (simp add: patch_def)
qed

end
