(* ===== verification/KeymapProps.thy ===== *)
theory KeymapProps imports Keymap begin

text \<open>
  Keyboard properties: the modifier flags follow the press and release codes, and the key maps are
  complete.
\<close>

section \<open>Modifier keys\<close>

text \<open>A modifier is held after a sequence of scan codes when its last event was a press.\<close>

definition held :: "u8 \<Rightarrow> u8 list \<Rightarrow> bool" where
  "held key scs = (let events = filter (\<lambda>sc. sc = key \<or> sc = key + 0x80) scs in events \<noteq> [] \<and> last events = key)"

definition modifier :: "u8 \<Rightarrow> bool" where
  "modifier key \<longleftrightarrow> key \<in> {SC_PRESS_LEFT_SHIFT, SC_PRESS_RIGHT_SHIFT, SC_PRESS_CTRL, SC_PRESS_ALT}"

definition keyboard_ok :: "keyboard \<Rightarrow> bool" where
  "keyboard_ok k \<longleftrightarrow> length (key_state k) = 128 \<and> current_index k < keyboards_count"

text \<open>What \<open>terminal_console\<close> does with a scan code it polls, before it looks at its character.\<close>

definition handle_scancode :: "u8 \<Rightarrow> keyboard \<Rightarrow> keyboard" where
  "handle_scancode sc k = hot_key_handler sc (update_hot_key_state sc k)"

lemma held_Nil [simp]: "\<not> held key []"
  by (simp add: held_def)

lemma held_snoc [simp]:
  "held key (scs @ [sc]) \<longleftrightarrow> sc = key \<or> held key scs \<and> sc \<noteq> key + 0x80"
  by (auto simp: held_def Let_def)

lemma keyboards_count [simp]: "keyboards_count = 1"
  by (simp add: keyboards_count_def available_keyboards_def)

lemma keyboard_ok_index: "keyboard_ok k \<Longrightarrow> current_index k = 0"
  by (simp add: keyboard_ok_def)

lemma keyboard_ok_initial [simp]: "keyboard_ok initial_keyboard"
  by (simp add: keyboard_ok_def initial_keyboard_def)

lemma set_key_simps [simp]:
  "length (key_state (set_key sc b k)) = length (key_state k)"
  "current_index (set_key sc b k) = current_index k"
  "shift_mode (set_key sc b k) = shift_mode k"
  by (simp_all add: set_key_def)

lemma key_down_set_key [simp]:
  "unat sc < length (key_state k) \<Longrightarrow> key_down (set_key sc b k) q = (if q = sc then b else key_down k q)"
  by (auto simp: set_key_def key_down_def nth_list_update word_unat_eq_iff)

lemma update_hot_key_state_shape [simp]:
  "length (key_state (update_hot_key_state sc k)) = length (key_state k)"
  "current_index (update_hot_key_state sc k) = current_index k"
  "shift_mode (update_hot_key_state sc k) = shift_mode k"
  by (simp_all add: update_hot_key_state_def Let_def)

lemma key_down_update:
  assumes "length (key_state k) = 128" and "modifier q"
  shows "key_down (update_hot_key_state sc k) q \<longleftrightarrow> sc = q \<or> key_down k q \<and> sc \<noteq> q + 0x80"
  using assms(2) by (auto simp: modifier_def update_hot_key_state_def Let_def assms(1))

lemma hot_key_handler_simps [simp]:
  "key_state (hot_key_handler sc k) = key_state k"
  "key_down (hot_key_handler sc k) q = key_down k q"
  "shift_mode (hot_key_handler sc k) \<longleftrightarrow> key_down k SC_PRESS_LEFT_SHIFT \<or> key_down k SC_PRESS_RIGHT_SHIFT"
  by (simp_all add: hot_key_handler_def Let_def switch_to_next_keyboard_def key_down_def)

lemma key_down_handle [simp]: "key_down (handle_scancode sc k) q = key_down (update_hot_key_state sc k) q"
  by (simp add: handle_scancode_def)

lemma keyboard_ok_handle [simp]: "keyboard_ok k \<Longrightarrow> keyboard_ok (handle_scancode sc k)"
  by (simp add: keyboard_ok_def handle_scancode_def)
     (simp add: hot_key_handler_def Let_def switch_to_next_keyboard_def)

lemma keyboard_ok_fold [simp]: "keyboard_ok k \<Longrightarrow> keyboard_ok (fold handle_scancode scs k)"
  by (induction scs arbitrary: k) auto

lemma key_down_fold:
  assumes "modifier q"
  shows "key_down (fold handle_scancode scs initial_keyboard) q \<longleftrightarrow> held q scs"
proof (induction scs rule: rev_induct)
  case Nil
  then show ?case using assms by (auto simp: modifier_def key_down_def initial_keyboard_def)
next
  case (snoc sc scs)
  have "length (key_state (fold handle_scancode scs initial_keyboard)) = 128"
    using keyboard_ok_fold [OF keyboard_ok_initial, of scs] by (simp add: keyboard_ok_def)
  from key_down_update [OF this assms, of sc] snoc show ?case by simp
qed

lemma shift_mode_fold:
  assumes "scs \<noteq> []"
  shows "shift_mode (fold handle_scancode scs initial_keyboard) \<longleftrightarrow>
    held SC_PRESS_LEFT_SHIFT scs \<or> held SC_PRESS_RIGHT_SHIFT scs"
proof -
  obtain ys y where 1: "scs = ys @ [y]" using assms rev_exhaust by blast
  show ?thesis unfolding 1
    using key_down_fold [of "0x2A" "ys @ [y]"] key_down_fold [of "0x36" "ys @ [y]"]
    by (simp add: handle_scancode_def modifier_def)
qed

lemma get_keymap_length [simp]: "keyboard_ok k \<Longrightarrow> length (get_keymap k) = 128"
  by (simp add: keyboard_ok_index get_keymap_def available_keyboards_def keymap_english_def keymap_english_shift_def)

lemma get_keymap_ok:
  "keyboard_ok k \<Longrightarrow> get_keymap k = (if shift_mode k then keymap_english_shift else keymap_english)"
  by (simp add: keyboard_ok_index get_keymap_def available_keyboards_def)

lemma get_char_make_code:
  assumes "keyboard_ok k" and "sc < 0x80"
  shows "get_char k sc = Some ((if shift_mode k then keymap_english_shift else keymap_english) ! unat sc)"
proof -
  have "unat sc < 128" using assms(2) by (simp add: word_less_nat_alt)
  then show ?thesis
    using assms(1) by (auto simp: get_char_def get_keymap_ok keymap_english_def keymap_english_shift_def)
qed

text \<open>The tables spelled out, and where each printable character stands in the two.\<close>

lemma keymap_tables:
  "keymap_english = [0, 27, 49, 50, 51, 52, 53, 54, 55, 56, 57, 48, 45, 61, 8, 9, 113, 119, 101, 114, 116, 121,
     117, 105, 111, 112, 91, 93, 10, 0, 97, 115, 100, 102, 103, 104, 106, 107, 108, 59, 39, 96, 0,
     92, 122, 120, 99, 118, 98, 110, 109, 44, 46, 47, 0, 42, 0, 32]
     @ replicate 70 0"
  "keymap_english_shift = [0, 27, 33, 64, 35, 36, 37, 94, 38, 42, 40, 41, 95, 43, 8, 9, 81, 87, 69, 82, 84, 89, 85, 73,
     79, 80, 123, 125, 10, 0, 65, 83, 68, 70, 71, 72, 74, 75, 76, 58, 34, 126, 0, 124, 90, 88, 67,
     86, 66, 78, 77, 60, 62, 63, 0, 42, 0, 32]
     @ replicate 70 0"
  by (simp_all add: keymap_english_def keymap_english_shift_def)

lemma keymap_english_length: "length keymap_english = 128"
  by (simp add: keymap_tables)

definition typed_at :: "nat list" where
  "typed_at = [57, 130, 168, 132, 133, 134, 136, 40, 138, 139, 55, 141, 51, 12, 52, 53, 11, 2, 3, 4, 5, 6, 7,
     8, 9, 10, 167, 39, 179, 13, 180, 181, 131, 158, 176, 174, 160, 146, 161, 162, 163, 151, 164,
     165, 166, 178, 177, 152, 153, 144, 147, 159, 148, 150, 175, 145, 173, 149, 172, 26, 43, 27,
     135, 140, 41, 30, 48, 46, 32, 18, 33, 34, 35, 23, 36, 37, 38, 50, 49, 24, 25, 16, 19, 31, 20,
     22, 47, 17, 45, 21, 44, 154, 171, 155, 169]"

lemma printable_typed:
  "map of_nat [0x20..<0x7F] = map (\<lambda>i. (keymap_english @ keymap_english_shift) ! i) typed_at"
  by (simp add: keymap_tables typed_at_def upt_rec nth_append)

lemma letters_shifted:
  "list_all2 (\<lambda>a b. 0x61 \<le> a \<and> a \<le> 0x7A \<longrightarrow> b = a - 0x20) keymap_english keymap_english_shift"
  unfolding keymap_tables
  by (rule list_all2_appendI) (simp, simp add: list_all2_conv_all_nth)

lemma printable_in_tables:
  assumes "n \<in> set [0x20..<0x7F]"
  shows "of_nat n \<in> set keymap_english \<or> of_nat n \<in> set keymap_english_shift"
proof -
  have 1: "of_nat n \<in> set (map (\<lambda>i. (keymap_english @ keymap_english_shift) ! i) typed_at)"
    using assms unfolding printable_typed [symmetric] set_map by (rule imageI)
  have 2: "\<forall>i \<in> set typed_at. i < length (keymap_english @ keymap_english_shift)"
    by (simp add: typed_at_def keymap_tables)
  have "set (map (\<lambda>i. xs ! i) js) \<subseteq> set xs" if "\<forall>i \<in> set js. i < length xs" for xs :: bytes and js
    using that by auto
  from this [OF 2] 1 have "of_nat n \<in> set (keymap_english @ keymap_english_shift)" by blast
  then show ?thesis by simp
qed

text \<open>The same for keys: which make codes give no character, and the key of a printable one.\<close>

lemma silent_positions:
  "i < 128 \<Longrightarrow> (keymap_english ! i = 0 \<longleftrightarrow> i \<in> {0, 0x1D, 0x2A, 0x36, 0x38} \<or> 0x3A \<le> i) \<and>
     (keymap_english_shift ! i = 0 \<longleftrightarrow> i \<in> {0, 0x1D, 0x2A, 0x36, 0x38} \<or> 0x3A \<le> i)"
proof (cases "i < 0x3A")
  case True
  have "list_all (\<lambda>i. (keymap_english ! i = 0 \<longleftrightarrow> i \<in> {0, 0x1D, 0x2A, 0x36, 0x38}) \<and>
      (keymap_english_shift ! i = 0 \<longleftrightarrow> i \<in> {0, 0x1D, 0x2A, 0x36, 0x38})) [0..<0x3A]"
    by (simp add: keymap_tables upt_rec)
  then show ?thesis using True by (auto simp: list_all_iff)
next
  case False
  moreover assume "i < 128"
  ultimately show ?thesis by (simp add: keymap_tables nth_append)
qed

lemma silent_codes:
  assumes "sc < (0x80 :: u8)"
  shows "((if b then keymap_english_shift else keymap_english) ! unat sc = 0) \<longleftrightarrow>
    sc \<in> {0, 0x1D, 0x2A, 0x36, 0x38} \<or> 0x3A \<le> sc"
proof -
  have "unat sc < 128" using assms by (simp add: word_less_nat_alt)
  note p = silent_positions [OF this]
  have "sc \<in> {0, 0x1D, 0x2A, 0x36, 0x38} \<longleftrightarrow> unat sc \<in> {0, 0x1D, 0x2A, 0x36, 0x38}"
    by (simp add: word_unat_eq_iff)
  moreover have "0x3A \<le> sc \<longleftrightarrow> 0x3A \<le> unat sc" by (simp add: word_le_nat_alt)
  ultimately show ?thesis using p by (cases b) simp_all
qed

lemma printable_key_exists:
  assumes "n \<in> set [0x20..<0x7F]"
  shows "\<exists>sc shift. sc < 0x80 \<and> (\<forall>k. keyboard_ok k \<and> shift_mode k = shift \<longrightarrow> get_char k sc = Some (of_nat n))"
proof -
  have len: "length keymap_english = 128" "length keymap_english_shift = 128" by (simp_all add: keymap_tables)
  have key: "\<exists>sc. sc < 0x80 \<and> (\<forall>k. keyboard_ok k \<and> shift_mode k = s \<longrightarrow> get_char k sc = Some c)"
    if c: "c \<in> set (if s then keymap_english_shift else keymap_english)" for c s
  proof -
    obtain i where i: "i < 128" "(if s then keymap_english_shift else keymap_english) ! i = c"
      using c len unfolding in_set_conv_nth by (cases s) auto
    have u: "unat (of_nat i :: u8) = i" using i(1) by (simp add: unat_of_nat)
    then have "(of_nat i :: u8) < 0x80" using i(1) by (simp add: word_less_nat_alt)
    then show ?thesis using get_char_make_code [of _ "of_nat i"] u i(2) by (intro exI [of _ "of_nat i"]) auto
  qed
  from printable_in_tables [OF assms] show ?thesis
  proof
    assume "of_nat n \<in> set keymap_english"
    then show ?thesis using key [of "of_nat n" False] by auto
  next
    assume "of_nat n \<in> set keymap_english_shift"
    then show ?thesis using key [of "of_nat n" True] by auto
  qed
qed

section \<open>Properties\<close>

text \<open>
  C27. The modifier state machine: after any sequence of scan codes, shift mode is on exactly when
  the last event of one of the two shift keys was a press, every modifier's flag says the same of
  its key, and the selected keyboard exists, so that no key map is read through a bad pointer.
\<close>

theorem modifiers_tracked:
  assumes "scs \<noteq> []" and "modifier q"
  shows "(shift_mode (fold handle_scancode scs initial_keyboard) \<longleftrightarrow>
      held SC_PRESS_LEFT_SHIFT scs \<or> held SC_PRESS_RIGHT_SHIFT scs) \<and>
    (key_down (fold handle_scancode scs initial_keyboard) q \<longleftrightarrow> held q scs) \<and>
    keyboard_ok (fold handle_scancode scs initial_keyboard)"
  using shift_mode_fold [OF assms(1)] key_down_fold [OF assms(2)] by simp

theorem modifiers_tracked_witness:
  "shift_mode (fold handle_scancode [0x2A, 0x1E, 0x36, 0xAA] initial_keyboard)"
  using modifiers_tracked [of "[0x2A, 0x1E, 0x36, 0xAA]" "0x36"] by (simp add: held_def modifier_def)

text \<open>
  C28. Key maps: for a make code \<open>get_char\<close> gives the NUL that stands for no character exactly for
  code 0, the control, shift and alt keys and all codes from \<open>0x3A\<close> on, in either mode; every printable
  ASCII character has a key and a mode that type it; shift turns the lower-case letter of a key into its
  capital; and enter, backspace, tab and space are the same in both modes.
\<close>

theorem keymaps_complete:
  "(\<forall>k sc. keyboard_ok k \<and> sc < 0x80 \<longrightarrow>
      (\<exists>c. get_char k sc = Some c \<and> (c = 0 \<longleftrightarrow> sc \<in> {0, 0x1D, 0x2A, 0x36, 0x38} \<or> 0x3A \<le> sc))) \<and>
   (\<forall>n \<in> set [0x20..<0x7F]. \<exists>sc shift. sc < 0x80 \<and>
      (\<forall>k. keyboard_ok k \<and> shift_mode k = shift \<longrightarrow> get_char k sc = Some (of_nat n))) \<and>
   (\<forall>k k' sc c. keyboard_ok k \<and> \<not> shift_mode k \<and> keyboard_ok k' \<and> shift_mode k' \<and> sc < 0x80 \<and>
      get_char k sc = Some c \<and> 0x61 \<le> c \<and> c \<le> 0x7A \<longrightarrow> get_char k' sc = Some (c - 0x20)) \<and>
   (\<forall>k. keyboard_ok k \<longrightarrow> get_char k 0x1C = Some 0x0A \<and> get_char k 0x0E = Some 0x08 \<and> get_char k 0x0F = Some 0x09 \<and>
      get_char k 0x39 = Some 0x20)"
proof (intro conjI)
  show "\<forall>k sc. keyboard_ok k \<and> sc < 0x80 \<longrightarrow>
      (\<exists>c. get_char k sc = Some c \<and> (c = 0 \<longleftrightarrow> sc \<in> {0, 0x1D, 0x2A, 0x36, 0x38} \<or> 0x3A \<le> sc))"
    using get_char_make_code silent_codes by simp
  show "\<forall>n \<in> set [0x20..<0x7F]. \<exists>sc shift. sc < 0x80 \<and>
      (\<forall>k. keyboard_ok k \<and> shift_mode k = shift \<longrightarrow> get_char k sc = Some (of_nat n))"
    using printable_key_exists by blast
  show "\<forall>k k' sc c. keyboard_ok k \<and> \<not> shift_mode k \<and> keyboard_ok k' \<and> shift_mode k' \<and> sc < 0x80 \<and>
      get_char k sc = Some c \<and> 0x61 \<le> c \<and> c \<le> 0x7A \<longrightarrow> get_char k' sc = Some (c - 0x20)"
    using list_all2_nthD [OF letters_shifted] keymap_english_length get_char_make_code
    by (auto simp: word_less_nat_alt)
  show "\<forall>k. keyboard_ok k \<longrightarrow> get_char k 0x1C = Some 0x0A \<and> get_char k 0x0E = Some 0x08 \<and> get_char k 0x0F = Some 0x09 \<and>
      get_char k 0x39 = Some 0x20"
    using get_char_make_code by (simp add: keymap_tables)
qed

theorem keymaps_complete_witness:
  "\<exists>c. get_char (fold handle_scancode [0x2A] initial_keyboard) 0x2A = Some c \<and> c = 0"
proof -
  have "keyboard_ok (fold handle_scancode [0x2A] initial_keyboard)" by (simp del: fold_simps)
  moreover have "(0x2A :: u8) < 0x80" by simp
  ultimately obtain c where "get_char (fold handle_scancode [0x2A] initial_keyboard) 0x2A = Some c"
    "c = 0 \<longleftrightarrow> (0x2A :: u8) \<in> {0, 0x1D, 0x2A, 0x36, 0x38} \<or> (0x3A :: u8) \<le> 0x2A"
    using keymaps_complete by blast
  then show ?thesis by simp
qed

end
