(* ===== verification/ConsoleProps.thy ===== *)
theory ConsoleProps imports Console StdioProps KeymapProps begin

text \<open>
  Console properties: the state of the console stays well formed whatever key is pressed and
  whatever command runs, and the line that is executed is the line that was typed.
\<close>

section \<open>The console's invariant\<close>

definition console_ok :: "'d tty \<Rightarrow> bool" where
  "console_ok t \<longleftrightarrow> tty_ok t \<and> length (input_buf t) = 256 \<and> input_len t < 256 \<and> keyboard_ok (kbd t)"

text \<open>An operation that keeps the invariant, whatever it returns.\<close>

definition keeps :: "('d tty \<Rightarrow> bool) \<Rightarrow> ('d tty, 'a) state \<Rightarrow> bool" where
  "keeps P m \<longleftrightarrow> (\<forall>t. P t \<longrightarrow> P (snd (run_state m t)))"

named_theorems keeps_rules "operations that keep the invariant of the console"

lemma keeps_return [keeps_rules]: "keeps P (State_Monad.return x)"
  by (simp add: keeps_def)

lemma keeps_bind [keeps_rules]: "keeps P m \<Longrightarrow> (\<And>x. keeps P (f x)) \<Longrightarrow> keeps P (State_Monad.bind m f)"
  by (auto simp: keeps_def split: prod.splits)

lemma keeps_gets [keeps_rules]: "keeps P (gets f)"
  by (simp add: keeps_def)

lemma keeps_if [keeps_rules]: "(b \<Longrightarrow> keeps P m) \<Longrightarrow> (\<not> b \<Longrightarrow> keeps P n) \<Longrightarrow> keeps P (if b then m else n)"
  by simp

lemma keeps_let [keeps_rules]: "keeps P (f x) \<Longrightarrow> keeps P (Let x f)"
  by simp

lemma keeps_put_all: "(\<And>c. keeps P (putc c)) \<Longrightarrow> keeps P (put_all putc cs)"
  by (induction cs) (simp_all add: keeps_rules)

lemma keeps_directive:
  assumes "\<And>c. keeps P (putc c)"
  shows "keeps P (directive putc d is_long args)"
  unfolding directive_def put_number_def
  by (auto intro!: keeps_rules keeps_put_all assms split: list.splits arg.splits option.splits)

lemma keeps_format_loop:
  assumes "\<And>c. keeps P (putc c)"
  shows "keeps P (format_loop putc fmt args n)"
  using assms
proof (induction putc fmt args n rule: format_loop.induct)
  case (2 putc c rest args count)
  show ?case
  proof (cases "c = 0x25 \<and> rest \<noteq> []")
    case True
    with 2 show ?thesis
      by (auto simp del: length_modifier.simps intro!: keeps_rules keeps_directive split: prod.splits list.splits option.splits)
  next
    case False
    then have "keeps P (format_loop putc rest args (count + 1))" using 2 by blast
    then show ?thesis using False 2(3) by (auto intro!: keeps_rules)
  qed
qed (simp add: keeps_rules)

lemma typing_display [simp]: "typing (display view t) = (input_buf t, input_len t, prompt_shown t, kbd t)"
  by (simp add: display_def)

lemma keeps_evals:
  fixes view :: "'d \<Rightarrow> crtc" and m :: "('d tty, 'a) state"
  assumes "\<And>d. \<exists>r. evals tty_ok (display view) d m r (f d)" and "\<And>d. typing (f d) = typing d"
  shows "keeps console_ok m"
  unfolding keeps_def
proof (intro allI impI)
  fix t :: "'d tty" assume "console_ok t"
  moreover from assms(1) obtain r where "evals tty_ok (display view) (display view t) m r (f (display view t))" by blast
  ultimately obtain t' where 1: "run_state m t = (r, t')" "tty_ok t'" "display view t' = f (display view t)"
    using evalsD [OF _ _ refl, of tty_ok "display view" t m r "f (display view t)"] unfolding console_ok_def by metis
  have "typing (display view t') = typing (display view t)" unfolding 1(3) by (rule assms(2))
  then have "input_buf t' = input_buf t \<and> input_len t' = input_len t \<and> kbd t' = kbd t"
    unfolding typing_display by blast
  with 1 \<open>console_ok t\<close> show "console_ok (snd (run_state m t))" unfolding console_ok_def by simp
qed

lemma typing_abs [simp]:
  "typing (put_cell i x d) = typing d" "typing (new_line d) = typing d" "typing (settle p d) = typing d"
  "typing (type_char c fg bg d) = typing d"
  by (simp_all add: put_cell_def new_line_def settle_def type_char_def Let_def)

lemma typing_move [simp]:
  "typing (move_forward d) = typing d" "typing (move_back d) = typing d" "typing ((move_forward ^^ n) d) = typing d"
  by (induction n) (simp_all add: move_forward_def move_back_def)

lemma typing_page [simp]:
  "typing (page_back d) = typing d" "typing (page_forward d) = typing d" "typing (to_present d) = typing d"
  by (simp_all add: page_back_def page_forward_def to_present_def)

lemma keeps_input [keeps_rules]:
  "n < 256 \<Longrightarrow> keeps console_ok (store_input n x)" "n < 256 \<Longrightarrow> keeps console_ok (set_input_len n)"
  "keeps console_ok (modify (\<lambda>t. t\<lparr>prompt_shown := b\<rparr>))"
  by (auto simp: keeps_def store_input_def set_input_len_def console_ok_def tty_ok_def)

lemma keeps_input_len:
  assumes "\<And>n. n < 256 \<Longrightarrow> keeps console_ok (f n)"
  shows "keeps console_ok (State_Monad.bind (gets input_len) f)"
  using assms by (auto simp: keeps_def console_ok_def)

lemma keeps_track_keys: "keeps console_ok (track_keys sc)"
  using keyboard_ok_handle by (auto simp: keeps_def track_keys_def console_ok_def tty_ok_def handle_scancode_def)

lemma keeps_poll: "keeps console_ok (poll_keyboard io)"
  by (auto simp: keeps_def poll_keyboard_def console_ok_def tty_ok_def split: prod.splits)

context crtc begin

lemma keeps_display [keeps_rules]:
  "keeps console_ok (putchar_color io c fg bg)" "keeps console_ok (scroll_up io)" "keeps console_ok (scroll_down io)"
  "keeps console_ok (return_to_present io)" "keeps console_ok (vga_set_cursor io p)"
  "keeps console_ok (vga_get_cursor_position io)"
  by (rule keeps_evals [where view = view], rule exI,
      rule evals_putchar_color evals_scroll_up evals_scroll_down evals_return_to_present evals_set_cursor evals_get_cursor, simp)+

lemma keeps_putchar [keeps_rules]: "keeps console_ok (putchar io c)"
  unfolding putchar_def by (rule keeps_rules)

lemma keeps_printf [keeps_rules]: "keeps console_ok (printf io fmt args)"
  unfolding printf_def by (intro keeps_format_loop keeps_rules)

lemma keeps_prompt [keeps_rules]: "keeps console_ok (print_prompt io)"
  unfolding print_prompt_def by (intro keeps_rules)

end

section \<open>Line editing\<close>

text \<open>What a key makes of the typed line; \<open>col\<close> is the cursor's column.\<close>

definition edit_line :: "nat \<Rightarrow> u8 \<Rightarrow> bytes \<Rightarrow> bytes" where
  "edit_line col c line =
     (if c = 0x08 \<or> c = 127 then butlast line
      else if c = 0x09 then line @ replicate (min (255 - length line) (4 - col mod 4)) 0x20
      else if 32 \<le> c \<and> c < 127 \<and> length line < 255 then line @ [c]
      else line)"

text \<open>The input state of a display: the buffer holds the line, the prompt and keyboard are as given.\<close>

definition line_is :: "bytes \<Rightarrow> bool \<Rightarrow> keyboard \<Rightarrow> display \<Rightarrow> bool" where
  "line_is line q k d \<longleftrightarrow> (\<exists>b. typing d = (b, length line, q, k) \<and> length b = 256 \<and> length line < 256 \<and>
     take (length line) b = line)"

lemma line_is_typing: "line_is line q k d \<Longrightarrow> typing e = typing d \<Longrightarrow> line_is line q k e"
  by (simp add: line_is_def)

lemma line_is_put:
  assumes "line_is line q k d" and "length line < 255"
  shows "\<exists>d'. evals tty_ok (display view) d (store_input (length line) c \<bind> (\<lambda>_. set_input_len (length line + 1))) () d' \<and>
    line_is (line @ [c]) q k d' \<and> cursor d' = cursor d"
proof -
  from assms(1) obtain b where b: "typing d = (b, length line, q, k)" "length b = 256" "take (length line) b = line"
    by (auto simp: line_is_def)
  let ?d = "d\<lparr>typing := (b[length line := c], length line + 1, q, k)\<rparr>"
  have "evals tty_ok (display view) d (store_input (length line) c \<bind> (\<lambda>_. set_input_len (length line + 1))) () ?d"
  proof (rule evalsI)
    fix t :: "'a tty" assume t: "tty_ok t" "display view t = d"
    then have "input_buf t = b" "prompt_shown t = q" "kbd t = k" using b(1) typing_display [of view t] by auto
    then show "\<exists>t'. run_state (store_input (length line) c \<bind> (\<lambda>_. set_input_len (length line + 1))) t = ((), t') \<and>
        tty_ok t' \<and> display view t' = ?d"
      using t assms(2) b(2) by (auto simp: store_input_def set_input_len_def tty_ok_def display_def)
  qed
  moreover have "line_is (line @ [c]) q k ?d"
    using b assms(2) by (simp add: line_is_def take_Suc_update)
  ultimately show ?thesis by (auto intro!: exI [of _ ?d])
qed

lemma line_is_drop:
  assumes "line_is line q k d" and "0 < length line"
  shows "\<exists>d'. evals tty_ok (display view) d (set_input_len (length line - 1)) () d' \<and> line_is (butlast line) q k d'"
proof -
  from assms(1) obtain b where b: "typing d = (b, length line, q, k)" "length b = 256" "take (length line) b = line"
    "length line < 256"
    by (auto simp: line_is_def)
  let ?d = "d\<lparr>typing := (b, length line - 1, q, k)\<rparr>"
  have "evals tty_ok (display view) d (set_input_len (length line - 1)) () ?d"
  proof (rule evalsI)
    fix t :: "'a tty" assume t: "tty_ok t" "display view t = d"
    then have "input_buf t = b" "prompt_shown t = q" "kbd t = k" using b(1) typing_display [of view t] by auto
    then show "\<exists>t'. run_state (set_input_len (length line - 1)) t = ((), t') \<and> tty_ok t' \<and> display view t' = ?d"
      using t by (auto simp: set_input_len_def tty_ok_def display_def)
  qed
  moreover have "line_is (butlast line) q k ?d"
  proof -
    have "take (length line - 1) b = butlast (take (length line) b)" using b(2,4) by (simp add: butlast_take)
    then show ?thesis using b by (simp add: line_is_def)
  qed
  ultimately show ?thesis by blast
qed

lemma evals_input_len:
  assumes "line_is line q k d" and "evals tty_ok (display view) d (f (length line)) r d'"
  shows "evals tty_ok (display view) d (gets input_len \<bind> f) r d'"
proof (rule evalsI)
  fix t :: "'a tty" assume t: "tty_ok t" "display view t = d"
  then have "input_len t = length line" using assms(1) typing_display [of view t] by (auto simp: line_is_def)
  with evalsD [OF assms(2) t] show "\<exists>t'. run_state (gets input_len \<bind> f) t = (r, t') \<and> tty_ok t' \<and> display view t' = d'"
    by simp
qed

context crtc begin

lemma evals_putchar: "evals tty_ok (display view) d (putchar io c) () (type_char c 7 0 d)"
  unfolding putchar_def by (rule evals_putchar_color)

lemma evals_printable:
  assumes "line_is line q k d"
  shows "\<exists>d'. evals tty_ok (display view) d (printable_key io c) () d' \<and>
    line_is (if length line < 255 then line @ [c] else line) q k d'"
proof (cases "length line < 255")
  case True
  have "line_is line q k (type_char c 7 0 d)" by (rule line_is_typing [OF assms]) simp
  from line_is_put [OF this True, where view = view] obtain d' where
    "evals tty_ok (display view) (type_char c 7 0 d) (store_input (length line) c \<bind> (\<lambda>_. set_input_len (length line + 1))) () d'"
    "line_is (line @ [c]) q k d'" by blast
  note put = this
  have "evals tty_ok (display view) d (printable_key io c) () d'"
    unfolding printable_key_def
    by (rule evals_input_len [OF assms]) (use True evals_bind [OF evals_putchar put(1)] in simp)
  with put(2) True show ?thesis by auto
next
  case False
  have "evals tty_ok (display view) d (printable_key io c) () d"
    unfolding printable_key_def by (rule evals_input_len [OF assms]) (use False in \<open>simp add: evals_return\<close>)
  with False assms show ?thesis by auto
qed

lemma evals_backspace:
  assumes "line_is line q k d"
  shows "\<exists>d'. evals tty_ok (display view) d (backspace_key io) () d' \<and> line_is (butlast line) q k d'"
proof (cases "line = []")
  case True
  have "evals tty_ok (display view) d (backspace_key io) () d"
    unfolding backspace_key_def by (rule evals_input_len [OF assms]) (use True in \<open>simp add: evals_return\<close>)
  with True assms show ?thesis by auto
next
  case False
  let ?m = "if 0 < cursor d then vga_set_cursor io (cursor d - 1) \<bind> (\<lambda>_. putchar io 0x20 \<bind> (\<lambda>_. vga_set_cursor io (cursor d - 1)))
     else State_Monad.return ()"
  obtain d1 where 1: "evals tty_ok (display view) d ?m () d1" "typing d1 = typing d"
  proof (cases "0 < cursor d")
    case True
    let ?d = "(type_char 0x20 7 0 (d\<lparr>cursor := cursor d - 1\<rparr>))\<lparr>cursor := cursor d - 1\<rparr>"
    have "evals tty_ok (display view) d ?m () ?d"
      unfolding if_P [OF True]
      by (rule evals_bind [OF evals_set_cursor], rule evals_bind [OF evals_putchar], rule evals_set_cursor)
    then show ?thesis by (rule that) simp
  next
    case False
    then show ?thesis by (intro that [of d]) (simp_all add: evals_return)
  qed
  from assms 1(2) have "line_is line q k d1" by (rule line_is_typing)
  from line_is_drop [OF this, where view = view] False obtain d2 where
    2: "evals tty_ok (display view) d1 (set_input_len (length line - 1)) () d2" "line_is (butlast line) q k d2" by auto
  have "evals tty_ok (display view) d (backspace_key io) () d2"
    unfolding backspace_key_def
  proof (rule evals_input_len [OF assms])
    have "evals tty_ok (display view) d (vga_get_cursor_position io \<bind> (\<lambda>cur.
        (if 0 < cur then vga_set_cursor io (cur - 1) \<bind> (\<lambda>_. putchar io 0x20 \<bind> (\<lambda>_. vga_set_cursor io (cur - 1)))
         else State_Monad.return ()) \<bind> (\<lambda>_. set_input_len (length line - 1)))) () d2"
      by (rule evals_bind [OF evals_get_cursor], rule evals_bind [OF 1(1) 2(1)])
    with False show "evals tty_ok (display view) d
      (if 0 < length line
       then vga_get_cursor_position io \<bind> (\<lambda>cur.
         (if 0 < cur then vga_set_cursor io (cur - 1) \<bind> (\<lambda>_. putchar io 0x20 \<bind> (\<lambda>_. vga_set_cursor io (cur - 1)))
          else State_Monad.return ()) \<bind> (\<lambda>_. set_input_len (length line - 1)))
       else State_Monad.return ()) () d2"
      by simp
  qed
  with 2(2) show ?thesis by blast
qed

lemma evals_tab_loop:
  assumes "line_is line q k d" and "length line + n < 256"
  shows "\<exists>d'. evals tty_ok (display view) d (tab_loop io n) () d' \<and> line_is (line @ replicate n 0x20) q k d'"
  using assms
proof (induction n arbitrary: line d)
  case 0
  then show ?case by (auto intro: evals_return)
next
  case (Suc n)
  have 1: "line_is line q k (type_char 0x20 7 0 d)" by (rule line_is_typing [OF Suc.prems(1)]) simp
  from line_is_put [OF 1, where view = view and c = "0x20"] Suc.prems obtain d1 where
    2: "evals tty_ok (display view) (type_char 0x20 7 0 d)
      (store_input (length line) 0x20 \<bind> (\<lambda>_. set_input_len (length line + 1))) () d1"
      "line_is (line @ [0x20]) q k d1" by auto
  from Suc.IH [OF 2(2)] Suc.prems obtain d2 where
    3: "evals tty_ok (display view) d1 (tab_loop io n) () d2" "line_is (line @ replicate (Suc n) 0x20) q k d2" by auto
  have "evals tty_ok (display view) d (tab_loop io (Suc n)) () d2"
    unfolding tab_loop.simps
    by (rule evals_bind [OF evals_putchar], rule evals_input_len [OF 1]) (use evals_bind [OF 2(1) 3(1)] in simp)
  with 3(2) show ?case by blast
qed

lemma evals_tab:
  assumes "line_is line q k d"
  shows "\<exists>d'. evals tty_ok (display view) d (tab_key io) () d' \<and>
    line_is (line @ replicate (min (255 - length line) (4 - unat (cursor d) mod 80 mod 4)) 0x20) q k d'"
proof -
  let ?n = "min (255 - length line) (4 - unat (cursor d) mod 80 mod 4)"
  have "length line < 256" using assms by (auto simp: line_is_def)
  then have "length line + ?n < 256" by simp
  from evals_tab_loop [OF assms this] obtain d' where
    1: "evals tty_ok (display view) d (tab_loop io ?n) () d'" "line_is (line @ replicate ?n 0x20) q k d'" by blast
  have "tab_key io = vga_get_cursor_position io \<bind> (\<lambda>cur. gets input_len \<bind> (\<lambda>len. tab_loop io (min (255 - len) (4 - unat cur mod 80 mod 4))))"
    unfolding tab_key_def Let_def by (intro arg_cong2 [where f = State_Monad.bind] refl ext) (auto simp: min_def)
  then have "evals tty_ok (display view) d (tab_key io) () d'"
    by (simp only:) (rule evals_bind [OF evals_get_cursor], rule evals_input_len [OF assms], rule 1(1))
  with 1(2) show ?thesis by blast
qed

lemma evals_edit_key:
  assumes "line_is line q k d" and "c \<noteq> 0x0A" and "c \<noteq> 0x0D"
  shows "\<exists>d'. evals tty_ok (display view) d (edit_key io execute exit_code c) () d' \<and>
    line_is (edit_line (unat (cursor d) mod 80) c line) q k d'"
  using evals_backspace [OF assms(1)] evals_tab [OF assms(1)] evals_printable [OF assms(1), of c]
    assms evals_return [of tty_ok "display view" d "()"]
  unfolding edit_key_def edit_line_def by (auto split: if_splits)

end

section \<open>The whole round\<close>

definition typed :: "'d tty \<Rightarrow> bytes" where
  "typed t = take (input_len t) (input_buf t)"

lemma console_line:
  "console_ok t \<longleftrightarrow> tty_ok t \<and> line_is (typed t) (prompt_shown t) (kbd t) (display view t) \<and> keyboard_ok (kbd t)"
  by (auto simp: console_ok_def line_is_def typed_def)

text \<open>
  What enter does with the line \<open>cs\<close>: it is executed, once; the result is reported in a line of text,
  with what the input buffer holds then or the exit code; the input is empty and the prompt is shown.
\<close>

definition input_line :: "'d tty \<Rightarrow> bytes" where
  "input_line t = takeWhile (\<lambda>x. x \<noteq> 0) (input_buf t)"

definition report_text :: "int \<Rightarrow> bytes \<Rightarrow> int \<Rightarrow> bytes" where
  "report_text exec line ret =
     (if exec = 0 then str ''Command not found: '' @ line
      else if exec < 0 then str ''Execution failed (error '' @ signed_text (sint (word_of_int exec :: u32)) @ str ''): '' @ line
      else str ''Return value: '' @ signed_text (sint (word_of_int ret :: u32))) @ [0x0A]"

definition execute_and_report ::
  "'d machine \<Rightarrow> (bytes \<Rightarrow> ('d tty, int) state) \<Rightarrow> ('d tty, int) state \<Rightarrow> bytes \<Rightarrow> ('d tty, unit) state" where
  "execute_and_report io execute exit_code cs = do {
     exec \<leftarrow> execute cs;
     ret \<leftarrow> (if 0 < exec then exit_code else State_Monad.return 0);
     line \<leftarrow> gets input_line;
     _ \<leftarrow> put_all (putchar io) (report_text exec line ret);
     _ \<leftarrow> modify (\<lambda>t. t\<lparr>input_len := 0, prompt_shown := False\<rparr>);
     print_prompt io
   }"

lemma report_printf:
  "printf io (str ''Command not found: %s'' @ newline) [ArgPtr (Some l)] =
     State_Monad.bind (put_all (putchar io) (report_text 0 l ret)) (\<lambda>_. State_Monad.return (Some (length (report_text 0 l ret))))"
  "exec < 0 \<Longrightarrow> printf io (str ''Execution failed (error %d): %s'' @ newline) [ArgInt (word_of_int exec), ArgPtr (Some l)] =
     State_Monad.bind (put_all (putchar io) (report_text exec l ret)) (\<lambda>_. State_Monad.return (Some (length (report_text exec l ret))))"
  "0 < exec \<Longrightarrow> printf io (str ''Return value: %d'' @ newline) [ArgInt (word_of_int ret)] =
     State_Monad.bind (put_all (putchar io) (report_text exec l ret)) (\<lambda>_. State_Monad.return (Some (length (report_text exec l ret))))"
proof -
  let ?a = "map Lit (str ''Command not found: '') @ [Text l, Lit 10]"
  let ?b = "map Lit (str ''Execution failed (error '') @ [Decimal (word_of_int exec)] @ map Lit (str ''): '') @ [Text l, Lit 10]"
  let ?c = "map Lit (str ''Return value: '') @ [Decimal (word_of_int ret), Lit 10]"
  have f: "format_of ?a = str ''Command not found: %s'' @ newline" "args_of ?a = [ArgPtr (Some l)]"
    "format_of ?b = str ''Execution failed (error %d): %s'' @ newline" "args_of ?b = [ArgInt (word_of_int exec), ArgPtr (Some l)]"
    "format_of ?c = str ''Return value: %d'' @ newline" "args_of ?c = [ArgInt (word_of_int ret)]"
    by (simp_all add: format_of_def args_of_def newline_def)
  have p: "list_all plain_piece ?a" "list_all plain_piece ?b" "list_all plain_piece ?c" by (simp_all add: plain_piece_def)
  have t: "text_of ?a = report_text 0 l ret" "exec < 0 \<Longrightarrow> text_of ?b = report_text exec l ret" "0 < exec \<Longrightarrow> text_of ?c = report_text exec l ret"
    by (simp_all add: text_of_def report_text_def)
  note run = format_pieces [where putc = "putchar io" and n = 0, folded printf_def]
  show "printf io (str ''Command not found: %s'' @ newline) [ArgPtr (Some l)] =
     State_Monad.bind (put_all (putchar io) (report_text 0 l ret)) (\<lambda>_. State_Monad.return (Some (length (report_text 0 l ret))))"
    using run [OF p(1)] unfolding f t(1) by simp
  show "printf io (str ''Execution failed (error %d): %s'' @ newline) [ArgInt (word_of_int exec), ArgPtr (Some l)] =
     State_Monad.bind (put_all (putchar io) (report_text exec l ret)) (\<lambda>_. State_Monad.return (Some (length (report_text exec l ret))))"
    if "exec < 0" using run [OF p(2)] unfolding f t(2) [OF that] by simp
  show "printf io (str ''Return value: %d'' @ newline) [ArgInt (word_of_int ret)] =
     State_Monad.bind (put_all (putchar io) (report_text exec l ret)) (\<lambda>_. State_Monad.return (Some (length (report_text exec l ret))))"
    if "0 < exec" using run [OF p(3)] unfolding f t(3) [OF that] by simp
qed

lemma run_line_report:
  "run_line io execute exit_code = do {
     line \<leftarrow> gets input_line;
     exec \<leftarrow> execute line;
     ret \<leftarrow> (if 0 < exec then exit_code else State_Monad.return 0);
     line' \<leftarrow> gets input_line;
     put_all (putchar io) (report_text exec line' ret)
   }"
proof -
  have unit: "State_Monad.bind m (\<lambda>_. State_Monad.return ()) = m" for m :: "('a tty, unit) state"
    using bind_right_identity [of m] by simp
  have g: "State_Monad.bind (gets input_buf) (\<lambda>buf. f (takeWhile (\<lambda>x. x \<noteq> 0) buf)) = State_Monad.bind (gets input_line) f"
    for f :: "bytes \<Rightarrow> ('a tty, unit) state" by (intro state.expand ext) (simp add: input_line_def)
  have "(if exec = 0 then do {
       buf' \<leftarrow> gets input_buf;
       _ \<leftarrow> printf io (str ''Command not found: %s'' @ newline) [ArgPtr (Some (takeWhile (\<lambda>x. x \<noteq> 0) buf'))];
       State_Monad.return ()
     } else if exec < 0 then do {
       buf' \<leftarrow> gets input_buf;
       _ \<leftarrow> printf io (str ''Execution failed (error %d): %s'' @ newline)
              [ArgInt (word_of_int exec), ArgPtr (Some (takeWhile (\<lambda>x. x \<noteq> 0) buf'))];
       State_Monad.return ()
     } else do {
       ret \<leftarrow> exit_code;
       _ \<leftarrow> printf io (str ''Return value: %d'' @ newline) [ArgInt (word_of_int ret)];
       State_Monad.return ()
     }) = do {
     ret \<leftarrow> (if 0 < exec then exit_code else State_Monad.return 0);
     line' \<leftarrow> gets input_line;
     put_all (putchar io) (report_text exec line' ret)
   }" for exec
  proof -
    consider "exec = 0" | "exec < 0" | "0 < exec" by linarith
    then show ?thesis
    proof cases
      case 1
      then show ?thesis using g by (simp add: report_printf(1) [where ret = 0] unit del: str_Cons)
    next
      case 2
      then show ?thesis using g by (simp add: report_printf(2) [where ret = 0] unit del: str_Cons)
    next
      case 3
      then have i: "State_Monad.bind (gets input_line) (\<lambda>l. put_all (putchar io) (report_text exec l ret)) =
          put_all (putchar io) (report_text exec [] ret)" for ret
        by (intro state.expand ext) (simp add: report_text_def del: str_Cons)
      show ?thesis using 3 by (simp add: report_printf(3) [where l = "[]"] i unit del: str_Cons)
    qed
  qed
  then show ?thesis unfolding run_line_def Let_def using g by (simp del: str_Cons)
qed

lemma make_code_small:
  fixes sc :: u8
  assumes "sc AND 0x80 = 0"
  shows "sc < 0x80"
proof -
  have "bit (sc AND 0x80) 7 \<longleftrightarrow> bit sc 7" by (simp add: bit_simps)
  with assms have 1: "\<not> bit sc 7" by simp
  have "take_bit 7 sc = sc"
  proof (rule bit_word_eqI)
    fix n assume "n < LENGTH(8)"
    then show "bit (take_bit 7 sc) n \<longleftrightarrow> bit sc n" using 1 by (cases "n = 7") (auto simp: bit_simps)
  qed
  then have "unat sc = take_bit 7 (unat sc)" by (metis unsigned_take_bit_eq)
  then have "unat sc < 2 ^ 7" by (metis take_bit_nat_less_exp)
  then show ?thesis by (simp add: word_less_nat_alt)
qed

lemma keeps_kbd:
  assumes "\<And>k. keyboard_ok k \<Longrightarrow> keeps console_ok (f k)"
  shows "keeps console_ok (State_Monad.bind (gets kbd) f)"
  using assms by (auto simp: keeps_def console_ok_def)

context crtc begin

lemma run_edit_key:
  assumes "console_ok t" and "c \<noteq> 0x0A" and "c \<noteq> 0x0D"
  shows "\<exists>t'. run_state (edit_key io execute exit_code c) t = ((), t') \<and> console_ok t' \<and>
    typed t' = edit_line (unat (cursor (display view t)) mod 80) c (typed t)"
proof -
  from assms(1) have 1: "tty_ok t" "line_is (typed t) (prompt_shown t) (kbd t) (display view t)" "keyboard_ok (kbd t)"
    using console_line by blast+
  from evals_edit_key [OF 1(2) assms(2,3)] obtain d' where
    2: "evals tty_ok (display view) (display view t) (edit_key io execute exit_code c) () d'"
      "line_is (edit_line (unat (cursor (display view t)) mod 80) c (typed t)) (prompt_shown t) (kbd t) d'" by blast
  from evalsD [OF 2(1) 1(1) refl] obtain t' where
    3: "run_state (edit_key io execute exit_code c) t = ((), t')" "tty_ok t'" "display view t' = d'" by blast
  from 2(2) 1(3) have "console_ok t' \<and> typed t' = edit_line (unat (cursor (display view t)) mod 80) c (typed t)"
    unfolding 3(3) [symmetric] using 3(2) by (auto simp: line_is_def console_ok_def typed_def)
  with 3(1) show ?thesis by blast
qed

lemma keeps_run_line:
  assumes "\<And>line. keeps console_ok (execute line)" and "keeps console_ok exit_code"
  shows "keeps console_ok (run_line io execute exit_code)"
  unfolding run_line_def Let_def by (intro keeps_rules assms)

lemma keeps_enter:
  assumes "\<And>line. keeps console_ok (execute line)" and "keeps console_ok exit_code"
  shows "keeps console_ok (enter_key io execute exit_code)"
  unfolding enter_key_def
  by (rule keeps_bind [OF keeps_putchar], rule keeps_input_len) (intro keeps_rules keeps_run_line assms; simp)

lemma keeps_edit_key:
  assumes "\<And>line. keeps console_ok (execute line)" and "keeps console_ok exit_code"
  shows "keeps console_ok (edit_key io execute exit_code c)"
proof (cases "c = 0x0A \<or> c = 0x0D")
  case True
  then show ?thesis unfolding edit_key_def using keeps_enter [OF assms] by simp
next
  case False
  then show ?thesis using run_edit_key [of _ c execute exit_code] unfolding keeps_def by (metis snd_conv)
qed

lemma keeps_console:
  assumes "\<And>line. keeps console_ok (execute line)" and "keeps console_ok exit_code"
  shows "keeps console_ok (terminal_console io execute exit_code)"
proof -
  have key: "keeps console_ok (key_pressed io execute exit_code sc)" for sc
  proof -
    have "keeps console_ok (gets kbd \<bind> (\<lambda>k. case get_char k sc of
         None \<Rightarrow> modify (\<lambda>t. t\<lparr>fault := True\<rparr>)
       | Some c \<Rightarrow> if c = 0 then State_Monad.return ()
           else return_to_present io \<bind> (\<lambda>_. edit_key io execute exit_code c)))" if "sc AND 0x80 = 0"
      using get_char_make_code make_code_small [OF that]
      by (intro keeps_kbd) (auto intro!: keeps_rules keeps_edit_key assms split: option.splits)
    then show ?thesis
      unfolding key_pressed_def
      by (intro keeps_bind [OF keeps_track_keys]) (auto intro: keeps_display keeps_return)
  qed
  show ?thesis
    unfolding terminal_console_def by (intro keeps_rules keeps_poll keeps_track_keys key)
qed

lemma enter_executes_typed:
  assumes "console_ok t" and "typed t \<noteq> []" and "0 \<notin> set (typed t)"
  shows "\<exists>t1. console_ok t1 \<and> typed t1 = typed t \<and> input_line t1 = typed t \<and>
    (\<forall>execute exit_code. run_state (enter_key io execute exit_code) t =
      run_state (execute_and_report io execute exit_code (typed t)) t1)"
proof -
  obtain t1 where 1: "run_state (putchar io 0x0A) t = ((), t1)" "display view t1 = type_char 0x0A 7 0 (display view t)" "tty_ok t1"
    using evalsD [OF evals_putchar _ refl] assms(1) unfolding console_ok_def by blast
  have "typing (display view t1) = typing (display view t)" unfolding 1(2) by simp
  then have 2: "input_buf t1 = input_buf t" "input_len t1 = input_len t" "kbd t1 = kbd t" by auto
  have n: "input_len t < length (input_buf t)" "0 < input_len t" using assms(1,2) by (auto simp: console_ok_def typed_def)
  let ?t = "t1\<lparr>input_buf := (input_buf t)[input_len t := 0]\<rparr>"
  have "(input_buf t)[input_len t := 0] = typed t @ 0 # drop (Suc (input_len t)) (input_buf t)"
    using n(1) by (simp add: typed_def upd_conv_take_nth_drop)
  moreover have "takeWhile (\<lambda>x. x \<noteq> 0) (typed t @ 0 # drop (Suc (input_len t)) (input_buf t)) = typed t"
    using assms(3) by (subst takeWhile_append2) auto
  ultimately have l: "takeWhile (\<lambda>x. x \<noteq> 0) ((input_buf t)[input_len t := 0]) = typed t" by (simp only:)
  have "console_ok ?t" using 1(3) 2 assms(1) by (simp add: console_ok_def tty_ok_def)
  moreover have "typed ?t = typed t" using 2 by (simp add: typed_def)
  moreover have il: "input_line ?t = typed t" using l by (simp add: input_line_def)
  moreover have "run_state (enter_key io execute exit_code) t = run_state (execute_and_report io execute exit_code (typed t)) ?t"
    for execute exit_code
    using 1(1) 2 n il by (simp add: enter_key_def store_input_def run_line_report execute_and_report_def set_input_len_def Let_def split_def)
  ultimately show ?thesis by blast
qed

end

section \<open>Properties\<close>

primrec type_keys :: "'d machine \<Rightarrow> (bytes \<Rightarrow> ('d tty, int) state) \<Rightarrow> ('d tty, int) state \<Rightarrow> bytes \<Rightarrow> ('d tty, unit) state" where
  "type_keys io execute exit_code [] = State_Monad.return ()"
| "type_keys io execute exit_code (c # cs) = edit_key io execute exit_code c \<bind> (\<lambda>_. type_keys io execute exit_code cs)"

context crtc begin

lemma run_type_keys:
  assumes "console_ok t" and "\<forall>c \<in> set cs. 32 \<le> c \<and> c < 127" and "length (typed t) + length cs < 256"
  shows "\<exists>t'. run_state (type_keys io execute exit_code cs) t = ((), t') \<and> console_ok t' \<and> typed t' = typed t @ cs"
  using assms
proof (induction cs arbitrary: t)
  case (Cons c cs)
  have c: "32 \<le> c" "c < 127" using Cons.prems by auto
  then have "c \<noteq> 0x0A" "c \<noteq> 0x0D" "c \<noteq> 0x08" "c \<noteq> 127" "c \<noteq> 0x09" by auto
  with run_edit_key [OF Cons.prems(1), of c execute exit_code] c Cons.prems(3) obtain t1 where
    1: "run_state (edit_key io execute exit_code c) t = ((), t1)" "console_ok t1" "typed t1 = typed t @ [c]"
    by (auto simp: edit_line_def)
  from Cons.IH [OF 1(2)] Cons.prems 1 show ?case by auto
qed auto

end

text \<open>
  C17. Console safety: whatever the keyboard delivers, one round of the console keeps the state well
  formed, if the commands it runs do: the input line never outgrows its buffer, no array is
  indexed out of its bounds, and the history and the key maps stay valid.
\<close>

theorem console_round_safe:
  assumes "crtc io view" and "console_ok t"
    and "\<And>line u. console_ok u \<Longrightarrow> console_ok (snd (run_state (execute line) u))"
    and "\<And>u. console_ok u \<Longrightarrow> console_ok (snd (run_state exit_code u))"
  shows "console_ok (snd (run_state (terminal_console io execute exit_code) t))"
proof -
  have "keeps console_ok (execute line)" for line using assms(3) by (simp add: keeps_def)
  moreover have "keeps console_ok exit_code" using assms(4) by (simp add: keeps_def)
  ultimately have "keeps console_ok (terminal_console io execute exit_code)" by (rule crtc.keeps_console [OF assms(1)])
  with assms(2) show ?thesis by (simp add: keeps_def)
qed

lemma demo_console_ok: "console_ok demo_tty"
  using demo_tty_ok by (simp add: console_ok_def) (simp add: demo_tty_def)

theorem console_round_safe_witness:
  "console_ok (snd (run_state (terminal_console crtc_io (\<lambda>_. State_Monad.return 0) (State_Monad.return 0)) demo_tty))"
  by (rule console_round_safe [OF text_display.crtc_axioms demo_console_ok]) simp_all

text \<open>
  C19. Line editing: every key but enter changes the typed line as the editor's specification says:
  backspace drops the last character, tab fills with blanks to the next multiple of four
  columns, a printable character is appended, and a full line of 255 characters takes no more.
\<close>

theorem line_editing_correct:
  assumes "crtc io view" and "console_ok t" and "c \<noteq> 0x0A" and "c \<noteq> 0x0D"
  shows "\<exists>t'. run_state (edit_key io execute exit_code c) t = ((), t') \<and> console_ok t' \<and>
    typed t' = edit_line (unat (cursor (display view t)) mod 80) c (typed t)"
  by (rule crtc.run_edit_key [OF assms])

theorem line_editing_correct_witness:
  "\<exists>t'. run_state (edit_key crtc_io (\<lambda>_. State_Monad.return 0) (State_Monad.return 0) 0x09) demo_tty = ((), t') \<and>
    typed t' = [0x20, 0x20, 0x20]"
proof -
  have "typed demo_tty = []" by (simp add: typed_def demo_tty_def)
  with line_editing_correct [OF text_display.crtc_axioms demo_console_ok, of "0x09" "\<lambda>_. State_Monad.return 0" "State_Monad.return 0"]
  show ?thesis by (auto simp: edit_line_def demo_tty_display numeral_3_eq_3)
qed

text \<open>
  C18. The typed command is the executed command: typing up to 255 printable characters and enter
  comes to a state of the console in which the input buffer holds exactly these characters, before
  anything was executed; from there exactly this string is executed, once, and then its result is reported,
  the input emptied and the prompt shown, whatever executing a command does.
\<close>

theorem typed_command_executed:
  assumes "crtc io view" and "console_ok t" and "input_len t = 0"
    and "cs \<noteq> []" and "length cs < 256" and "\<forall>c \<in> set cs. 32 \<le> c \<and> c < 127"
  shows "\<exists>t1. console_ok t1 \<and> input_line t1 = cs \<and>
    (\<forall>execute exit_code. run_state (type_keys io execute exit_code (cs @ [0x0A])) t =
      run_state (execute_and_report io execute exit_code cs) t1)"
proof -
  have split: "type_keys io f x (cs @ [0x0A]) = type_keys io f x cs \<bind> (\<lambda>_. enter_key io f x)" for f x
  proof -
    have "edit_key io f x 0x0A \<bind> (\<lambda>_. State_Monad.return ()) = enter_key io f x"
      using bind_right_identity [of "enter_key io f x"] by (simp add: edit_key_def)
    then show ?thesis by (induction cs) simp_all
  qed
  let ?f = "\<lambda>_. State_Monad.return 0" and ?x = "State_Monad.return 0"
  have same: "type_keys io f x cs = type_keys io ?f ?x cs" for f x
    using assms(6) by (induction cs) (auto simp: edit_key_def)
  have "typed t = []" using assms(3) by (simp add: typed_def)
  with crtc.run_type_keys [OF assms(1,2,6)] assms(5) obtain t0 where
    0: "run_state (type_keys io ?f ?x cs) t = ((), t0)" "console_ok t0" "typed t0 = cs" by fastforce
  have "0 \<notin> set cs" using assms(6) by auto
  with crtc.enter_executes_typed [OF assms(1) 0(2)] 0(3) assms(4) obtain t1 where
    1: "console_ok t1" "input_line t1 = cs"
      "\<And>f x. run_state (enter_key io f x) t0 = run_state (execute_and_report io f x cs) t1" by auto
  have "run_state (type_keys io f x (cs @ [0x0A])) t = run_state (execute_and_report io f x cs) t1" for f x
    unfolding split using same [of f x] 0(1) 1(3) [of f x] by simp
  then show ?thesis using 1(1,2) by blast
qed

theorem typed_command_executed_witness:
  "\<exists>t1. input_line t1 = str ''ls'' \<and>
    run_state (type_keys crtc_io (\<lambda>line. State_Monad.return (if line = str ''ls'' then 1 else 0)) (State_Monad.return 7) (str ''ls'' @ [0x0A])) demo_tty =
    run_state (execute_and_report crtc_io (\<lambda>line. State_Monad.return (if line = str ''ls'' then 1 else 0)) (State_Monad.return 7) (str ''ls'')) t1"
proof -
  have "input_len demo_tty = 0" "str ''ls'' \<noteq> []" "length (str ''ls'') < 256" "\<forall>c \<in> set (str ''ls''). 32 \<le> c \<and> c < 127"
    by (simp_all add: demo_tty_def)
  from typed_command_executed [OF text_display.crtc_axioms demo_console_ok this] show ?thesis by blast
qed

end
