(* ===== verification/Sound.thy ===== *)
theory Sound imports Ioport begin

text \<open>
  The timer and the speaker: \<open>lib/c/system/pit.c\<close>, \<open>lib/c/driver/sound.c\<close> and the start-up tune of
  \<open>src/kernel/kernel32.c\<close>, over the port instructions. The locale \<open>pit\<close> states the documented
  protocol of the timer chip and of the speaker's control port.
\<close>

section \<open>The code\<close>

abbreviation (input) "PIT_FREQUENCY \<equiv> (1193182 :: u32)"

definition port_in :: "'d machine \<Rightarrow> u16 \<Rightarrow> ('d, u8) state" where
  "port_in io p = State (inb io p)"

definition port_out :: "'d machine \<Rightarrow> u16 \<Rightarrow> u8 \<Rightarrow> ('d, unit) state" where
  "port_out io p x = modify (outb io p x)"

definition port_wait :: "'d machine \<Rightarrow> ('d, unit) state" where
  "port_wait io = modify (io_wait io)"

definition pit_get_divisor :: "u32 \<Rightarrow> u16" where
  "pit_get_divisor hz = ucast (PIT_FREQUENCY div hz)"

definition counter_select :: "u8 \<Rightarrow> u8 option" where
  "counter_select counter =
     (if counter = 0 then Some 0x00 else if counter = 1 then Some 0x40 else if counter = 2 then Some 0x80 else None)"

definition pit_set_frequency :: "'d machine \<Rightarrow> u8 \<Rightarrow> u32 \<Rightarrow> ('d, unit) state" where
  "pit_set_frequency io counter hz =
     (if hz = 0 \<or> PIT_FREQUENCY < hz then State_Monad.return ()
      else let divisor = pit_get_divisor hz in
        case counter_select counter of
          None \<Rightarrow> State_Monad.return ()
        | Some sel \<Rightarrow> do {
            _ \<leftarrow> port_out io 0x43 (sel OR 0x30 OR 0x00 OR 0x06);
            _ \<leftarrow> port_out io (0x40 + ucast counter) (ucast (divisor AND 0xFF));
            _ \<leftarrow> port_wait io;
            _ \<leftarrow> port_out io (0x40 + ucast counter) (ucast (drop_bit 8 divisor AND 0xFF));
            port_wait io
          })"

definition pit_init :: "'d machine \<Rightarrow> u32 \<Rightarrow> ('d, unit) state" where
  "pit_init io hz = pit_set_frequency io 0 hz"

definition sound_init :: "'d machine \<Rightarrow> ('d, unit) state" where
  "sound_init io = pit_init io 0"

definition sound_play :: "'d machine \<Rightarrow> u16 \<Rightarrow> ('d, unit) state" where
  "sound_play io frequency =
     (if frequency = 0 \<or> 20000 < frequency then State_Monad.return ()
      else do {
        _ \<leftarrow> pit_set_frequency io 2 (ucast frequency);
        control \<leftarrow> port_in io 0x61;
        port_out io 0x61 (control OR 0x01 OR 0x02)
      })"

definition sound_stop :: "'d machine \<Rightarrow> ('d, unit) state" where
  "sound_stop io = do {
     control \<leftarrow> port_in io 0x61;
     port_out io 0x61 (control AND NOT (0x01 OR 0x02))
   }"

primrec wait_loop :: "'d machine \<Rightarrow> nat \<Rightarrow> ('d, unit) state" where
  "wait_loop io 0 = State_Monad.return ()"
| "wait_loop io (Suc n) = do { _ \<leftarrow> port_wait io; wait_loop io n }"

definition sound_beep :: "'d machine \<Rightarrow> u16 \<Rightarrow> u16 \<Rightarrow> ('d, unit) state" where
  "sound_beep io frequency duration = do {
     _ \<leftarrow> sound_play io frequency;
     _ \<leftarrow> wait_loop io (unat duration * 1000);
     sound_stop io
   }"

definition play_note_smooth :: "'d machine \<Rightarrow> u16 \<Rightarrow> u16 \<Rightarrow> ('d, unit) state" where
  "play_note_smooth io freq duration_ms = do {
     _ \<leftarrow> if freq = 0 then sound_stop io else sound_play io freq;
     _ \<leftarrow> wait_loop io (unat duration_ms * 10000);
     _ \<leftarrow> sound_stop io;
     wait_loop io 20000
   }"

text \<open>The four notes C6, E6, G6 and C7 with their durations.\<close>

text \<open>The notes C1 to B8 of \<open>sound.h\<close>, an octave a line.\<close>

definition note_table :: "u16 list" where
  "note_table = [33, 35, 37, 39, 41, 44, 46, 49, 52, 55, 58, 62,
     65, 69, 73, 78, 82, 87, 93, 98, 104, 110, 117, 123,
     131, 139, 147, 156, 165, 175, 185, 196, 208, 220, 233, 247,
     261, 277, 294, 311, 330, 349, 370, 392, 415, 440, 466, 494,
     523, 554, 587, 622, 659, 698, 740, 784, 830, 880, 932, 988,
     1047, 1109, 1175, 1245, 1319, 1397, 1480, 1568, 1661, 1760, 1865, 1976,
     2093, 2217, 2349, 2489, 2637, 2794, 2960, 3136, 3322, 3520, 3729, 3951,
     4186, 4435, 4699, 4978, 5274, 5588, 5920, 6272, 6645, 7040, 7459, 7902]"

definition startup_sound :: "(u16 \<times> u16) list" where
  "startup_sound = [(1047, 150), (1319, 150), (1568, 150), (2093, 200)]"

definition play_startup_sound :: "'d machine \<Rightarrow> ('d, unit) state" where
  "play_startup_sound io = fold (\<lambda>(note, duration) m. m \<bind> (\<lambda>_. play_note_smooth io note duration))
     startup_sound (State_Monad.return ())"

section \<open>The timer chip and the speaker\<close>

lemma unat_up16: "unat (ucast (f :: u16) :: u32) = unat f"
  using unsigned_less [of f, where 'a = nat] by (simp add: unsigned_ucast_eq take_bit_nat_eq_self)

text \<open>
  The state of one counter: the reload value, and the low byte when it was written and the high
  byte is still to come; and the speaker control port.
\<close>

record pit =
  reload :: "u8 \<Rightarrow> u16"
  low_byte :: "u8 \<Rightarrow> u8 option"
  control_port :: u8

definition pit_data :: "u8 \<Rightarrow> u8 \<Rightarrow> pit \<Rightarrow> pit" where
  "pit_data c x p = (case low_byte p c of
     None \<Rightarrow> p\<lparr>low_byte := (low_byte p)(c := Some x)\<rparr>
   | Some l \<Rightarrow> p\<lparr>low_byte := (low_byte p)(c := None),
       reload := (reload p)(c := push_bit 8 (ucast x) OR ucast l)\<rparr>)"

locale pit =
  fixes io :: "'d machine" and view :: "'d \<Rightarrow> pit"
  assumes command: "counter_select c = Some sel \<Longrightarrow>
      view (outb io 0x43 (sel OR 0x36) d) = (view d)\<lparr>low_byte := (low_byte (view d))(c := None)\<rparr>"
    and data: "c < 3 \<Longrightarrow> view (outb io (0x40 + ucast c) x d) = pit_data c x (view d)"
    and read_control: "inb io 0x61 d = (x, d') \<Longrightarrow> x = control_port (view d) \<and> view d' = view d"
    and write_control: "view (outb io 0x61 x d) = (view d)\<lparr>control_port := x\<rparr>"
    and wait: "view (io_wait io d) = view d"
begin

lemma divisor_bytes:
  fixes divisor :: u16
  shows "push_bit 8 (ucast (ucast (drop_bit 8 divisor AND 0xFF) :: u8)) OR ucast (ucast (divisor AND 0xFF) :: u8) = divisor"
proof -
  have 1: "(0xFF :: u16) = mask 8" by (simp add: mask_eq_exp_minus_1)
  show ?thesis unfolding 1 by (rule bit_word_eqI) (auto simp: bit_simps simp del: mask_numeral)
qed

lemma set_frequency_two:
  assumes "hz \<noteq> 0" and "hz \<le> PIT_FREQUENCY"
  shows "\<exists>d'. run_state (pit_set_frequency io 2 hz) d = ((), d') \<and>
    reload (view d') 2 = pit_get_divisor hz \<and> control_port (view d') = control_port (view d)"
proof -
  have c: "(2 :: u8) < 3" "counter_select 2 = Some 0x80" by (simp_all add: counter_select_def)
  show ?thesis
    using assms command [OF c(2)] data [OF c(1)] wait divisor_bytes
    by (auto simp: pit_set_frequency_def c(2) Let_def port_out_def port_wait_def pit_data_def)
qed

lemma view_wait_loop: "\<exists>d'. run_state (wait_loop io n) d = ((), d') \<and> view d' = view d"
proof (induction n arbitrary: d)
  case (Suc n)
  from Suc.IH [of "io_wait io d"] show ?case by (auto simp: port_wait_def wait)
qed simp

lemma play_run:
  assumes "frequency \<noteq> 0" and "frequency \<le> 20000"
  shows "\<exists>d'. run_state (sound_play io frequency) d = ((), d') \<and>
    reload (view d') 2 = pit_get_divisor (ucast frequency) \<and> control_port (view d') = control_port (view d) OR 0x03"
proof -
  note f = unat_up16
  have "unat frequency \<noteq> 0" "unat frequency \<le> 20000" using assms by (simp_all add: unat_eq_0 word_le_nat_alt)
  then have "(ucast frequency :: u32) \<noteq> 0" "(ucast frequency :: u32) \<le> PIT_FREQUENCY"
    using f [of frequency] by (simp_all add: word_le_nat_alt unat_eq_0 [symmetric])
  from set_frequency_two [OF this, of d] obtain d1 where
    1: "run_state (pit_set_frequency io 2 (ucast frequency)) d = ((), d1)" "reload (view d1) 2 = pit_get_divisor (ucast frequency)"
      "control_port (view d1) = control_port (view d)" by blast
  obtain x d2 where 2: "inb io 0x61 d1 = (x, d2)" by force
  from read_control [OF 2] 1(3) have 3: "x = control_port (view d)" "view d2 = view d1" by simp_all
  have "(x OR 0x01) OR 0x02 = x OR 0x03" by (simp add: or.assoc)
  with assms 1 2 3 show ?thesis
    by (simp add: sound_play_def port_in_def port_out_def write_control linorder_not_less [symmetric])
qed

lemma stop_run:
  "\<exists>d'. run_state (sound_stop io) d = ((), d') \<and> view d' = (view d)\<lparr>control_port := control_port (view d) AND NOT 0x03\<rparr>"
proof -
  obtain x d1 where 1: "inb io 0x61 d = (x, d1)" by force
  from read_control [OF 1] 1 show ?thesis
    by (simp add: sound_stop_def port_in_def port_out_def write_control)
qed

end

definition pit_io :: "pit machine" where
  "pit_io = \<lparr>inb = (\<lambda>p d. (if p = 0x61 then control_port d else 0, d)),
     outb = (\<lambda>p x d. if p = 0x43 then d\<lparr>low_byte := (low_byte d)(drop_bit 6 x := None)\<rparr>
       else if 0x40 \<le> p \<and> p < 0x43 then pit_data (ucast (p - 0x40)) x d
       else if p = 0x61 then d\<lparr>control_port := x\<rparr> else d),
     inw = (\<lambda>_ d. (0, d)), outw = (\<lambda>_ _ d. d), uninit = (\<lambda>_. replicate 512 0)\<rparr>"

interpretation timer: pit pit_io "\<lambda>d. d"
proof unfold_locales
  fix c x :: u8 and d :: pit
  assume "c < 3"
  then have "unat c < 3" by (simp add: word_less_nat_alt)
  then have "unat c \<in> {0, 1, 2}" by auto
  moreover have "c = of_nat (unat c)" by simp
  ultimately have "c \<in> of_nat ` {0, 1, 2}" by blast
  then have "c = 0 \<or> c = 1 \<or> c = 2" by simp
  then show "outb pit_io (0x40 + ucast c) x d = pit_data c x d" by (auto simp: pit_io_def)
qed (auto simp: pit_io_def counter_select_def io_wait_def split: if_splits)

section \<open>Properties\<close>

lemma divisor_value:
  assumes "0 < unat hz"
  shows "unat (pit_get_divisor hz) = (1193182 div unat hz) mod 65536"
  by (simp add: pit_get_divisor_def unsigned_ucast_eq take_bit_eq_mod unat_div_distrib)

text \<open>
  C25. The speaker plays the tone: \<open>sound_play\<close> programs the timer with the divisor of its frequency,
  cut to 16 bits, which is exact from 19 Hz up, and turns the speaker on; \<open>sound_beep\<close> leaves
  it off, and neither touches the other bits of the control port.
\<close>

theorem sound_tone:
  assumes "pit io view" and "f \<noteq> 0" and "f \<le> 20000"
  shows "(\<exists>d'. run_state (sound_play io f) d = ((), d') \<and>
      unat (reload (view d') 2) = (1193182 div unat f) mod 65536 \<and>
      (19 \<le> f \<longrightarrow> unat (reload (view d') 2) = 1193182 div unat f) \<and>
      control_port (view d') = control_port (view d) OR 0x03) \<and>
    (\<exists>d'. run_state (sound_beep io f ms) d = ((), d') \<and> control_port (view d') = control_port (view d) AND NOT 0x03)"
proof -
  note f = unat_up16
  have pos: "0 < unat f" using assms(2) by (simp add: unat_gt_0)
  obtain d1 where 1: "run_state (sound_play io f) d = ((), d1)" "reload (view d1) 2 = pit_get_divisor (ucast f)"
    "control_port (view d1) = control_port (view d) OR 0x03"
    using pit.play_run [OF assms] by blast
  have 2: "unat (reload (view d1) 2) = (1193182 div unat f) mod 65536"
    using divisor_value [of "ucast f"] pos f 1(2) by simp
  have 3: "1193182 div unat f < 65536" if "19 \<le> f"
  proof -
    have "19 \<le> unat f" using that by (simp add: word_le_nat_alt)
    then have "1193182 div unat f \<le> 1193182 div 19" by (rule div_le_mono2 [rotated]) simp
    then show ?thesis by simp
  qed
  obtain d2 where 4: "run_state (wait_loop io (unat ms * 1000)) d1 = ((), d2)" "view d2 = view d1"
    using pit.view_wait_loop [OF assms(1)] by blast
  obtain d3 where 5: "run_state (sound_stop io) d2 = ((), d3)"
    "view d3 = (view d2)\<lparr>control_port := control_port (view d2) AND NOT 0x03\<rparr>"
    using pit.stop_run [OF assms(1)] by blast
  have "(control_port (view d) OR 0x03) AND NOT 0x03 = control_port (view d) AND NOT 0x03"
    by (rule bit_word_eqI) (auto simp: bit_simps)
  then have "run_state (sound_beep io f ms) d = ((), d3) \<and> control_port (view d3) = control_port (view d) AND NOT 0x03"
    using 1 4 5 by (simp add: sound_beep_def)
  with 1 2 3 show ?thesis by auto
qed

theorem sound_tone_witness:
  "\<exists>d'. run_state (sound_play pit_io 440) \<lparr>reload = (\<lambda>_. 0), low_byte = (\<lambda>_. None), control_port = 0x10\<rparr> = ((), d') \<and>
    reload d' 2 = 2711 \<and> control_port d' = 0x13"
proof -
  obtain d' where "run_state (sound_play pit_io 440) \<lparr>reload = (\<lambda>_. 0), low_byte = (\<lambda>_. None), control_port = 0x10\<rparr> = ((), d')"
    "unat (reload d' 2) = 2711" "control_port d' = 0x13"
    using sound_tone [OF timer.pit_axioms, of 440 "\<lparr>reload = (\<lambda>_. 0), low_byte = (\<lambda>_. None), control_port = 0x10\<rparr>"] by auto
  moreover from this(2) have "reload d' 2 = 2711" by (metis of_nat_numeral of_nat_unat ucast_id)
  ultimately show ?thesis by blast
qed

text \<open>
  The pitch of the note \<open>k\<close> is \<open>440 * 2 powr ((k - 45) / 12)\<close> Hz, and a counter reloaded with \<open>r\<close> makes a
  tone of \<open>1193182 / r\<close> Hz. Twelfth powers make the comparisons exact: whether \<open>n\<close> is the integer
  nearest the pitch, and whether the tone is less than two percent away from it, which is less than
  half the way to the next note.
\<close>

definition nearest_pitch :: "nat \<Rightarrow> nat \<Rightarrow> bool" where
  "nearest_pitch k n \<longleftrightarrow> (2 * int n - 1) ^ 12 * 2 ^ 45 < 880 ^ 12 * 2 ^ k \<and> 880 ^ 12 * 2 ^ k < (2 * int n + 1) ^ 12 * 2 ^ 45"

definition in_tune :: "nat \<Rightarrow> nat \<Rightarrow> bool" where
  "in_tune k r \<longleftrightarrow> (98 * 440 * int r) ^ 12 * 2 ^ k < (100 * 1193182) ^ 12 * 2 ^ 45 \<and>
     (100 * 1193182) ^ 12 * 2 ^ 45 < (102 * 440 * int r) ^ 12 * 2 ^ k"

definition note_ok :: "nat \<Rightarrow> nat \<Rightarrow> nat \<Rightarrow> bool" where
  "note_ok k n r \<longleftrightarrow> 19 \<le> n \<and> n \<le> 20000 \<and> in_tune k r \<and> (nearest_pitch k n \<longleftrightarrow> \<not> (k = 18 \<or> k = 36 \<or> k = 56))"

primrec notes_ok_from :: "nat \<Rightarrow> (nat \<times> nat) list \<Rightarrow> bool" where
  "notes_ok_from k [] = True"
| "notes_ok_from k (p # ps) = (note_ok k (fst p) (snd p) \<and> notes_ok_from (k + 1) ps)"

lemma notes_ok_fromD: "notes_ok_from k ps \<Longrightarrow> i < length ps \<Longrightarrow> note_ok (k + i) (fst (ps ! i)) (snd (ps ! i))"
proof (induction ps arbitrary: k i)
  case (Cons p ps)
  then show ?case using Cons.IH [of "k + 1" "i - 1"] by (cases i) simp_all
qed simp

lemma note_values: "map unat note_table =
    [33, 35, 37, 39, 41, 44, 46, 49, 52, 55, 58, 62,
     65, 69, 73, 78, 82, 87, 93, 98, 104, 110, 117, 123,
     131, 139, 147, 156, 165, 175, 185, 196, 208, 220, 233, 247,
     261, 277, 294, 311, 330, 349, 370, 392, 415, 440, 466, 494,
     523, 554, 587, 622, 659, 698, 740, 784, 830, 880, 932, 988,
     1047, 1109, 1175, 1245, 1319, 1397, 1480, 1568, 1661, 1760, 1865, 1976,
     2093, 2217, 2349, 2489, 2637, 2794, 2960, 3136, 3322, 3520, 3729, 3951,
     4186, 4435, 4699, 4978, 5274, 5588, 5920, 6272, 6645, 7040, 7459, 7902]"
  by (simp add: note_table_def)

lemma note_reloads: "map (\<lambda>n. 1193182 div unat n) note_table =
    [36157, 34090, 32248, 30594, 29102, 27117, 25938, 24350, 22945, 21694, 20572, 19244,
     18356, 17292, 16344, 15297, 14551, 13714, 12829, 12175, 11472, 10847, 10198, 9700,
     9108, 8584, 8116, 7648, 7231, 6818, 6449, 6087, 5736, 5423, 5120, 4830,
     4571, 4307, 4058, 3836, 3615, 3418, 3224, 3043, 2875, 2711, 2560, 2415,
     2281, 2153, 2032, 1918, 1810, 1709, 1612, 1521, 1437, 1355, 1280, 1207,
     1139, 1075, 1015, 958, 904, 854, 806, 760, 718, 677, 639, 603,
     570, 538, 507, 479, 452, 427, 403, 380, 359, 338, 319, 301,
     285, 269, 253, 239, 226, 213, 201, 190, 179, 169, 159, 150]"
  by (simp add: note_table_def)

text \<open>The table is checked note by note; the powers are computed by the rules for numerals alone.\<close>

lemmas numeral_rules = numeral_plus_one one_add_one power_numeral power_0 power_one_right mult_1_right Num.pow.simps Num.sqr.simps
  of_nat_numeral diff_numeral_special sub_num_simps dbl_simps Num.BitM.simps
  mult_num_simps add_num_simps numeral_times_numeral less_num_simps le_num_simps rel_simps arith_simps simp_thms

lemma notes_ok_table: "notes_ok_from 0 (zip (map unat note_table) (map (\<lambda>n. 1193182 div unat n) note_table))"
  unfolding note_values note_reloads
  by (simp only: zip_Cons_Cons zip_Nil notes_ok_from.simps fst_conv snd_conv add_0 one_add_one one_plus_numeral
      numeral_plus_one add_num_simps simp_thms, intro conjI)
     (simp_all only: note_ok_def in_tune_def nearest_pitch_def numeral_rules)

lemma length_note_table [simp]: "length note_table = 96"
  by (simp add: note_table_def)

lemma notes_ok: "k < 96 \<Longrightarrow> note_ok k (unat (note_table ! k)) (1193182 div unat (note_table ! k))"
  using notes_ok_fromD [OF notes_ok_table, of k] by simp

text \<open>
  C26. The notes are in tune: on a conforming timer, \<open>sound_play\<close> of the note \<open>k\<close> of \<open>sound.h\<close>
  (\<open>0\<close> is C1, \<open>45\<close> is A4) turns the speaker on with a tone that is less than two percent away
  from the equal-tempered pitch of the note, so no other note is nearer. The number in the table is the
  integer nearest that pitch, except for F sharp 2, C4 and G sharp 5.
\<close>

theorem notes_in_tune:
  assumes "pit io view" and "k < 96"
  shows "(\<exists>d'. run_state (sound_play io (note_table ! k)) d = ((), d') \<and> in_tune k (unat (reload (view d') 2)) \<and>
      control_port (view d') = control_port (view d) OR 0x03) \<and>
    (nearest_pitch k (unat (note_table ! k)) \<longleftrightarrow> k \<notin> {18, 36, 56})"
proof -
  let ?f = "note_table ! k"
  have n: "19 \<le> unat ?f" "unat ?f \<le> 20000" "in_tune k (1193182 div unat ?f)" "nearest_pitch k (unat ?f) \<longleftrightarrow> k \<notin> {18, 36, 56}"
    using notes_ok [OF assms(2)] unfolding note_ok_def by blast+
  have "?f \<noteq> 0" "?f \<le> 20000" using n(1,2) by (auto simp: word_le_nat_alt)
  from pit.play_run [OF assms(1) this] obtain d1 where
    1: "run_state (sound_play io ?f) d = ((), d1)" "reload (view d1) 2 = pit_get_divisor (ucast ?f)"
      "control_port (view d1) = control_port (view d) OR 0x03" by blast
  have "1193182 div unat ?f \<le> 1193182 div 19" by (rule div_le_mono2 [OF _ n(1)]) simp
  then have "unat (reload (view d1) 2) = 1193182 div unat ?f"
    using divisor_value [of "ucast ?f"] n(1) unat_up16 [of ?f] 1(2) by simp
  then show ?thesis using 1 n by auto
qed

theorem notes_in_tune_witness:
  "\<exists>d'. run_state (sound_play pit_io 261) \<lparr>reload = (\<lambda>_. 0), low_byte = (\<lambda>_. None), control_port = 0\<rparr> = ((), d') \<and>
    in_tune 36 (unat (reload d' 2)) \<and> control_port d' = 0x03"
proof -
  have "note_table ! 36 = 261" by (simp add: note_table_def)
  with notes_in_tune [OF timer.pit_axioms, of 36 "\<lparr>reload = (\<lambda>_. 0), low_byte = (\<lambda>_. None), control_port = 0\<rparr>"]
  show ?thesis by simp
qed

end
