(* ===== verification/Process.thy ===== *)
theory Process imports FsApi Kmalloc begin

text \<open>
  Processes, \<open>lib/c/kernel/process.c\<close>: loading an application from the file system into the kernel
  heap, its arguments, the call of its entry point and the clean-up. The state is the file system,
  the heap and the static variables; a process structure lives in the heap memory, at the offsets
  of \<open>process_t\<close>. An operation is a function to an option, and \<open>None\<close> means that it does not return:
  the allocator and the string functions can run for ever on a damaged memory. The program that
  an image contains is an argument \<open>run\<close>, which is given the entry point, \<open>argc\<close> and \<open>argv\<close>
  and the whole state. Paths are the strings the pointers lead to; diagnostics are left out.
\<close>

section \<open>State\<close>

record 'd kernel =
  fsys :: "'d fs"
  heap :: kheap
  last_exit_code :: u32
  current_process :: u32
  process_list :: u32
  next_pid :: u32

type_synonym ('d, 'r) kop = "'d kernel \<Rightarrow> ('r \<times> 'd kernel) option"

text \<open>Calls of the file system and the allocator, and access to the memory.\<close>

definition fs_call :: "('d fs, 'r) state \<Rightarrow> 'd kernel \<Rightarrow> 'r \<times> 'd kernel" where
  "fs_call m k = (case run_state m (fsys k) of (r, f) \<Rightarrow> (r, k\<lparr>fsys := f\<rparr>))"

definition alloc :: "u32 \<Rightarrow> ('d, u32) kop" where
  "alloc sz k = map_option (\<lambda>(p, h). (p, k\<lparr>heap := h\<rparr>)) (kmalloc (heap k) sz)"

definition release :: "u32 \<Rightarrow> 'd kernel \<Rightarrow> 'd kernel" where
  "release p k = k\<lparr>heap := kfree (heap k) p\<rparr>"

abbreviation (input) "mem_of k \<equiv> km (heap k)"

definition with_mem :: "(mem \<Rightarrow> mem) \<Rightarrow> 'd kernel \<Rightarrow> 'd kernel" where
  "with_mem f k = k\<lparr>heap := (heap k)\<lparr>km := f (mem_of k)\<rparr>\<rparr>"

definition peek32 :: "'d kernel \<Rightarrow> u32 \<Rightarrow> u32" where
  "peek32 k p = rd_mem32 (mem_of k) p"

definition poke32 :: "u32 \<Rightarrow> u32 \<Rightarrow> 'd kernel \<Rightarrow> 'd kernel" where
  "poke32 p w = with_mem (wr_mem32 p w)"

text \<open>The offsets of \<open>process_t\<close> (i386, natural alignment) and its size.\<close>

abbreviation (input) "P_PID \<equiv> (0 :: u32)"
abbreviation (input) "P_BINARY_BASE \<equiv> (4 :: u32)"
abbreviation (input) "P_BINARY_SIZE \<equiv> (8 :: u32)"
abbreviation (input) "P_ENTRY_POINT \<equiv> (12 :: u32)"
abbreviation (input) "P_STACK_PTR \<equiv> (16 :: u32)"
abbreviation (input) "P_STACK_START \<equiv> (20 :: u32)"
abbreviation (input) "P_STACK_SIZE \<equiv> (24 :: u32)"
abbreviation (input) "P_ARGC \<equiv> (28 :: u32)"
abbreviation (input) "P_ARGV_KERNEL \<equiv> (36 :: u32)"
abbreviation (input) "P_IS_RUNNING \<equiv> (44 :: u32)"
abbreviation (input) "P_NEXT \<equiv> (304 :: u32)"
abbreviation (input) "PROCESS_SIZE \<equiv> (308 :: u32)"

abbreviation (input) "PROCESS_BASE_ADDR \<equiv> (0x10000000 :: u32)"
abbreviation (input) "PROCESS_STACK_TOP \<equiv> (0xC0000000 :: u32)"
abbreviation (input) "PROCESS_STACK_SIZE \<equiv> (0x200000 :: u32)"
abbreviation (input) "MAX_PROCESS_SIZE \<equiv> (0x20000000 :: u32)"

record ipob_header =
  h_magic :: bytes
  entry_offset :: u32
  total_size :: u32
  h_reserved :: u32

definition ipob_magic :: bytes where
  "ipob_magic = str ''IPO_B'' @ [0, 0, 0]"

definition header_at :: "mem \<Rightarrow> u32 \<Rightarrow> ipob_header" where
  "header_at m p = \<lparr>h_magic = load m p 8, entry_offset = rd_mem32 m (p + 8), total_size = rd_mem32 m (p + 12),
     h_reserved = rd_mem32 m (p + 16)\<rparr>"

definition process_init :: "'d kernel \<Rightarrow> 'd kernel" where
  "process_init k = k\<lparr>heap := kmalloc_init (heap k)\<rparr>"

section \<open>Memory of a process and its arguments\<close>

text \<open>The address and the protection that are asked for play no role.\<close>

definition allocate_process_memory :: "u32 \<Rightarrow> u32 \<Rightarrow> u32 \<Rightarrow> ('d, u32) kop" where
  "allocate_process_memory base sz prot_flags k = do {
     (addr, k1) \<leftarrow> alloc sz k;
     if addr = 0 then Some (0, k1) else Some (addr, k1)
   }"

definition free_process_memory :: "u32 \<Rightarrow> u32 \<Rightarrow> 'd kernel \<Rightarrow> 'd kernel" where
  "free_process_memory addr sz k = release addr k"

definition copy_string_to_process :: "u32 \<Rightarrow> u32 \<Rightarrow> ('d, u32) kop" where
  "copy_string_to_process proc s k =
     (if s = 0 then Some (0, k)
      else do {
        n \<leftarrow> strlen (mem_of k) s;
        let len = n + 1;
        let k1 = poke32 (proc + P_STACK_PTR) (peek32 k (proc + P_STACK_PTR) - len) k;
        let k2 = poke32 (proc + P_STACK_PTR) (peek32 k1 (proc + P_STACK_PTR) AND NOT 0x3) k1;
        let k3 = with_mem (\<lambda>m. fst (memcpy m (peek32 k2 (proc + P_STACK_PTR)) s len)) k2;
        Some (peek32 k3 (proc + P_STACK_PTR), k3)
      })"

text \<open>
  The loop over the arguments: the number of arguments copied, or \<open>None\<close> inside when the memory
  for one of them is missing. The array the pointers are read from is a list.
\<close>

primrec copy_args :: "u32 list \<Rightarrow> u32 \<Rightarrow> nat \<Rightarrow> nat \<Rightarrow> ('d, nat option) kop" where
  "copy_args argv argv_array i 0 k = Some (Some i, k)"
| "copy_args argv argv_array i (Suc n) k =
     (if argv ! i = 0 then Some (Some i, k)
      else do {
        len \<leftarrow> strlen (mem_of k) (argv ! i);
        (arg_copy, k1) \<leftarrow> alloc (len + 1) k;
        if arg_copy = 0 then Some (None, k1)
        else do {
          (m, _) \<leftarrow> strcpy (mem_of k1) arg_copy (argv ! i);
          copy_args argv argv_array (Suc i) n
            (poke32 (argv_array + 4 * of_nat i) arg_copy (with_mem (\<lambda>_. m) k1))
        }
      })"

text \<open>The result and what \<open>argv_addr_out\<close> receives; it is 0 before the call.\<close>

definition setup_arguments :: "u32 \<Rightarrow> int \<Rightarrow> u32 list option \<Rightarrow> ('d, int \<times> u32) kop" where
  "setup_arguments proc argc argv k =
     (if argc = 0 \<or> argv = None then Some ((0, 0), poke32 (proc + P_ARGC) 0 k)
      else do {
        let argc = (if 64 < argc then 64 else argc);
        (argv_array, k1) \<leftarrow> alloc (word_of_int (argc + 1) * 4) k;
        if argv_array = 0 then Some ((-1, 0), k1)
        else do {
          (copied, k2) \<leftarrow> copy_args (the argv) argv_array 0 (nat argc) k1;
          (case copied of
             None \<Rightarrow> Some ((-1, 0), k2)
           | Some c \<Rightarrow>
               let argc' = (if argc < 0 then argc else int c);
                   k3 = poke32 (argv_array + 4 * word_of_int argc') 0 k2;
                   k4 = poke32 (proc + P_ARGC) (word_of_int argc') k3;
                   k5 = poke32 (proc + P_ARGV_KERNEL) argv_array k4
               in Some ((0, argv_array), k5))
        }
      })"

definition setup_stack :: "u32 \<Rightarrow> 'd kernel \<Rightarrow> u32 \<times> 'd kernel" where
  "setup_stack proc k =
     (let k1 = poke32 (proc + P_STACK_PTR) PROCESS_STACK_TOP k;
          k2 = poke32 (proc + P_STACK_START) (PROCESS_STACK_TOP - PROCESS_STACK_SIZE) k1;
          k3 = poke32 (proc + P_STACK_SIZE) PROCESS_STACK_SIZE k2
      in (PROCESS_STACK_TOP, k3))"

section \<open>Loading\<close>

definition read_file :: "'d machine \<Rightarrow> int \<Rightarrow> u32 \<Rightarrow> u32 \<Rightarrow> u32 \<Rightarrow> 'd kernel \<Rightarrow> int \<times> 'd kernel" where
  "read_file io fd buffer sz offset k =
     (case fs_call (ipo_fs_read io fd (load (mem_of k) buffer (unat sz)) sz offset) k of
        ((r, data), k1) \<Rightarrow> (r, with_mem (store buffer data) k1))"

text \<open>The loop reads until the size is reached; it could in principle go round for ever.\<close>

partial_function (option) load_chunks ::
    "'d machine \<Rightarrow> int \<Rightarrow> u32 \<Rightarrow> u32 \<Rightarrow> u32 \<Rightarrow> 'd kernel \<Rightarrow> (bool \<times> 'd kernel) option" where
  "load_chunks io fd binary_image sz total_read k =
     (if total_read < sz then
        let left = sz - total_read;
            to_read = (if 0x10000 < left then 0x10000 else left);
            r = read_file io fd (binary_image + total_read) to_read total_read k
        in if fst r \<le> 0 then Some (False, snd r)
           else load_chunks io fd binary_image sz (total_read + word_of_int (fst r)) (snd r)
      else Some (True, k))"

text \<open>The negative result, or the header, the image and the size.\<close>

definition check_image :: "u32 \<Rightarrow> u32 \<Rightarrow> 'd kernel \<Rightarrow> (int + ipob_header \<times> u32 \<times> u32) \<times> 'd kernel" where
  "check_image binary_image sz k =
     (let hdr = header_at (mem_of k) binary_image in
      if h_magic hdr \<noteq> ipob_magic then (Inl (-2), release binary_image k)
      else if sz \<le> entry_offset hdr then (Inl (-2), release binary_image k)
      else (Inr (hdr, binary_image, sz), k))"

definition load_ipob_file :: "'d machine \<Rightarrow> bytes \<Rightarrow> ('d, int + ipob_header \<times> u32 \<times> u32) kop" where
  "load_ipob_file io path k = (case fs_call (ipo_fs_stat io (Some path)) k of
     (None, k1) \<Rightarrow> Some (Inl (-1), k1)
   | (Some st, k1) \<Rightarrow>
       if mode st AND IPO_INODE_TYPE_DIR \<noteq> 0 then Some (Inl (-1), k1)
       else if i_size st < 20 then Some (Inl (-1), k1)
       else if MAX_PROCESS_SIZE < i_size st then Some (Inl (-1), k1)
       else do {
         (binary_image, k2) \<leftarrow> alloc (i_size st) k1;
         if binary_image = 0 then Some (Inl (-3), k2)
         else (case fs_call (ipo_fs_open io (Some path)) k2 of (fd, k3) \<Rightarrow>
           if fd < 0 then Some (Inl (-4), release binary_image k3)
           else do {
             (ok, k4) \<leftarrow> load_chunks io fd binary_image (i_size st) 0 k3;
             if \<not> ok then Some (Inl (-4), release binary_image k4)
             else Some (check_image binary_image (i_size st) k4)
           })
       })"

definition relocate_binary :: "u32 \<Rightarrow> u32 \<Rightarrow> u32 \<Rightarrow> int" where
  "relocate_binary binary load_address sz = 0"

section \<open>Clean-up\<close>

text \<open>The number of arguments is read again in every round.\<close>

partial_function (option) free_args :: "u32 \<Rightarrow> u32 \<Rightarrow> int \<Rightarrow> 'd kernel \<Rightarrow> 'd kernel option" where
  "free_args proc argv_array i k =
     (if i < sint (peek32 k (proc + P_ARGC)) then
        let p = peek32 k (argv_array + 4 * word_of_int i)
        in free_args proc argv_array (i + 1) (if p \<noteq> 0 then release p k else k)
      else Some k)"

partial_function (option) find_previous :: "u32 \<Rightarrow> 'd kernel \<Rightarrow> u32 \<Rightarrow> u32 option" where
  "find_previous proc k prev =
     (if prev \<noteq> 0 \<and> peek32 k (prev + P_NEXT) \<noteq> proc then find_previous proc k (peek32 k (prev + P_NEXT)) else Some prev)"

definition process_cleanup :: "u32 \<Rightarrow> 'd kernel \<Rightarrow> 'd kernel option" where
  "process_cleanup proc k =
     (if proc = 0 then Some k
      else do {
        let base = peek32 k (proc + P_BINARY_BASE);
        let k1 = (if base \<noteq> 0 then free_process_memory base (peek32 k (proc + P_BINARY_SIZE)) k else k);
        let argv_array = peek32 k1 (proc + P_ARGV_KERNEL);
        k2 \<leftarrow> (if argv_array \<noteq> 0 then map_option (release argv_array) (free_args proc argv_array 0 k1) else Some k1);
        k3 \<leftarrow> (if process_list k2 = proc then Some (k2\<lparr>process_list := peek32 k2 (proc + P_NEXT)\<rparr>)
               else do {
                 prev \<leftarrow> find_previous proc k2 (process_list k2);
                 Some (if prev \<noteq> 0 then poke32 (prev + P_NEXT) (peek32 k2 (proc + P_NEXT)) k2 else k2)
               });
        Some (release proc k3)
      })"

section \<open>Execution\<close>

text \<open>A zeroed structure with its process identifier, at the head of the list.\<close>

definition new_process :: "u32 \<Rightarrow> 'd kernel \<Rightarrow> 'd kernel" where
  "new_process proc k =
     (let k1 = with_mem (\<lambda>m. fst (memset m proc 0 PROCESS_SIZE)) k;
          k2 = poke32 (proc + P_PID) (next_pid k1) (k1\<lparr>next_pid := next_pid k1 + 1\<rparr>);
          k3 = with_mem (\<lambda>m. m(proc + P_IS_RUNNING := 1)) k2;
          k4 = poke32 (proc + P_NEXT) (process_list k3) k3
      in k4\<lparr>process_list := proc\<rparr>)"

text \<open>The steps once the image is in place: arguments, stack, the call and the clean-up.\<close>

definition start_process :: "(u32 \<Rightarrow> u32 \<Rightarrow> u32 \<Rightarrow> ('d, u32) kop) \<Rightarrow> u32 \<Rightarrow> int \<Rightarrow> u32 list option \<Rightarrow> ('d, int) kop" where
  "start_process run proc argc argv k = do {
     ((r, argv_addr), k1) \<leftarrow> setup_arguments proc argc argv k;
     if r < 0 then do { k2 \<leftarrow> process_cleanup proc k1; Some (-7, k2) }
     else do {
       let k2 = snd (setup_stack proc k1);
       let old_process = current_process k2;
       let k3 = k2\<lparr>current_process := proc\<rparr>;
       (exit_code, k4) \<leftarrow> run (peek32 k3 (proc + P_ENTRY_POINT)) (peek32 k3 (proc + P_ARGC)) argv_addr k3;
       let k5 = k4\<lparr>last_exit_code := exit_code, current_process := old_process\<rparr>;
       k6 \<leftarrow> process_cleanup proc k5;
       Some (sint (peek32 k6 (proc + P_PID)), k6)
     }
   }"

definition process_exec :: "'d machine \<Rightarrow> (u32 \<Rightarrow> u32 \<Rightarrow> u32 \<Rightarrow> ('d, u32) kop) \<Rightarrow> bytes option \<Rightarrow> int \<Rightarrow> u32 list option \<Rightarrow>
    ('d, int) kop" where
  "process_exec io run path argc argv k = (case path of
     None \<Rightarrow> Some (-1, k)
   | Some p \<Rightarrow> do {
       (proc, k0) \<leftarrow> alloc PROCESS_SIZE k;
       if proc = 0 then Some (-2, k0)
       else do {
         (loaded, k1) \<leftarrow> load_ipob_file io p (new_process proc k0);
         (case loaded of
            Inl e \<Rightarrow> do { k2 \<leftarrow> process_cleanup proc k1; Some (e, k2) }
          | Inr (hdr, binary_image, sz) \<Rightarrow> do {
              (target, k2) \<leftarrow> allocate_process_memory PROCESS_BASE_ADDR sz 7 k1;
              if target = 0 then do { k3 \<leftarrow> process_cleanup proc (release binary_image k2); Some (-5, k3) }
              else do {
                let k3 = with_mem (\<lambda>m. fst (memcpy m target binary_image sz)) k2;
                if relocate_binary target PROCESS_BASE_ADDR sz < 0 then do {
                  k4 \<leftarrow> process_cleanup proc (release binary_image (free_process_memory target sz k3));
                  Some (-6, k4)
                }
                else do {
                  let k4 = release binary_image k3;
                  let k5 = poke32 (proc + P_BINARY_BASE) target k4;
                  let k6 = poke32 (proc + P_BINARY_SIZE) sz k5;
                  let k7 = poke32 (proc + P_ENTRY_POINT) (target + entry_offset hdr) k6;
                  let k8 = poke32 (proc + P_STACK_PTR) PROCESS_STACK_TOP k7;
                  start_process run proc argc argv k8
                }
              }
            })
       }
     })"

definition process_exec_simple :: "'d machine \<Rightarrow> (u32 \<Rightarrow> u32 \<Rightarrow> u32 \<Rightarrow> ('d, u32) kop) \<Rightarrow> bytes option \<Rightarrow> ('d, int) kop" where
  "process_exec_simple io run path = process_exec io run path 0 None"

definition process_get_exit_code :: "'d kernel \<Rightarrow> int" where
  "process_get_exit_code k = sint (last_exit_code k)"

definition process_get_current :: "'d kernel \<Rightarrow> u32" where
  "process_get_current k = current_process k"

end
