(* ===== verification/Shell.thy ===== *)
theory Shell imports Process Stdio begin

text \<open>
  Command lines: \<open>resolve_command_path\<close> and \<open>try_execute_command\<close> of \<open>lib/c/kernel/terminal.c\<close>, which
  find an application, split the line into arguments and execute it, and the start-up script of
  \<open>lib/c/kernel/autorun.c\<close>. A line is the bytes before its NUL. Local arrays are lists, except the
  name of the command, whose address is handed to the application: \<open>name_buf\<close> is where the stack
  holds it. Diagnostics are left out.
\<close>

section \<open>Finding the application\<close>

definition is_blank :: "u8 \<Rightarrow> bool" where
  "is_blank c \<longleftrightarrow> c = 0x20 \<or> c = 0x09"

definition print_path :: "bytes \<Rightarrow> bytes \<Rightarrow> bytes" where
  "print_path fmt cmd = (case snprintf (Some (replicate 256 0)) 256 fmt [ArgPtr (Some cmd)] of
     Some (_, Some b) \<Rightarrow> c_str b | _ \<Rightarrow> [])"

definition path_to_check :: "bytes \<Rightarrow> bytes" where
  "path_to_check cmd =
     (if hd cmd = slash then take 255 cmd
      else if hd cmd = of_char CHR ''.'' \<or> slash \<in> set cmd then print_path (str ''/%s'') cmd
      else print_path (str ''/app/%s'') cmd)"

text \<open>What \<open>strncpy\<close> stores from a string: the characters and the padding.\<close>

definition padded :: "nat \<Rightarrow> bytes \<Rightarrow> bytes" where
  "padded n s = take n s @ replicate (n - length s) 0"

definition resolve_command_path :: "'d machine \<Rightarrow> bytes \<Rightarrow> ('d, u32) kop" where
  "resolve_command_path io cmd k =
     (if cmd = [] then Some (0, k)
      else do {
        (path, k1) \<leftarrow> alloc 256 k;
        if path = 0 then Some (0, k1)
        else do {
          let canonical = fs_canonicalize (Some (path_to_check cmd)) 256;
          (case fs_call (path_resolve io canonical) k1 of
             (None, k2) \<Rightarrow> Some (0, release path k2)
           | (Some inode, k2) \<Rightarrow>
               (case fs_call (ipo_fs_stat io canonical) k2 of
                  (None, k3) \<Rightarrow> Some (0, release path k3)
                | (Some st, k3) \<Rightarrow>
                    if mode st AND IPO_INODE_TYPE_DIR = 0
                    then Some (path, with_mem (store path (padded 255 (the canonical) @ [0])) k3)
                    else Some (0, release path k3)))
        }
      })"

section \<open>Arguments\<close>

text \<open>A loop that copies characters into an array of \<open>n + 1\<close>: the copy and the rest of the string.\<close>

fun copy_while :: "(u8 \<Rightarrow> bool) \<Rightarrow> nat \<Rightarrow> bytes \<Rightarrow> bytes \<times> bytes" where
  "copy_while p 0 cs = ([], cs)"
| "copy_while p (Suc n) [] = ([], [])"
| "copy_while p (Suc n) (c # cs) =
     (if p c then (case copy_while p n cs of (a, rest) \<Rightarrow> (c # a, rest)) else ([], c # cs))"

definition end_argument :: "u32 list \<Rightarrow> bytes \<Rightarrow> ('d, u32 list) kop" where
  "end_argument argv arg k = do {
     (arg_copy, k1) \<leftarrow> alloc (of_nat (length arg + 1)) k;
     if arg_copy \<noteq> 0 then Some (argv @ [arg_copy], with_mem (store arg_copy (arg @ [0])) k1)
     else Some (argv, k1)
   }"

text \<open>The loop over the characters: the array of pointers so far, \<open>arg_buf\<close> and \<open>in_arg\<close>.\<close>

fun parse_args :: "bytes \<Rightarrow> u32 list \<Rightarrow> bytes \<Rightarrow> bool \<Rightarrow> ('d, u32 list \<times> bytes \<times> bool) kop" where
  "parse_args [] argv arg in_arg k = Some ((argv, arg, in_arg), k)"
| "parse_args (c # cs) argv arg in_arg k =
     (if length argv < 31 then
        (if is_blank c then
           (if in_arg then do {
              (argv', k1) \<leftarrow> end_argument argv arg k;
              parse_args cs argv' [] False k1
            }
            else parse_args cs argv arg in_arg k)
         else if length arg < 511 then parse_args cs argv (arg @ [c]) True k
         else parse_args cs argv arg in_arg k)
      else Some ((argv, arg, in_arg), k))"

text \<open>\<open>argv\<close> without the final \<open>NULL\<close>.\<close>

definition command_argv :: "u32 \<Rightarrow> bytes \<Rightarrow> ('d, u32 list) kop" where
  "command_argv name_buf cmdline k = do {
     ((argv, arg, in_arg), k1) \<leftarrow> parse_args (dropWhile is_blank cmdline) [name_buf] [] False k;
     if in_arg then end_argument argv arg k1 else Some (argv, k1)
   }"

definition try_execute_command :: "'d machine \<Rightarrow> (u32 \<Rightarrow> u32 \<Rightarrow> u32 \<Rightarrow> ('d, u32) kop) \<Rightarrow> u32 \<Rightarrow> bytes option \<Rightarrow>
    ('d, int) kop" where
  "try_execute_command io run name_buf cmdline k = (case cmdline of
     None \<Rightarrow> Some (-1, k)
   | Some line \<Rightarrow>
       let start = dropWhile is_blank line in
       if start = [] then Some (0, k)
       else (case copy_while (\<lambda>c. \<not> is_blank c) 127 start of (name, rest) \<Rightarrow> do {
         let k0 = with_mem (store name_buf (name @ [0])) k;
         (path, k1) \<leftarrow> resolve_command_path io name k0;
         if path = 0 then Some (0, k1)
         else do {
           (argv, k2) \<leftarrow> command_argv name_buf rest k1;
           (result, k3) \<leftarrow> process_exec io run (Some (c_str (load (mem_of k2) path 256)))
              (int (length argv)) (Some (argv @ [0])) k2;
           Some (result, release path (fold release (tl argv) k3))
         }
       }))"

section \<open>The start-up script\<close>

definition extract_token :: "bytes \<Rightarrow> u32 \<Rightarrow> bytes" where
  "extract_token line max_len =
     fst (copy_while (\<lambda>c. \<not> is_blank c \<and> c \<noteq> 0x0A) (unat (max_len - 1)) (dropWhile is_blank line))"

definition skip_newline :: "bytes \<Rightarrow> bytes" where
  "skip_newline cs = (case cs of [] \<Rightarrow> [] | c # cs' \<Rightarrow> if c = 0x0A then cs' else cs)"

definition skip_line :: "bytes \<Rightarrow> bytes" where
  "skip_line line = skip_newline (dropWhile (\<lambda>c. c \<noteq> 0x0A) line)"

lemma length_skip_newline: "length (skip_newline cs) \<le> length cs"
  by (simp add: skip_newline_def split: list.split)

lemma length_copy_while: "copy_while p n cs = (a, rest) \<Longrightarrow> length cs = length a + length rest"
  by (induction p n cs arbitrary: a rest rule: copy_while.induct) (auto split: if_splits prod.splits)

lemma copy_while_some: "copy_while p n (c # cs) = (a, rest) \<Longrightarrow> p c \<Longrightarrow> 0 < n \<Longrightarrow> a \<noteq> []"
  by (cases n) (auto split: prod.splits)

lemma skip_line_shorter: "c \<noteq> 0x0A \<Longrightarrow> length (skip_line (c # cs)) < Suc (length cs)"
  using length_skip_newline [of "dropWhile (\<lambda>c. c \<noteq> 0x0A) cs"] length_dropWhile_le [of "\<lambda>c. c \<noteq> 0x0A" cs]
  by (simp add: skip_line_def)

text \<open>The loop over the script; \<open>exec\<close> executes a line.\<close>

function run_lines :: "(bytes \<Rightarrow> 'k \<Rightarrow> (int \<times> 'k) option) \<Rightarrow> bytes \<Rightarrow> 'k \<Rightarrow> 'k option" where
  "run_lines exec ptr k =
     (let p = dropWhile is_blank ptr in
      if p = [] then Some k
      else if hd p = of_char CHR ''#'' then run_lines exec (skip_line p) k
      else if hd p = 0x0A then run_lines exec (tl p) k
      else (case copy_while (\<lambda>c. c \<noteq> 0x0A) 511 p of (full_line, rest) \<Rightarrow> do {
        (exec_result, k1) \<leftarrow> exec full_line k;
        run_lines exec (skip_newline rest) k1
      }))"
  by pat_completeness auto

lemma run_lines_progress:
  assumes "dropWhile is_blank ptr \<noteq> []"
  shows "length (tl (dropWhile is_blank ptr)) < length ptr"
    and "hd (dropWhile is_blank ptr) = of_char CHR ''#'' \<Longrightarrow> length (skip_line (dropWhile is_blank ptr)) < length ptr"
    and "hd (dropWhile is_blank ptr) \<noteq> 0x0A \<Longrightarrow>
      (line, rest) = copy_while (\<lambda>c. c \<noteq> 0x0A) 511 (dropWhile is_blank ptr) \<Longrightarrow> length (skip_newline rest) < length ptr"
proof -
  obtain c cs where p: "dropWhile is_blank ptr = c # cs" using assms by (cases "dropWhile is_blank ptr") auto
  have le: "Suc (length cs) \<le> length ptr" using length_dropWhile_le [of is_blank ptr] p by simp
  then show "length (tl (dropWhile is_blank ptr)) < length ptr" by (simp add: p)
  show "length (skip_line (dropWhile is_blank ptr)) < length ptr" if "hd (dropWhile is_blank ptr) = of_char CHR ''#''"
    using skip_line_shorter [of c cs] that le by (simp add: p)
  show "length (skip_newline rest) < length ptr"
    if "hd (dropWhile is_blank ptr) \<noteq> 0x0A" "(line, rest) = copy_while (\<lambda>c. c \<noteq> 0x0A) 511 (dropWhile is_blank ptr)"
  proof -
    have c: "c \<noteq> 0x0A" using that(1) p by simp
    have e: "copy_while (\<lambda>c. c \<noteq> 0x0A) 511 (c # cs) = (line, rest)" using that(2) p by simp
    have "line \<noteq> []" by (rule copy_while_some [OF e]) (use c in simp_all)
    then have "length rest < length (c # cs)" using length_copy_while [OF e] by simp
    then show ?thesis using length_skip_newline [of rest] le by simp
  qed
qed

termination run_lines
  by (relation "measure (\<lambda>(exec, ptr, k). length ptr)") (auto simp del: dropWhile_eq_Nil_conv length_tl intro: run_lines_progress)

abbreviation (input) "AUTORUN_BUF_SIZE \<equiv> (0xA00000 :: u32)"

definition autorun_init :: "'d machine \<Rightarrow> (u32 \<Rightarrow> u32 \<Rightarrow> u32 \<Rightarrow> ('d, u32) kop) \<Rightarrow> u32 \<Rightarrow> 'd kernel \<Rightarrow> 'd kernel option" where
  "autorun_init io run name_buf k =
     (let path = Some (str ''/autorun'') in
      case fs_call (ipo_fs_stat io path) k of
        (None, k1) \<Rightarrow> Some k1
      | (Some st, k1) \<Rightarrow>
          if mode st AND IPO_INODE_TYPE_DIR \<noteq> 0 then Some k1
          else if AUTORUN_BUF_SIZE < i_size st then Some k1
          else do {
            (autorun_buf, k2) \<leftarrow> alloc (i_size st + 1) k1;
            if autorun_buf = 0 then Some k2
            else (case fs_call (ipo_fs_open io path) k2 of (fd, k3) \<Rightarrow>
              if fd < 0 then Some (release autorun_buf k3)
              else (case read_file io fd autorun_buf (i_size st) 0 k3 of (bytes_read, k4) \<Rightarrow>
                if bytes_read < sint (i_size st) then Some (release autorun_buf k4)
                else do {
                  let k5 = with_mem (\<lambda>m. m(autorun_buf + i_size st := 0)) k4;
                  let script = c_str (load (mem_of k5) autorun_buf (unat (i_size st + 1)));
                  k6 \<leftarrow> run_lines (\<lambda>line. try_execute_command io run name_buf (Some line)) script k5;
                  Some (release autorun_buf k6)
                }))
          })"

end
