(* ===== verification/Boot.thy ===== *)
theory Boot imports Shell Sound begin

text \<open>
  The start of the kernel, \<open>src/kernel/kernel32.c\<close>: the steps of \<open>kmain\<close> before its loop that act on
  the state of the kernel, in their order. The two calls that draw the screen act on the state of the
  terminal and are left out.
\<close>

abbreviation (input) "FS_START_LBA \<equiv> (2048 :: u32)"

definition ensure_fs_mounted :: "'d machine \<Rightarrow> ('d fs, unit) state" where
  "ensure_fs_mounted io = do {
     mounted \<leftarrow> ipo_fs_mount io FS_START_LBA;
     if mounted then State_Monad.return ()
     else do {
       formatted \<leftarrow> ipo_fs_format io FS_START_LBA 10000 1024;
       if \<not> formatted then State_Monad.return ()
       else do { _ \<leftarrow> ipo_fs_mount io FS_START_LBA; State_Monad.return () }
     }
   }"

text \<open>The timer and the speaker share the ports with the drive.\<close>

definition hw_call :: "('d, 'a) state \<Rightarrow> 'd kernel \<Rightarrow> 'd kernel" where
  "hw_call m k = k\<lparr>fsys := (fsys k)\<lparr>ata := (ata (fsys k))\<lparr>hw := snd (run_state m (hw (ata (fsys k))))\<rparr>\<rparr>\<rparr>"

definition kmain :: "'d machine \<Rightarrow> (u32 \<Rightarrow> u32 \<Rightarrow> u32 \<Rightarrow> ('d, u32) kop) \<Rightarrow> u32 \<Rightarrow> 'd kernel \<Rightarrow> 'd kernel option" where
  "kmain io run name_buf k =
     (let k1 = process_init k;
          k2 = hw_call (sound_init io) k1;
          k3 = snd (fs_call (on_ata (ata_init io)) k2);
          k4 = snd (fs_call ipo_fs_init k3);
          k5 = snd (fs_call (ensure_fs_mounted io) k4);
          k6 = process_init k5;
          k7 = hw_call (play_startup_sound io) k6
      in autorun_init io run name_buf k7)"

end
