(* ===== verification/Script.thy ===== *)
theory Script imports Shell begin

text \<open>
  The loops of the shell that copy text, and the start-up script as the list of its commands.
\<close>

declare run_lines.simps [simp del]

section \<open>Copying loops\<close>

lemma copy_while_eq: "copy_while P n cs = (take n (takeWhile P cs), drop (length (take n (takeWhile P cs))) cs)"
  by (induction P n cs rule: copy_while.induct) auto

lemma take_drop_until:
  assumes "\<And>x. x \<in> set us \<Longrightarrow> x \<noteq> a"
  shows "takeWhile (\<lambda>c. c \<noteq> a) (us @ dropWhile (\<lambda>c. c \<noteq> a) p) = us"
    and "dropWhile (\<lambda>c. c \<noteq> a) (us @ dropWhile (\<lambda>c. c \<noteq> a) p) = dropWhile (\<lambda>c. c \<noteq> a) p"
proof -
  have "takeWhile (\<lambda>c. c \<noteq> a) (dropWhile (\<lambda>c. c \<noteq> a) p) = []" by (induction p) auto
  then show "takeWhile (\<lambda>c. c \<noteq> a) (us @ dropWhile (\<lambda>c. c \<noteq> a) p) = us"
    "dropWhile (\<lambda>c. c \<noteq> a) (us @ dropWhile (\<lambda>c. c \<noteq> a) p) = dropWhile (\<lambda>c. c \<noteq> a) p"
    using assms by (induction us) (auto simp: dropWhile_idem)
qed

lemma drop_takeWhile: "drop (length (takeWhile P cs)) cs = dropWhile P cs"
  by (simp add: dropWhile_eq_drop)

section \<open>The start-up script\<close>

abbreviation (input) "newline \<equiv> (0x0A :: u8)"

text \<open>
  The commands of one line: none for an empty line and a comment, and a line that does not fit the
  buffer of 512 bytes is cut into several.
\<close>

function line_commands :: "bytes \<Rightarrow> bytes list" where
  "line_commands l =
     (let p = dropWhile is_blank l in
      if p = [] \<or> hd p = of_char CHR ''#'' then [] else take 511 p # line_commands (drop 511 p))"
  by pat_completeness auto
termination
proof (relation "measure length")
  fix l x
  assume x: "x = dropWhile is_blank l" "\<not> (x = [] \<or> hd x = of_char CHR ''#'')"
  then have "length (drop 511 x) < length x" by (cases x) auto
  also have "\<dots> \<le> length l" unfolding x by (rule length_dropWhile_le)
  finally show "(drop 511 x, l) \<in> measure length" by simp
qed simp

declare line_commands.simps [simp del]

definition script_commands :: "bytes \<Rightarrow> bytes list" where
  "script_commands script = concat (map line_commands (split_on newline script))"

fun execute_all :: "(bytes \<Rightarrow> 'k \<Rightarrow> (int \<times> 'k) option) \<Rightarrow> bytes list \<Rightarrow> 'k \<Rightarrow> 'k option" where
  "execute_all exec [] k = Some k"
| "execute_all exec (l # ls) k = do { (r, k1) \<leftarrow> exec l k; execute_all exec ls k1 }"

lemma line_commands_Nil [simp]: "line_commands [] = []"
  by (simp add: line_commands.simps)

lemma line_commands_comment: "line_commands (of_char CHR ''#'' # l) = []"
  by (subst line_commands.simps) (simp add: is_blank_def)

lemmas line_commands_35 = line_commands_comment [simplified]

lemma script_commands_Nil [simp]: "script_commands [] = []"
  by (simp add: script_commands_def)

lemma script_commands_first:
  "script_commands cs = line_commands (takeWhile (\<lambda>c. c \<noteq> newline) cs) @ script_commands (skip_line cs)"
proof (cases "dropWhile (\<lambda>c. c \<noteq> newline) cs")
  case Nil
  then have "split_on newline cs = [takeWhile (\<lambda>c. c \<noteq> newline) cs]"
    by (subst split_on_first) (simp only: Nil list.case)
  moreover have "skip_line cs = []" unfolding skip_line_def skip_newline_def Nil by simp
  ultimately show ?thesis by (simp add: script_commands_def)
next
  case (Cons x r)
  then have "x = newline" using hd_dropWhile [of "\<lambda>c. c \<noteq> newline" cs] by simp
  moreover have "split_on newline cs = takeWhile (\<lambda>c. c \<noteq> newline) cs # split_on newline r"
    using Cons by (subst split_on_first) simp
  ultimately show ?thesis using Cons by (simp add: script_commands_def skip_line_def skip_newline_def)
qed

lemma line_commands_blanks: "line_commands (dropWhile is_blank l) = line_commands l"
  unfolding line_commands.simps [of "dropWhile is_blank l"] line_commands.simps [of l] dropWhile_idem ..

lemma blank_newline: "is_blank c \<Longrightarrow> c \<noteq> newline"
  by (auto simp: is_blank_def)

lemma script_commands_blanks: "script_commands (dropWhile is_blank cs) = script_commands cs"
proof -
  have 1: "takeWhile (\<lambda>c. c \<noteq> newline) (dropWhile is_blank cs) = dropWhile is_blank (takeWhile (\<lambda>c. c \<noteq> newline) cs)"
    by (induction cs) (auto dest: blank_newline)
  have 2: "skip_line (dropWhile is_blank cs) = skip_line cs"
    unfolding skip_line_def by (induction cs) (auto dest: blank_newline)
  show ?thesis
    unfolding script_commands_first [of "dropWhile is_blank cs"] script_commands_first [of cs] 1 2 line_commands_blanks ..
qed

lemma script_commands_line:
  assumes "p \<noteq> []" and "\<not> is_blank (hd p)" and "hd p \<noteq> of_char CHR ''#''" and "hd p \<noteq> newline"
    and "copy_while (\<lambda>c. c \<noteq> newline) 511 p = (line, rest)"
  shows "script_commands p = line # script_commands (skip_newline rest)"
proof -
  let ?t = "takeWhile (\<lambda>c. c \<noteq> newline) p"
  obtain c cs where p: "p = c # cs" using assms(1) by (cases p) auto
  have t: "?t = c # takeWhile (\<lambda>c. c \<noteq> newline) cs" using assms(4) by (simp add: p)
  have l: "line = take 511 ?t" "rest = drop (length line) p" using assms(5) unfolding copy_while_eq by blast+
  have c: "line_commands ?t = line # line_commands (drop 511 ?t)"
    using assms(2,3) unfolding l(1) t by (subst line_commands.simps) (simp add: p)
  show ?thesis
  proof (cases "length ?t \<le> 511")
    case True
    then have "line = ?t" "drop 511 ?t = []" using l(1) by simp_all
    moreover from this have "skip_newline rest = skip_line p" unfolding l(2) skip_line_def by (simp add: drop_takeWhile)
    ultimately show ?thesis using c script_commands_first [of p] by simp
  next
    case False
    have r: "rest = drop 511 ?t @ dropWhile (\<lambda>c. c \<noteq> newline) p"
    proof -
      have "drop 511 (us @ vs) = drop 511 us @ vs" if "\<not> length us \<le> 511" for us vs :: bytes using that by simp
      from this [OF False, of "dropWhile (\<lambda>c. c \<noteq> newline) p"] show ?thesis using False l by simp
    qed
    have ne: "x \<noteq> newline" if "x \<in> set (drop 511 ?t)" for x using set_takeWhileD [OF in_set_dropD [OF that]] by simp
    have "drop 511 ?t \<noteq> []" using False by simp
    then have "skip_newline rest = rest" unfolding r using ne by (cases "drop 511 ?t") (auto simp: skip_newline_def)
    moreover have "takeWhile (\<lambda>c. c \<noteq> newline) rest = drop 511 ?t" "dropWhile (\<lambda>c. c \<noteq> newline) rest = dropWhile (\<lambda>c. c \<noteq> newline) p"
      unfolding r by (rule take_drop_until, rule ne, assumption)+
    ultimately show ?thesis
      using c script_commands_first [of p] script_commands_first [of rest] by (simp add: skip_line_def)
  qed
qed

lemma run_lines_commands: "run_lines exec script k = execute_all exec (script_commands script) k"
proof (induction exec script k rule: run_lines.induct)
  case (1 exec ptr k)
  let ?p = "dropWhile is_blank ptr"
  have s: "script_commands ptr = script_commands ?p" by (rule script_commands_blanks [symmetric])
  consider "?p = []" | "?p \<noteq> []" "hd ?p = of_char CHR ''#''" | "?p \<noteq> []" "hd ?p \<noteq> of_char CHR ''#''" "hd ?p = newline"
    | "?p \<noteq> []" "hd ?p \<noteq> of_char CHR ''#''" "hd ?p \<noteq> newline" by blast
  then show ?case
  proof cases
    case 1
    then have "script_commands ptr = []" unfolding s by (simp only: script_commands_Nil)
    then show ?thesis using 1 by (subst run_lines.simps) (simp add: Let_def)
  next
    case 2
    then have "script_commands ?p = script_commands (skip_line ?p)"
      using script_commands_first [of ?p] by (cases ?p) (simp_all add: line_commands_35)
    moreover have "run_lines exec ptr k = run_lines exec (skip_line ?p) k"
      by (subst run_lines.simps) (simp only: Let_def 2 if_True if_False simp_thms)
    ultimately show ?thesis unfolding s using 1(1) [OF refl 2] by simp
  next
    case 3
    then have "script_commands ?p = script_commands (tl ?p)"
      using script_commands_first [of ?p] by (cases ?p) (simp_all add: skip_line_def skip_newline_def)
    moreover have "run_lines exec ptr k = run_lines exec (tl ?p) k"
      by (subst run_lines.simps) (use 3 in \<open>simp only: Let_def if_True if_False simp_thms\<close>)
    ultimately show ?thesis unfolding s using 1(2) [OF refl 3] by simp
  next
    case 4
    obtain line rest where l: "copy_while (\<lambda>c. c \<noteq> newline) 511 ?p = (line, rest)" by fastforce
    have "\<not> is_blank (hd ?p)" using 4(1) by (rule hd_dropWhile)
    from script_commands_line [OF 4(1) this 4(2,3) l] have c: "script_commands ?p = line # script_commands (skip_newline rest)" .
    have ih: "run_lines exec (skip_newline rest) k1 = execute_all exec (script_commands (skip_newline rest)) k1"
      if "exec line k = Some (r, k1)" for r k1
      using 1(3) [OF refl 4 l [symmetric] that refl] .
    have "run_lines exec ptr k = do { (r, k1) \<leftarrow> exec line k; run_lines exec (skip_newline rest) k1 }"
      by (subst run_lines.simps) (simp only: Let_def 4 l if_False prod.case)
    then show ?thesis
      unfolding s c using ih by (cases "exec line k") auto
  qed
qed

text \<open>
  C35. The start-up script is executed as the list of its commands: for every text and every way to
  execute a line, the loop over the script runs the commands of its lines one after the other,
  where comments and empty lines have none, blanks before a command are skipped and a line longer
  than 511 bytes is executed as several commands. It ends when every command returns.
\<close>

theorem script_executed: "run_lines exec script k = execute_all exec (script_commands script) k"
  by (rule run_lines_commands)

end
