(* ===== verification/HeapView.thy ===== *)
theory HeapView imports KmallocProps begin

text \<open>
  The heap as a list of cells, each with its flags and the bytes it holds: what allocation, stores
  and \<open>kfree\<close> do to that list. A client of the allocator works with the list, and its pointers
  are the places of the cells.
\<close>

datatype cell = Cell (c_free: bool) (c_freed: bool) (c_data: bytes)

definition span :: "cell list \<Rightarrow> nat" where
  "span cs = sum_list (map (\<lambda>c. length (c_data c) + 12) cs)"

lemma span_simps [simp]: "span [] = 0" "span (c # cs) = length (c_data c) + 12 + span cs" "span (xs @ ys) = span xs + span ys"
  by (simp_all add: span_def)

definition cell_block :: "cell \<Rightarrow> kblock" where
  "cell_block c = KBlock (of_nat (length (c_data c) + 12)) (c_free c) (c_freed c)"

lemma cell_block_simps [simp]:
  "bsize (cell_block c) = of_nat (length (c_data c)) + 12" "bfree (cell_block c) = c_free c" "bfreed (cell_block c) = c_freed c"
  by (simp_all add: cell_block_def)

text \<open>The bytes of the cells that are in use.\<close>

fun payloads :: "mem \<Rightarrow> u32 \<Rightarrow> cell list \<Rightarrow> bool" where
  "payloads m p [] = True"
| "payloads m p (c # cs) = ((c_free c \<or> load m (p + 12) (length (c_data c)) = c_data c) \<and>
     payloads m (p + of_nat (length (c_data c) + 12)) cs)"

definition heap_is :: "kheap \<Rightarrow> cell list \<Rightarrow> bool" where
  "heap_is h cs \<longleftrightarrow> heap_ok h (map cell_block cs) \<and> payloads (km h) (heap_start h) cs \<and> span cs < 2 ^ 26"

text \<open>The pointer to the data of the cell behind \<open>xs\<close>, and memory that is not in the heap.\<close>

definition place :: "cell list \<Rightarrow> u32" where
  "place xs = KMALLOC_HEAP_START + of_nat (span xs) + 12"

definition outside :: "u32 \<Rightarrow> bool" where
  "outside a \<longleftrightarrow> 2 ^ 26 \<le> unat (a - KMALLOC_HEAP_START)"

lemma unat_cell: "length (c_data c) + 12 < 2 ^ 32 \<Longrightarrow> unat (bsize (cell_block c)) = length (c_data c) + 12"
  using unat_of_nat [of "length (c_data c) + 12", where ?'a = 32] by simp

lemma total_cells: "span cs < 2 ^ 32 \<Longrightarrow> total (map cell_block cs) = span cs"
proof (induction cs)
  case (Cons c cs)
  then show ?case using unat_cell [of c] by simp
qed simp

lemma payloads_append: "payloads m p (xs @ ys) \<longleftrightarrow> payloads m p xs \<and> payloads m (p + of_nat (span xs)) ys"
  by (induction xs arbitrary: p) (auto simp: add.assoc)

lemma payloads_cong:
  assumes "payloads m p cs" and "\<And>o'. o' < span cs \<Longrightarrow> m' (p + of_nat o') = m (p + of_nat o')"
  shows "payloads m' p cs"
  using assms
proof (induction cs arbitrary: p)
  case (Cons c cs)
  have "m' (p + 12 + of_nat i) = m (p + 12 + of_nat i)" if "i < length (c_data c)" for i
    using Cons.prems(2) [of "12 + i"] that by (simp add: add.assoc)
  then have "load m' (p + 12) (length (c_data c)) = load m (p + 12) (length (c_data c))" by (auto simp: load_def)
  moreover have "m' (p + of_nat (length (c_data c) + 12) + of_nat o') = m (p + of_nat (length (c_data c) + 12) + of_nat o')"
    if "o' < span cs" for o'
    using Cons.prems(2) [of "length (c_data c) + 12 + o'"] that by (simp add: add.assoc)
  ultimately show ?case using Cons by simp
qed simp

lemma payloads_splice:
  assumes "payloads m p xs" and "payloads m' (p + of_nat (span xs)) zs"
    and "payloads m (p + of_nat (span xs) + of_nat (span zs)) ys"
    and w: "within (p + of_nat (span xs)) (span zs) m m'" and "span xs + span zs + span ys < 2 ^ 32"
  shows "payloads m' p (xs @ zs @ ys)"
proof -
  have "payloads m' p xs"
    by (rule payloads_cong [OF assms(1)]) (rule before_region [OF w], use assms(5) in auto)
  moreover have "payloads m' (p + of_nat (span xs) + of_nat (span zs)) ys"
    by (rule payloads_cong [OF assms(3)]) (rule after_region [OF w], use assms(5) in auto)
  ultimately show ?thesis using assms(2) by (simp add: payloads_append)
qed

lemma within_outside:
  assumes "within (KMALLOC_HEAP_START + of_nat t) n m m'" and "t + n \<le> 2 ^ 26" and "outside a"
  shows "m' a = m a"
proof -
  define x where "x = a - KMALLOC_HEAP_START"
  have x: "2 ^ 26 \<le> unat x" using assms(3) by (simp add: outside_def x_def)
  have t: "unat (of_nat t :: u32) = t" using assms(2) by (subst unat_of_nat) simp
  have "unat (x - of_nat t) = unat x - t" using x assms(2) t by (subst unat_sub) (auto simp: word_le_nat_alt)
  then have "n \<le> unat (a - (KMALLOC_HEAP_START + of_nat t))" using x assms(2) by (simp add: x_def algebra_simps)
  then show ?thesis using assms(1) by (simp add: within_def)
qed

text \<open>Nothing that is free fits.\<close>

definition none_fits :: "nat \<Rightarrow> cell list \<Rightarrow> bool" where
  "none_fits n cs \<longleftrightarrow> (\<forall>c \<in> set cs. c_free c \<longrightarrow> length (c_data c) < n)"

lemma none_fits_append [simp]: "none_fits n (xs @ ys) \<longleftrightarrow> none_fits n xs \<and> none_fits n ys"
  by (auto simp: none_fits_def)

lemma fits_not:
  assumes "c_free c \<longrightarrow> length (c_data c) < unat sz" and "length (c_data c) < 2 ^ 26" and "unat sz < 2 ^ 26"
  shows "\<not> (bfree (cell_block c) \<and> sz + 12 \<le> bsize (cell_block c))"
proof -
  have "unat (sz + 12) = unat sz + 12" using assms(3) by (simp add: unat_word_ariths)
  moreover have "unat (bsize (cell_block c)) = length (c_data c) + 12" using assms(2) by (intro unat_cell) simp
  ultimately show ?thesis using assms(1) by (auto simp: word_le_nat_alt)
qed

lemma first_fit_none:
  assumes "none_fits (unat sz) cs" and "span cs < 2 ^ 26" and "unat sz < 2 ^ 26"
  shows "first_fit (sz + 12) (map cell_block cs) = None"
  using assms(1,2)
proof (induction cs)
  case (Cons c cs)
  then show ?case using fits_not [of c sz] assms(3) by (simp add: none_fits_def)
qed simp

lemma first_fit_cell:
  assumes "none_fits (unat sz) xs" and "span xs < 2 ^ 26" and "unat sz < 2 ^ 26"
    and "c_free c" and "unat sz \<le> length (c_data c)" and "length (c_data c) < 2 ^ 26"
  shows "first_fit (sz + 12) (map cell_block (xs @ c # ys)) = Some (map cell_block xs, cell_block c, map cell_block ys)"
  using assms(1,2)
proof (induction xs)
  case Nil
  have "unat (sz + 12) = unat sz + 12" using assms(3) by (simp add: unat_word_ariths)
  moreover have "unat (bsize (cell_block c)) = length (c_data c) + 12" using assms(6) by (intro unat_cell) simp
  ultimately show ?case using assms(4,5) by (simp add: word_le_nat_alt)
next
  case (Cons x xs)
  then show ?case using fits_not [of x sz] assms(3) by (simp add: none_fits_def)
qed

section \<open>Allocation\<close>

lemma heap_isD:
  assumes "heap_is h cs"
  shows "heap_ok h (map cell_block cs)" and "payloads (km h) KMALLOC_HEAP_START cs" and "heap_start h = KMALLOC_HEAP_START"
    and "span cs < 2 ^ 26" and "total (map cell_block cs) = span cs" and "unat (heap_used h) = span cs"
    and "tiles (km h) KMALLOC_HEAP_START (map cell_block cs)"
proof -
  show 1: "heap_ok h (map cell_block cs)" and 2: "span cs < 2 ^ 26" using assms by (simp_all add: heap_is_def)
  show 3: "total (map cell_block cs) = span cs" using 2 by (intro total_cells) simp
  show st: "heap_start h = KMALLOC_HEAP_START" using 1 by (simp add: heap_ok_def)
  show "payloads (km h) KMALLOC_HEAP_START cs" using assms st by (simp add: heap_is_def)
  show "unat (heap_used h) = span cs" using 1 3 by (simp add: heap_ok_def)
  show "tiles (km h) KMALLOC_HEAP_START (map cell_block cs)" using 1 st by (simp add: heap_ok_def)
qed

definition only_inside :: "kheap \<Rightarrow> kheap \<Rightarrow> bool" where
  "only_inside h h' \<longleftrightarrow> (\<forall>a. outside a \<longrightarrow> km h' a = km h a)"

lemma only_inside_trans: "only_inside h h' \<Longrightarrow> only_inside h' h'' \<Longrightarrow> only_inside h h''"
  by (simp add: only_inside_def)

lemma alloc_end:
  assumes H: "heap_is h cs" and sz: "0 < unat sz" and no: "none_fits (unat sz) cs" and room: "span cs + unat sz + 12 < 2 ^ 26"
  shows "\<exists>h'. kmalloc h sz = Some (place cs, h') \<and> heap_is h' (cs @ [Cell False False (replicate (unat sz) 0)]) \<and>
    only_inside h h'"
proof -
  note D = heap_isD [OF H]
  have sz': "0 < sz" "unat sz < 2 ^ 26" using sz room by (simp_all add: word_less_nat_alt)
  have ff: "first_fit (sz + 12) (map cell_block cs) = None" by (rule first_fit_none [OF no D(4) sz'(2)])
  have room': "unat (heap_used h) + unat sz + 12 < 2 ^ 26" using room D(6) by simp
  from kmalloc_fresh [OF D(1) sz' ff room', unfolded D(3,5)] obtain m where m:
    "kmalloc h sz = Some (place cs, h\<lparr>heap_used := heap_used h + (sz + 12), km := m\<rparr>)"
    "tiles m KMALLOC_HEAP_START (allocated_list (map cell_block cs) sz)"
    "within (KMALLOC_HEAP_START + of_nat (span cs)) (unat sz + 12) (km h) m"
    "load m (place cs) (unat sz) = replicate (unat sz) 0" by (auto simp: place_def)
  let ?c = "Cell False False (replicate (unat sz) 0)"
  let ?h = "h\<lparr>heap_used := heap_used h + (sz + 12), km := m\<rparr>"
  have "cell_block ?c = KBlock (sz + 12) False False" by (simp add: cell_block_def)
  then have bl: "allocated_list (map cell_block cs) sz = map cell_block (cs @ [?c])" using ff by (simp add: allocated_list_def)
  have "payloads m KMALLOC_HEAP_START (cs @ [?c] @ [])"
    by (rule payloads_splice [OF D(2)]) (use m(3,4) room in \<open>simp_all add: place_def\<close>)
  moreover have "unat (heap_used h + (sz + 12)) = span cs + unat sz + 12"
    using D(6) room by (simp add: unat_word_ariths)
  then have "heap_ok ?h (map cell_block (cs @ [?c]))"
    using m(2) total_cells [of "cs @ [?c]"] room D(3) unfolding bl by (simp add: heap_ok_def KMALLOC_HEAP_SIZE_def)
  ultimately have "heap_is ?h (cs @ [?c])" using room D(3) by (simp add: heap_is_def)
  moreover have "only_inside h ?h"
    using within_outside [OF m(3)] room by (simp add: only_inside_def)
  ultimately show ?thesis using m(1) by blast
qed

lemma alloc_split:
  assumes H: "heap_is h (xs @ c # ys)" and sz: "0 < unat sz" and no: "none_fits (unat sz) xs"
    and c: "c_free c" "unat sz + 12 \<le> length (c_data c)"
  shows "\<exists>h'. kmalloc h sz = Some (place xs, h') \<and>
    heap_is h' (xs @ [Cell False (c_freed c) (replicate (unat sz) 0), Cell True False (drop (unat sz + 12) (c_data c))] @ ys) \<and>
    only_inside h h'"
proof -
  note D = heap_isD [OF H]
  have sz': "0 < sz" "unat sz < 2 ^ 26" "length (c_data c) < 2 ^ 26" "span xs < 2 ^ 26"
    using sz c(2) D(4) by (simp_all add: word_less_nat_alt)
  have usz: "unat (sz + 12) = unat sz + 12" using sz'(2) by (simp add: unat_word_ariths)
  have uc: "unat (bsize (cell_block c)) = length (c_data c) + 12" using sz'(3) by (intro unat_cell) simp
  have ff: "first_fit (sz + 12) (map cell_block (xs @ c # ys)) = Some (map cell_block xs, cell_block c, map cell_block ys)"
    by (rule first_fit_cell [OF no sz'(4,2) c(1) _ sz'(3)]) (use c(2) in simp)
  have nos: "no_sliver (map cell_block (xs @ c # ys)) sz"
    unfolding no_sliver_def ff using c(2) uc by simp
  have tx: "total (map cell_block xs) = span xs" using sz'(4) by (intro total_cells) simp
  from kmalloc_reuse [OF D(1) sz'(1,2) ff nos, unfolded D(3) tx uc] obtain m where m:
    "kmalloc h sz = Some (place xs, h\<lparr>km := m\<rparr>)"
    "tiles m KMALLOC_HEAP_START (allocated_list (map cell_block (xs @ c # ys)) sz)"
    "within (KMALLOC_HEAP_START + of_nat (span xs)) (length (c_data c) + 12) (km h) m"
    "load m (place xs) (unat sz) = replicate (unat sz) 0" by (auto simp: place_def)
  let ?zs = "[Cell False (c_freed c) (replicate (unat sz) 0), Cell True False (drop (unat sz + 12) (c_data c))]"
  let ?h = "h\<lparr>km := m\<rparr>"
  have ne: "bsize (cell_block c) \<noteq> sz + 12" using uc usz c(2) by auto
  have rem: "(of_nat (length (c_data c) - (unat sz + 12) + 12) :: u32) = bsize (cell_block c) - (sz + 12)"
    using c(2) by (simp add: of_nat_diff)
  have "map cell_block ?zs = [KBlock (sz + 12) False (c_freed c), KBlock (bsize (cell_block c) - (sz + 12)) True False]"
    using rem by (simp add: cell_block_def)
  then have bl: "allocated_list (map cell_block (xs @ c # ys)) sz = map cell_block (xs @ ?zs @ ys)"
    unfolding allocated_list_def ff using ne by simp
  have sp: "span ?zs = length (c_data c) + 12" using c(2) by simp
  have P: "payloads (km h) KMALLOC_HEAP_START xs"
    "payloads (km h) (KMALLOC_HEAP_START + of_nat (span xs) + of_nat (span ?zs)) ys"
    using D(2) unfolding sp by (simp_all add: payloads_append)
  have w: "within (KMALLOC_HEAP_START + of_nat (span xs)) (span ?zs) (km h) m" using m(3) unfolding sp .
  have "payloads m KMALLOC_HEAP_START (xs @ ?zs @ ys)"
    by (rule payloads_splice [OF P(1) _ P(2) w]) (use m(4) D(4) sp in \<open>simp_all add: place_def\<close>)
  moreover have "heap_ok ?h (map cell_block (xs @ ?zs @ ys))"
    using m(2) total_cells [of "xs @ ?zs @ ys"] D(3,4,6) sp unfolding bl by (simp add: heap_ok_def KMALLOC_HEAP_SIZE_def)
  ultimately have "heap_is ?h (xs @ ?zs @ ys)" using D(3,4) sp by (simp add: heap_is_def)
  moreover have "only_inside h ?h"
    using within_outside [OF m(3)] D(4) by (simp add: only_inside_def)
  ultimately show ?thesis using m(1) by blast
qed

section \<open>Stores and reads\<close>

lemma unat_place: "span xs + 12 < 2 ^ 26 \<Longrightarrow> unat (place xs) = 0x1000000 + span xs + 12"
  by (simp add: place_def KMALLOC_HEAP_START_def unat_word_ariths unat_of_nat)

lemma place_nonzero: "span xs + 12 < 2 ^ 26 \<Longrightarrow> place xs \<noteq> 0"
  using unat_place [of xs] by auto

lemma split_span: "span (xs @ c # ys) < 2 ^ 26 \<Longrightarrow> span xs + 12 < 2 ^ 26"
  by simp

lemma cell_data:
  assumes "heap_is h (xs @ Cell False g bs # ys)"
  shows "load (km h) (place xs) (length bs) = bs"
  using heap_isD(2) [OF assms] by (simp add: payloads_append place_def)

lemma load_part: "off + n \<le> length bs \<Longrightarrow> load m p (length bs) = bs \<Longrightarrow> load m (p + of_nat off) n = chunk off n bs"
proof (rule nth_equalityI)
  assume off: "off + n \<le> length bs" and l: "load m p (length bs) = bs"
  show "length (load m (p + of_nat off) n) = length (chunk off n bs)" using off by simp
  fix i
  assume "i < length (load m (p + of_nat off) n)"
  then have i: "i < n" by simp
  have "m (p + of_nat (off + i)) = bs ! (off + i)"
    using arg_cong [OF l, of "\<lambda>l. l ! (off + i)"] i off by (simp add: load_def)
  then show "load m (p + of_nat off) n ! i = chunk off n bs ! i"
    using i off by (simp add: nth_chunk load_def add.assoc)
qed

lemma store_cell:
  assumes H: "heap_is h (xs @ Cell False g bs # ys)" and fit: "off + length ds \<le> length bs"
  shows "heap_is (h\<lparr>km := store (place xs + of_nat off) ds (km h)\<rparr>) (xs @ Cell False g (patch off ds bs) # ys)"
    and "only_inside h (h\<lparr>km := store (place xs + of_nat off) ds (km h)\<rparr>)"
proof -
  note D = heap_isD [OF H]
  let ?c = "Cell False g bs" and ?d = "Cell False g (patch off ds bs)"
  let ?q = "KMALLOC_HEAP_START + of_nat (span xs)"
  let ?m = "store (place xs + of_nat off) ds (km h)"
  have len: "length (patch off ds bs) = length bs" using fit by simp
  have blk: "cell_block ?d = cell_block ?c" using len by (simp add: cell_block_def)
  have pl: "place xs + of_nat off = ?q + of_nat (12 + off)" by (simp add: place_def)
  have w: "within ?q (length bs + 12) (km h) ?m"
    unfolding pl by (rule within_store) (use fit D(4) in \<open>auto simp: unat_word_ariths unat_of_nat\<close>)
  have hd: "?m (?q + of_nat i) = km h (?q + of_nat i)" if "i < 12" for i
  proof -
    have "unat (?q + of_nat i - (?q + of_nat (12 + off))) = 2 ^ 32 - (12 + off - i)"
      by (rule small_diff) (use that fit D(4) in simp_all)
    then have "\<not> unat (?q + of_nat i - (?q + of_nat (12 + off))) < length ds" using that fit D(4) by simp
    then show ?thesis unfolding pl by (simp only: store_def if_False)
  qed
  have tx: "total (map cell_block xs) = span xs" "total (map cell_block ys) = span ys" "unat (bsize (cell_block ?c)) = length bs + 12"
    using D(4) unat_cell [of ?c] by (auto intro!: total_cells)
  have T: "tiles (km h) KMALLOC_HEAP_START (map cell_block xs)" "header (km h) ?q (cell_block ?c)"
    "tiles (km h) (?q + of_nat (length bs + 12)) (map cell_block ys)"
    using D(7) by (simp_all add: tiles_append tx)
  have "header ?m ?q (cell_block ?c)" using T(2) header_cong [of ?m ?q "km h" "cell_block ?c"] hd by simp
  then have "tiles ?m KMALLOC_HEAP_START (map cell_block xs @ [cell_block ?c] @ map cell_block ys)"
    by (intro tiles_splice [where n = "length bs + 12", OF T(1)]) (use T(3) w D(4) tx in simp_all)
  then have ok: "heap_ok (h\<lparr>km := ?m\<rparr>) (map cell_block (xs @ ?d # ys))"
    using D(1) blk by (simp add: heap_ok_def)
  have ld: "load ?m (place xs) (length bs) = patch off ds bs"
  proof (rule nth_equalityI)
    fix i
    assume "i < length (load ?m (place xs) (length bs))"
    then have i: "i < length bs" by simp
    have b: "km h (place xs + of_nat i) = bs ! i"
      using arg_cong [OF cell_data [OF H], of "\<lambda>l. l ! i"] i by (simp add: load_def)
    have "unat (of_nat i - of_nat off :: u32) < length ds \<longleftrightarrow> off \<le> i \<and> i < off + length ds"
    proof (cases "off \<le> i")
      case True
      then have "(of_nat i - of_nat off :: u32) = of_nat (i - off)" by (simp add: of_nat_diff)
      moreover have "unat (of_nat (i - off) :: u32) = i - off" using i D(4) by (subst unat_of_nat) simp
      ultimately show ?thesis using True by auto
    next
      case False
      have "unat (0 + of_nat i - (0 + of_nat off) :: u32) = 2 ^ 32 - (off - i)"
        by (rule small_diff) (use False fit D(4) in simp_all)
      then show ?thesis using False fit D(4) by simp
    qed
    moreover have "unat (of_nat i - of_nat off :: u32) = i - off" if "off \<le> i"
    proof -
      have "(of_nat i - of_nat off :: u32) = of_nat (i - off)" using that by (simp add: of_nat_diff)
      then show ?thesis using i D(4) by (simp add: unat_of_nat)
    qed
    ultimately show "load ?m (place xs) (length bs) ! i = patch off ds bs ! i"
      using i b fit by (auto simp: load_def store_def nth_patch)
  qed (use len in simp)
  have P: "payloads (km h) KMALLOC_HEAP_START xs" "payloads (km h) (?q + of_nat (length bs + 12)) ys"
    using D(2) by (simp_all add: payloads_append)
  have "payloads ?m KMALLOC_HEAP_START (xs @ [?d] @ ys)"
    by (rule payloads_splice [OF P(1)]) (use P(2) ld w len D(4) in \<open>simp_all add: place_def add.commute\<close>)
  then show "heap_is (h\<lparr>km := ?m\<rparr>) (xs @ ?d # ys)" using ok D(3,4) len by (simp add: heap_is_def)
  show "only_inside h (h\<lparr>km := ?m\<rparr>)"
    using within_outside [OF w] D(4) by (simp add: only_inside_def)
qed

section \<open>Freeing\<close>

lemma free_cell:
  assumes H: "heap_is h (xs @ Cell False False bs # ys)"
  shows "heap_is (kfree h (place xs)) (xs @ Cell True True bs # ys)" and "only_inside h (kfree h (place xs))"
    and "load (km (kfree h (place xs))) (place xs) (length bs) = bs"
proof -
  note D = heap_isD [OF H]
  let ?c = "Cell False False bs" and ?d = "Cell True True bs"
  let ?q = "KMALLOC_HEAP_START + of_nat (span xs)"
  have tx: "total (map cell_block xs) = span xs" "unat (bsize (cell_block ?c)) = length bs + 12"
    using D(4) unat_cell [of ?c] by (auto intro!: total_cells)
  have ok: "heap_ok h (map cell_block xs @ cell_block ?c # map cell_block ys)" using D(1) by simp
  from kfree_tiles [OF ok, unfolded D(3) tx] obtain m where m: "kfree h (place xs) = h\<lparr>km := m\<rparr>"
    "tiles m KMALLOC_HEAP_START (map cell_block (xs @ ?d # ys))" "within ?q 12 (km h) m"
    by (auto simp: place_def cell_block_def)
  have P: "payloads (km h) KMALLOC_HEAP_START xs" "payloads (km h) (?q + of_nat (span [?d])) ys"
    using D(2) by (simp_all add: payloads_append)
  have w: "within ?q (span [?d]) (km h) m" by (rule within_mono [OF m(3)]) simp
  have "payloads m KMALLOC_HEAP_START (xs @ [?d] @ ys)"
    by (rule payloads_splice [OF P(1) _ P(2) w]) (use D(4) in simp_all)
  moreover have "total (map cell_block (xs @ ?d # ys)) = span (xs @ ?d # ys)" using D(4) by (intro total_cells) simp
  then have "heap_ok (h\<lparr>km := m\<rparr>) (map cell_block (xs @ ?d # ys))"
    using m(2) D(3,4,6) by (simp add: heap_ok_def KMALLOC_HEAP_SIZE_def)
  ultimately show "heap_is (kfree h (place xs)) (xs @ ?d # ys)" using D(3,4) unfolding m(1) by (simp add: heap_is_def)
  show "only_inside h (kfree h (place xs))"
    using within_outside [OF w] D(4) unfolding m(1) by (simp add: only_inside_def)
  have "m (place xs + of_nat i) = km h (place xs + of_nat i)" if "i < length bs" for i
    using after_region [OF m(3), of i] that D(4) by (simp add: place_def)
  then have "load m (place xs) (length bs) = load (km h) (place xs) (length bs)" by (auto simp: load_def)
  then show "load (km (kfree h (place xs))) (place xs) (length bs) = bs"
    using cell_data [OF H] unfolding m(1) by simp
qed

text \<open>A cell with the magic of freed cells is not given back.\<close>

lemma free_rejected:
  assumes H: "heap_is h (xs @ Cell f True bs # ys)"
  shows "kfree h (place xs) = h"
proof -
  note D = heap_isD [OF H]
  have tx: "total (map cell_block xs) = span xs" using D(4) by (auto intro!: total_cells)
  have "header (km h) (KMALLOC_HEAP_START + of_nat (span xs)) (cell_block (Cell f True bs))"
    using D(7) by (simp add: tiles_append tx)
  then show ?thesis
    by (simp add: kfree_def Let_def header_def magic_of_def place_def KMALLOC_MAGIC_def KMALLOC_FREED_MAGIC_def)
qed

end
