(* ===== verification/FsLookup.thy ===== *)
theory FsLookup imports FsFiles begin

text \<open>
  Directories as name lists and the resolution of paths over them: \<open>dir_find_entry\<close> is a lookup in
  the list of the live slots of a directory, and \<open>path_resolve\<close> walks from the root along the
  components of the path, where \<open>.\<close> and empty components count for nothing and \<open>..\<close> cancels the
  component before it.
\<close>

section \<open>Directories\<close>

definition slot_block :: "vol \<Rightarrow> ipo_inode \<Rightarrow> nat \<Rightarrow> u32" where
  "slot_block v n k = (if k div 7 < MAX_FILE_BLOCKS then ptr v n (node_of (k div 7)) else 0)"

definition slot_entry :: "vol \<Rightarrow> ipo_inode \<Rightarrow> nat \<Rightarrow> dir_entry" where
  "slot_entry v n k = entry_in (blk v (slot_block v n k)) (of_nat (k mod 7))"

definition entry_name :: "dir_entry \<Rightarrow> bytes" where
  "entry_name e = c_str (d_name e)"

text \<open>The names and inodes of the slots from \<open>k\<close> to \<open>k + m\<close> that are in use.\<close>

definition slots_from :: "vol \<Rightarrow> ipo_inode \<Rightarrow> nat \<Rightarrow> nat \<Rightarrow> (bytes \<times> u32) list" where
  "slots_from v n k m = concat (map (\<lambda>i. if slot_block v n i = 0 \<or> d_inode (slot_entry v n i) = 0 then []
     else [(entry_name (slot_entry v n i), d_inode (slot_entry v n i))]) [k..<k + m])"

definition directory :: "vol \<Rightarrow> ipo_inode \<Rightarrow> (bytes \<times> u32) list" where
  "directory v n = slots_from v n 0 (unat (entry_count n))"

text \<open>A slot in use has a name of 1 to 63 bytes, whose length it holds.\<close>

definition wf_entry :: "dir_entry \<Rightarrow> bool" where
  "wf_entry e \<longleftrightarrow> d_inode e = 0 \<or>
     unat (d_name_len e) = length (entry_name e) \<and> 0 < length (entry_name e) \<and> length (entry_name e) < 64"

definition wf_directory :: "vol \<Rightarrow> ipo_inode \<Rightarrow> bool" where
  "wf_directory v n \<longleftrightarrow> (\<forall>k < unat (entry_count n). slot_block v n k \<noteq> 0 \<longrightarrow> wf_entry (slot_entry v n k))"

lemma slots_from_0 [simp]: "slots_from v n k 0 = []"
  by (simp add: slots_from_def)

lemma slots_from_Suc:
  "slots_from v n k (Suc m) =
     (if slot_block v n k = 0 \<or> d_inode (slot_entry v n k) = 0 then []
      else [(entry_name (slot_entry v n k), d_inode (slot_entry v n k))]) @ slots_from v n (Suc k) m"
proof -
  have "[k..<k + Suc m] = k # [Suc k..<Suc k + m]" by (simp add: upt_conv_Cons)
  then show ?thesis unfolding slots_from_def by (simp only: list.map concat.simps)
qed

text \<open>The first slot in use that has a name, and what the search returns for it.\<close>

definition find_slot :: "vol \<Rightarrow> ipo_inode \<Rightarrow> bytes \<Rightarrow> nat \<Rightarrow> nat \<Rightarrow> nat option" where
  "find_slot v n name k m = List.find (\<lambda>i. slot_block v n i \<noteq> 0 \<and> d_inode (slot_entry v n i) \<noteq> 0 \<and>
     entry_name (slot_entry v n i) = name) [k..<k + m]"

definition found_at :: "vol \<Rightarrow> ipo_inode \<Rightarrow> nat \<Rightarrow> dir_entry \<times> u32 \<times> u32" where
  "found_at v n i = (slot_entry v n i, slot_block v n i, of_nat (i mod 7))"

lemma find_slot_0 [simp]: "find_slot v n name k 0 = None"
  by (simp add: find_slot_def)

lemma find_slot_Suc:
  "find_slot v n name k (Suc m) =
     (if slot_block v n k \<noteq> 0 \<and> d_inode (slot_entry v n k) \<noteq> 0 \<and> entry_name (slot_entry v n k) = name
      then Some k else find_slot v n name (Suc k) m)"
proof -
  have "[k..<k + Suc m] = k # [Suc k..<Suc k + m]" by (simp add: upt_conv_Cons)
  then show ?thesis unfolding find_slot_def by (simp only: find.simps)
qed

lemma find_slot_lookup:
  "map_option (\<lambda>i. d_inode (slot_entry v n i)) (find_slot v n name k m) = map_of (slots_from v n k m) name"
  by (induction m arbitrary: k) (auto simp: find_slot_Suc slots_from_Suc)

lemma c_str_take: "length (c_str (take n xs)) < n \<Longrightarrow> c_str xs = c_str (take n xs)"
  by (induction xs arbitrary: n) (auto simp: c_str_def take_Cons split: nat.splits if_splits)

lemma name_at_entry:
  assumes "wf_entry (entry_in buf j)" and "d_inode (entry_in buf j) \<noteq> 0"
  shows "c_str (name_at buf j) = entry_name (entry_in buf j)"
proof -
  have "d_name (entry_in buf j) = take 64 (name_at buf j)"
    by (simp add: entry_in_def dec_dir_entry_def name_at_def chunk_def drop_take add.commute)
  then show ?thesis
    using c_str_take [of 64 "name_at buf j"] assms by (simp add: entry_name_def wf_entry_def)
qed

text \<open>The slot number as the word the code computes with.\<close>

lemma slot_index:
  assumes "k < 2 ^ 32"
  shows "unat (of_nat k mod 7 :: u32) = k mod 7" and "unat (of_nat k div 7 :: u32) = k div 7"
    and "(of_nat k mod 7 :: u32) = of_nat (k mod 7)"
proof -
  have k: "unat (of_nat k :: u32) = k" using assms by (rule unat_of_nat32)
  then show j: "unat (of_nat k mod 7 :: u32) = k mod 7" "unat (of_nat k div 7 :: u32) = k div 7"
    by (simp_all add: unat_mod unat_div)
  show "(of_nat k mod 7 :: u32) = of_nat (k mod 7)"
    using j(1) unat_of_nat32 [of "k mod 7"] mod_less_divisor [of 7 k] by (simp add: word_unat_eq_iff del: mod_less_divisor)
qed

lemma entry_matches_name:
  assumes "length buf = 512" and "unat j < 7" and "wf_entry (entry_in buf j)" and "0 \<notin> set name"
  shows "entry_matches buf j name \<longleftrightarrow> d_inode (entry_in buf j) \<noteq> 0 \<and> entry_name (entry_in buf j) = name"
proof (cases "d_inode (entry_in buf j) = 0")
  case False
  let ?e = "entry_in buf j"
  have w: "unat (d_name_len ?e) = length (entry_name ?e)" "0 < length (entry_name ?e)" "length (entry_name ?e) < 64"
    using assms(3) False by (simp_all add: wf_entry_def)
  note n = name_at_entry [OF assms(3) False]
  have "d_name_len ?e \<noteq> 0" using w(1,2) by auto
  then show ?thesis
    using False w assms(4) by (auto simp: entry_matches_def Let_def str_ncmp_eq_0 n str_len_c_str)
qed (simp add: entry_matches_def Let_def)

context fs_store begin

lemma runs_find_block:
  assumes G: "good N v" and ok: "file_ok v n"
  shows "runs v (find_block io n k) (let p = (if unat k < MAX_FILE_BLOCKS then ptr v n (node_of (unat k)) else 0)
    in (if p = 0 then None else Some p), n) v"
proof (cases "k < 6")
  case True
  then show ?thesis
    by (auto simp: find_block_def node_of_def word_less_nat_alt Let_def intro!: evals_cong [OF evals_return])
next
  case False
  show ?thesis
    unfolding find_block_def if_not_P [OF False]
    by (rule evals_bind [OF runs_get_data_block_lookup [OF G ok]])
       (auto simp: block_of_def ptr_int_def Let_def unat_eq_0 uint_0_iff intro!: evals_cong [OF evals_return])
qed

lemma slot_block_allocated:
  assumes "file_ok v n" and "slot_block v n k \<noteq> 0"
  shows "allocated v (slot_block v n k)"
  using assms(2) file_ok_allocated [OF assms(1) node_of_in_range] by (auto simp: slot_block_def split: if_splits)

lemma runs_find_from:
  assumes G: "good N v" and ok: "file_ok v n" and wf: "\<And>i. k \<le> i \<Longrightarrow> i < k + m \<Longrightarrow> slot_block v n i \<noteq> 0 \<Longrightarrow> wf_entry (slot_entry v n i)"
    and small: "k + m < 2 ^ 32" and buf: "length buf = 512" and name: "0 \<notin> set name"
  shows "runs v (find_from io name m (of_nat k) n buf) (map_option (found_at v n) (find_slot v n name k m)) v"
  using wf small buf
proof (induction m arbitrary: k buf)
  case 0
  then show ?case by (simp add: evals_return)
next
  case (Suc m)
  have "k < 2 ^ 32" using Suc.prems(2) by simp
  note j = slot_index(1,2) [OF this] and j' = slot_index(3) [OF this]
  let ?p = "slot_block v n k"
  note fb = runs_find_block [OF G ok, of "of_nat k div 7", unfolded j, folded slot_block_def, unfolded Let_def]
  have IH: "runs v (find_from io name m (of_nat k + 1) n b) (map_option (found_at v n) (find_slot v n name (Suc k) m)) v"
    if "length b = 512" for b
    using Suc.IH [of "Suc k" b] Suc.prems that by (simp add: add.commute)
  show ?case
  proof (cases "?p = 0")
    case True
    show ?thesis
      unfolding find_from.simps Let_def by (rule evals_bind [OF fb]) (use True IH [OF Suc.prems(3)] in \<open>simp add: find_slot_Suc\<close>)
  next
    case False
    note al = allocated_length [OF G slot_block_allocated [OF ok False]]
    have e: "entry_in (blk v ?p) (of_nat k mod 7) = slot_entry v n k" by (simp add: slot_entry_def j')
    have w: "wf_entry (slot_entry v n k)" using Suc.prems(1) [of k] False by simp
    have match: "entry_matches (blk v ?p) (of_nat k mod 7) name \<longleftrightarrow>
        d_inode (slot_entry v n k) \<noteq> 0 \<and> entry_name (slot_entry v n k) = name"
      using entry_matches_name [OF al(2) _ _ name, of "of_nat k mod 7"] j w e by simp
    have fa: "found_at v n k = (slot_entry v n k, ?p, of_nat (k mod 7))" by (simp add: found_at_def)
    note step = evals_bind [OF store_read [OF al(1) Suc.prems(3)]]
    show ?thesis
      unfolding find_from.simps Let_def
      by (rule evals_bind [OF fb])
         (use False IH [OF al(2)] match e in
           \<open>auto simp: find_slot_Suc fa j' intro!: step intro: evals_return\<close>)
  qed
qed

text \<open>The search is a lookup, in a directory of the inode table; in a file it finds nothing.\<close>

lemma runs_dir_find_entry:
  assumes G: "good N v" and tab: "in_table (v_sb v) d" and name: "0 \<notin> set name"
    and dir: "mode (inode_at v d) AND 1 \<noteq> 0 \<Longrightarrow> file_ok v (inode_at v d) \<and> wf_directory v (inode_at v d)"
  shows "runs v (dir_find_entry io d name)
    (if mode (inode_at v d) AND 1 = 0 then None
     else map_option (found_at v (inode_at v d)) (find_slot v (inode_at v d) name 0 (unat (entry_count (inode_at v d))))) v"
proof -
  let ?n = "inode_at v d"
  note rd = runs_read_inode [OF tab goodD(1) [OF G]]
  show ?thesis
  proof (cases "mode ?n AND 1 = 0")
    case True
    then show ?thesis
      unfolding dir_find_entry_def by (intro evals_bind [OF rd]) (simp add: evals_return)
  next
    case False
    then have ok: "file_ok v ?n" "wf_directory v ?n" using dir by auto
    have "runs v (find_from io name (unat (entry_count ?n)) (of_nat 0) ?n b)
      (map_option (found_at v ?n) (find_slot v ?n name 0 (unat (entry_count ?n)))) v" if "length b = 512" for b
      by (rule runs_find_from [OF G ok(1)])
         (use ok(2) that name unat_u32 [of "entry_count ?n"] in \<open>auto simp: wf_directory_def\<close>)
    then have f: "runs v (find_from io name (unat (entry_count ?n)) 0 ?n b)
      (map_option (found_at v ?n) (find_slot v ?n name 0 (unat (entry_count ?n)))) v" if "length b = 512" for b
      using that by simp
    show ?thesis
      unfolding dir_find_entry_def
      by (intro evals_bind [OF rd]) (use False in \<open>auto intro!: runs_uninit f\<close>)
  qed
qed

end

end
