(* ===== verification/FsWalk.thy ===== *)
theory FsWalk imports FsLookup begin

text \<open>
  Paths: canonicalisation computes the components of a path, and \<open>path_resolve\<close> walks from the
  root along them through the directories of the volume.
\<close>

declare push_tokens.simps [simp del] resolve_from.simps [simp del]

section \<open>Components\<close>

abbreviation (input) "dot \<equiv> str ''.''"
abbreviation (input) "dotdot \<equiv> str ''..''"

primrec normalise :: "bytes list \<Rightarrow> bytes list \<Rightarrow> bytes list" where
  "normalise [] st = st"
| "normalise (t # ts) st =
     (if t = [] \<or> t = dot then normalise ts st
      else if t = dotdot then normalise ts (butlast st)
      else normalise ts (st @ [t]))"

text \<open>The components between slashes, of which at most 63 bytes count.\<close>

definition normalise_from :: "bytes \<Rightarrow> bytes list \<Rightarrow> bytes list" where
  "normalise_from c st = normalise (map (take 63) (split_on slash c)) st"

definition path_components :: "bytes \<Rightarrow> bytes list" where
  "path_components p = normalise_from (c_str p) []"

lemma read_token_split:
  "length t \<le> 63 \<Longrightarrow> read_token t c = (take 63 (t @ takeWhile (\<lambda>x. x \<noteq> slash) c), dropWhile (\<lambda>x. x \<noteq> slash) c)"
  by (induction t c rule: read_token.induct) (auto simp: take_Cons')

lemma normalise_from_Nil [simp]: "normalise_from [] st = st"
  by (simp add: normalise_from_def)

lemma normalise_from_slash: "normalise_from (slash # c) st = normalise_from c st"
  by (simp add: normalise_from_def)

lemmas normalise_from_47 [simp] = normalise_from_slash [simplified]

lemma normalise_from_slashes: "normalise_from (dropWhile (\<lambda>x. x = slash) c) st = normalise_from c st"
  by (induction c) auto

lemma dropWhile_sep: "dropWhile (\<lambda>x. x \<noteq> a) c = [] \<or> (\<exists>r. dropWhile (\<lambda>x. x \<noteq> a) c = a # r)"
  by (induction c) auto

lemma normalise_from_token:
  assumes "t = take 63 (takeWhile (\<lambda>x. x \<noteq> slash) c)"
  shows "normalise_from c st = normalise_from (dropWhile (\<lambda>x. x \<noteq> slash) c)
    (if t = [] \<or> t = dot then st else if t = dotdot then butlast st else st @ [t])"
proof -
  let ?r = "dropWhile (\<lambda>x. x \<noteq> slash) c"
  have "normalise (map (take 63) (case ?r of [] \<Rightarrow> [] | _ # r \<Rightarrow> split_on slash r)) st = normalise_from ?r st" for st
    using dropWhile_sep [of slash c]
    by (elim disjE exE) (simp_all only: list.case normalise_from_slash normalise_from_def list.map normalise.simps split_on.simps take_Nil refl if_True simp_thms)
  then show ?thesis
    unfolding assms by (subst normalise_from_def, subst split_on_first) (simp del: str_Cons)
qed

lemma count_slash_token:
  assumes "dropWhile (\<lambda>x. x = slash) (dropWhile (\<lambda>x. x \<noteq> slash) c) \<noteq> []"
  shows "count_list (dropWhile (\<lambda>x. x = slash) (dropWhile (\<lambda>x. x \<noteq> slash) c)) slash < count_list c slash"
proof -
  obtain r where r: "dropWhile (\<lambda>x. x \<noteq> slash) c = slash # r"
    using assms dropWhile_sep [of slash c] by (metis dropWhile.simps(1))
  have d: "count_list (dropWhile P xs) slash \<le> count_list xs slash" for P and xs :: bytes
    by (induction xs) auto
  have "count_list (dropWhile (\<lambda>x. x = slash) r) slash \<le> count_list r slash" by (rule d)
  also have "count_list r slash < count_list (dropWhile (\<lambda>x. x \<noteq> slash) c) slash" unfolding r by simp
  also have "\<dots> \<le> count_list c slash" by (rule d)
  finally show ?thesis unfolding r by simp
qed

lemma push_tokens_normalise:
  assumes "dropWhile (\<lambda>x. x = slash) c \<noteq> [] \<Longrightarrow> length tokens + count_list (dropWhile (\<lambda>x. x = slash) c) slash < 128"
    and "0 \<notin> set c"
  shows "push_tokens c tokens = normalise_from c tokens"
  using assms
proof (induction c tokens rule: push_tokens.induct)
  case (1 c tokens)
  let ?c = "dropWhile (\<lambda>x. x = slash) c"
  show ?case
  proof (cases "?c = []")
    case True
    then show ?thesis
      using normalise_from_slashes [of c tokens] unfolding push_tokens.simps [of c] Let_def by (simp only: True normalise_from_Nil if_True simp_thms)
  next
    case False
    define t where "t = take 63 (takeWhile (\<lambda>x. x \<noteq> slash) ?c)"
    let ?r = "dropWhile (\<lambda>x. x \<noteq> slash) ?c"
    have rd: "read_token [] ?c = (t, ?r)" using read_token_split [of "[]" ?c] by (simp add: t_def)
    have sub: "set t \<subseteq> set c" "set ?r \<subseteq> set c"
      using set_takeWhileD set_dropWhileD in_set_takeD unfolding t_def by (metis subsetI)+
    then have nul: "0 \<notin> set t" "0 \<notin> set ?r" using "1.prems"(2) by auto
    have cmp: "str_cmp t dot = 0 \<longleftrightarrow> t = dot" "str_cmp t dotdot = 0 \<longleftrightarrow> t = dotdot"
      using nul(1) c_str_idem [of dot] c_str_idem [of dotdot] by (simp_all add: str_cmp_eq_0)
    have size: "length tokens + count_list ?c slash < 128" by (rule "1.prems"(1) [OF False])
    have next': "length ts + count_list (dropWhile (\<lambda>x. x = slash) ?r) slash < 128"
      if "length ts \<le> Suc (length tokens)" "dropWhile (\<lambda>x. x = slash) ?r \<noteq> []" for ts :: "bytes list"
      using count_slash_token [OF that(2)] size that(1) by linarith
    note IH = "1.IH" [OF refl False rd [symmetric] refl, unfolded cmp]
    have push: "push_tokens ?r ts = normalise_from ?r ts"
      if "ts = (if t = [] \<or> t = dot then tokens else if t = dotdot then butlast tokens else tokens @ [t])" for ts
    proof -
      have len: "length ts \<le> Suc (length tokens)" unfolding that by auto
      have bl: "(if tokens \<noteq> [] then butlast tokens else tokens) = butlast tokens" by simp
      have "\<not> 128 \<le> length tokens" using size by simp
      note IH' = IH(1) IH(2) IH(3) [unfolded bl] IH(4) [OF _ _ _ this]
      show ?thesis unfolding that
        using IH' next' [OF len, unfolded that] nul(2) by (cases "t = []"; cases "t = dot"; cases "t = dotdot") simp_all
    qed
    show ?thesis
      unfolding normalise_from_slashes [of c, symmetric] normalise_from_token [OF t_def] push [OF refl, symmetric]
        push_tokens.simps [of c] Let_def if_not_P [OF False] rd prod.case cmp
      using size by (cases "t = []"; cases "t = dot"; cases "t = dotdot") simp_all
  qed
qed

text \<open>The string a list of components stands for.\<close>

definition join_path :: "bytes list \<Rightarrow> bytes" where
  "join_path ts = concat (map (\<lambda>t. slash # t) ts)"

lemma join_path_simps [simp]: "join_path [] = []" "join_path (t # ts) = slash # t @ join_path ts"
  by (simp_all add: join_path_def)

lemma join_tokens_path:
  assumes "length out + length (join_path ts) + 1 < out_size" and "\<And>t. t \<in> set ts \<Longrightarrow> 0 \<notin> set t"
  shows "join_tokens out_size ts out = out @ join_path ts"
  using assms
proof (induction ts arbitrary: out)
  case (Cons t ts)
  have "str_len t = length t" using Cons.prems(2) by (simp add: str_len_c_str)
  moreover have "join_tokens out_size ts (out @ slash # t) = (out @ slash # t) @ join_path ts"
    by (rule Cons.IH) (use Cons.prems in \<open>auto\<close>)
  ultimately show ?case using Cons.prems(1) by simp
qed simp

text \<open>Every component is a non-empty name without slashes and NULs, and together they are no longer than the path.\<close>

lemma length_join_path: "length (join_path ts) = sum_list (map (\<lambda>t. Suc (length t)) ts)"
  by (induction ts) auto

lemma set_normalise: "t \<in> set (normalise ts st) \<Longrightarrow> t \<in> set st \<or> (t \<in> set ts \<and> t \<noteq> [])"
proof (induction ts arbitrary: st)
  case (Cons u ts)
  then show ?case
    using Cons.IH [of st] Cons.IH [of "butlast st"] Cons.IH [of "st @ [u]"] in_set_butlastD [of t st]
    by (auto split: if_splits)
qed simp

lemma join_butlast: "length (join_path (butlast ts)) \<le> length (join_path ts)"
  by (cases ts rule: rev_cases) (auto simp: length_join_path)

lemma length_normalise: "length (join_path (normalise ts st)) \<le> length (join_path st) + length (join_path ts)"
proof (induction ts arbitrary: st)
  case (Cons t ts)
  have "length (join_path (normalise ts st')) \<le> length (join_path st) + length (join_path (t # ts))"
    if "length (join_path st') \<le> length (join_path st) + Suc (length t)" for st'
    using Cons.IH [of st'] that by simp
  then show ?case using join_butlast [of st] by (auto simp: length_join_path)
qed simp

lemma path_components_ok:
  assumes "t \<in> set (path_components p)"
  shows "t \<noteq> []" and "length t < 64" and "slash \<notin> set t" and "0 \<notin> set t"
proof -
  obtain u where u: "u \<in> set (split_on slash (c_str p))" "t = take 63 u" "t \<noteq> []"
    using set_normalise [of t "map (take 63) (split_on slash (c_str p))" "[]"] assms
    by (auto simp: path_components_def normalise_from_def)
  show "t \<noteq> []" "length t < 64" using u by simp_all
  show "slash \<notin> set t" using split_on_notin [OF u(1)] set_take_subset u(2) by fast
  show "0 \<notin> set t" using split_on_subset [OF u(1)] set_take_subset u(2) no_nul_c_str [of p] by fast
qed

lemma length_path_components: "length (join_path (path_components p)) \<le> Suc (length (c_str p))"
proof -
  have le: "sum_list (map (\<lambda>t. Suc (length t)) (map (take 63) ts)) \<le> sum_list (map (\<lambda>t. Suc (length t)) ts)" for ts :: "bytes list"
    by (induction ts) auto
  show ?thesis
    using length_normalise [of "map (take 63) (split_on slash (c_str p))" "[]"] le [of "split_on slash (c_str p)"]
      split_on_length [of slash "c_str p"]
    by (simp only: path_components_def normalise_from_def length_join_path list.map sum_list.Nil add_0)
qed

text \<open>The canonical form, for a path of fewer than 128 slashes that fits the buffer.\<close>

definition canonical_path :: "bytes \<Rightarrow> bytes" where
  "canonical_path p = (if path_components p = [] then [slash] else join_path (path_components p))"

lemma fs_canonicalize_path:
  assumes "count_list (c_str p) slash < 128" and "length (c_str p) + 2 < out_size"
  shows "fs_canonicalize (Some p) out_size = Some (canonical_path p)"
proof -
  have d: "count_list (dropWhile (\<lambda>x. x = slash) (c_str p)) slash < 128"
  proof -
    have "count_list (dropWhile P xs) slash \<le> count_list xs slash" for P and xs :: bytes by (induction xs) auto
    then show ?thesis using assms(1) by (rule le_less_trans)
  qed
  have push: "push_tokens (c_str p) [] = path_components p"
    unfolding path_components_def by (rule push_tokens_normalise) (use d in simp_all)
  have "join_tokens out_size (path_components p) [] = [] @ join_path (path_components p)"
    by (rule join_tokens_path) (use length_path_components [of p] assms(2) path_components_ok(4) in auto)
  then show ?thesis
    using assms(2) push by (auto simp: fs_canonicalize_def Let_def canonical_path_def path_components_def)
qed

section \<open>Walking\<close>

definition lookup :: "vol \<Rightarrow> u32 \<Rightarrow> bytes \<Rightarrow> u32 option" where
  "lookup v d name = (if mode (inode_at v d) AND 1 = 0 then None else map_of (directory v (inode_at v d)) name)"

primrec walk :: "vol \<Rightarrow> u32 \<Rightarrow> bytes list \<Rightarrow> u32 option" where
  "walk v d [] = Some d"
| "walk v d (t # ts) = (case lookup v d t of None \<Rightarrow> None | Some i \<Rightarrow> walk v i ts)"

text \<open>
  A set of inodes that contains the root and is closed under the entries of its directories,
  which are well formed.
\<close>

definition tree_ok :: "nat \<Rightarrow> vol \<Rightarrow> u32 set \<Rightarrow> bool" where
  "tree_ok N v D \<longleftrightarrow> good N v \<and> 1 \<in> D \<and> (\<forall>d\<in>D. in_table (v_sb v) d \<and>
     (mode (inode_at v d) AND 1 \<noteq> 0 \<longrightarrow> file_ok v (inode_at v d) \<and> wf_directory v (inode_at v d) \<and>
       snd ` set (directory v (inode_at v d)) \<subseteq> D))"

lemma lookup_in_tree: "tree_ok N v D \<Longrightarrow> d \<in> D \<Longrightarrow> lookup v d t = Some i \<Longrightarrow> i \<in> D"
  by (force simp: tree_ok_def lookup_def split: if_splits dest: map_of_SomeD)

lemma walk_in_tree: "tree_ok N v D \<Longrightarrow> d \<in> D \<Longrightarrow> walk v d ts = Some i \<Longrightarrow> i \<in> D"
  by (induction ts arbitrary: d) (auto dest: lookup_in_tree split: option.splits)

lemma takeWhile_component:
  assumes "slash \<notin> set t"
  shows "takeWhile (\<lambda>x. x \<noteq> slash) (t @ join_path ts) = t"
  using assms by (induction t) (cases ts, auto)

context fs_store begin

lemma runs_lookup:
  assumes "tree_ok N v D" and "d \<in> D" and "0 \<notin> set name"
  shows "\<exists>r. runs v (dir_find_entry io d name) r v \<and> map_option (\<lambda>(e, _, _). d_inode e) r = lookup v d name"
proof -
  have "good N v" "in_table (v_sb v) d"
    "mode (inode_at v d) AND 1 \<noteq> 0 \<Longrightarrow> file_ok v (inode_at v d) \<and> wf_directory v (inode_at v d)"
    using assms(1,2) by (auto simp: tree_ok_def)
  note run = runs_dir_find_entry [OF this(1,2) assms(3) this(3)]
  have e: "(\<lambda>(e, _, _). d_inode e) \<circ> found_at v n = (\<lambda>i. d_inode (slot_entry v n i))" for n
    by (simp add: fun_eq_iff found_at_def)
  have "map_option (\<lambda>(e, _, _). d_inode e) (map_option (found_at v n) x) = map_option (\<lambda>i. d_inode (slot_entry v n i)) x"
    for n x unfolding option.map_comp e ..
  then have "map_option (\<lambda>(e, _, _). d_inode e) (if mode (inode_at v d) AND 1 = 0 then None
     else map_option (found_at v (inode_at v d)) (find_slot v (inode_at v d) name 0 (unat (entry_count (inode_at v d))))) =
     lookup v d name"
    unfolding lookup_def directory_def by (simp add: find_slot_lookup)
  then show ?thesis using run by blast
qed

lemma runs_resolve_from:
  assumes T: "tree_ok N v D" and "d \<in> D"
    and "\<And>t. t \<in> set ts \<Longrightarrow> t \<noteq> [] \<and> length t < 64 \<and> slash \<notin> set t \<and> 0 \<notin> set t"
  shows "runs v (resolve_from io d (drop 1 (join_path ts))) (walk v d ts) v"
  using assms(2,3)
proof (induction ts arbitrary: d)
  case Nil
  then show ?case by (simp add: resolve_from.simps evals_return)
next
  case (Cons t ts)
  have t: "t \<noteq> []" "\<not> 64 \<le> length t" "slash \<notin> set t" "0 \<notin> set t" using Cons.prems(2) [of t] by auto
  let ?p = "t @ join_path ts"
  have p: "drop 1 (join_path (t # ts)) = ?p" "?p \<noteq> []" using t(1) by simp_all
  note tok = takeWhile_component [OF t(3), of ts]
  have rest: "drop (length t) ?p = join_path ts" by simp
  obtain r where r: "runs v (dir_find_entry io d t) r v" "map_option (\<lambda>(e, _, _). d_inode e) r = lookup v d t"
    using runs_lookup [OF T Cons.prems(1) t(4)] by blast
  have next': "runs v (if join_path ts = [] then State_Monad.return (Some i) else resolve_from io i (tl (join_path ts))) (walk v i ts) v"
    if "lookup v d t = Some i" for i
  proof (cases ts)
    case (Cons u us)
    then have "drop 1 (join_path ts) = tl (join_path ts)" "join_path ts \<noteq> []" by simp_all
    then show ?thesis
      using Cons.IH [OF lookup_in_tree [OF T Cons.prems(1) that]] Cons.prems(2) by simp
  qed (simp add: evals_return)
  show ?case
    unfolding p(1) resolve_from.simps [of io d ?p] if_not_P [OF p(2)] Let_def tok rest if_not_P [OF t(2)]
    by (rule evals_bind [OF r(1)])
       (use r(2) next' in \<open>auto simp: evals_return split: option.splits prod.splits\<close>)
qed

lemma runs_path_resolve:
  assumes T: "tree_ok N v D" and "count_list (c_str p) slash < 128" and "length (c_str p) + 2 < 512"
  shows "runs v (path_resolve io (Some p)) (walk v 1 (path_components p)) v"
proof -
  have root: "1 \<in> D" using T by (simp add: tree_ok_def)
  note can = fs_canonicalize_path [OF assms(2,3)]
  have nul: "0 \<notin> set (canonical_path p)"
    using path_components_ok(4) [of _ p] by (auto simp: canonical_path_def join_path_def)
  have slash: "str_cmp (canonical_path p) (str ''/'') = 0 \<longleftrightarrow> path_components p = []"
  proof -
    have "canonical_path p = [slash] \<longleftrightarrow> path_components p = []"
      using path_components_ok(1) [of _ p] by (cases "path_components p") (auto simp: canonical_path_def)
    then show ?thesis using nul c_str_idem [of "[slash]"] by (simp add: str_cmp_eq_0)
  qed
  have "runs v (resolve_from io 1 (drop 1 (join_path (path_components p)))) (walk v 1 (path_components p)) v"
    by (rule runs_resolve_from [OF T root]) (use path_components_ok [of _ p] in blast)
  then show ?thesis
    using slash unfolding path_resolve_def can option.case
    by (cases "path_components p") (simp_all add: canonical_path_def evals_return del: str_Cons drop_Suc_Cons)
qed

lemma runs_ipo_fs_stat:
  assumes T: "tree_ok N v D" and "count_list (c_str p) slash < 128" and "length (c_str p) + 2 < 512" and "v_mounted v"
  shows "runs v (ipo_fs_stat io (Some p)) (map_option (inode_at v) (walk v 1 (path_components p))) v"
proof -
  have rd: "runs v (read_inode io i) (Some (inode_at v i)) v" if "walk v 1 (path_components p) = Some i" for i
    using walk_in_tree [OF T _ that] T by (intro runs_read_inode) (auto simp: tree_ok_def goodD)
  show ?thesis
    unfolding ipo_fs_stat_def
    by (rule evals_bind [OF runs_mounted])
       (use assms(4) rd in \<open>auto intro!: evals_bind [OF runs_path_resolve [OF T assms(2,3)]] evals_return split: option.splits\<close>)
qed

lemma runs_ipo_fs_open:
  assumes T: "tree_ok N v D" and "count_list (c_str p) slash < 128" and "length (c_str p) + 2 < 512" and "v_mounted v"
    and w: "walk v 1 (path_components p) = Some i" and "mode (inode_at v i) AND 1 = 0" and "free_slot (v_fds v) 0 = Some j"
  shows "runs v (ipo_fs_open io (Some p)) (int j)
    (v\<lparr>v_fds := (v_fds v)[j := (v_fds v ! j)\<lparr>used := 1, fd_inode := i, fd_offset := 0\<rparr>]\<rparr>)"
proof -
  have rd: "runs v (read_inode io i) (Some (inode_at v i)) v"
    using walk_in_tree [OF T _ w] T by (intro runs_read_inode) (auto simp: tree_ok_def goodD)
  show ?thesis
    unfolding ipo_fs_open_def
    by (rule evals_bind [OF runs_mounted])
       (use assms in \<open>auto intro!: evals_bind [OF runs_path_resolve [OF T assms(2,3)]] evals_bind [OF rd]
          evals_bind [OF runs_fds] evals_bind [OF runs_set_fds] evals_return\<close>)
qed

end

end
