(* ===== verification/FsWalkProps.thy ===== *)
theory FsWalkProps imports FsWalk FsProps begin

text \<open>
  Paths and descriptors as the callers of the file system see them: resolution is a walk through
  the directories, and opening gives the first free descriptor for the file at the end of the walk.
\<close>

section \<open>Opening changes only the descriptors\<close>

lemma ptr_fds [simp]: "ptr (v\<lparr>v_fds := x\<rparr>) n y = ptr v n y"
  by (induction y) auto

lemma allocated_fds [simp]: "allocated (v\<lparr>v_fds := x\<rparr>) p = allocated v p"
  by (simp add: allocated_def bit_at_def)

lemma file_ok_fds [simp]: "file_ok (v\<lparr>v_fds := x\<rparr>) n = file_ok v n"
  by (simp add: file_ok_def)

lemma inode_at_fds [simp]: "inode_at (v\<lparr>v_fds := x\<rparr>) i = inode_at v i"
  by (simp add: inode_at_def)

lemma files_ok_fds [simp]: "files_ok N (v\<lparr>v_fds := x\<rparr>) I = files_ok N v I"
  by (simp add: files_ok_def good_def sized_def apart_def)

lemma mapped_fds [simp]: "mapped (v\<lparr>v_fds := x\<rparr>) n q = mapped v n q"
  by (simp add: mapped_def)

lemma contents_fds [simp]: "contents (v\<lparr>v_fds := x\<rparr>) n pos len = contents v n pos len"
  by (simp add: contents_def byte_at_def Let_def)

lemma free_slot_bound: "free_slot fs i = Some j \<Longrightarrow> i \<le> j \<and> j < i + length fs"
  by (induction fs i rule: free_slot.induct) (auto split: if_splits)

text \<open>The first free descriptor, without the loop that looks for it.\<close>

definition first_free :: "ipo_fd list \<Rightarrow> nat \<Rightarrow> bool" where
  "first_free fs j \<longleftrightarrow> j < length fs \<and> used (fs ! j) = 0 \<and> (\<forall>l < j. used (fs ! l) \<noteq> 0)"

lemma free_slot_None: "free_slot fs i = None \<longleftrightarrow> (\<forall>l < length fs. used (fs ! l) \<noteq> 0)"
  by (induction fs i rule: free_slot.induct) (auto simp: nth_Cons' less_Suc_eq_0_disj)

lemma free_slot_Some: "free_slot fs i = Some j \<Longrightarrow> \<exists>k. j = i + k \<and> first_free fs k"
proof (induction fs i rule: free_slot.induct)
  case (2 f fs i)
  show ?case
  proof (cases "used f = 0")
    case True
    then show ?thesis using 2 by (intro exI [of _ 0]) (simp add: first_free_def)
  next
    case False
    then obtain k where "j = Suc i + k" "first_free fs k" using 2 by auto
    then show ?thesis using False by (intro exI [of _ "Suc k"]) (auto simp: first_free_def less_Suc_eq_0_disj)
  qed
qed simp

lemma first_free_unique: "first_free fs j \<Longrightarrow> first_free fs k \<Longrightarrow> j = k"
  unfolding first_free_def by (metis nat_neq_iff)

lemma free_slot_first: "free_slot fs 0 = Some j \<longleftrightarrow> first_free fs j"
proof
  assume j: "first_free fs j"
  then have "free_slot fs 0 \<noteq> None" using free_slot_None [of fs 0] by (auto simp: first_free_def)
  then obtain k where k: "free_slot fs 0 = Some k" by blast
  then show "free_slot fs 0 = Some j" using free_slot_Some [OF k] first_free_unique [OF j] by auto
qed (use free_slot_Some [of fs 0 j] in auto)

definition opened :: "vol \<Rightarrow> nat \<Rightarrow> u32 \<Rightarrow> vol" where
  "opened v j i = v\<lparr>v_fds := (v_fds v)[j := (v_fds v ! j)\<lparr>used := 1, fd_inode := i, fd_offset := 0\<rparr>]\<rparr>"

lemma opened_simps [simp]:
  "files_ok N (opened v j i) I = files_ok N v I" "inode_at (opened v j i) l = inode_at v l"
  "mapped (opened v j i) n q = mapped v n q" "contents (opened v j i) n pos len = contents v n pos len"
  by (simp_all add: opened_def)

lemma opened_open:
  "free_slot (v_fds v) 0 = Some j \<Longrightarrow> length (v_fds v) = 32 \<Longrightarrow> open_on (opened v j i) (int j) i"
  using free_slot_bound [of "v_fds v" 0 j] by (simp add: open_on_def opened_def)

section \<open>Opening by path\<close>

text \<open>The answer of \<open>ipo_fs_open\<close> and the volume after it.\<close>

definition open_result :: "vol \<Rightarrow> u32 option \<Rightarrow> int \<times> vol" where
  "open_result v w = (case w of
     None \<Rightarrow> (-1, v)
   | Some i \<Rightarrow> if mode (inode_at v i) AND 1 \<noteq> 0 then (-1, v)
       else (case free_slot (v_fds v) 0 of None \<Rightarrow> (-1, v) | Some j \<Rightarrow> (int j, opened v j i)))"

context fs_store begin

lemma runs_open_result:
  assumes T: "tree_ok N v D" and "count_list (c_str p) slash < 128" and "length (c_str p) + 2 < 512" and "v_mounted v"
  shows "runs v (ipo_fs_open io (Some p)) (fst (open_result v (walk v 1 (path_components p))))
    (snd (open_result v (walk v 1 (path_components p))))"
proof -
  have rd: "runs v (read_inode io i) (Some (inode_at v i)) v" if "walk v 1 (path_components p) = Some i" for i
    using walk_in_tree [OF T _ that] T by (intro runs_read_inode) (auto simp: tree_ok_def goodD)
  show ?thesis
    unfolding ipo_fs_open_def
    by (rule evals_bind [OF runs_mounted])
       (use assms(4) rd in \<open>auto simp: open_result_def opened_def intro!: evals_bind [OF runs_path_resolve [OF T assms(2,3)]]
          evals_bind [OF rd] evals_bind [OF runs_fds] evals_bind [OF runs_set_fds] evals_return split: option.splits\<close>)
qed

end

section \<open>Properties\<close>

lemma demo_slot_block: "k < 7 \<Longrightarrow> slot_block demo_vol demo_root k = 4"
  by (simp add: slot_block_def node_of_def demo_root_def zero_inode_def)

lemma demo_slots: "slot_entry demo_vol demo_root 0 = demo_entry" "slot_entry demo_vol demo_root (Suc 0) = demo_entry_b"
proof -
  have "chunk 0 72 (enc_dir_entry demo_entry @ enc_dir_entry demo_entry_b @ replicate 368 0) = enc_dir_entry demo_entry"
    "chunk 72 72 (enc_dir_entry demo_entry @ enc_dir_entry demo_entry_b @ replicate 368 0) = enc_dir_entry demo_entry_b"
    by (simp_all add: chunk_def length_enc_dir_entry)
  then show "slot_entry demo_vol demo_root 0 = demo_entry" "slot_entry demo_vol demo_root (Suc 0) = demo_entry_b"
    by (simp_all add: slot_entry_def demo_slot_block entry_in_def FsDir.entry_offset_def demo_block_def dec_enc_dir_entry)
qed

lemma demo_entries: "unat (entry_count demo_root) = 2" "entry_name demo_entry = str ''a''" "entry_name demo_entry_b = str ''b''"
  by (simp_all add: entry_count_def demo_root_def entry_name_def demo_entry_def demo_entry_b_def c_str_def)

lemma demo_directory: "directory demo_vol demo_root = [(str ''a'', 2), (str ''b'', 3)]"
  unfolding directory_def demo_entries(1)
  by (simp add: slots_from_def upt_rec demo_slots demo_slot_block demo_entries)
     (simp add: demo_entry_def demo_entry_b_def)

lemma demo_tree: "tree_ok 12 demo_vol {1, 2, 3}"
proof -
  have "wf_directory demo_vol demo_root"
    unfolding wf_directory_def demo_entries(1)
    by (auto simp: less_Suc_eq numeral_2_eq_2 demo_slots wf_entry_def demo_entries) (simp_all add: demo_entry_def demo_entry_b_def)
  moreover have "in_table demo_sb 1" "in_table demo_sb 2" "in_table demo_sb 3" by (simp_all add: in_table_def demo_sb_def)
  ultimately show ?thesis
    using demo_good demo_file_ok
    by (auto simp: tree_ok_def demo_inode_1 demo_inode_2 demo_inode_3 demo_directory)
       (simp_all add: demo_file_def demo_program_def)
qed

lemma demo_path: "path_components (str ''/./b'') = [str ''b'']"
  by (simp add: path_components_def normalise_from_def c_str_def)

lemma demo_walk: "walk demo_vol 1 [str ''b''] = Some 3" "mode (inode_at demo_vol 3) AND 1 = 0"
proof -
  have "lookup demo_vol 1 (str ''b'') = Some 3"
    by (simp add: lookup_def demo_inode_1 demo_directory) (simp add: demo_root_def)
  then show "walk demo_vol 1 [str ''b''] = Some 3" by simp
  show "mode (inode_at demo_vol 3) AND 1 = 0" by (simp add: demo_inode_3 demo_program_def)
qed

lemma demo_free_slot: "free_slot (v_fds demo_vol) 0 = Some 1"
proof -
  have "fds demo_fs = \<lparr>used = 1, fd_inode = 2, fd_offset = 0, fd_flags = 0\<rparr> #
      replicate (Suc 30) \<lparr>used = 0, fd_inode = 0, fd_offset = 0, fd_flags = 0\<rparr>" by (simp add: demo_fs_def)
  then show ?thesis unfolding replicate_Suc by simp
qed

text \<open>
  C9. Path resolution is a walk: on a volume whose directories are well formed,
  \<open>path_resolve\<close> canonicalises the path to its components (without empty ones and \<open>.\<close>, with
  \<open>..\<close> cancelling the one before) and follows them from the root by the names in the
  directories. It returns the inode at the end, or fails when a component is not the name of an
  entry or stands below a file, and changes nothing.
\<close>

theorem path_resolve_correct:
  assumes "ata_drive io view" and "attached view N s" and "v = volume view N s" and "tree_ok N v D"
    and "count_list (c_str p) slash < 128" and "length (c_str p) + 2 < 512"
  shows "\<exists>s'. run_state (path_resolve io (Some p)) s = (walk v 1 (path_components p), s') \<and>
    attached view N s' \<and> volume view N s' = v"
  using evals_attached [OF fs_store.runs_path_resolve [OF drive_store [OF assms(1)] assms(4-6)] assms(2)] assms(3) by simp

theorem path_resolve_correct_witness:
  "\<exists>s'. run_state (path_resolve pio_io (Some (str ''/./b''))) demo_fs = (Some 3, s')"
proof -
  have "count_list (c_str (str ''/./b'')) slash < 128" "length (c_str (str ''/./b'')) + 2 < 512"
    by (simp_all add: c_str_def)
  from path_resolve_correct [OF pio.ata_drive_axioms demo_attached refl demo_tree this] show ?thesis
    unfolding demo_path demo_walk(1) by blast
qed

text \<open>
  C30. Opening a file takes the first free descriptor of the table, the one all before which are in
  use, for the inode at the end of the path, at offset 0, and changes nothing else. It fails without
  any change exactly when the path leads nowhere or to a directory, or when all 32 descriptors are
  in use.
\<close>

theorem ipo_fs_open_correct:
  assumes "ata_drive io view" and "attached view N s" and "v = volume view N s" and "tree_ok N v D" and "fs_mounted s"
    and "count_list (c_str p) slash < 128" and "length (c_str p) + 2 < 512" and "length (fds s) = 32"
  shows "\<exists>r s'. run_state (ipo_fs_open io (Some p)) s = (r, s') \<and> attached view N s' \<and>
    ((\<exists>i j. walk v 1 (path_components p) = Some i \<and> mode (inode_at v i) AND 1 = 0 \<and>
        j < 32 \<and> used (v_fds v ! j) = 0 \<and> (\<forall>l < j. used (v_fds v ! l) \<noteq> 0) \<and>
        r = int j \<and> volume view N s' = opened v j i) \<or>
     ((walk v 1 (path_components p) = None \<or> (\<exists>i. walk v 1 (path_components p) = Some i \<and> mode (inode_at v i) AND 1 \<noteq> 0) \<or>
        (\<forall>l < 32. used (v_fds v ! l) \<noteq> 0)) \<and> r = -1 \<and> volume view N s' = v))"
proof -
  have m: "v_mounted v" and len: "length (v_fds v) = 32" using assms(3,5,8) by (simp_all add: volume_def)
  obtain s' where s': "run_state (ipo_fs_open io (Some p)) s = (fst (open_result v (walk v 1 (path_components p))), s')"
    "attached view N s'" "volume view N s' = snd (open_result v (walk v 1 (path_components p)))"
    using evals_attached [OF fs_store.runs_open_result [OF drive_store [OF assms(1)] assms(4,6,7) m] assms(2) assms(3) [symmetric]] by blast
  show ?thesis
  proof (cases "free_slot (v_fds v) 0")
    case None
    then have "\<forall>l < 32. used (v_fds v ! l) \<noteq> 0" using free_slot_None [of "v_fds v" 0] len by simp
    then show ?thesis using s' None by (auto simp: open_result_def split: option.splits if_splits)
  next
    case (Some j)
    then have "first_free (v_fds v) j" by (simp add: free_slot_first)
    then show ?thesis using s' Some len by (auto simp: open_result_def first_free_def split: option.splits if_splits)
  qed
qed

theorem ipo_fs_open_correct_witness:
  "\<exists>s'. run_state (ipo_fs_open pio_io (Some (str ''/./b''))) demo_fs = (1, s') \<and> volume prompt 12 s' = opened demo_vol 1 3"
proof -
  have p: "count_list (c_str (str ''/./b'')) slash < 128" "length (c_str (str ''/./b'')) + 2 < 512" "fs_mounted demo_fs" "length (fds demo_fs) = 32"
    by (simp_all add: c_str_def demo_fs_def)
  have "first_free (v_fds demo_vol) 1" using demo_free_slot by (simp add: free_slot_first)
  then have f: "1 < length (v_fds demo_vol)" "used (v_fds demo_vol ! 1) = 0" "l < 1 \<Longrightarrow> used (v_fds demo_vol ! l) \<noteq> 0" for l
    by (simp_all add: first_free_def)
  have j: "j = 1" if "used (v_fds demo_vol ! j) = 0" "\<forall>l < j. used (v_fds demo_vol ! l) \<noteq> 0" for j
    using that f by (metis less_one nat_neq_iff)
  have "(1 :: nat) < 32" by simp
  then have no: "\<not> (\<forall>l < 32. used (v_fds demo_vol ! l) \<noteq> 0)" using f(2) by blast
  obtain r s' where r: "run_state (ipo_fs_open pio_io (Some (str ''/./b''))) demo_fs = (r, s')"
    and c: "(\<exists>i j. Some 3 = Some i \<and> mode (inode_at demo_vol i) AND 1 = 0 \<and>
        j < 32 \<and> used (v_fds demo_vol ! j) = 0 \<and> (\<forall>l < j. used (v_fds demo_vol ! l) \<noteq> 0) \<and>
        r = int j \<and> volume prompt 12 s' = opened demo_vol j i) \<or>
     ((Some 3 = None \<or> (\<exists>i. Some 3 = Some i \<and> mode (inode_at demo_vol i) AND 1 \<noteq> 0) \<or>
        (\<forall>l < 32. used (v_fds demo_vol ! l) \<noteq> 0)) \<and> r = -1 \<and> volume prompt 12 s' = demo_vol)"
    using ipo_fs_open_correct [OF pio.ata_drive_axioms demo_attached refl demo_tree p(3,1,2,4)]
    unfolding demo_path demo_walk(1) by blast
  have "\<not> (\<exists>i. Some 3 = Some i \<and> mode (inode_at demo_vol i) AND 1 \<noteq> 0)" using demo_walk(2) by simp
  with c no obtain j where "used (v_fds demo_vol ! j) = 0" "\<forall>l < j. used (v_fds demo_vol ! l) \<noteq> 0" "r = int j"
    "volume prompt 12 s' = opened demo_vol j 3" by blast
  then show ?thesis using r j by fastforce
qed

end
