(* ===== verification/ProcessProof.thy ===== *)
theory ProcessProof imports Process HeapView FsWalkProps begin

text \<open>
  The steps of \<open>process_exec\<close> over the heap as a list of cells: the process structure, the loading of
  the image, the arguments and the clean-up.
\<close>

section \<open>The memory of the kernel\<close>

lemma alloc_kmalloc: "kmalloc (heap k) sz = Some (p, h) \<Longrightarrow> alloc sz k = Some (p, k\<lparr>heap := h\<rparr>)"
  by (simp add: alloc_def)

lemma poke_store: "poke32 p w k = k\<lparr>heap := (heap k)\<lparr>km := store p (le32 w) (km (heap k))\<rparr>\<rparr>"
  by (simp add: poke32_def with_mem_def wr_mem32_def)

text \<open>A cell in use, at a pointer, with the cells around it.\<close>

lemma poke_cell:
  assumes "heap_is (heap k) (xs @ Cell False g bs # ys)" and "off + 4 \<le> length bs"
  shows "\<exists>h. poke32 (place xs + of_nat off) w k = k\<lparr>heap := h\<rparr> \<and>
    heap_is h (xs @ Cell False g (patch off (le32 w) bs) # ys) \<and> only_inside (heap k) h"
  using store_cell [OF assms(1), of off "le32 w"] assms(2) unfolding poke_store by auto

lemma rd_mem32_load: "off + 4 \<le> length bs \<Longrightarrow> load m p (length bs) = bs \<Longrightarrow> rd_mem32 m (p + of_nat off) = rd32 bs off"
  using load_part [of off 4 bs m p] by (simp add: rd_mem32_def rd32_chunk)

lemma peek_cell:
  assumes "heap_is (heap k) (xs @ Cell False g bs # ys)" and "off + 4 \<le> length bs"
  shows "peek32 k (place xs + of_nat off) = rd32 bs off"
  unfolding peek32_def by (rule rd_mem32_load [OF assms(2) cell_data [OF assms(1)]])

section \<open>The process structure\<close>

record proc_fields =
  f_pid :: u32
  f_base :: u32
  f_size :: u32
  f_entry :: u32
  f_argc :: u32
  f_argv :: u32
  f_next :: u32

definition proc_is :: "bytes \<Rightarrow> proc_fields \<Rightarrow> bool" where
  "proc_is bs f \<longleftrightarrow> length bs = 308 \<and> rd32 bs 0 = f_pid f \<and> rd32 bs 4 = f_base f \<and> rd32 bs 8 = f_size f \<and>
     rd32 bs 12 = f_entry f \<and> rd32 bs 28 = f_argc f \<and> rd32 bs 36 = f_argv f \<and> rd32 bs 304 = f_next f"

text \<open>A process at the end of the cells \<open>xs\<close> and what stands behind it.\<close>

definition has_process :: "'d kernel \<Rightarrow> cell list \<Rightarrow> proc_fields \<Rightarrow> cell list \<Rightarrow> bool" where
  "has_process k xs f ys \<longleftrightarrow> (\<exists>bs. proc_is bs f \<and> heap_is (heap k) (xs @ Cell False False bs # ys))"

lemma peek_process:
  assumes "has_process k xs f ys"
  shows "peek32 k (place xs + P_PID) = f_pid f" and "peek32 k (place xs + P_BINARY_BASE) = f_base f"
    and "peek32 k (place xs + P_BINARY_SIZE) = f_size f" and "peek32 k (place xs + P_ENTRY_POINT) = f_entry f"
    and "peek32 k (place xs + P_ARGC) = f_argc f" and "peek32 k (place xs + P_ARGV_KERNEL) = f_argv f"
    and "peek32 k (place xs + P_NEXT) = f_next f"
proof -
  obtain bs where bs: "proc_is bs f" "heap_is (heap k) (xs @ Cell False False bs # ys)"
    using assms unfolding has_process_def by blast
  note peek32 = peek_cell [OF bs(2)]
  show "peek32 k (place xs + P_PID) = f_pid f" "peek32 k (place xs + P_BINARY_BASE) = f_base f"
    "peek32 k (place xs + P_BINARY_SIZE) = f_size f" "peek32 k (place xs + P_ENTRY_POINT) = f_entry f"
    "peek32 k (place xs + P_ARGC) = f_argc f" "peek32 k (place xs + P_ARGV_KERNEL) = f_argv f"
    "peek32 k (place xs + P_NEXT) = f_next f"
    using peek32 [of 0] peek32 [of 4] peek32 [of 8] peek32 [of 12] peek32 [of 28] peek32 [of 36] peek32 [of 304] bs(1)
    by (simp_all add: proc_is_def)
qed

text \<open>A field is set, or a field that plays no role.\<close>

lemma poke_process:
  assumes "has_process k xs f ys" and "off + 4 \<le> 308"
    and "\<And>bs. proc_is bs f \<Longrightarrow> proc_is (patch off (le32 w) bs) f'"
  shows "\<exists>h. poke32 (place xs + of_nat off) w k = k\<lparr>heap := h\<rparr> \<and> has_process (k\<lparr>heap := h\<rparr>) xs f' ys \<and>
    only_inside (heap k) h"
proof -
  obtain bs where bs: "proc_is bs f" "heap_is (heap k) (xs @ Cell False False bs # ys)"
    using assms(1) unfolding has_process_def by blast
  then have "off + 4 \<le> length bs" using assms(2) by (simp add: proc_is_def)
  from poke_cell [OF bs(2) this, of w] obtain h where
    "poke32 (place xs + of_nat off) w k = k\<lparr>heap := h\<rparr>" "heap_is h (xs @ Cell False False (patch off (le32 w) bs) # ys)"
    "only_inside (heap k) h" by blast
  then show ?thesis using assms(3) [OF bs(1)] unfolding has_process_def by auto
qed

lemma patch_fields:
  assumes "proc_is bs f"
  shows "proc_is (patch 4 (le32 w) bs) (f\<lparr>f_base := w\<rparr>)" and "proc_is (patch 8 (le32 w) bs) (f\<lparr>f_size := w\<rparr>)"
    and "proc_is (patch 12 (le32 w) bs) (f\<lparr>f_entry := w\<rparr>)" and "proc_is (patch 28 (le32 w) bs) (f\<lparr>f_argc := w\<rparr>)"
    and "proc_is (patch 36 (le32 w) bs) (f\<lparr>f_argv := w\<rparr>)" and "proc_is (patch 304 (le32 w) bs) (f\<lparr>f_next := w\<rparr>)"
    and "proc_is (patch 0 (le32 w) bs) (f\<lparr>f_pid := w\<rparr>)"
    and "proc_is (patch 16 (le32 w) bs) f" and "proc_is (patch 20 (le32 w) bs) f" and "proc_is (patch 24 (le32 w) bs) f"
  using assms by (simp_all add: proc_is_def rd32_patch_other)

lemma set_field:
  assumes "has_process k xs f ys"
  shows "\<exists>h. poke32 (place xs + 4) w k = k\<lparr>heap := h\<rparr> \<and> has_process (k\<lparr>heap := h\<rparr>) xs (f\<lparr>f_base := w\<rparr>) ys \<and> only_inside (heap k) h"
    and "\<exists>h. poke32 (place xs + 8) w k = k\<lparr>heap := h\<rparr> \<and> has_process (k\<lparr>heap := h\<rparr>) xs (f\<lparr>f_size := w\<rparr>) ys \<and> only_inside (heap k) h"
    and "\<exists>h. poke32 (place xs + 12) w k = k\<lparr>heap := h\<rparr> \<and> has_process (k\<lparr>heap := h\<rparr>) xs (f\<lparr>f_entry := w\<rparr>) ys \<and> only_inside (heap k) h"
    and "\<exists>h. poke32 (place xs + 28) w k = k\<lparr>heap := h\<rparr> \<and> has_process (k\<lparr>heap := h\<rparr>) xs (f\<lparr>f_argc := w\<rparr>) ys \<and> only_inside (heap k) h"
    and "\<exists>h. poke32 (place xs + 36) w k = k\<lparr>heap := h\<rparr> \<and> has_process (k\<lparr>heap := h\<rparr>) xs (f\<lparr>f_argv := w\<rparr>) ys \<and> only_inside (heap k) h"
    and "\<exists>h. poke32 (place xs + 304) w k = k\<lparr>heap := h\<rparr> \<and> has_process (k\<lparr>heap := h\<rparr>) xs (f\<lparr>f_next := w\<rparr>) ys \<and> only_inside (heap k) h"
    and "\<exists>h. poke32 (place xs) w k = k\<lparr>heap := h\<rparr> \<and> has_process (k\<lparr>heap := h\<rparr>) xs (f\<lparr>f_pid := w\<rparr>) ys \<and> only_inside (heap k) h"
    and "\<exists>h. poke32 (place xs + 16) w k = k\<lparr>heap := h\<rparr> \<and> has_process (k\<lparr>heap := h\<rparr>) xs f ys \<and> only_inside (heap k) h"
    and "\<exists>h. poke32 (place xs + 20) w k = k\<lparr>heap := h\<rparr> \<and> has_process (k\<lparr>heap := h\<rparr>) xs f ys \<and> only_inside (heap k) h"
    and "\<exists>h. poke32 (place xs + 24) w k = k\<lparr>heap := h\<rparr> \<and> has_process (k\<lparr>heap := h\<rparr>) xs f ys \<and> only_inside (heap k) h"
  using poke_process [OF assms, of 4, OF _ patch_fields(1)]
    poke_process [OF assms, of 8, OF _ patch_fields(2)]
    poke_process [OF assms, of 12, OF _ patch_fields(3)]
    poke_process [OF assms, of 28, OF _ patch_fields(4)]
    poke_process [OF assms, of 36, OF _ patch_fields(5)]
    poke_process [OF assms, of 304, OF _ patch_fields(6)]
    poke_process [OF assms, of 0, OF _ patch_fields(7)]
    poke_process [OF assms, of 16, OF _ patch_fields(8)]
    poke_process [OF assms, of 20, OF _ patch_fields(9)]
    poke_process [OF assms, of 24, OF _ patch_fields(10)]
  by simp_all

text \<open>The cells behind the process change.\<close>

lemma has_process_rest:
  assumes "has_process k xs f ys"
    and "\<And>bs. heap_is (heap k) ((xs @ [Cell False False bs]) @ ys) \<Longrightarrow> \<exists>h. P h \<and> heap_is h ((xs @ [Cell False False bs]) @ zs)"
  shows "\<exists>h. P h \<and> has_process (k\<lparr>heap := h\<rparr>) xs f zs"
  using assms unfolding has_process_def by fastforce

lemma new_process_cell:
  assumes H: "heap_is (heap k) (xs @ [Cell False False (replicate 308 0)])"
  shows "\<exists>h. new_process (place xs) k = k\<lparr>heap := h, next_pid := next_pid k + 1, process_list := place xs\<rparr> \<and>
    has_process (k\<lparr>heap := h\<rparr>) xs \<lparr>f_pid = next_pid k, f_base = 0, f_size = 0, f_entry = 0, f_argc = 0, f_argv = 0,
      f_next = process_list k\<rparr> [] \<and> only_inside (heap k) h"
proof -
  let ?f = "\<lparr>f_pid = 0, f_base = 0, f_size = 0, f_entry = 0, f_argc = 0, f_argv = 0, f_next = 0\<rparr>"
  have m: "fst (memset m (place xs) 0 PROCESS_SIZE) = store (place xs) (replicate 308 0) m" for m
    by (simp add: memset_def memset_loop_store)
  let ?h1 = "(heap k)\<lparr>km := store (place xs) (replicate 308 0) (km (heap k))\<rparr>"
  have "heap_is ?h1 (xs @ [Cell False False (replicate 308 0)])" "only_inside (heap k) ?h1"
    using store_cell [OF H, of 0 "replicate 308 0"] by (simp_all add: patch_all)
  moreover have "proc_is (replicate 308 0) ?f" by (simp add: proc_is_def)
  ultimately have 1: "has_process (k\<lparr>heap := ?h1\<rparr>) xs ?f []" "only_inside (heap k) ?h1"
    by (auto simp: has_process_def)
  obtain h2 where 2: "poke32 (place xs) (next_pid k) (k\<lparr>heap := ?h1\<rparr>) = k\<lparr>heap := h2\<rparr>"
    "has_process (k\<lparr>heap := h2\<rparr>) xs (?f\<lparr>f_pid := next_pid k\<rparr>) []" "only_inside ?h1 h2"
    using set_field(7) [OF 1(1), where w = "next_pid k"] by auto
  obtain bs where bs: "proc_is bs (?f\<lparr>f_pid := next_pid k\<rparr>)" "heap_is h2 (xs @ [Cell False False bs])"
    using 2(2) by (auto simp: has_process_def)
  have l: "length bs = 308" using bs(1) by (simp add: proc_is_def)
  let ?h3 = "h2\<lparr>km := (km h2)(place xs + 44 := 1)\<rparr>"
  have "heap_is ?h3 (xs @ [Cell False False (patch 44 [1] bs)])" "only_inside h2 ?h3"
    using store_cell [OF bs(2), of 44 "[1]"] l by (simp_all add: store_single [symmetric])
  moreover have "proc_is (patch 44 [1] bs) (?f\<lparr>f_pid := next_pid k\<rparr>)"
    using bs(1) by (simp add: proc_is_def rd32_patch_other)
  ultimately have 3: "has_process (k\<lparr>heap := ?h3\<rparr>) xs (?f\<lparr>f_pid := next_pid k\<rparr>) []" "only_inside h2 ?h3"
    by (auto simp: has_process_def)
  obtain h4 where 4: "poke32 (place xs + 304) (process_list k) (k\<lparr>heap := ?h3\<rparr>) = k\<lparr>heap := h4\<rparr>"
    "has_process (k\<lparr>heap := h4\<rparr>) xs (?f\<lparr>f_pid := next_pid k, f_next := process_list k\<rparr>) []" "only_inside ?h3 h4"
    using set_field(6) [OF 3(1), where w = "process_list k"] by auto
  have "h2 = ?h1\<lparr>km := store (place xs) (le32 (next_pid k)) (km ?h1)\<rparr>"
    "h4 = ?h3\<lparr>km := store (place xs + 304) (le32 (process_list k)) (km ?h3)\<rparr>"
    using arg_cong [OF 2(1), of heap] arg_cong [OF 4(1), of heap] by (simp_all add: poke_store)
  then have "new_process (place xs) k = k\<lparr>heap := h4, next_pid := next_pid k + 1, process_list := place xs\<rparr>"
    unfolding new_process_def Let_def with_mem_def m by (simp add: poke_store)
  moreover have "only_inside (heap k) h4"
    using 1(2) 2(3) 3(2) 4(3) by (blast intro: only_inside_trans)
  ultimately show ?thesis using 4(2) by auto
qed

section \<open>Loading\<close>

lemma fs_call_run: "run_state m (fsys k) = (r, f) \<Longrightarrow> fs_call m k = (r, k\<lparr>fsys := f\<rparr>)"
  by (simp add: fs_call_def)

text \<open>The loop that reads the file ends on every disk and with every answer of the drive.\<close>

lemma read_blocks_bounded:
  "copied \<le> sz \<Longrightarrow> valid (\<lambda>_. True) (read_blocks io first sz offset n b inode tmp copied buffer) (\<lambda>r _. fst r \<le> sz)"
proof (induction n arbitrary: b inode tmp copied buffer)
  case 0
  then show ?case by (auto intro: valid_return)
next
  case (Suc n)
  have step: "copied + round_length bo sz copied \<le> sz" for bo
  proof -
    have "round_length bo sz copied \<le> sz - copied" by (auto simp: round_length_def)
    then show ?thesis using Suc.prems by (simp add: word_le_nat_alt unat_word_ariths unat_sub split: if_splits)
  qed
  show ?case
    using Suc.IH [OF step] Suc.prems
    by (auto simp: Let_def intro!: valid_bind [where R = "\<lambda>_ _. True"] valid_if valid_return
        simp: valid_def split: prod.splits)
qed

lemma valid_any: "(\<And>x. valid (\<lambda>_. True) (f x) Q) \<Longrightarrow> valid (\<lambda>_. True) (State_Monad.bind m f) Q"
  by (rule valid_bind [where R = "\<lambda>_ _. True"]) (simp add: valid_def)

lemma read_bounded:
  assumes "unat sz < 2 ^ 31" and "run_state (ipo_fs_read io fd buffer sz offset) s = ((r, b), s')"
  shows "r \<le> int (unat sz)"
proof -
  have small: "sint c \<le> int (unat sz)" if "c \<le> sz" for c :: u32
  proof -
    have "unat c \<le> unat sz" using that by (simp add: word_le_nat_alt)
    moreover from this have "int (unat c) = sint c" using assms(1) by (intro sint_word_small) simp
    ultimately show ?thesis by linarith
  qed
  have tail: "valid (\<lambda>_. True) (State_Monad.bind (read_blocks io first l offset n b inode tmp 0 buffer)
      (\<lambda>(copied, buffer'). State_Monad.return (sint copied, buffer'))) (\<lambda>r _. fst r \<le> int (unat sz))"
    if "l \<le> sz" for first l n b inode tmp
    by (rule valid_bind [OF read_blocks_bounded])
       (use that small in \<open>auto simp: valid_def intro: order_trans split: prod.splits\<close>)
  have le: "i - offset \<le> sz" if "i < offset + sz" "\<not> i \<le> offset" for i :: u32
  proof -
    have "unat (i - offset) = unat i - unat offset" using that(2) by (intro unat_minus) simp
    moreover have "unat (offset + sz) \<le> unat offset + unat sz" by (simp add: unat_word_ariths mod_le_divisor)
    ultimately show ?thesis using that by (simp add: word_less_nat_alt word_le_nat_alt)
  qed
  have "- 1 \<le> uint sz" by (rule order_trans [OF _ uint_ge_0]) simp
  then have "valid (\<lambda>_. True) (ipo_fs_read io fd buffer sz offset) (\<lambda>r _. fst r \<le> int (unat sz))"
    unfolding ipo_fs_read_def Let_def
    by (auto intro!: valid_any [where m = "gets fds"] valid_any [where m = "read_inode io x" for io x] valid_any [where m = "uninit_block io" for io]
        valid_return tail [simplified] le split: option.splits)
  then show ?thesis using assms(2) by (auto simp: valid_def)
qed

text \<open>What one round of the loading loop asks for.\<close>

definition chunk_size :: "u32 \<Rightarrow> u32 \<Rightarrow> u32" where
  "chunk_size sz total_read = (if 0x10000 < sz - total_read then 0x10000 else sz - total_read)"

lemma chunk_size_unat:
  assumes "total_read < sz"
  shows "unat (chunk_size sz total_read) = min 65536 (unat sz - unat total_read)"
proof -
  have "unat (sz - total_read) = unat sz - unat total_read" using assms by (intro unat_minus) simp
  then show ?thesis by (auto simp: chunk_size_def word_less_nat_alt)
qed

lemma load_chunks_step:
  "load_chunks io fd binary_image sz t k =
     (if t < sz then
        let r = read_file io fd (binary_image + t) (chunk_size sz t) t k
        in if fst r \<le> 0 then Some (False, snd r)
           else load_chunks io fd binary_image sz (t + word_of_int (fst r)) (snd r)
      else Some (True, k))"
  by (subst load_chunks.simps) (simp add: Let_def chunk_size_def)

lemma load_chunks_returns: "\<exists>r. load_chunks io fd binary_image sz t k = Some r"
proof (induction "unat sz - unat t" arbitrary: t k rule: less_induct)
  case less
  show ?case
  proof (cases "t < sz")
    case True
    let ?c = "chunk_size sz t"
    obtain r k1 where r: "read_file io fd (binary_image + t) ?c t k = (r, k1)" by fastforce
    have c: "unat ?c = min 65536 (unat sz - unat t)" by (rule chunk_size_unat [OF True])
    obtain b f where "run_state (ipo_fs_read io fd (load (km (heap k)) (binary_image + t) (unat ?c)) ?c t) (fsys k) = ((r, b), f)"
      using r by (auto simp: read_file_def fs_call_def split: prod.splits)
    then have le: "r \<le> int (unat ?c)" by (rule read_bounded [rotated]) (use c in simp)
    show ?thesis
    proof (cases "r \<le> 0")
      case False
      have u: "unat (word_of_int r :: u32) = nat r"
        using unat_of_nat32 [of "nat r"] False le c by simp
      have tz: "unat t < unat sz" using True by (simp add: word_less_nat_alt)
      have le': "nat r \<le> unat sz - unat t" using le c False by linarith
      then have "unat t + nat r < 2 ^ 32" using tz unat_u32 [of sz] by linarith
      then have "unat (t + word_of_int r) = unat t + nat r" using u by (simp add: unat_word_ariths)
      then have "unat sz - unat (t + word_of_int r) < unat sz - unat t" using False tz by simp
      from less [OF this] show ?thesis using True False by (subst load_chunks_step) (simp add: r Let_def)
    next
      case le0: True
      have "load_chunks io fd binary_image sz t k = Some (False, k1)"
        by (subst load_chunks_step) (simp add: r Let_def True le0)
      then show ?thesis by blast
    qed
  next
    case False
    then have "load_chunks io fd binary_image sz t k = Some (True, k)" by (subst load_chunks_step) simp
    then show ?thesis by blast
  qed
qed

text \<open>On a well-formed volume the loop stores the contents of the file in the image.\<close>

lemma load_chunks_file:
  fixes v i
  defines "n \<equiv> inode_at v i"
  assumes drive: "ata_drive io view" and F: "files_ok N v I" and i: "i \<in> I" and op: "open_on v fd i"
    and sz: "sz = i_size n" "unat sz < 2 ^ 26" and m: "\<And>q. q < unat sz \<Longrightarrow> mapped v n q"
    and at: "attached view N (fsys k)" "volume view N (fsys k) = v"
    and H: "heap_is (heap k) (xs @ Cell False g (contents v n 0 (unat t) @ rest) # ys)"
    and t: "t \<le> sz" "length rest = unat sz - unat t"
  shows "\<exists>f h. load_chunks io fd (place xs) sz t k = Some (True, k\<lparr>fsys := f, heap := h\<rparr>) \<and>
    attached view N f \<and> volume view N f = v \<and> only_inside (heap k) h \<and>
    heap_is h (xs @ Cell False g (contents v n 0 (unat sz)) # ys)"
  using at H t
proof (induction "unat sz - unat t" arbitrary: t k rest rule: less_induct)
  case less
  note at = less.prems(1,2) and H = less.prems(3) and t = less.prems(4,5)
  have tz: "unat t \<le> unat sz" using t(1) by (simp add: word_le_nat_alt)
  show ?case
  proof (cases "t < sz")
    case False
    then have "t = sz" using t(1) by simp
    then have "rest = []" "unat t = unat sz" using t(2) by simp_all
    then show ?thesis using at H False
      by (subst load_chunks_step) (auto simp: only_inside_def intro!: exI [of _ "fsys k"] exI [of _ "heap k"])
  next
    case True
    let ?c = "chunk_size sz t"
    define l where "l = min 65536 (unat sz - unat t)"
    have c: "unat ?c = l" unfolding l_def by (rule chunk_size_unat [OF True])
    have lt: "unat t < unat sz" using True by (simp add: word_less_nat_alt)
    then have l: "0 < l" "unat t + l \<le> unat sz" "l < 2 ^ 31" by (auto simp: l_def)
    define buf where "buf = load (km (heap k)) (place xs + t) l"
    have "\<exists>f. run_state (ipo_fs_read io fd buf ?c t) (fsys k) = ((int l, contents v n (unat t) l @ drop l buf), f) \<and>
      attached view N f \<and> volume view N f = v"
      unfolding n_def
      by (rule read_run [OF drive at(1) at(2) [symmetric] F i op])
         (use c l lt sz m buf_def in \<open>auto simp: n_def\<close>)
    then obtain f where f: "run_state (ipo_fs_read io fd buf ?c t) (fsys k) = ((int l, contents v n (unat t) l), f)"
      "attached view N f" "volume view N f = v" by (auto simp: buf_def)
    let ?h = "(heap k)\<lparr>km := store (place xs + t) (contents v n (unat t) l) (km (heap k))\<rparr>"
    let ?k = "k\<lparr>fsys := f, heap := ?h\<rparr>"
    have rd: "read_file io fd (place xs + t) ?c t k = (int l, ?k)"
      using f(1) c by (simp add: read_file_def fs_call_def buf_def with_mem_def)
    have u: "unat (t + of_nat l) = unat t + l"
      using l sz(2) unat_of_nat32 [of l] by (simp add: unat_word_ariths)
    let ?bs = "contents v n 0 (unat t) @ rest"
    have fit: "unat t + length (contents v n (unat t) l) \<le> length ?bs" using t(2) l tz by simp
    have pt: "patch (unat t) (contents v n (unat t) l) ?bs = contents v n 0 (unat t + l) @ drop l rest"
      using contents_append [of v n 0 "unat t" l] by (simp add: patch_def)
    have H': "heap_is ?h (xs @ Cell False g (contents v n 0 (unat (t + of_nat l)) @ drop l rest) # ys)" "only_inside (heap k) ?h"
      using store_cell [OF H fit] unfolding pt u by simp_all
    have "\<exists>f h. load_chunks io fd (place xs) sz (t + of_nat l) ?k = Some (True, ?k\<lparr>fsys := f, heap := h\<rparr>) \<and>
      attached view N f \<and> volume view N f = v \<and> only_inside (heap ?k) h \<and>
      heap_is h (xs @ Cell False g (contents v n 0 (unat sz)) # ys)"
      by (rule less.hyps) (use f H' l lt u t(2) in \<open>auto simp: word_le_nat_alt\<close>)
    then show ?thesis
      using True rd l(1) only_inside_trans [OF H'(2)] by (subst load_chunks_step) (fastforce simp: Let_def)
  qed
qed

end
