(* ===== verification/ProcessArgs.thy ===== *)
theory ProcessArgs imports ProcessProof begin

text \<open>
  The arguments of a process: \<open>setup_arguments\<close> copies the strings into cells that it cuts from the
  free cell of the loaded image, and \<open>process_cleanup\<close> frees them again.
\<close>

section \<open>Argument strings\<close>

text \<open>A string outside the heap, or at the start of a cell in use.\<close>

definition arg_at :: "mem \<Rightarrow> cell list \<Rightarrow> u32 \<Rightarrow> bytes \<Rightarrow> bool" where
  "arg_at m xs p w \<longleftrightarrow> p \<noteq> 0 \<and> 0 \<notin> set w \<and>
     (load m p (Suc (length w)) = w @ [0] \<and> (\<forall>q \<le> length w. outside (p + of_nat q)) \<or>
      (\<exists>us g bs vs. xs = us @ Cell False g bs # vs \<and> p = place us \<and> take (Suc (length w)) bs = w @ [0]))"

lemma arg_at_append: "arg_at m xs p w \<Longrightarrow> arg_at m (xs @ ys) p w"
  unfolding arg_at_def by (metis append_Cons append_assoc)

lemma arg_at_cong:
  assumes "arg_at m xs p w" and "\<And>a. outside a \<Longrightarrow> m' a = m a"
  shows "arg_at m' xs p w"
proof -
  have "load m' p (Suc (length w)) = load m p (Suc (length w))" if "\<forall>q \<le> length w. outside (p + of_nat q)"
    using that assms(2) by (auto simp: load_def less_Suc_eq_le)
  then show ?thesis using assms(1) unfolding arg_at_def by metis
qed

lemma arg_string:
  assumes a: "arg_at (km h) xs p w" and H: "heap_is h (xs @ ys)"
  shows "string_at (km h) p w"
proof -
  have "load (km h) p (Suc (length w)) = w @ [0]"
    if u: "xs = us @ Cell False g bs # vs" "p = place us" "take (Suc (length w)) bs = w @ [0]" for us g bs vs
  proof -
    have "heap_is h (us @ Cell False g bs # (vs @ ys))" using H u(1) by simp
    from cell_data [OF this] have l: "load (km h) p (length bs) = bs" using u(2) by simp
    have len: "Suc (length w) \<le> length bs" using arg_cong [OF u(3), of length] by simp
    show ?thesis using load_part [OF _ l, of 0 "Suc (length w)"] len u(3) by (simp add: chunk_def)
  qed
  then show ?thesis using a unfolding arg_at_def string_at_def by blast
qed

lemma off_place:
  assumes "span zs + 12 + i < 2 ^ 26"
  shows "unat (place zs + of_nat i - KMALLOC_HEAP_START) = span zs + 12 + i"
proof -
  have "place zs + of_nat i - KMALLOC_HEAP_START = of_nat (span zs + 12 + i)" by (simp add: place_def)
  also have "unat (of_nat (span zs + 12 + i) :: u32) = span zs + 12 + i" using assms by (intro unat_of_nat32) simp
  finally show ?thesis .
qed

text \<open>A fresh cell behind the string can take its copy.\<close>

lemma arg_copies:
  assumes a: "arg_at m xs p w" and fit: "span (xs @ ys) + 12 + Suc (length w) < 2 ^ 26"
  shows "copies_forward (place (xs @ ys)) p (Suc (length w))"
  unfolding copies_forward_def
proof (intro conjI allI impI)
  show "Suc (length w) \<le> 2 ^ 32" using fit by simp
  fix i j
  assume ij: "i < Suc (length w)" "j < Suc (length w)"
  have d: "unat (place (xs @ ys) + of_nat i - KMALLOC_HEAP_START) = span (xs @ ys) + 12 + i"
    by (rule off_place) (use fit ij in simp)
  show "place (xs @ ys) + of_nat i \<noteq> p + of_nat j"
  proof
    assume e: "place (xs @ ys) + of_nat i = p + of_nat j"
    have no: "\<not> outside (p + of_nat j)" unfolding outside_def e [symmetric] d using fit ij by simp
    obtain us g bs vs where u: "xs = us @ Cell False g bs # vs" "p = place us" "take (Suc (length w)) bs = w @ [0]"
      using a no ij(2) unfolding arg_at_def by (auto simp: less_Suc_eq_le)
    have len: "Suc (length w) \<le> length bs" using arg_cong [OF u(3), of length] by simp
    have "unat (place us + of_nat j - KMALLOC_HEAP_START) = span us + 12 + j"
      by (rule off_place) (use fit ij len in \<open>simp add: u(1)\<close>)
    then show False using d len ij unfolding e u(2) by (simp add: u(1))
  qed
qed

section \<open>Copying the arguments\<close>

abbreviation (input) "arg_cell w \<equiv> Cell False False (w @ [0])"

text \<open>The pointers to consecutive cells with the strings, the first at \<open>p\<close>.\<close>

primrec arg_places :: "u32 \<Rightarrow> bytes list \<Rightarrow> u32 list" where
  "arg_places p [] = []"
| "arg_places p (w # ws) = p # arg_places (p + of_nat (length w + 13)) ws"

lemma length_arg_places [simp]: "length (arg_places p ws) = length ws"
  by (induction ws arbitrary: p) auto

lemma place_append: "place (xs @ ys) = place xs + of_nat (span ys)"
  by (simp add: place_def)

lemma none_fits_used: "(\<And>c. c \<in> set cs \<Longrightarrow> \<not> c_free c) \<Longrightarrow> none_fits n cs"
  by (simp add: none_fits_def)

lemma copy_args_cells:
  assumes "heap_is (heap k) (xs @ Cell False True (A @ Z) # ds @ Cell True False R # ys)"
    and "\<And>c. c \<in> set (xs @ ds) \<Longrightarrow> \<not> c_free c"
    and "length A = 4 * i" and "4 * length ws \<le> length Z" and "span (map (\<lambda>w. arg_cell w) ws) \<le> length R"
    and "\<And>j. j < length ws \<Longrightarrow> arg_at (km (heap k)) xs (argv ! (i + j)) (ws ! j)"
  shows "\<exists>h. copy_args argv (place xs) i (length ws) k = Some (Some (i + length ws), k\<lparr>heap := h\<rparr>) \<and>
    heap_is h (xs @ Cell False True (A @ concat (map le32 (arg_places (place (xs @ Cell False True (A @ Z) # ds)) ws)) @
        drop (4 * length ws) Z) # ds @ map (\<lambda>w. arg_cell w) ws @ Cell True False (drop (span (map (\<lambda>w. arg_cell w) ws)) R) # ys) \<and>
    only_inside (heap k) h"
  using assms
proof (induction ws arbitrary: k A Z ds R i)
  case Nil
  then show ?case by (auto simp: only_inside_def intro!: exI [of _ "heap k"])
next
  case (Cons w ws)
  note H = Cons.prems(1) and used = Cons.prems(2) and A = Cons.prems(3) and Z = Cons.prems(4) and R = Cons.prems(5)
  let ?arr = "Cell False True (A @ Z)"
  let ?pre = "xs @ ?arr # ds"
  let ?p = "argv ! i"
  have a: "arg_at (km (heap k)) xs ?p w" using Cons.prems(6) [of 0] by simp
  have H0: "heap_is (heap k) (?pre @ Cell True False R # ys)" using H by simp
  have H1: "heap_is (heap k) (xs @ (?arr # ds @ Cell True False R # ys))" using H by simp
  have sp: "span ?pre + length R + 12 < 2 ^ 26" using heap_isD(4) [OF H0] by simp
  have fit: "span ?pre + 12 + Suc (length w) < 2 ^ 26" using sp R by simp
  have len: "strlen (km (heap k)) ?p = Some (of_nat (length w))"
    using strlen_loop_string [of "km (heap k)" ?p 0 w] arg_string [OF a H1] by (simp add: strlen_def)
  have nz: "?p \<noteq> 0" using a by (simp add: arg_at_def)
  let ?sz = "of_nat (length w) + 1 :: u32"
  have usz: "unat ?sz = Suc (length w)" using unat_of_nat32 [of "Suc (length w)"] fit by (simp add: add.commute)
  have al: "\<exists>h1. kmalloc (heap k) ?sz = Some (place ?pre, h1) \<and>
    heap_is h1 (?pre @ [Cell False False (replicate (Suc (length w)) 0), Cell True False (drop (Suc (length w) + 12) R)] @ ys) \<and>
    only_inside (heap k) h1"
    using alloc_split [OF H0, of ?sz] none_fits_used [of ?pre "Suc (length w)"] used R
    unfolding usz by fastforce
  then obtain h1 where h1: "kmalloc (heap k) ?sz = Some (place ?pre, h1)"
    "heap_is h1 (?pre @ Cell False False (replicate (Suc (length w)) 0) # Cell True False (drop (Suc (length w) + 12) R) # ys)"
    "only_inside (heap k) h1" by auto
  have pz: "place ?pre \<noteq> 0" using sp by (intro place_nonzero) simp
  have a1: "arg_at (km h1) xs ?p w" by (rule arg_at_cong [OF a]) (use h1(3) in \<open>simp add: only_inside_def\<close>)
  have "heap_is h1 (xs @ (?arr # ds @ Cell False False (replicate (Suc (length w)) 0) #
      Cell True False (drop (Suc (length w) + 12) R) # ys))" using h1(2) by simp
  then have "strcpy_loop (km h1) (place ?pre) ?p = Some (store (place ?pre) (w @ [0]) (km h1))"
    by (intro strcpy_loop_string arg_string [OF a1] arg_copies [OF a1]) (use fit in simp_all)
  then have cp: "strcpy (km h1) (place ?pre) ?p = Some (store (place ?pre) (w @ [0]) (km h1), place ?pre)"
    by (simp add: strcpy_def)
  let ?h2 = "h1\<lparr>km := store (place ?pre) (w @ [0]) (km h1)\<rparr>"
  have h2: "heap_is ?h2 (?pre @ arg_cell w # Cell True False (drop (Suc (length w) + 12) R) # ys)" "only_inside h1 ?h2"
    using store_cell [OF h1(2), of 0 "w @ [0]"] by (simp_all add: patch_all del: replicate_Suc)
  let ?h3 = "?h2\<lparr>km := store (place xs + of_nat (4 * i)) (le32 (place ?pre)) (km ?h2)\<rparr>"
  have z4: "4 \<le> length Z" using Z by simp
  have pt: "patch (4 * i) (le32 (place ?pre)) (A @ Z) = (A @ le32 (place ?pre)) @ drop 4 Z"
    using A by (simp add: patch_def)
  have h3: "heap_is ?h3 (xs @ Cell False True ((A @ le32 (place ?pre)) @ drop 4 Z) # (ds @ [arg_cell w]) @
      Cell True False (drop (Suc (length w) + 12) R) # ys)" "only_inside ?h2 ?h3"
    using store_cell [of ?h2 xs True "A @ Z" "ds @ arg_cell w # Cell True False (drop (Suc (length w) + 12) R) # ys"
        "4 * i" "le32 (place ?pre)"] h2(1) A z4 unfolding pt by simp_all
  have oi: "only_inside (heap k) ?h3" using h1(3) h2(2) h3(2) by (blast intro: only_inside_trans)
  let ?k = "k\<lparr>heap := ?h3\<rparr>"
  have hk: "heap ?k = ?h3" by simp
  have keep: "outside a \<Longrightarrow> km ?h3 a = km (heap k) a" for a using oi unfolding only_inside_def by blast
  have B: "place (xs @ Cell False True ((A @ le32 (place ?pre)) @ drop 4 Z) # (ds @ [arg_cell w])) =
      place ?pre + of_nat (length w + 13)"
    using z4 by (simp add: place_def of_nat_diff)
  have "\<exists>h. copy_args argv (place xs) (Suc i) (length ws) ?k = Some (Some (Suc i + length ws), ?k\<lparr>heap := h\<rparr>) \<and>
    heap_is h (xs @ Cell False True ((A @ le32 (place ?pre)) @ concat (map le32 (arg_places (place ?pre + of_nat (length w + 13)) ws)) @
        drop (4 * length ws) (drop 4 Z)) # (ds @ [arg_cell w]) @ map (\<lambda>w. arg_cell w) ws @
        Cell True False (drop (span (map (\<lambda>w. arg_cell w) ws)) (drop (Suc (length w) + 12) R)) # ys) \<and>
    only_inside (heap ?k) h"
    unfolding B [symmetric]
  proof (rule Cons.IH)
    show "heap_is (heap ?k) (xs @ Cell False True ((A @ le32 (place ?pre)) @ drop 4 Z) # (ds @ [arg_cell w]) @
      Cell True False (drop (Suc (length w) + 12) R) # ys)" using h3(1) by simp
    show "\<not> c_free c" if "c \<in> set (xs @ ds @ [arg_cell w])" for c using that used by auto
    show "arg_at (km (heap ?k)) xs (argv ! (Suc i + j)) (ws ! j)" if "j < length ws" for j
    proof -
      have "arg_at (km (heap k)) xs (argv ! (Suc i + j)) (ws ! j)" using Cons.prems(6) [of "Suc j"] that by simp
      then show ?thesis unfolding hk by (rule arg_at_cong) (rule keep)
    qed
  qed (use A Z R in auto)
  then obtain h where h: "copy_args argv (place xs) (Suc i) (length ws) ?k = Some (Some (Suc i + length ws), ?k\<lparr>heap := h\<rparr>)"
    "heap_is h (xs @ Cell False True ((A @ le32 (place ?pre)) @ concat (map le32 (arg_places (place ?pre + of_nat (length w + 13)) ws)) @
        drop (4 * length ws) (drop 4 Z)) # (ds @ [arg_cell w]) @ map (\<lambda>w. arg_cell w) ws @
        Cell True False (drop (span (map (\<lambda>w. arg_cell w) ws)) (drop (Suc (length w) + 12) R)) # ys)"
    "only_inside ?h3 h" by auto
  have "copy_args argv (place xs) i (length (w # ws)) k = Some (Some (i + length (w # ws)), k\<lparr>heap := h\<rparr>)"
    using nz pz h(1) by (simp add: len alloc_kmalloc [OF h1(1)] cp poke_store with_mem_def)
  moreover have "only_inside (heap k) h" using oi h(3) by (rule only_inside_trans)
  ultimately show ?case using h(2) by (auto simp: add.commute add.left_commute)
qed

lemma le32_0: "le32 0 = replicate 4 0"
  by (simp add: le32_def numeral_eq_Suc)

lemma length_le32s [simp]: "length (concat (map le32 ps)) = 4 * length ps"
  by (induction ps) auto

text \<open>The cells that hold \<open>argv\<close> and the copies of the strings, the array at \<open>p\<close>.\<close>

definition argv_cells :: "u32 \<Rightarrow> bytes list \<Rightarrow> cell list" where
  "argv_cells p ws = Cell False True (concat (map le32 (arg_places (p + of_nat (4 * length ws + 16)) ws)) @ replicate 4 0) #
     map (\<lambda>w. arg_cell w) ws"

lemma span_argv_cells: "span (argv_cells p ws) = 4 * length ws + 16 + span (map (\<lambda>w. arg_cell w) ws)"
  by (simp add: argv_cells_def)

lemma setup_arguments_cells:
  assumes P: "has_process k cs f (Cell True True ib # ys)" and used: "\<And>c. c \<in> set cs \<Longrightarrow> \<not> c_free c"
    and n: "0 < length ws" "length ws \<le> 64"
    and args: "\<And>j. j < length ws \<Longrightarrow> arg_at (km (heap k)) cs (av ! j) (ws ! j)"
    and room: "4 * length ws + 16 + span (map (\<lambda>w. arg_cell w) ws) \<le> length ib"
  defines "arr \<equiv> place cs + 320"
  shows "\<exists>h. setup_arguments (place cs) (int (length ws)) (Some av) k = Some ((0, arr), k\<lparr>heap := h\<rparr>) \<and>
    has_process (k\<lparr>heap := h\<rparr>) cs (f\<lparr>f_argc := of_nat (length ws), f_argv := arr\<rparr>)
      (argv_cells arr ws @ Cell True False (drop (4 * length ws + 16 + span (map (\<lambda>w. arg_cell w) ws)) ib) # ys) \<and>
    only_inside (heap k) h"
proof -
  let ?n = "length ws" and ?rest = "drop (4 * length ws + 16) ib"
  obtain bs where bs: "proc_is bs f" "heap_is (heap k) (cs @ Cell False False bs # Cell True True ib # ys)"
    using P unfolding has_process_def by blast
  let ?xs = "cs @ [Cell False False bs]"
  have arr: "place ?xs = arr" using bs(1) by (simp add: arr_def place_def proc_is_def)
  have H: "heap_is (heap k) (?xs @ Cell True True ib # ys)" using bs(2) by simp
  have usedx: "\<not> c_free c" if "c \<in> set ?xs" for c using that used by auto
  let ?sz = "word_of_int (int ?n + 1) * 4 :: u32"
  have e: "?sz = of_nat (4 * ?n + 4)" by (simp add: algebra_simps)
  have usz: "unat ?sz = 4 * ?n + 4" unfolding e by (rule unat_of_nat32) (use n(2) in simp)
  obtain h1 where h1: "kmalloc (heap k) ?sz = Some (arr, h1)" "only_inside (heap k) h1"
    "heap_is h1 (?xs @ Cell False True (replicate (4 * ?n + 4) 0) # Cell True False ?rest # ys)"
    using alloc_split [OF H, of ?sz, unfolded usz, OF _ none_fits_used [OF usedx]] room unfolding arr by (auto simp: add.commute [of 16])
  have nz: "arr \<noteq> 0" unfolding arr [symmetric] using heap_isD(4) [OF H] by (intro place_nonzero) simp
  let ?k1 = "k\<lparr>heap := h1\<rparr>"
  let ?B = "arr + of_nat (4 * ?n + 16)"
  have B: "place (?xs @ Cell False True ([] @ replicate (4 * ?n + 4) 0) # []) = ?B"
    unfolding place_append [of ?xs] arr by simp
  have "\<exists>h. copy_args av (place ?xs) 0 ?n ?k1 = Some (Some (0 + ?n), ?k1\<lparr>heap := h\<rparr>) \<and>
    heap_is h (?xs @ Cell False True ([] @ concat (map le32 (arg_places (place (?xs @ Cell False True ([] @ replicate (4 * ?n + 4) 0) # [])) ws)) @
      drop (4 * ?n) (replicate (4 * ?n + 4) 0)) # [] @ map (\<lambda>w. arg_cell w) ws @
      Cell True False (drop (span (map (\<lambda>w. arg_cell w) ws)) ?rest) # ys) \<and> only_inside (heap ?k1) h"
  proof (rule copy_args_cells)
    show "\<not> c_free c" if "c \<in> set (?xs @ [])" for c using that used by auto
    have keep: "outside a \<Longrightarrow> km h1 a = km (heap k) a" for a using h1(2) unfolding only_inside_def by blast
    show "arg_at (km (heap ?k1)) ?xs (av ! (0 + j)) (ws ! j)" if "j < ?n" for j
      using arg_at_cong [OF arg_at_append [OF args [OF that], of "[Cell False False bs]"] keep] by simp
  qed (use h1(3) room in simp_all)
  then obtain h2 where h2: "copy_args av arr 0 ?n ?k1 = Some (Some ?n, k\<lparr>heap := h2\<rparr>)" "only_inside h1 h2"
    "heap_is h2 (?xs @ argv_cells arr ws @ Cell True False (drop (span (map (\<lambda>w. arg_cell w) ws)) ?rest) # ys)"
    unfolding B arr by (auto simp: argv_cells_def)
  let ?ys = "argv_cells arr ws @ Cell True False (drop (4 * ?n + 16 + span (map (\<lambda>w. arg_cell w) ws)) ib) # ys"
  have h2': "heap_is h2 (?xs @ ?ys)" using h2(3) by (simp add: add.commute)
  let ?ps = "concat (map le32 (arg_places ?B ws))"
  have "patch (4 * ?n) (le32 0) (?ps @ replicate 4 0) = ?ps @ replicate 4 0" by (simp add: patch_def le32_0)
  then have "\<exists>h. poke32 (arr + of_nat (4 * ?n)) 0 (k\<lparr>heap := h2\<rparr>) = k\<lparr>heap := h\<rparr> \<and> heap_is h (?xs @ ?ys) \<and> only_inside h2 h"
    using poke_cell [of "k\<lparr>heap := h2\<rparr>" ?xs True "?ps @ replicate 4 0" _ "4 * ?n" 0] h2' unfolding argv_cells_def arr
    by simp
  then obtain h3 where h3: "poke32 (arr + 4 * word_of_int (int ?n)) 0 (k\<lparr>heap := h2\<rparr>) = k\<lparr>heap := h3\<rparr>" "heap_is h3 (?xs @ ?ys)"
    "only_inside h2 h3" by auto
  have "has_process (k\<lparr>heap := h3\<rparr>) cs f ?ys" using bs(1) h3(2) unfolding has_process_def by auto
  then obtain h4 where h4: "poke32 (place cs + 28) (of_nat ?n) (k\<lparr>heap := h3\<rparr>) = k\<lparr>heap := h4\<rparr>"
    "has_process (k\<lparr>heap := h4\<rparr>) cs (f\<lparr>f_argc := of_nat ?n\<rparr>) ?ys" "only_inside h3 h4"
    using set_field(4) [where w = "of_nat ?n"] by fastforce
  obtain h5 where h5: "poke32 (place cs + 36) arr (k\<lparr>heap := h4\<rparr>) = k\<lparr>heap := h5\<rparr>"
    "has_process (k\<lparr>heap := h5\<rparr>) cs (f\<lparr>f_argc := of_nat ?n, f_argv := arr\<rparr>) ?ys" "only_inside h4 h5"
    using set_field(5) [OF h4(2), where w = arr] by fastforce
  have "setup_arguments (place cs) (int ?n) (Some av) k = Some ((0, arr), k\<lparr>heap := h5\<rparr>)"
    using n nz h2(1) h3(1) h4(1) h5(1) alloc_kmalloc [OF h1(1)] by (simp add: setup_arguments_def Let_def)
  moreover have "only_inside (heap k) h5"
    using h1(2) h2(2) h3(3) h4(3) h5(3) by (blast intro: only_inside_trans)
  ultimately show ?thesis using h5(2) by blast
qed

section \<open>Clean-up\<close>

abbreviation (input) "freed_cell w \<equiv> Cell True True (w @ [0])"

lemma nth_le32s: "j < length ps \<Longrightarrow> rd32 (concat (map le32 ps) @ zs) (4 * j) = ps ! j"
proof (induction ps arbitrary: j)
  case (Cons p ps)
  show ?case
  proof (cases j)
    case (Suc i)
    have "rd32 (le32 p @ (concat (map le32 ps) @ zs)) (4 * j) = rd32 (concat (map le32 ps) @ zs) (4 * i)"
      by (rule rd32_skip) (simp add: Suc)
    then show ?thesis using Cons Suc by simp
  qed simp
qed simp

lemma nth_arg_places: "j < length ws \<Longrightarrow> arg_places p ws ! j = p + of_nat (span (map (\<lambda>w. arg_cell w) (take j ws)))"
proof (induction ws arbitrary: p j)
  case (Cons w ws)
  then show ?case by (cases j) (simp_all add: algebra_simps)
qed simp

lemma sint_of_nat_small: "n < 2 ^ 31 \<Longrightarrow> sint (of_nat n :: u32) = int n"
proof -
  assume n: "n < 2 ^ 31"
  then have u: "unat (of_nat n :: u32) = n" by (intro unat_of_nat32) simp
  have "int (unat (of_nat n :: u32)) = sint (of_nat n :: u32)" by (rule sint_word_small) (use u n in simp)
  then show ?thesis unfolding u by (rule sym)
qed

lemma free_args_cells:
  assumes P: "has_process k cs f (argv_hd # map (\<lambda>w. freed_cell w) us @ map (\<lambda>w. arg_cell w) ws @ ys)"
    and hd: "argv_hd = hd (argv_cells (place cs + 320) (us @ ws))"
    and argc: "f_argc f = of_nat (length (us @ ws))" "length (us @ ws) \<le> 64"
  shows "\<exists>h. free_args (place cs) (place cs + 320) (int (length us)) k = Some (k\<lparr>heap := h\<rparr>) \<and>
    has_process (k\<lparr>heap := h\<rparr>) cs f (argv_hd # map (\<lambda>w. freed_cell w) (us @ ws) @ ys) \<and> only_inside (heap k) h"
  using assms
proof (induction ws arbitrary: us k)
  case Nil
  have "peek32 k (place cs + 28) = of_nat (length us)" using peek_process(5) [OF Nil(1)] Nil(3) by simp
  moreover have "sint (of_nat (length us) :: u32) = int (length us)"
    using Nil(4) by (intro sint_of_nat_small) simp
  ultimately have "free_args (place cs) (place cs + 320) (int (length us)) k = Some k"
    by (subst free_args.simps) simp
  then show ?case using Nil(1) by (auto simp: only_inside_def intro!: exI [of _ "heap k"])
next
  case (Cons w ws)
  note P = Cons.prems(1) and hd = Cons.prems(2) and argc = Cons.prems(3,4)
  let ?all = "us @ w # ws" and ?arr = "place cs + 320"
  have "sint (of_nat (length ?all) :: u32) = int (length ?all)"
    using argc(2) by (intro sint_of_nat_small) simp
  then have lt: "int (length us) < sint (peek32 k (place cs + 28))" using peek_process(5) [OF P] argc(1) by simp
  obtain bs where bs: "proc_is bs f"
    "heap_is (heap k) (cs @ Cell False False bs # argv_hd # map (\<lambda>w. freed_cell w) us @ map (\<lambda>w. arg_cell w) (w # ws) @ ys)"
    using P unfolding has_process_def by blast
  let ?B = "?arr + of_nat (4 * length ?all + 16)"
  let ?ps = "arg_places ?B ?all"
  have hd': "argv_hd = Cell False True (concat (map le32 ?ps) @ replicate 4 0)" using hd by (simp add: argv_cells_def)
  have arr: "place (cs @ [Cell False False bs]) = ?arr" using bs(1) by (simp add: place_def proc_is_def)
  have H1: "heap_is (heap k) ((cs @ [Cell False False bs]) @ Cell False True (concat (map le32 ?ps) @ replicate 4 0) #
      map (\<lambda>w. freed_cell w) us @ map (\<lambda>w. arg_cell w) (w # ws) @ ys)" using bs(2) hd' by simp
  have spus: "span (map (\<lambda>w. freed_cell w) vs) = span (map (\<lambda>w. arg_cell w) vs)" for vs by (induction vs) auto
  let ?pre = "(cs @ [Cell False False bs]) @ argv_hd # map (\<lambda>w. freed_cell w) us"
  have "?ps ! length us = ?B + of_nat (span (map (\<lambda>w. arg_cell w) us))"
    using nth_arg_places [of "length us" ?all ?B] by simp
  also have "\<dots> = place ?pre" unfolding place_append [of "cs @ [Cell False False bs]"] arr hd' by (simp add: spus)
  finally have ps: "?ps ! length us = place ?pre" .
  have "peek32 k (?arr + of_nat (4 * length us)) = place ?pre"
    using peek_cell [OF H1, of "4 * length us"] nth_le32s [of "length us" ?ps "replicate 4 0"] ps
    unfolding arr by simp
  then have pk: "peek32 k (?arr + 4 * word_of_int (int (length us))) = place ?pre" by simp
  have H2: "heap_is (heap k) (?pre @ arg_cell w # map (\<lambda>w. arg_cell w) ws @ ys)" using bs(2) by simp
  have nz: "place ?pre \<noteq> 0" using heap_isD(4) [OF H2] by (intro place_nonzero) simp
  note fr = free_cell [OF H2]
  let ?k = "release (place ?pre) k"
  have "has_process ?k cs f (argv_hd # map (\<lambda>w. freed_cell w) (us @ [w]) @ map (\<lambda>w. arg_cell w) ws @ ys)"
    using bs(1) fr(1) unfolding has_process_def release_def by auto
  from Cons.IH [OF this] obtain h where h:
    "free_args (place cs) ?arr (int (Suc (length us))) ?k = Some (?k\<lparr>heap := h\<rparr>)"
    "has_process (?k\<lparr>heap := h\<rparr>) cs f (argv_hd # map (\<lambda>w. freed_cell w) ?all @ ys)" "only_inside (heap ?k) h"
    using hd argc by auto
  have "free_args (place cs) ?arr (int (length us)) k = Some (k\<lparr>heap := h\<rparr>)"
    using lt pk nz h(1) by (subst free_args.simps) (simp add: Let_def release_def add.commute)
  moreover have "only_inside (heap k) h" using fr(2) h(3) by (simp add: only_inside_def release_def)
  ultimately show ?case using h(2) by (auto simp: release_def)
qed

end
