(* ===== verification/ProcessExec.thy ===== *)
theory ProcessExec imports ProcessArgs begin

text \<open>
  The whole of \<open>process_exec\<close>: the file system, the allocator and the memory together.
\<close>

section \<open>Loading an application\<close>

text \<open>The path leads to an application: a file of the format, all of it on the disk.\<close>

definition has_application :: "nat \<Rightarrow> vol \<Rightarrow> u32 set \<Rightarrow> u32 set \<Rightarrow> bytes \<Rightarrow> bytes \<Rightarrow> bool" where
  "has_application N v D I p app \<longleftrightarrow>
     v_mounted v \<and> tree_ok N v D \<and> files_ok N v I \<and> length (v_fds v) = 32 \<and>
     count_list (c_str p) slash < 128 \<and> length (c_str p) < 510 \<and>
     (\<exists>i\<in>I. walk v 1 (path_components p) = Some i \<and> mode (inode_at v i) AND 1 = 0 \<and>
       length app = unat (i_size (inode_at v i)) \<and> 20 \<le> length app \<and>
       app = contents v (inode_at v i) 0 (length app) \<and> (\<forall>q < length app. mapped v (inode_at v i) q)) \<and>
     take 8 app = ipob_magic \<and> unat (rd32 app 8) < length app"

lemma load_application:
  fixes k :: "'d kernel" and v
  assumes drive: "ata_drive io view" and at: "attached view N (fsys k)" "volume view N (fsys k) = v"
    and app: "has_application N v D I p app" and slot: "free_slot (v_fds v) 0 = Some j"
    and H: "heap_is (heap k) cs" and used: "\<And>c. c \<in> set cs \<Longrightarrow> \<not> c_free c" and room: "span cs + length app + 12 < 2 ^ 26"
  shows "\<exists>f h hdr i. load_ipob_file io p k = Some (Inr (hdr, place cs, of_nat (length app)), k\<lparr>fsys := f, heap := h\<rparr>) \<and>
    entry_offset hdr = rd32 app 8 \<and> walk v 1 (path_components p) = Some i \<and>
    attached view N f \<and> volume view N f = opened v j i \<and>
    heap_is h (cs @ [Cell False False app]) \<and> only_inside (heap k) h"
proof -
  obtain i where i: "i \<in> I" "walk v 1 (path_components p) = Some i" "mode (inode_at v i) AND 1 = 0"
    "length app = unat (i_size (inode_at v i))" "20 \<le> length app" "app = contents v (inode_at v i) 0 (length app)"
    "\<And>q. q < length app \<Longrightarrow> mapped v (inode_at v i) q"
    using app unfolding has_application_def by blast
  have v: "v_mounted v" "tree_ok N v D" "files_ok N v I" "length (v_fds v) = 32" "count_list (c_str p) slash < 128"
    "length (c_str p) + 2 < 512" "take 8 app = ipob_magic" "unat (rd32 app 8) < length app"
    using app unfolding has_application_def by auto
  let ?n = "inode_at v i" and ?sz = "i_size (inode_at v i)"
  note st = drive_store [OF drive, of N]
  have small: "unat ?sz < 2 ^ 26" using room i(4) by simp
  obtain f1 where f1: "run_state (ipo_fs_stat io (Some p)) (fsys k) = (Some ?n, f1)" "attached view N f1" "volume view N f1 = v"
    using evals_attached [OF fs_store.runs_ipo_fs_stat [OF st v(2,5,6,1)] at] i(2) by auto
  obtain f2 where f2: "run_state (ipo_fs_open io (Some p)) f1 = (int j, f2)" "attached view N f2" "volume view N f2 = opened v j i"
    using evals_attached [OF fs_store.runs_ipo_fs_open [OF st v(2,5,6,1) i(2,3) slot] f1(2,3)] by (auto simp: opened_def)
  have "\<exists>h. kmalloc (heap k) ?sz = Some (place cs, h) \<and> heap_is h (cs @ [Cell False False (replicate (unat ?sz) 0)]) \<and>
    only_inside (heap k) h"
    by (rule alloc_end [OF H]) (use i(4,5) room none_fits_used [of cs] used in auto)
  then obtain h1 where h1: "kmalloc (heap k) ?sz = Some (place cs, h1)"
    "heap_is h1 (cs @ [Cell False False (replicate (unat ?sz) 0)])" "only_inside (heap k) h1" by blast
  let ?k = "k\<lparr>heap := h1, fsys := f2\<rparr>"
  have "\<exists>f h. load_chunks io (int j) (place cs) ?sz 0 ?k = Some (True, ?k\<lparr>fsys := f, heap := h\<rparr>) \<and>
    attached view N f \<and> volume view N f = opened v j i \<and> only_inside (heap ?k) h \<and>
    heap_is h (cs @ Cell False False (contents (opened v j i) (inode_at (opened v j i) i) 0 (unat ?sz)) # [])"
    by (rule load_chunks_file [where rest = "replicate (unat ?sz) 0", OF drive _ i(1) opened_open [OF slot v(4)]])
       (use v(3) small i(4,7) f2 h1(2) in \<open>simp_all add: contents_def\<close>)
  then obtain f h where l: "load_chunks io (int j) (place cs) ?sz 0 ?k = Some (True, k\<lparr>fsys := f, heap := h\<rparr>)"
    "attached view N f" "volume view N f = opened v j i" "only_inside h1 h" "heap_is h (cs @ [Cell False False app])"
    using i(4,6) by auto
  have data: "load (km h) (place cs) (length app) = app" using cell_data [of h cs False app "[]"] l(5) by simp
  have m8: "load (km h) (place cs) 8 = take 8 app"
    using load_part [of 0 8 app "km h" "place cs"] data i(5) by (simp add: chunk_def)
  have e8: "rd_mem32 (km h) (place cs + 8) = rd32 app 8" using rd_mem32_load [of 8 app "km h" "place cs"] data i(5) by simp
  have pz: "place cs \<noteq> 0" using room by (intro place_nonzero) simp
  have szs: "\<not> ?sz < 20" "\<not> 0x20000000 < ?sz" "\<not> ?sz \<le> rd32 app 8" "of_nat (length app) = ?sz"
    using i(4,5) small v(8) by (simp_all add: word_less_nat_alt word_le_nat_alt)
  let ?hdr = "header_at (km h) (place cs)"
  have hdr: "h_magic ?hdr = ipob_magic" "entry_offset ?hdr = rd32 app 8" using m8 v(7) e8 by (simp_all add: header_at_def)
  have "load_ipob_file io p k = Some (Inr (?hdr, place cs, of_nat (length app)), k\<lparr>fsys := f, heap := h\<rparr>)"
    using fs_call_run [OF f1(1)] fs_call_run [of "ipo_fs_open io (Some p)" "k\<lparr>fsys := f1, heap := h1\<rparr>"] f2(1) i(3) szs pz l(1) hdr
      alloc_kmalloc [of "k\<lparr>fsys := f1\<rparr>"] h1(1)
    by (simp add: load_ipob_file_def check_image_def Let_def)
  moreover have "only_inside (heap k) h" by (rule only_inside_trans [OF h1(3) l(4)])
  ultimately show ?thesis using hdr(2) l i(2) by blast
qed

section \<open>Clean-up\<close>

lemma place_process: "proc_is bs f \<Longrightarrow> place (cs @ Cell False False bs # ys) = place cs + 320 + of_nat (span ys)"
  by (simp add: place_def proc_is_def)

lemma span_freed: "span (map (\<lambda>w. freed_cell w) ws) = span (map (\<lambda>w. arg_cell w) ws)"
  by (induction ws) auto

text \<open>What is left of a process: the array of pointers is never given back.\<close>

definition leftovers :: "u32 \<Rightarrow> bytes list \<Rightarrow> bytes \<Rightarrow> bytes \<Rightarrow> cell list" where
  "leftovers arr ws R T = hd (argv_cells arr ws) # map (\<lambda>w. freed_cell w) ws @ [Cell True False R, Cell True True T]"

lemma cleanup_cells:
  assumes P: "has_process k cs f (argv_cells (place cs + 320) ws @ [Cell True False R, Cell False False T])"
    and base: "f_base f = place cs + 320 + of_nat (span (argv_cells (place cs + 320) ws) + length R + 12)"
    and args: "f_argv f = place cs + 320" "f_argc f = of_nat (length ws)" "length ws \<le> 64"
    and list: "process_list k = place cs"
  shows "\<exists>h bs. process_cleanup (place cs) k = Some (k\<lparr>heap := h, process_list := f_next f\<rparr>) \<and>
    heap_is h (cs @ Cell True True bs # leftovers (place cs + 320) ws R T) \<and> length bs = 308 \<and>
    rd_mem32 (km h) (place cs) = f_pid f"
proof -
  let ?arr = "place cs + 320"
  let ?hd = "hd (argv_cells ?arr ws)"
  note pk = peek_process [OF P]
  obtain bs where bs: "proc_is bs f" "heap_is (heap k) ((cs @ Cell False False bs # argv_cells ?arr ws @ [Cell True False R]) @ Cell False False T # [])"
    using P unfolding has_process_def by auto
  note free1 = free_cell [OF bs(2)]
  have basep: "f_base f = place (cs @ Cell False False bs # argv_cells ?arr ws @ [Cell True False R])"
    unfolding place_process [OF bs(1)] base by simp
  let ?sp = "span (cs @ Cell False False bs # argv_cells ?arr ws @ [Cell True False R])"
  have sp: "?sp + 12 < 2 ^ 26" using heap_isD(4) [OF bs(2)] by simp
  have bnz: "f_base f \<noteq> 0" unfolding basep by (rule place_nonzero [OF sp])
  have pnz: "place cs \<noteq> 0" using sp by (intro place_nonzero) simp
  have anz: "?arr \<noteq> 0" unfolding place_process [OF bs(1), of cs "[]", simplified, symmetric]
    using sp bs(1) by (intro place_nonzero) (simp add: proc_is_def)
  let ?k1 = "release (f_base f) k"
  have k1: "has_process ?k1 cs f (?hd # map (\<lambda>w. freed_cell w) [] @ map (\<lambda>w. arg_cell w) ws @ [Cell True False R, Cell True True T])"
    using bs(1) free1(1) unfolding has_process_def release_def basep by (auto simp: argv_cells_def)
  obtain h2 where h2: "free_args (place cs) ?arr (int (length ([] :: bytes list))) ?k1 = Some (?k1\<lparr>heap := h2\<rparr>)"
    "has_process (?k1\<lparr>heap := h2\<rparr>) cs f (?hd # map (\<lambda>w. freed_cell w) ([] @ ws) @ [Cell True False R, Cell True True T])"
    using free_args_cells [OF k1] args by auto
  have fa: "free_args (place cs) ?arr 0 ?k1 = Some (k\<lparr>heap := h2\<rparr>)" using h2(1) by (simp add: release_def)
  have h2': "has_process (k\<lparr>heap := h2\<rparr>) cs f (leftovers ?arr ws R T)"
    using h2(2) by (simp add: leftovers_def release_def)
  obtain cs2 where cs2: "proc_is cs2 f" "heap_is h2 (cs @ Cell False False cs2 # leftovers ?arr ws R T)"
    using h2' unfolding has_process_def by auto
  have rej: "kfree h2 ?arr = h2"
    using free_rejected [of h2 "cs @ [Cell False False cs2]" False] cs2 place_process [OF cs2(1), of cs "[]"]
    by (simp add: leftovers_def argv_cells_def)
  note free3 = free_cell [OF cs2(2)]
  have pk1: "peek32 ?k1 (place cs + 36) = ?arr" using peek_process(6) [OF k1] args(1) by simp
  have "process_cleanup (place cs) k = Some (k\<lparr>heap := kfree h2 (place cs), process_list := f_next f\<rparr>)"
    using pnz bnz anz pk(2) pk1 fa rej list peek_process(7) [OF h2']
    by (simp add: process_cleanup_def Let_def free_process_memory_def release_def)
  moreover have "length cs2 = 308" "rd32 cs2 0 = f_pid f" using cs2(1) by (simp_all add: proc_is_def)
  moreover from this have "rd_mem32 (km (kfree h2 (place cs))) (place cs) = f_pid f"
    using rd_mem32_load [of 0 cs2 "km (kfree h2 (place cs))" "place cs"] free3(3) by simp
  ultimately show ?thesis using free3(1) by blast
qed

section \<open>The call\<close>

text \<open>
  A program that, entered in its image, returns, and writes to no cell of the heap but its image
  and to no list or counter of the process manager.
\<close>

definition stays_in_image :: "(u32 \<Rightarrow> u32 \<Rightarrow> u32 \<Rightarrow> ('d, u32) kop) \<Rightarrow> bool" where
  "stays_in_image run \<longleftrightarrow> (\<forall>off argc argv k xs T ys.
     heap_is (heap k) (xs @ Cell False False T # ys) \<and> off < length T \<longrightarrow>
     (\<exists>code k' T'. run (place xs + of_nat off) argc argv k = Some (code, k') \<and> length T' = length T \<and>
       heap_is (heap k') (xs @ Cell False False T' # ys) \<and> process_list k' = process_list k \<and>
       next_pid k' = next_pid k))"

lemma proc_is_length: "proc_is bs f \<Longrightarrow> length bs = 308"
  by (simp add: proc_is_def)

text \<open>The arguments are where \<open>argv\<close> says.\<close>

definition arguments_at :: "'d kernel \<Rightarrow> u32 \<Rightarrow> bytes list \<Rightarrow> bool" where
  "arguments_at k argv ws \<longleftrightarrow> peek32 k (argv + of_nat (4 * length ws)) = 0 \<and>
     (\<forall>j < length ws. string_at (mem_of k) (peek32 k (argv + of_nat (4 * j))) (ws ! j))"

lemma argv_cells_arguments:
  assumes H: "heap_is (heap k) (xs @ argv_cells (place xs) ws @ ys)" and nul: "\<And>w. w \<in> set ws \<Longrightarrow> 0 \<notin> set w"
  shows "arguments_at k (place xs) ws"
  unfolding arguments_at_def
proof (intro conjI allI impI)
  let ?ps = "arg_places (place xs + of_nat (4 * length ws + 16)) ws"
  let ?bs = "concat (map le32 ?ps) @ replicate 4 0"
  have H1: "heap_is (heap k) (xs @ Cell False True ?bs # (map (\<lambda>w. arg_cell w) ws @ ys))" using H by (simp add: argv_cells_def)
  have "rd32 ?bs (4 * length ws) = rd32 (replicate 4 0) 0" by (rule rd32_skip) simp
  then show "peek32 k (place xs + of_nat (4 * length ws)) = 0"
    using peek_cell [OF H1, of "4 * length ws"] by simp
  fix j
  assume j: "j < length ws"
  let ?us = "xs @ Cell False True ?bs # map (\<lambda>w. arg_cell w) (take j ws)"
  have "?ps ! j = place ?us"
    using nth_arg_places [OF j] unfolding place_append [of xs] by simp
  then have pk: "peek32 k (place xs + of_nat (4 * j)) = place ?us"
    using peek_cell [OF H1, of "4 * j"] nth_le32s [of j ?ps "replicate 4 0"] j by simp
  have "map (\<lambda>w. arg_cell w) ws = map (\<lambda>w. arg_cell w) (take j ws) @ arg_cell (ws ! j) # map (\<lambda>w. arg_cell w) (drop (Suc j) ws)"
    using id_take_nth_drop [OF j] by (metis (no_types, lifting) list.simps(9) map_append)
  then have "heap_is (heap k) (?us @ Cell False False (ws ! j @ [0]) # (map (\<lambda>w. arg_cell w) (drop (Suc j) ws) @ ys))"
    using H1 by simp
  from cell_data [OF this] show "string_at (mem_of k) (peek32 k (place xs + of_nat (4 * j))) (ws ! j)"
    using nul j unfolding pk by (simp add: string_at_def)
qed

lemma start_process_runs:
  fixes k :: "'d kernel"
  assumes P: "has_process k cs f [Cell True True app, Cell False False app]" and used: "\<And>c. c \<in> set cs \<Longrightarrow> \<not> c_free c"
    and n: "0 < length ws" "length ws \<le> 64"
    and args: "\<And>j. j < length ws \<Longrightarrow> arg_at (km (heap k)) cs (av ! j) (ws ! j)"
    and room: "4 * length ws + 16 + span (map (\<lambda>w. arg_cell w) ws) \<le> length app"
    and base: "f_base f = place cs + 320 + of_nat (length app) + 12" and entry: "f_entry f = f_base f + of_nat off" "off < length app"
    and list: "process_list k = place cs" and run: "stays_in_image run"
  defines "arr \<equiv> place cs + 320"
  shows "\<exists>k3 code k4 h bs R T.
    run (f_entry f) (of_nat (length ws)) arr k3 = Some (code, k4) \<and>
    load (mem_of k3) (f_base f) (length app) = app \<and> arguments_at k3 arr ws \<and> current_process k3 = place cs \<and>
    fsys k3 = fsys k \<and>
    start_process run (place cs) (int (length ws)) (Some av) k = Some (sint (f_pid f),
      k4\<lparr>heap := h, last_exit_code := code, current_process := current_process k, process_list := f_next f\<rparr>) \<and>
    next_pid k4 = next_pid k \<and> heap_is h (cs @ Cell True True bs # leftovers arr ws R T)"
proof -
  let ?n = "length ws" and ?as = "argv_cells arr ws"
  define R where "R = drop (4 * length ws + 16 + span (map (\<lambda>w. arg_cell w) ws)) app"
  let ?f = "f\<lparr>f_argc := of_nat ?n, f_argv := arr\<rparr>"
  let ?ys = "?as @ [Cell True False R, Cell False False app]"
  obtain h1 where h1: "setup_arguments (place cs) (int ?n) (Some av) k = Some ((0, arr), k\<lparr>heap := h1\<rparr>)"
    "has_process (k\<lparr>heap := h1\<rparr>) cs ?f ?ys"
    using setup_arguments_cells [OF P used n args room] unfolding arr_def R_def by auto
  obtain h2 where h2: "poke32 (place cs + 16) 0xC0000000 (k\<lparr>heap := h1\<rparr>) = k\<lparr>heap := h2\<rparr>" "has_process (k\<lparr>heap := h2\<rparr>) cs ?f ?ys"
    using set_field(8) [OF h1(2), where w = "0xC0000000"] by auto
  obtain h3 where h3: "poke32 (place cs + 20) (0xC0000000 - 0x200000) (k\<lparr>heap := h2\<rparr>) = k\<lparr>heap := h3\<rparr>" "has_process (k\<lparr>heap := h3\<rparr>) cs ?f ?ys"
    using set_field(9) [OF h2(2), where w = "0xC0000000 - 0x200000"] by auto
  obtain h4 where h4: "poke32 (place cs + 24) 0x200000 (k\<lparr>heap := h3\<rparr>) = k\<lparr>heap := h4\<rparr>" "has_process (k\<lparr>heap := h4\<rparr>) cs ?f ?ys"
    using set_field(10) [OF h3(2), where w = "0x200000"] by auto
  have stack: "setup_stack (place cs) (k\<lparr>heap := h1\<rparr>) = (0xC0000000, k\<lparr>heap := h4\<rparr>)"
    using h2(1) h3(1) h4(1) by (simp add: setup_stack_def Let_def)
  let ?k3 = "k\<lparr>heap := h4, current_process := place cs\<rparr>"
  have k3: "has_process ?k3 cs ?f ?ys" using h4(2) by (simp add: has_process_def)
  obtain bs where bs: "proc_is bs ?f" "heap_is h4 (cs @ Cell False False bs # ?ys)" using h4(2) by (auto simp: has_process_def)
  have arrp: "place (cs @ [Cell False False bs]) = arr" using place_process [OF bs(1), of cs "[]"] by (simp add: arr_def)
  let ?xs = "cs @ Cell False False bs # ?as @ [Cell True False R]"
  have spR: "span ?as + length R = length app" unfolding span_argv_cells R_def using room by simp
  have "place ?xs = arr + (of_nat (span ?as + length R) + 12)"
    using place_process [OF bs(1), of cs "?as @ [Cell True False R]"] by (simp add: arr_def)
  then have "place ?xs = arr + (of_nat (length app) + 12)" unfolding spR .
  then have basep: "place ?xs = f_base f" using base by (simp add: arr_def add.assoc)
  have H: "heap_is (heap ?k3) (?xs @ Cell False False app # [])" using bs(2) by simp
  obtain code k4 T where k4: "run (f_entry f) (of_nat ?n) arr ?k3 = Some (code, k4)" "length T = length app"
    "heap_is (heap k4) (?xs @ [Cell False False T])" "process_list k4 = process_list ?k3" "next_pid k4 = next_pid ?k3"
    using run [unfolded stays_in_image_def, rule_format, OF conjI [OF H entry(2)], of "of_nat ?n" arr] entry(1) basep by auto
  have "arguments_at ?k3 (place (cs @ [Cell False False bs])) ws"
    by (rule argv_cells_arguments [where ys = "[Cell True False R, Cell False False app]"])
       (use bs(2) args arrp in \<open>auto simp: arg_at_def in_set_conv_nth\<close>)
  then have arg: "arguments_at ?k3 arr ws" unfolding arrp .
  have img: "load (mem_of ?k3) (f_base f) (length app) = app" using cell_data [OF H] unfolding basep .
  let ?k5 = "k4\<lparr>last_exit_code := code, current_process := current_process k\<rparr>"
  have P5: "has_process ?k5 cs ?f (argv_cells (place cs + 320) ws @ [Cell True False R, Cell False False T])"
    using bs(1) k4(3) unfolding has_process_def arr_def by auto
  have b5: "f_base ?f = place cs + 320 + of_nat (span (argv_cells (place cs + 320) ws) + length R + 12)"
    using spR base by (simp add: arr_def)
  obtain h6 cs6 where h6: "process_cleanup (place cs) ?k5 = Some (?k5\<lparr>heap := h6, process_list := f_next ?f\<rparr>)"
    "heap_is h6 (cs @ Cell True True cs6 # leftovers arr ws R T)" "rd_mem32 (km h6) (place cs) = f_pid f"
    using cleanup_cells [OF P5 b5 _ _ n(2)] k4(4) list unfolding arr_def by auto
  have "start_process run (place cs) (int ?n) (Some av) k = Some (sint (f_pid f),
      k4\<lparr>heap := h6, last_exit_code := code, current_process := current_process k, process_list := f_next f\<rparr>)"
    using h1(1) stack k4(1) h6(1,3) peek_process(4,5) [OF k3] by (simp add: start_process_def Let_def peek32_def)
  then show ?thesis using k4(1,5) img arg h6(2) by (intro exI [of _ ?k3]) auto
qed

end
