(* ===== verification/ProcessProps.thy ===== *)
theory ProcessProps imports ProcessExec begin

text \<open>
  What \<open>process_exec\<close> promises: the application runs on its image with its arguments, and
  afterwards the process list, the current process and the cells of the heap are what they were,
  apart from free cells and the array of pointers. The loading loop always ends. One small
  application on a disk shows that the hypotheses can be met.
\<close>

section \<open>The image\<close>

text \<open>Two cells of the same size next to each other.\<close>

lemma copy_cell:
  assumes H: "heap_is h (xs @ [Cell False False app, Cell False False zs])" and len: "length zs = length app"
  defines "d \<equiv> place (xs @ [Cell False False app])"
  shows "heap_is (h\<lparr>km := fst (memcpy (km h) d (place xs) (of_nat (length app)))\<rparr>) (xs @ [Cell False False app, Cell False False app])"
    and "only_inside h (h\<lparr>km := fst (memcpy (km h) d (place xs) (of_nat (length app)))\<rparr>)"
proof -
  let ?n = "length app"
  have sp: "span xs + 2 * (?n + 12) < 2 ^ 26" using heap_isD(4) [OF H] len by simp
  have d: "d = place xs + of_nat (?n + 12)" by (simp add: d_def place_append)
  have "copies_forward d (place xs) ?n"
    unfolding copies_forward_def
  proof (intro conjI allI impI notI)
    show "?n \<le> 2 ^ 32" using sp by simp
    fix i j
    assume "i < ?n" "j < ?n" and e: "d + of_nat i = place xs + of_nat j"
    moreover have "unat (place xs + of_nat (?n + 12 + i) - KMALLOC_HEAP_START) = span xs + 12 + (?n + 12 + i)"
      "unat (place xs + of_nat j - KMALLOC_HEAP_START) = span xs + 12 + j"
      using sp \<open>i < ?n\<close> \<open>j < ?n\<close> by (intro off_place, simp)+
    ultimately show False by (simp add: d add.assoc)
  qed
  moreover have "load (km h) (place xs) ?n = app" using cell_data [of h xs False app "[Cell False False zs]"] H by simp
  moreover have "unat (of_nat ?n :: u32) = ?n" using sp by (intro unat_of_nat32) simp
  ultimately have m: "fst (memcpy (km h) d (place xs) (of_nat ?n)) = store d app (km h)"
    by (simp add: memcpy_def memcpy_loop_forward)
  have "heap_is h ((xs @ [Cell False False app]) @ Cell False False zs # [])" using H by simp
  from store_cell [OF this, of 0 app] show
    "heap_is (h\<lparr>km := fst (memcpy (km h) d (place xs) (of_nat ?n))\<rparr>) (xs @ [Cell False False app, Cell False False app])"
    "only_inside h (h\<lparr>km := fst (memcpy (km h) d (place xs) (of_nat ?n))\<rparr>)"
    using len unfolding m by (simp_all add: d_def patch_all)
qed

text \<open>The temporary buffer becomes free, the copy stays and the structure gets its fields.\<close>

lemma install_image:
  fixes k :: "'d kernel"
  assumes P: "has_process k cs f [Cell False False app]" and app: "0 < length app"
    and room: "span cs + 320 + 2 * (length app + 12) < 2 ^ 26" and used: "\<And>c. c \<in> set cs \<Longrightarrow> \<not> c_free c"
  defines "image1 \<equiv> place cs + 320" and "image2 \<equiv> place cs + 320 + of_nat (length app) + 12" and "sz \<equiv> of_nat (length app)"
  shows "\<exists>h4 h. allocate_process_memory PROCESS_BASE_ADDR sz 7 k = Some (image2, k\<lparr>heap := h4\<rparr>) \<and> image2 \<noteq> 0 \<and>
    poke32 (place cs + P_STACK_PTR) PROCESS_STACK_TOP (poke32 (place cs + P_ENTRY_POINT) e (poke32 (place cs + P_BINARY_SIZE) sz
      (poke32 (place cs + P_BINARY_BASE) image2 (release image1
        (with_mem (\<lambda>m. fst (memcpy m image2 image1 sz)) (k\<lparr>heap := h4\<rparr>)))))) = k\<lparr>heap := h\<rparr> \<and>
    has_process (k\<lparr>heap := h\<rparr>) cs (f\<lparr>f_base := image2, f_size := sz, f_entry := e\<rparr>)
      [Cell True True app, Cell False False app] \<and> only_inside (heap k) h"
proof -
  obtain bs where bs: "proc_is bs f" "heap_is (heap k) (cs @ [Cell False False bs, Cell False False app])"
    using P by (auto simp: has_process_def)
  let ?xs = "cs @ [Cell False False bs]"
  have p1: "place ?xs = image1" using place_process [OF bs(1), of cs "[]"] by (simp add: image1_def)
  have p2: "place (?xs @ [Cell False False app]) = image2"
    using place_process [OF bs(1), of cs "[Cell False False app]"] by (simp add: image2_def add.assoc)
  have sp: "span (?xs @ [Cell False False app]) + length app + 12 < 2 ^ 26" using room proc_is_length [OF bs(1)] by simp
  have sz: "unat sz = length app" using sp unfolding sz_def by (intro unat_of_nat32) simp
  have H: "heap_is (heap k) (?xs @ [Cell False False app])" using bs(2) by simp
  have "\<exists>h. kmalloc (heap k) sz = Some (place (?xs @ [Cell False False app]), h) \<and>
    heap_is h ((?xs @ [Cell False False app]) @ [Cell False False (replicate (unat sz) 0)]) \<and> only_inside (heap k) h"
    by (rule alloc_end [OF H]) (use app sz sp none_fits_used [of cs] used in \<open>auto simp: none_fits_def\<close>)
  then obtain h4 where h4: "kmalloc (heap k) sz = Some (image2, h4)"
    "heap_is h4 (?xs @ [Cell False False app, Cell False False (replicate (length app) 0)])" "only_inside (heap k) h4"
    unfolding p2 sz by auto
  have nz: "image2 \<noteq> 0" unfolding p2 [symmetric] using sp by (intro place_nonzero) simp
  let ?h5 = "h4\<lparr>km := fst (memcpy (km h4) image2 image1 sz)\<rparr>"
  have h5: "heap_is ?h5 (?xs @ [Cell False False app, Cell False False app])" "only_inside h4 ?h5"
    using copy_cell [OF h4(2)] unfolding p2 p1 sz_def by simp_all
  let ?h6 = "kfree ?h5 image1"
  have h6: "heap_is ?h6 (?xs @ [Cell True True app, Cell False False app])" "only_inside ?h5 ?h6"
    using free_cell [of ?h5 ?xs app "[Cell False False app]"] h5(1) unfolding p1 by simp_all
  let ?ys = "[Cell True True app, Cell False False app]"
  have P6: "has_process (k\<lparr>heap := ?h6\<rparr>) cs f ?ys" using bs(1) h6(1) by (auto simp: has_process_def)
  obtain h7 where h7: "poke32 (place cs + 4) image2 (k\<lparr>heap := ?h6\<rparr>) = k\<lparr>heap := h7\<rparr>"
    "has_process (k\<lparr>heap := h7\<rparr>) cs (f\<lparr>f_base := image2\<rparr>) ?ys" "only_inside ?h6 h7"
    using set_field(1) [OF P6, where w = image2] by auto
  obtain h8 where h8: "poke32 (place cs + 8) sz (k\<lparr>heap := h7\<rparr>) = k\<lparr>heap := h8\<rparr>"
    "has_process (k\<lparr>heap := h8\<rparr>) cs (f\<lparr>f_base := image2, f_size := sz\<rparr>) ?ys" "only_inside h7 h8"
    using set_field(2) [OF h7(2), where w = sz] by auto
  obtain h9 where h9: "poke32 (place cs + 12) e (k\<lparr>heap := h8\<rparr>) = k\<lparr>heap := h9\<rparr>"
    "has_process (k\<lparr>heap := h9\<rparr>) cs (f\<lparr>f_base := image2, f_size := sz, f_entry := e\<rparr>) ?ys" "only_inside h8 h9"
    using set_field(3) [OF h8(2), where w = e] by auto
  obtain h where h: "poke32 (place cs + 16) 0xC0000000 (k\<lparr>heap := h9\<rparr>) = k\<lparr>heap := h\<rparr>"
    "has_process (k\<lparr>heap := h\<rparr>) cs (f\<lparr>f_base := image2, f_size := sz, f_entry := e\<rparr>) ?ys" "only_inside h9 h"
    using set_field(8) [OF h9(2), where w = "0xC0000000"] by auto
  have "release image1 (with_mem (\<lambda>m. fst (memcpy m image2 image1 sz)) (k\<lparr>heap := h4\<rparr>)) = k\<lparr>heap := ?h6\<rparr>"
    by (simp add: release_def with_mem_def)
  moreover have "only_inside (heap k) h"
    using h4(3) h5(2) h6(2) h7(3) h8(3) h9(3) h(3) by (blast intro: only_inside_trans)
  moreover have "allocate_process_memory PROCESS_BASE_ADDR sz 7 k = Some (image2, k\<lparr>heap := h4\<rparr>)"
    using nz alloc_kmalloc [OF h4(1)] by (simp add: allocate_process_memory_def)
  ultimately show ?thesis using nz h7(1) h8(1) h9(1) h(1,2) by metis
qed

section \<open>Execution\<close>

lemma process_exec_runs:
  fixes k :: "'d kernel"
  assumes drive: "ata_drive io view" and at: "attached view N (fsys k)" "volume view N (fsys k) = v"
    and app: "has_application N v D I p app" and slot: "free_slot (v_fds v) 0 = Some j"
    and H: "heap_is (heap k) cs" and used: "\<And>c. c \<in> set cs \<Longrightarrow> \<not> c_free c"
    and n: "0 < length ws" "length ws \<le> 64"
    and args: "\<And>i. i < length ws \<Longrightarrow> arg_at (mem_of k) cs (av ! i) (ws ! i)"
    and fits: "4 * length ws + 16 + span (map (\<lambda>w. arg_cell w) ws) \<le> length app"
    and room: "span cs + 320 + 2 * (length app + 12) < 2 ^ 26" and run: "stays_in_image run"
  defines "base \<equiv> place cs + 320 + of_nat (length app) + 12" and "arr \<equiv> place cs + 320"
  shows "\<exists>k3 code k4 k' i bs R T.
    run (base + rd32 app 8) (of_nat (length ws)) arr k3 = Some (code, k4) \<and>
    load (mem_of k3) base (length app) = app \<and> arguments_at k3 arr ws \<and> current_process k3 = place cs \<and>
    walk v 1 (path_components p) = Some i \<and> attached view N (fsys k3) \<and> volume view N (fsys k3) = opened v j i \<and>
    process_exec io run (Some p) (int (length ws)) (Some av) k = Some (sint (next_pid k), k') \<and>
    last_exit_code k' = code \<and> current_process k' = current_process k \<and> process_list k' = process_list k \<and>
    next_pid k' = next_pid k + 1 \<and> fsys k' = fsys k4 \<and>
    heap_is (heap k') (cs @ Cell True True bs # leftovers arr ws R T)"
proof -
  have app': "20 \<le> length app" "unat (rd32 app 8) < length app" using app by (auto simp: has_application_def)
  have "\<exists>h. kmalloc (heap k) 308 = Some (place cs, h) \<and> heap_is h (cs @ [Cell False False (replicate (unat (308 :: u32)) 0)]) \<and>
    only_inside (heap k) h"
    by (rule alloc_end [OF H]) (use room none_fits_used [of cs] used in auto)
  then obtain h1 where h1: "kmalloc (heap k) 308 = Some (place cs, h1)"
    "heap_is h1 (cs @ [Cell False False (replicate 308 0)])" "only_inside (heap k) h1" by auto
  have pz: "place cs \<noteq> 0" using room by (intro place_nonzero) simp
  let ?f0 = "\<lparr>f_pid = next_pid k, f_base = 0, f_size = 0, f_entry = 0, f_argc = 0, f_argv = 0, f_next = process_list k\<rparr>"
  obtain h2 where h2: "new_process (place cs) (k\<lparr>heap := h1\<rparr>) = k\<lparr>heap := h2, next_pid := next_pid k + 1, process_list := place cs\<rparr>"
    "has_process (k\<lparr>heap := h2\<rparr>) cs ?f0 []" "only_inside h1 h2"
    using new_process_cell [of "k\<lparr>heap := h1\<rparr>" cs] h1(2) by auto
  let ?k2 = "k\<lparr>heap := h2, next_pid := next_pid k + 1, process_list := place cs\<rparr>"
  obtain bs where bs: "proc_is bs ?f0" "heap_is h2 (cs @ [Cell False False bs])" using h2(2) by (auto simp: has_process_def)
  have p1: "place (cs @ [Cell False False bs]) = arr" using place_process [OF bs(1), of cs "[]"] by (simp add: arr_def)
  have used1: "\<not> c_free c" if "c \<in> set (cs @ [Cell False False bs])" for c using that used by auto
  obtain f h3 hdr i where l: "load_ipob_file io p ?k2 = Some (Inr (hdr, arr, of_nat (length app)), ?k2\<lparr>fsys := f, heap := h3\<rparr>)"
    "entry_offset hdr = rd32 app 8" "attached view N f" "volume view N f = opened v j i" "walk v 1 (path_components p) = Some i"
    "heap_is h3 ((cs @ [Cell False False bs]) @ [Cell False False app])" "only_inside h2 h3"
    using load_application [OF drive _ _ app slot, of ?k2 "cs @ [Cell False False bs]", OF _ _ _ used1] at bs(2) room
      proc_is_length [OF bs(1)]
    unfolding p1 by auto
  let ?k3 = "?k2\<lparr>fsys := f, heap := h3\<rparr>"
  have P3: "has_process ?k3 cs ?f0 [Cell False False app]" using bs(1) l(6) by (auto simp: has_process_def)
  let ?e = "base + rd32 app 8" and ?sz = "of_nat (length app)"
  have len: "0 < length app" by (rule less_le_trans [OF _ app'(1)]) simp
  obtain h4 h where h: "allocate_process_memory PROCESS_BASE_ADDR ?sz 7 ?k3 = Some (base, ?k3\<lparr>heap := h4\<rparr>)" "base \<noteq> 0"
    "poke32 (place cs + P_STACK_PTR) PROCESS_STACK_TOP (poke32 (place cs + P_ENTRY_POINT) ?e (poke32 (place cs + P_BINARY_SIZE) ?sz
      (poke32 (place cs + P_BINARY_BASE) base (release arr
        (with_mem (\<lambda>m. fst (memcpy m base arr ?sz)) (?k3\<lparr>heap := h4\<rparr>)))))) = ?k3\<lparr>heap := h\<rparr>"
    "has_process (?k3\<lparr>heap := h\<rparr>) cs (?f0\<lparr>f_base := base, f_size := ?sz, f_entry := ?e\<rparr>)
      [Cell True True app, Cell False False app]" "only_inside h3 h"
    using install_image [OF P3 len room used, of ?e] unfolding base_def arr_def by auto
  let ?k4 = "?k3\<lparr>heap := h\<rparr>"
  have only: "only_inside (heap k) h" using h1(3) h2(3) l(7) h(5) by (blast intro: only_inside_trans)
  have args': "arg_at (km (heap ?k4)) cs (av ! i) (ws ! i)" if "i < length ws" for i
    by (rule arg_at_cong [OF args [OF that]]) (use only in \<open>simp add: only_inside_def\<close>)
  let ?f = "?f0\<lparr>f_base := base, f_size := ?sz, f_entry := ?e\<rparr>"
  have offs: "f_base ?f = place cs + 320 + of_nat (length app) + 12" "f_entry ?f = f_base ?f + of_nat (unat (rd32 app 8))"
    "process_list ?k4 = place cs" by (simp_all add: base_def)
  obtain k5 code k6 h' bs' R T where s:
    "run ?e (of_nat (length ws)) arr k5 = Some (code, k6)" "load (mem_of k5) base (length app) = app" "arguments_at k5 arr ws"
    "current_process k5 = place cs" "fsys k5 = f"
    "start_process run (place cs) (int (length ws)) (Some av) ?k4 = Some (sint (next_pid k),
      k6\<lparr>heap := h', last_exit_code := code, current_process := current_process k, process_list := process_list k\<rparr>)"
    "next_pid k6 = next_pid k + 1" "heap_is h' (cs @ Cell True True bs' # leftovers arr ws R T)"
    using start_process_runs [OF h(4) used n args' fits offs(1,2) app'(2) offs(3) run] unfolding arr_def by auto
  have "process_exec io run (Some p) (int (length ws)) (Some av) k = start_process run (place cs) (int (length ws)) (Some av) ?k4"
    using pz h(1,2,3) h2(1) l(1,2) alloc_kmalloc [OF h1(1)]
    by (simp add: process_exec_def relocate_binary_def Let_def)
  then show ?thesis using s l(3,4,5) by (intro exI [of _ k5]) auto
qed

section \<open>Properties\<close>

text \<open>A kernel with an empty heap, one argument string below the heap and the demonstration volume.\<close>

definition demo_kernel :: "pio kernel" where
  "demo_kernel = \<lparr>fsys = demo_fs, heap = demo_heap\<lparr>km := (km demo_heap)(0x8000 := 0x78, 0x8001 := 0)\<rparr>, last_exit_code = 0,
     current_process = 0, process_list = 0, next_pid = 1\<rparr>"

definition demo_run :: "u32 \<Rightarrow> u32 \<Rightarrow> u32 \<Rightarrow> (pio, u32) kop" where
  "demo_run entry argc argv k = Some (argc + 6, k)"

lemma demo_kernel_ok:
  "attached prompt 12 (fsys demo_kernel)" "fsys demo_kernel = demo_fs" "heap_is (heap demo_kernel) []" "next_pid demo_kernel = 1"
  by (simp_all add: demo_kernel_def demo_attached heap_is_def heap_ok_def demo_heap_def KMALLOC_HEAP_START_def KMALLOC_HEAP_SIZE_def)

lemma demo_run_stays: "stays_in_image demo_run"
  by (auto simp: stays_in_image_def demo_run_def)

lemma demo_arg: "arg_at (mem_of demo_kernel) [] 0x8000 (str ''x'')"
proof -
  have "load (mem_of demo_kernel) 0x8000 (Suc (Suc 0)) = [0x78, 0]"
    by (simp add: demo_kernel_def load_Suc)
  moreover have "outside (0x8000 + of_nat q)" if "q \<le> 1" for q
    using that by (auto simp: outside_def KMALLOC_HEAP_START_def le_Suc_eq)
  moreover have "Suc (length (str ''x'')) = Suc (Suc 0)" "str ''x'' @ [0] = [0x78, 0]" "0 \<notin> set (str ''x'')" "(0x8000 :: u32) \<noteq> 0" by simp_all
  ultimately show ?thesis unfolding arg_at_def by simp
qed

lemma demo_application:
  assumes "path_components p = [str ''b'']" and "count_list (c_str p) slash < 128" and "length (c_str p) < 510"
  shows "has_application 12 demo_vol {1, 2, 3} {1, 2, 3} p demo_app"
proof -
  have c: "contents demo_vol demo_program 0 64 = demo_app"
  proof (rule nth_equalityI)
    fix q
    assume "q < length (contents demo_vol demo_program 0 64)"
    then show "contents demo_vol demo_program 0 64 ! q = demo_app ! q"
      by (simp add: contents_def byte_at_def Let_def node_of_def demo_program_def zero_inode_def demo_block_def nth_append)
  qed simp
  have m: "mapped demo_vol demo_program q" if "q < 64" for q
    using that by (simp add: mapped_def node_of_def demo_program_def zero_inode_def)
  have s: "unat (i_size demo_program) = 64" by (simp add: demo_program_def)
  have h: "take 8 demo_app = ipob_magic" "rd32 demo_app 8 = 20"
    by (simp_all add: demo_app_def ipob_magic_def rd32_def join_bytes32)
  have f: "length (fds demo_fs) = 32" by (simp add: demo_fs_def)
  have "\<exists>i\<in>{1, 2, 3}. walk demo_vol 1 (path_components p) = Some i \<and> mode (inode_at demo_vol i) AND 1 = 0 \<and>
      length demo_app = unat (i_size (inode_at demo_vol i)) \<and> 20 \<le> length demo_app \<and>
      demo_app = contents demo_vol (inode_at demo_vol i) 0 (length demo_app) \<and>
      (\<forall>q < length demo_app. mapped demo_vol (inode_at demo_vol i) q)"
    by (rule bexI [of _ 3]) (use demo_walk c m s assms(1) in \<open>simp_all add: demo_inode_3 del: str_Cons\<close>)
  then show ?thesis
    unfolding has_application_def using demo_tree demo_files_ok h f assms(2,3) by (simp del: str_Cons)
qed

text \<open>
  C34. The loop that loads an application ends on every disk, with every answer of the drive and
  in every state of the memory: a read never returns more than was asked for, so every round
  brings it nearer to the size or stops it.
\<close>

theorem loading_terminates: "\<exists>r. load_chunks io fd binary_image sz 0 k = Some r"
  by (rule load_chunks_returns)

text \<open>
  C8. Executing an application on a heap none of whose cells is free, as it is before the first
  execution: when the path leads to a file of the application format that is at least as long as the
  array and the copies of its at most 64 arguments with their headers (they are cut from the
  memory the file was read into), a descriptor is free and the heap has room, \<open>process_exec\<close> enters the code at its entry offset in a byte for byte copy of
  the file, with \<open>argc\<close> and an \<open>argv\<close> whose strings are copies of the arguments and whose end is
  a null pointer, as the current process. When the program returns, its result is the last exit
  code, the call returns the process identifier, and the process list and the current process are
  what they were before. Every cell of the heap is kept, but the heap is not restored: behind them
  lie the freed cells of the process and the array of pointers, which stays allocated for good; and
  the descriptor of the file is not given back. (A later execution takes its memory from the
  freed cells, which cannot be freed a second time and are split without regard to their headers;
  the property does not speak of it.)
\<close>

theorem process_exec_correct:
  fixes k :: "'d kernel"
  assumes "ata_drive io view" and "attached view N (fsys k)" and "volume view N (fsys k) = v"
    and "has_application N v D I p app" and "first_free (v_fds v) j"
    and "heap_is (heap k) cs" and "\<And>c. c \<in> set cs \<Longrightarrow> \<not> c_free c"
    and "0 < length ws" and "length ws \<le> 64"
    and "\<And>i. i < length ws \<Longrightarrow> arg_at (mem_of k) cs (av ! i) (ws ! i)"
    and "4 * length ws + 16 + span (map (\<lambda>w. Cell False False (w @ [0])) ws) \<le> length app"
    and "span cs + 320 + 2 * (length app + 12) < 2 ^ 26" and "stays_in_image run"
  shows "\<exists>k3 code k4 k' i bs R T.
    run (place cs + 320 + of_nat (length app) + 12 + rd32 app 8) (of_nat (length ws)) (place cs + 320) k3 = Some (code, k4) \<and>
    load (mem_of k3) (place cs + 320 + of_nat (length app) + 12) (length app) = app \<and>
    arguments_at k3 (place cs + 320) ws \<and> current_process k3 = place cs \<and>
    walk v 1 (path_components p) = Some i \<and> attached view N (fsys k3) \<and> volume view N (fsys k3) = opened v j i \<and>
    process_exec io run (Some p) (int (length ws)) (Some av) k = Some (sint (next_pid k), k') \<and>
    last_exit_code k' = code \<and> current_process k' = current_process k \<and> process_list k' = process_list k \<and>
    next_pid k' = next_pid k + 1 \<and> fsys k' = fsys k4 \<and>
    heap_is (heap k') (cs @ Cell True True bs # leftovers (place cs + 320) ws R T)"
  by (rule process_exec_runs [OF assms(1-4) assms(5) [folded free_slot_first] assms(6-)])

theorem process_exec_correct_witness:
  "\<exists>k'. process_exec pio_io demo_run (Some (str ''/./b'')) 1 (Some [0x8000]) demo_kernel = Some (1, k') \<and>
     last_exit_code k' = 7 \<and> process_list k' = 0"
proof -
  have vol: "volume prompt 12 (fsys demo_kernel) = demo_vol" by (simp add: demo_kernel_def)
  have app: "has_application 12 demo_vol {1, 2, 3} {1, 2, 3} (str ''/./b'') demo_app"
    by (rule demo_application [OF demo_path]) (simp_all add: c_str_def)
  have args: "arg_at (mem_of demo_kernel) [] ([0x8000] ! i) ([str ''x''] ! i)" if "i < length [str ''x'']" for i
    using that demo_arg by simp
  show ?thesis
    using process_exec_correct [OF pio.ata_drive_axioms demo_kernel_ok(1) vol app demo_free_slot [unfolded free_slot_first] demo_kernel_ok(3)
        _ _ _ args _ _ demo_run_stays, simplified]
    by (auto simp: demo_run_def demo_kernel_def)
qed

end
