(* ===== verification/ShellArgs.thy ===== *)
theory ShellArgs imports Script ProcessProps begin

text \<open>
  The arguments of a command line: the loop over its characters copies its words to the end of the
  heap.
\<close>

section \<open>Words\<close>

function words :: "bytes \<Rightarrow> bytes list" where
  "words cs =
     (let p = dropWhile is_blank cs in
      if p = [] then [] else takeWhile (\<lambda>c. \<not> is_blank c) p # words (dropWhile (\<lambda>c. \<not> is_blank c) p))"
  by pat_completeness auto
termination
proof (relation "measure length")
  fix cs x
  assume x: "x = dropWhile is_blank cs" "x \<noteq> []"
  then have "\<not> is_blank (hd x)" using hd_dropWhile by blast
  then have "length (dropWhile (\<lambda>c. \<not> is_blank c) x) < length x"
    using x(2) length_dropWhile_le [of "\<lambda>c. \<not> is_blank c" "tl x"] by (cases x) auto
  also have "\<dots> \<le> length cs" unfolding x by (rule length_dropWhile_le)
  finally show "(dropWhile (\<lambda>c. \<not> is_blank c) x, cs) \<in> measure length" by simp
qed simp

declare words.simps [simp del]

lemma words_Nil [simp]: "words [] = []"
  by (simp add: words.simps)

lemma words_blank: "is_blank c \<Longrightarrow> words (c # cs) = words cs"
  by (simp add: words.simps [of "c # cs"] words.simps [of cs])

lemma words_start: "\<not> is_blank c \<Longrightarrow> words (c # cs) = (c # takeWhile (\<lambda>c. \<not> is_blank c) cs) # words (dropWhile (\<lambda>c. \<not> is_blank c) cs)"
  by (subst words.simps) simp

lemma words_blanks: "words (dropWhile is_blank cs) = words cs"
  by (induction cs) (simp_all add: words_blank)

lemma set_words: "w \<in> set (words cs) \<Longrightarrow> set w \<subseteq> set cs"
proof (induction cs rule: words.induct)
  case (1 cs)
  let ?p = "dropWhile is_blank cs"
  show ?case
  proof (cases "?p = []")
    case True
    then have "words cs = []" by (simp only: words.simps [of cs] Let_def if_True simp_thms)
    then show ?thesis using 1(2) by simp
  next
    case False
    then have ws: "words cs = takeWhile (\<lambda>c. \<not> is_blank c) ?p # words (dropWhile (\<lambda>c. \<not> is_blank c) ?p)"
      by (simp only: words.simps [of cs] Let_def if_False)
    from 1(1) [OF refl False] 1(2) show ?thesis
      unfolding ws by (auto dest: set_takeWhileD set_dropWhileD)
  qed
qed

lemma words_ConsD:
  assumes "words line = name # args"
  shows "dropWhile is_blank line \<noteq> []" and "name = takeWhile (\<lambda>c. \<not> is_blank c) (dropWhile is_blank line)"
    and "args = words (dropWhile (\<lambda>c. \<not> is_blank c) (dropWhile is_blank line))"
proof -
  have ne: "dropWhile is_blank line \<noteq> []"
  proof
    assume "dropWhile is_blank line = []"
    then have "words line = []" by (simp only: words.simps [of line] Let_def if_True simp_thms)
    then show False using assms by simp
  qed
  then have "words line = takeWhile (\<lambda>c. \<not> is_blank c) (dropWhile is_blank line) #
      words (dropWhile (\<lambda>c. \<not> is_blank c) (dropWhile is_blank line))"
    by (simp only: words.simps [of line] Let_def if_False)
  then show "dropWhile is_blank line \<noteq> []" "name = takeWhile (\<lambda>c. \<not> is_blank c) (dropWhile is_blank line)"
    "args = words (dropWhile (\<lambda>c. \<not> is_blank c) (dropWhile is_blank line))"
    using assms ne by simp_all
qed

text \<open>The words of a string of which the first word has begun.\<close>

definition words_from :: "bytes \<Rightarrow> bytes \<Rightarrow> bytes list" where
  "words_from w cs = (if w = [] then words cs else (w @ takeWhile (\<lambda>c. \<not> is_blank c) cs) # words (dropWhile (\<lambda>c. \<not> is_blank c) cs))"

lemma words_from_simps:
  "words_from [] [] = []" "w \<noteq> [] \<Longrightarrow> words_from w [] = [w]"
  "is_blank c \<Longrightarrow> words_from w (c # cs) = (if w = [] then words_from [] cs else w # words_from [] cs)"
  "\<not> is_blank c \<Longrightarrow> words_from w (c # cs) = words_from (w @ [c]) cs"
  by (simp_all add: words_from_def words_blank words_start)

text \<open>One argument is copied to the end of the heap.\<close>

lemma end_argument_cell:
  assumes H: "heap_is (heap k) cs" and used: "\<And>c. c \<in> set cs \<Longrightarrow> \<not> c_free c" and room: "span cs + length w + 13 < 2 ^ 26"
  shows "\<exists>h. end_argument argv w k = Some (argv @ [place cs], k\<lparr>heap := h\<rparr>) \<and>
    heap_is h (cs @ [arg_cell w]) \<and> only_inside (heap k) h"
proof -
  let ?sz = "of_nat (length w + 1) :: u32"
  have sz: "unat ?sz = Suc (length w)" using room by (subst unat_of_nat32) simp_all
  have "\<exists>h. kmalloc (heap k) ?sz = Some (place cs, h) \<and> heap_is h (cs @ [Cell False False (replicate (unat ?sz) 0)]) \<and>
    only_inside (heap k) h"
    by (rule alloc_end [OF H]) (use room none_fits_used [of cs] used sz in auto)
  then obtain h1 where h1: "kmalloc (heap k) ?sz = Some (place cs, h1)"
    "heap_is h1 (cs @ Cell False False (replicate (Suc (length w)) 0) # [])" "only_inside (heap k) h1" unfolding sz by blast
  have nz: "place cs \<noteq> 0" using room by (intro place_nonzero) simp
  have "heap_is (h1\<lparr>km := store (place cs) (w @ [0]) (km h1)\<rparr>) (cs @ [arg_cell w])"
    "only_inside h1 (h1\<lparr>km := store (place cs) (w @ [0]) (km h1)\<rparr>)"
    using store_cell [OF h1(2), of 0 "w @ [0]"] by (simp_all add: patch_all del: replicate_Suc)
  then show ?thesis
    using nz alloc_kmalloc [OF h1(1)] only_inside_trans [OF h1(3)] by (auto simp: end_argument_def with_mem_def)
qed

lemma parse_args_words:
  assumes "heap_is (heap k) cs" and "\<And>c. c \<in> set cs \<Longrightarrow> \<not> c_free c" and "length argv \<le> 31"
    and "length argv = 31 \<Longrightarrow> full = []" and "ws = take (31 - length argv) (map (take 511) (words_from full line))"
    and "span cs + span (map (\<lambda>w. arg_cell w) ws) < 2 ^ 26"
  shows "\<exists>h. do { ((argv', arg, in_arg), k1) \<leftarrow> parse_args line argv (take 511 full) (full \<noteq> []) k;
        if in_arg then end_argument argv' arg k1 else Some (argv', k1) } =
      Some (argv @ arg_places (place cs) ws, k\<lparr>heap := h\<rparr>) \<and>
    heap_is h (cs @ map (\<lambda>w. arg_cell w) ws) \<and> only_inside (heap k) h"
  using assms
proof (induction line arbitrary: argv full k cs ws)
  case Nil
  show ?case
  proof (cases "full = []")
    case True
    then have "ws = []" using Nil(5) by (simp add: words_from_simps)
    then show ?thesis using True Nil(1) by (auto simp: only_inside_def intro!: exI [of _ "heap k"])
  next
    case False
    then have "0 < 31 - length argv" using Nil(3,4) by (cases "length argv = 31") auto
    then have ws: "ws = [take 511 full]" using Nil(5) False by (simp add: words_from_simps)
    have "span cs + length (take 511 full) + 13 < 2 ^ 26" using Nil(6) ws by simp
    from end_argument_cell [OF Nil(1,2) this, of argv] show ?thesis using False by (simp add: ws)
  qed
next
  case (Cons c line)
  note H = Cons.prems(1) and used = Cons.prems(2) and n = Cons.prems(3) and full = Cons.prems(4) and ws = Cons.prems(5)
    and room = Cons.prems(6)
  consider "length argv = 31" | "length argv < 31" "is_blank c" "full \<noteq> []" | "length argv < 31" "is_blank c" "full = []"
    | "length argv < 31" "\<not> is_blank c" using n by linarith
  then show ?case
  proof cases
    case 1
    then show ?thesis using H full ws by (auto simp: only_inside_def intro!: exI [of _ "heap k"])
  next
    case 2
    define ws' where "ws' = take (30 - length argv) (map (take 511) (words_from [] line))"
    have "31 - length argv = Suc (30 - length argv)" using 2(1) by simp
    then have w: "ws = take 511 full # ws'" using ws 2 by (simp add: words_from_simps ws'_def)
    have "span cs + length (take 511 full) + 13 < 2 ^ 26" using room unfolding w by simp
    from end_argument_cell [OF H used this, of argv] obtain h1 where h1:
      "end_argument argv (take 511 full) k = Some (argv @ [place cs], k\<lparr>heap := h1\<rparr>)"
      "heap_is h1 (cs @ [arg_cell (take 511 full)])" "only_inside (heap k) h1" by blast
    have "\<exists>h. do { ((argv', arg, in_arg), k1) \<leftarrow> parse_args line (argv @ [place cs]) (take 511 []) (([] :: bytes) \<noteq> []) (k\<lparr>heap := h1\<rparr>);
        if in_arg then end_argument argv' arg k1 else Some (argv', k1) } =
      Some ((argv @ [place cs]) @ arg_places (place (cs @ [arg_cell (take 511 full)])) ws', k\<lparr>heap := h1\<rparr>\<lparr>heap := h\<rparr>) \<and>
      heap_is h ((cs @ [arg_cell (take 511 full)]) @ map (\<lambda>w. arg_cell w) ws') \<and> only_inside (heap (k\<lparr>heap := h1\<rparr>)) h"
      by (rule Cons.IH) (use h1(2) used 2(1) ws'_def room w in auto)
    then obtain h where h: "do { ((argv', arg, in_arg), k1) \<leftarrow> parse_args line (argv @ [place cs]) [] False (k\<lparr>heap := h1\<rparr>);
        if in_arg then end_argument argv' arg k1 else Some (argv', k1) } =
      Some (argv @ place cs # arg_places (place (cs @ [arg_cell (take 511 full)])) ws', k\<lparr>heap := h\<rparr>)"
      "heap_is h (cs @ arg_cell (take 511 full) # map (\<lambda>w. arg_cell w) ws')" "only_inside h1 h" by auto
    have "place (cs @ [arg_cell (take 511 full)]) = place cs + of_nat (length (take 511 full) + 13)"
      unfolding place_append by simp
    then show ?thesis
      using 2 h(1,2) h1(1) only_inside_trans [OF h1(3) h(3)] by (intro exI [of _ h]) (simp add: w)
  next
    case 3
    then have "ws = take (31 - length argv) (map (take 511) (words_from [] line))" using ws by (simp add: words_from_simps)
    from Cons.IH [OF H used n _ this room] 3 show ?thesis by simp
  next
    case 4
    then have "ws = take (31 - length argv) (map (take 511) (words_from (full @ [c]) line))"
      using ws by (simp add: words_from_simps)
    from Cons.IH [OF H used n _ this room] 4 show ?thesis by (cases "length full < 511"; cases full) simp_all
  qed
qed

text \<open>The arguments of a command line: the pointer to its name and the words, of which at most 30 count.\<close>

definition arguments_of :: "bytes \<Rightarrow> bytes list" where
  "arguments_of cmdline = take 30 (map (take 511) (words cmdline))"

lemma command_argv_words:
  assumes "heap_is (heap k) cs" and "\<And>c. c \<in> set cs \<Longrightarrow> \<not> c_free c"
    and "span cs + span (map (\<lambda>w. arg_cell w) (arguments_of cmdline)) < 2 ^ 26"
  shows "\<exists>h. command_argv name_buf cmdline k = Some (name_buf # arg_places (place cs) (arguments_of cmdline), k\<lparr>heap := h\<rparr>) \<and>
    heap_is h (cs @ map (\<lambda>w. arg_cell w) (arguments_of cmdline)) \<and> only_inside (heap k) h"
  using parse_args_words [OF assms(1,2), of "[name_buf]" "[]" "arguments_of cmdline" "dropWhile is_blank cmdline"] assms(3)
  by (simp add: command_argv_def arguments_of_def words_from_def words_blanks)

end
