(* ===== verification/ShellProps.thy ===== *)
theory ShellProps imports ShellArgs StdioProps begin

text \<open>
  The shell as a whole: a line that names an application runs it with the words of the line as its
  arguments, and the start-up script executes its commands in order.
\<close>

section \<open>The path of an application\<close>

lemma print_path_text:
  assumes "list_all bounded_piece ps" and "list_all (\<lambda>p. \<forall>v. p = Decimal v \<longrightarrow> 0 \<le> sint v) ps"
    and "args_of ps = [ArgPtr (Some cmd)]" and "0 \<notin> set (text_of ps)"
  shows "print_path (format_of ps) cmd = take 255 (text_of ps)"
proof -
  let ?t = "take 255 (text_of ps)"
  have "snprintf (Some (replicate 256 0)) 256 (format_of ps) (args_of ps) =
      Some (length ?t, Some (patch 0 (?t @ [0]) (replicate 256 0)))"
    using snprintf_pieces [of ps 256 "replicate 256 0"] assms(1) bounded_text_text [OF assms(2)] by simp
  moreover have "0 \<notin> set ?t" using assms(4) by (auto dest: in_set_takeD)
  then have "takeWhile (\<lambda>x. x \<noteq> 0) (?t @ 0 # zs) = ?t" for zs by (subst takeWhile_append2) auto
  then have "c_str (patch 0 (?t @ [0]) (replicate 256 0)) = ?t" by (simp add: c_str_def patch_def)
  ultimately show ?thesis unfolding assms(3) by (simp add: print_path_def)
qed

text \<open>A plain name is looked up in \<open>/app\<close>, a relative path from the root.\<close>

lemma path_to_check_app:
  assumes "0 \<notin> set cmd" and "cmd \<noteq> []" and "slash \<notin> set cmd" and "hd cmd \<noteq> of_char CHR ''.''"
  shows "path_to_check cmd = take 255 (str ''/app/'' @ cmd)"
proof -
  let ?ps = "map Lit (str ''/app/'') @ [Text cmd]"
  have 1: "format_of ?ps = str ''/app/%s''" "args_of ?ps = [ArgPtr (Some cmd)]" "text_of ?ps = str ''/app/'' @ cmd"
    by (simp_all add: format_of_def args_of_def text_of_def)
  have "print_path (str ''/app/%s'') cmd = take 255 (str ''/app/'' @ cmd)"
    unfolding 1(1,3) [symmetric] by (rule print_path_text) (use assms(1) 1(2,3) in \<open>auto simp: plain_piece_def\<close>)
  then show ?thesis using assms(2,3,4) by (cases cmd) (auto simp: path_to_check_def)
qed

lemma path_to_check_relative:
  assumes "0 \<notin> set cmd" and "cmd \<noteq> []" and "hd cmd \<noteq> slash" and "slash \<in> set cmd \<or> hd cmd = of_char CHR ''.''"
  shows "path_to_check cmd = take 255 (slash # cmd)"
proof -
  let ?ps = "[Lit slash, Text cmd]"
  have 1: "format_of ?ps = str ''/%s''" "args_of ?ps = [ArgPtr (Some cmd)]" "text_of ?ps = slash # cmd"
    by (simp_all add: format_of_def args_of_def text_of_def)
  have "print_path (str ''/%s'') cmd = take 255 (slash # cmd)"
    unfolding 1(1,3) [symmetric] by (rule print_path_text) (use assms(1) 1(2,3) in \<open>auto simp: plain_piece_def\<close>)
  then show ?thesis using assms(2,3,4) by (auto simp: path_to_check_def)
qed

section \<open>Memory\<close>

text \<open>The heap does not depend on the memory outside.\<close>

lemma heap_outside:
  assumes H: "heap_is h cs" and m: "\<And>a. \<not> outside a \<Longrightarrow> m a = km h a"
  shows "heap_is (h\<lparr>km := m\<rparr>) cs"
proof -
  note D = heap_isD [OF H]
  have e: "m (KMALLOC_HEAP_START + of_nat i) = km h (KMALLOC_HEAP_START + of_nat i)" if "i < span cs" for i
    by (rule m) (use that D(4) in \<open>simp add: outside_def unat_of_nat\<close>)
  have "tiles m KMALLOC_HEAP_START (map cell_block cs)" by (rule tiles_cong [OF D(7)]) (use e D(5) in simp)
  moreover have "payloads m KMALLOC_HEAP_START cs" by (rule payloads_cong [OF D(2)]) (use e in simp)
  ultimately show ?thesis using H D(3) by (simp add: heap_is_def heap_ok_def)
qed

lemma store_outside:
  assumes H: "heap_is h cs" and out: "\<And>q. q < length bs \<Longrightarrow> outside (p + of_nat q)"
  shows "heap_is (h\<lparr>km := store p bs (km h)\<rparr>) cs"
proof (rule heap_outside [OF H])
  fix a
  assume "\<not> outside a"
  moreover have "a = p + of_nat (unat (a - p))" by simp
  ultimately have "\<not> unat (a - p) < length bs" using out [of "unat (a - p)"] by auto
  then show "store p bs (km h) a = km h a" by (simp add: store_def)
qed

lemma arg_at_cell: "place us \<noteq> 0 \<Longrightarrow> 0 \<notin> set w \<Longrightarrow> arg_at m (us @ arg_cell w # vs) (place us) w"
  unfolding arg_at_def by fastforce

text \<open>The copies of the arguments are given back.\<close>

lemma release_args:
  assumes "heap_is (heap k) (xs @ map (\<lambda>w. arg_cell w) ws @ ys)"
  shows "\<exists>h. fold release (arg_places (place xs) ws) k = k\<lparr>heap := h\<rparr> \<and> heap_is h (xs @ map (\<lambda>w. freed_cell w) ws @ ys)"
  using assms
proof (induction ws arbitrary: xs k)
  case (Cons w ws)
  have H: "heap_is (heap k) (xs @ arg_cell w # map (\<lambda>w. arg_cell w) ws @ ys)" using Cons.prems by simp
  have "heap_is (heap (release (place xs) k)) ((xs @ [freed_cell w]) @ map (\<lambda>w. arg_cell w) ws @ ys)"
    using free_cell(1) [OF H] by (simp add: release_def)
  moreover have "(release (place xs) k)\<lparr>heap := h\<rparr> = k\<lparr>heap := h\<rparr>" for h by (simp add: release_def)
  ultimately obtain h where h:
    "fold release (arg_places (place (xs @ [freed_cell w])) ws) (release (place xs) k) = k\<lparr>heap := h\<rparr>"
    "heap_is h (xs @ freed_cell w # map (\<lambda>w. freed_cell w) ws @ ys)" using Cons.IH by fastforce
  have "place (xs @ [freed_cell w]) = place xs + of_nat (length w + 13)" unfolding place_append by simp
  then show ?case using h by auto
next
  case Nil
  then show ?case by (intro exI [of _ "heap k"]) simp
qed

section \<open>Resolving\<close>

definition shell_path :: "bytes \<Rightarrow> bytes" where
  "shell_path name = canonical_path (path_to_check name)"

lemma canonical_no_nul: "0 \<notin> set (canonical_path p)"
  using path_components_ok(4) [of _ p] by (auto simp: canonical_path_def join_path_def)

lemma c_str_canonical: "c_str (canonical_path p) = canonical_path p"
  by (rule c_str_idem [OF canonical_no_nul])

lemma c_str_padded: "0 \<notin> set s \<Longrightarrow> length s < 256 \<Longrightarrow> c_str (padded 255 s @ [0]) = s"
proof -
  assume s: "0 \<notin> set s" "length s < 256"
  then have "padded 255 s @ [0] = s @ 0 # replicate (255 - length s) 0" by (simp add: padded_def replicate_append_same)
  then show ?thesis using c_str_append_zeros [OF s(1)] by simp
qed

lemma resolve_command_path_cell:
  fixes k :: "'d kernel"
  assumes drive: "ata_drive io view" and at: "attached view N (fsys k)" "volume view N (fsys k) = v"
    and T: "tree_ok N v D" "v_mounted v" and name: "name \<noteq> []"
    and check: "count_list (c_str (path_to_check name)) slash < 128" "length (c_str (path_to_check name)) + 2 < 256"
    and p: "p = shell_path name" "count_list p slash < 128"
    and w: "walk v 1 (path_components p) = Some i" "mode (inode_at v i) AND 1 = 0"
    and H: "heap_is (heap k) cs" and used: "\<And>c. c \<in> set cs \<Longrightarrow> \<not> c_free c" and room: "span cs + 268 < 2 ^ 26"
  shows "\<exists>f h. resolve_command_path io name k = Some (place cs, k\<lparr>fsys := f, heap := h\<rparr>) \<and>
    attached view N f \<and> volume view N f = v \<and> heap_is h (cs @ [Cell False False (padded 255 p @ [0])]) \<and>
    only_inside (heap k) h"
proof -
  have "\<exists>h. kmalloc (heap k) 256 = Some (place cs, h) \<and> heap_is h (cs @ [Cell False False (replicate (unat (256 :: u32)) 0)]) \<and>
    only_inside (heap k) h"
    by (rule alloc_end [OF H]) (use room none_fits_used [of cs] used in auto)
  then obtain h1 where h1: "kmalloc (heap k) 256 = Some (place cs, h1)"
    "heap_is h1 (cs @ Cell False False (replicate 256 0) # [])" "only_inside (heap k) h1" by auto
  have pz: "place cs \<noteq> 0" using room by (intro place_nonzero) simp
  note st = drive_store [OF drive, of N]
  have cp: "c_str p = p" unfolding p(1) shell_path_def by (rule c_str_canonical)
  have can: "fs_canonicalize (Some (path_to_check name)) 256 = Some p"
    unfolding p(1) shell_path_def by (rule fs_canonicalize_path [OF check])
  have "length p < 256"
    using check(2) length_path_components [of "path_to_check name"] by (auto simp: p(1) shell_path_def canonical_path_def)
  note p = p this
  have p': "count_list (c_str p) slash < 128" "length (c_str p) + 2 < 512" using p(2,3) cp by simp_all
  obtain f1 where f1: "run_state (path_resolve io (Some p)) (fsys k) = (Some i, f1)" "attached view N f1" "volume view N f1 = v"
    using evals_attached [OF fs_store.runs_path_resolve [OF st T(1) p'] at] w(1) by auto
  obtain f2 where f2: "run_state (ipo_fs_stat io (Some p)) f1 = (Some (inode_at v i), f2)" "attached view N f2" "volume view N f2 = v"
    using evals_attached [OF fs_store.runs_ipo_fs_stat [OF st T(1) p' T(2)] f1(2,3)] w(1) by auto
  let ?bs = "padded 255 p @ [0]"
  let ?h = "h1\<lparr>km := store (place cs) ?bs (km h1)\<rparr>"
  have len: "length ?bs = 256" using p(3) by (simp add: padded_def)
  have h: "heap_is ?h (cs @ [Cell False False ?bs])" "only_inside h1 ?h"
    using store_cell [OF h1(2), of 0 ?bs] len by (simp_all add: patch_all)
  have "resolve_command_path io name k = Some (place cs, k\<lparr>fsys := f2, heap := ?h\<rparr>)"
    using name pz can w(2) alloc_kmalloc [OF h1(1)] fs_call_run [of "path_resolve io (Some p)" "k\<lparr>heap := h1\<rparr>"] f1(1)
      fs_call_run [of "ipo_fs_stat io (Some p)" "k\<lparr>heap := h1, fsys := f1\<rparr>"] f2(1)
    by (simp add: resolve_command_path_def with_mem_def Let_def)
  then show ?thesis using f2 h only_inside_trans [OF h1(3) h(2)] by blast
qed

section \<open>Executing\<close>

lemma command_runs:
  fixes k :: "'d kernel"
  assumes drive: "ata_drive io view" and at: "attached view N (fsys k)" "volume view N (fsys k) = v"
    and line: "words line = name # args" "0 \<notin> set line" "length name \<le> 127" and ws: "ws = take 30 (map (take 511) args)"
    and check: "count_list (c_str (path_to_check name)) slash < 128" "length (c_str (path_to_check name)) + 2 < 256"
    and app: "has_application N v D I (shell_path name) app" and slot: "free_slot (v_fds v) 0 = Some j"
    and H: "heap_is (heap k) cs" and used: "\<And>c. c \<in> set cs \<Longrightarrow> \<not> c_free c"
    and buf: "name_buf \<noteq> 0" "\<And>q. q < 128 \<Longrightarrow> outside (name_buf + of_nat q)"
    and fits: "4 * Suc (length ws) + 16 + span (map (\<lambda>w. arg_cell w) (name # ws)) \<le> length app"
    and room: "span cs + 268 + span (map (\<lambda>w. arg_cell w) ws) + 320 + 2 * (length app + 12) < 2 ^ 26"
    and run: "stays_in_image run"
  shows "\<exists>base argv k3 code k4 k' i bs R T.
    run (base + rd32 app 8) (of_nat (Suc (length ws))) argv k3 = Some (code, k4) \<and>
    load (mem_of k3) base (length app) = app \<and> arguments_at k3 argv (name # ws) \<and>
    walk v 1 (path_components (shell_path name)) = Some i \<and> attached view N (fsys k3) \<and> volume view N (fsys k3) = opened v j i \<and>
    try_execute_command io run name_buf (Some line) k = Some (sint (next_pid k), k') \<and>
    last_exit_code k' = code \<and> current_process k' = current_process k \<and> process_list k' = process_list k \<and>
    next_pid k' = next_pid k + 1 \<and> fsys k' = fsys k4 \<and>
    heap_is (heap k') (cs @ Cell True True (padded 255 (shell_path name) @ [0]) # map (\<lambda>w. freed_cell w) ws @
      Cell True True bs # leftovers argv (name # ws) R T)"
proof -
  let ?p = "shell_path name"
  let ?P = "Cell False False (padded 255 ?p @ [0])"
  note W = words_ConsD [OF line(1)]
  define start where "start = dropWhile is_blank line"
  define rest where "rest = dropWhile (\<lambda>c. \<not> is_blank c) start"
  have start: "start \<noteq> []" "name = takeWhile (\<lambda>c. \<not> is_blank c) start" "args = words rest"
    unfolding start_def rest_def by (rule W)+
  have "drop (length name) start = rest" unfolding start(2) rest_def by (rule drop_takeWhile)
  then have cw: "copy_while (\<lambda>c. \<not> is_blank c) 127 start = (name, rest)"
    using line(3) start(2) by (simp add: copy_while_eq)
  have wsr: "arguments_of rest = ws" by (simp add: arguments_of_def ws start(3))
  have nn: "name \<noteq> []" using hd_dropWhile [of is_blank line] start(1) unfolding start(2) start_def
    by (cases "dropWhile is_blank line") auto
  have "w \<in> set (words line) \<Longrightarrow> 0 \<notin> set w" for w using set_words [of w line] line(2) by blast
  then have nul: "0 \<notin> set name" "\<And>w. w \<in> set ws \<Longrightarrow> 0 \<notin> set w"
    unfolding line(1) ws by (auto dest!: in_set_takeD)
  let ?h0 = "(heap k)\<lparr>km := store name_buf (name @ [0]) (mem_of k)\<rparr>"
  let ?k0 = "k\<lparr>heap := ?h0\<rparr>"
  have H0: "heap_is ?h0 cs" by (rule store_outside [OF H]) (use buf(2) line(3) in simp)
  have tree: "tree_ok N v D" "v_mounted v" "count_list ?p slash < 128"
    using app unfolding has_application_def by (simp_all add: shell_path_def c_str_canonical)
  obtain i where i: "walk v 1 (path_components ?p) = Some i" "mode (inode_at v i) AND 1 = 0"
    using app unfolding has_application_def by blast
  have room0: "span cs + 268 < 2 ^ 26" using room by simp
  obtain f1 h1 where r1: "resolve_command_path io name ?k0 = Some (place cs, ?k0\<lparr>fsys := f1, heap := h1\<rparr>)"
    "attached view N f1" "volume view N f1 = v" "heap_is h1 (cs @ [?P])" "only_inside ?h0 h1"
    using resolve_command_path_cell [OF drive _ _ tree(1,2) nn check refl tree(3) i _ used room0, of ?k0] at H0 by auto
  let ?k1 = "?k0\<lparr>fsys := f1, heap := h1\<rparr>"
  have used1: "\<not> c_free c" if "c \<in> set (cs @ [?P])" for c using that used by auto
  have plen: "length ?p < 256"
    using length_path_components [of "path_to_check name"] check(2) by (auto simp: shell_path_def canonical_path_def)
  then have len: "length (padded 255 ?p @ [0]) = 256" by (simp add: padded_def)
  obtain h2 where r2: "command_argv name_buf rest ?k1 = Some (name_buf # arg_places (place (cs @ [?P])) ws, ?k1\<lparr>heap := h2\<rparr>)"
    "heap_is h2 ((cs @ [?P]) @ map (\<lambda>w. arg_cell w) ws)" "only_inside h1 h2"
    using command_argv_words [of ?k1 "cs @ [?P]" rest, OF _ used1] r1(4) room len unfolding wsr by auto
  let ?k2 = "k\<lparr>fsys := f1, heap := h2\<rparr>"
  let ?cs = "(cs @ [?P]) @ map (\<lambda>w. arg_cell w) ws"
  let ?av = "(name_buf # arg_places (place (cs @ [?P])) ws) @ [0]"
  have p0: "0 \<notin> set ?p" unfolding shell_path_def by (rule canonical_no_nul)
  have "load (km h2) (place cs) 256 = padded 255 ?p @ [0]"
    using cell_data [of h2 cs False "padded 255 ?p @ [0]" "map (\<lambda>w. arg_cell w) ws"] r2(2) len by simp
  then have path: "c_str (load (mem_of ?k2) (place cs) 256) = ?p"
    using c_str_padded [OF p0 plen] by simp
  have placed: "?cs = ((cs @ [?P]) @ map (\<lambda>w. arg_cell w) (take q ws)) @ arg_cell (ws ! q) # map (\<lambda>w. arg_cell w) (drop (Suc q) ws)"
    "arg_places (place (cs @ [?P])) ws ! q = place ((cs @ [?P]) @ map (\<lambda>w. arg_cell w) (take q ws))" if "q < length ws" for q
  proof -
    have "map (\<lambda>w. arg_cell w) ws =
        map (\<lambda>w. arg_cell w) (take q ws) @ arg_cell (ws ! q) # map (\<lambda>w. arg_cell w) (drop (Suc q) ws)"
      using id_take_nth_drop [OF that] by (metis (no_types, lifting) list.simps(9) map_append)
    then show "?cs = ((cs @ [?P]) @ map (\<lambda>w. arg_cell w) (take q ws)) @ arg_cell (ws ! q) # map (\<lambda>w. arg_cell w) (drop (Suc q) ws)"
      by simp
    show "arg_places (place (cs @ [?P])) ws ! q = place ((cs @ [?P]) @ map (\<lambda>w. arg_cell w) (take q ws))"
      using nth_arg_places [OF that] by (simp only: place_append [of "cs @ [?P]"])
  qed
  have keep: "km h2 a = km ?h0 a" if "outside a" for a
    using only_inside_trans [OF r1(5) r2(3)] that by (simp add: only_inside_def)
  have "load (km h2) name_buf (Suc (length name)) = load (km ?h0) name_buf (Suc (length name))"
    unfolding load_def by (rule map_cong [OF refl], rule keep, rule buf(2)) (use line(3) in auto)
  moreover have "load (km ?h0) name_buf (length (name @ [0])) = name @ [0]" using load_store_same [of "name @ [0]" name_buf "mem_of k"] line(3) by simp
  ultimately have nm: "load (km h2) name_buf (Suc (length name)) = name @ [0]" by simp
  have arg: "arg_at (mem_of ?k2) ?cs (?av ! q) ((name # ws) ! q)" if q: "q < length (name # ws)" for q
  proof (cases q)
    case 0
    then show ?thesis using buf nm nul(1) line(3) by (simp add: arg_at_def)
  next
    case (Suc r)
    then have r: "r < length ws" using q by simp
    have "arg_places (place (cs @ [?P])) ws ! r \<noteq> 0"
      unfolding placed(2) [OF r] by (rule place_nonzero) (use heap_isD(4) [OF r2(2) [unfolded placed(1) [OF r]]] in simp)
    moreover have "0 \<notin> set (ws ! r)" using nul(2) r by simp
    ultimately have "arg_at (mem_of ?k2) ?cs (arg_places (place (cs @ [?P])) ws ! r) (ws ! r)"
      unfolding placed [OF r] by (intro arg_at_cell)
    then show ?thesis using Suc r by (simp add: nth_append)
  qed
  have used2: "\<not> c_free c" if "c \<in> set ?cs" for c using that used by auto
  have n: "0 < length (name # ws)" "length (name # ws) \<le> 64" using ws by simp_all
  have fits': "4 * length (name # ws) + 16 + span (map (\<lambda>w. Cell False False (w @ [0])) (name # ws)) \<le> length app"
    using fits by simp
  have room': "span ?cs + 320 + 2 * (length app + 12) < 2 ^ 26" using room len by simp
  have vol: "volume view N (fsys ?k2) = v" "attached view N (fsys ?k2)" "heap_is (heap ?k2) ?cs" using r1(2,3) r2(2) by simp_all
  obtain k3 code k4 k' i' bs R T where e:
    "run (place ?cs + 320 + of_nat (length app) + 12 + rd32 app 8) (of_nat (length (name # ws))) (place ?cs + 320) k3 = Some (code, k4)"
    "load (mem_of k3) (place ?cs + 320 + of_nat (length app) + 12) (length app) = app"
    "arguments_at k3 (place ?cs + 320) (name # ws)"
    "walk v 1 (path_components ?p) = Some i'" "attached view N (fsys k3)" "volume view N (fsys k3) = opened v j i'"
    "process_exec io run (Some ?p) (int (length (name # ws))) (Some ?av) ?k2 = Some (sint (next_pid k), k')"
    "last_exit_code k' = code" "current_process k' = current_process k" "process_list k' = process_list k"
    "next_pid k' = next_pid k + 1" "fsys k' = fsys k4"
    "heap_is (heap k') (?cs @ Cell True True bs # leftovers (place ?cs + 320) (name # ws) R T)"
    using process_exec_runs [OF drive vol(2,1) app slot vol(3) used2 n arg fits' room' run] by auto
  let ?ys = "Cell True True bs # leftovers (place ?cs + 320) (name # ws) R T"
  have "heap_is (heap k') ((cs @ [?P]) @ map (\<lambda>w. arg_cell w) ws @ ?ys)" using e(13) by simp
  from release_args [OF this] obtain h5 where h5: "fold release (arg_places (place (cs @ [?P])) ws) k' = k'\<lparr>heap := h5\<rparr>"
    "heap_is h5 (cs @ ?P # (map (\<lambda>w. freed_cell w) ws @ ?ys))" by auto
  let ?kf = "release (place cs) (k'\<lparr>heap := h5\<rparr>)"
  have t: "try_execute_command io run name_buf (Some line) k = Some (sint (next_pid k), ?kf)"
    using start(1) cw r1(1) r2(1) path e(7) h5(1) place_nonzero [of cs] room
    by (simp add: try_execute_command_def start_def [symmetric] with_mem_def Let_def)
  have heap': "heap_is (heap ?kf) (cs @ Cell True True (padded 255 ?p @ [0]) # map (\<lambda>w. freed_cell w) ws @ ?ys)"
    using free_cell(1) [OF h5(2)] by (simp add: release_def)
  have kf: "last_exit_code ?kf = code" "current_process ?kf = current_process k" "process_list ?kf = process_list k"
    "next_pid ?kf = next_pid k + 1" "fsys ?kf = fsys k4" using e(8-12) by (simp_all add: release_def)
  show ?thesis
    by (intro exI conjI, rule e(1) [unfolded list.size(4) add_Suc_right add_0_right One_nat_def], rule e(2), rule e(3), rule e(4), rule e(5),
        rule e(6), rule t, rule kf(1), rule kf(2), rule kf(3), rule kf(4), rule kf(5), rule heap')
qed

text \<open>
  C3. A command line executes the application it names, on a heap none of whose cells is free, as it
  is before the first command: the first word is the name, looked up in
  \<open>/app\<close> or as a path, and the words of the line, at most 30 after the name and 511 bytes of each,
  are what the application finds in \<open>argv\<close>, where the name has at most 127 bytes, its path fits the
  buffers of the code, the file is at least as long as the arguments with their headers, a
  descriptor is free and the heap has room. The program runs on a copy of its file; the call
  returns the process identifier, sets the exit code, and leaves the process list and the current
  process as they were. Every cell of the heap is kept; behind them the call leaves freed cells (the
  path, the arguments, the process and its image) and the array of pointers, which stays
  allocated, and the descriptor of the file stays in use.
\<close>

theorem command_executed:
  fixes k :: "'d kernel"
  assumes "ata_drive io view" and "attached view N (fsys k)" and "volume view N (fsys k) = v"
    and "words line = name # args" and "0 \<notin> set line" and "length name \<le> 127" and "ws = take 30 (map (take 511) args)"
    and "count_list (c_str (path_to_check name)) slash < 128" and "length (c_str (path_to_check name)) + 2 < 256"
    and "has_application N v D I (shell_path name) app" and "first_free (v_fds v) j"
    and "heap_is (heap k) cs" and "\<And>c. c \<in> set cs \<Longrightarrow> \<not> c_free c"
    and "name_buf \<noteq> 0" and "\<And>q. q < 128 \<Longrightarrow> outside (name_buf + of_nat q)"
    and "4 * Suc (length ws) + 16 + span (map (\<lambda>w. Cell False False (w @ [0])) (name # ws)) \<le> length app"
    and "span cs + 268 + span (map (\<lambda>w. Cell False False (w @ [0])) ws) + 320 + 2 * (length app + 12) < 2 ^ 26"
    and "stays_in_image run"
  shows "\<exists>base argv k3 code k4 k' i bs R T.
    run (base + rd32 app 8) (of_nat (Suc (length ws))) argv k3 = Some (code, k4) \<and>
    load (mem_of k3) base (length app) = app \<and> arguments_at k3 argv (name # ws) \<and>
    walk v 1 (path_components (shell_path name)) = Some i \<and> attached view N (fsys k3) \<and> volume view N (fsys k3) = opened v j i \<and>
    try_execute_command io run name_buf (Some line) k = Some (sint (next_pid k), k') \<and>
    last_exit_code k' = code \<and> current_process k' = current_process k \<and> process_list k' = process_list k \<and>
    next_pid k' = next_pid k + 1 \<and> fsys k' = fsys k4 \<and>
    heap_is (heap k') (cs @ Cell True True (padded 255 (shell_path name) @ [0]) # map (\<lambda>w. Cell True True (w @ [0])) ws @
      Cell True True bs # leftovers argv (name # ws) R T)"
  by (rule command_runs [OF assms(1-10) assms(11) [folded free_slot_first] assms(12-)])

lemma demo_command:
  "words (str '' ./b x'') = str ''./b'' # [str ''x'']" "path_to_check (str ''./b'') = str ''/./b''" "shell_path (str ''./b'') = str ''/b''"
  "path_components (str ''/b'') = [str ''b'']"
proof -
  show "words (str '' ./b x'') = str ''./b'' # [str ''x'']" by (simp add: words_blank words_start is_blank_def)
  show p: "path_to_check (str ''./b'') = str ''/./b''" using path_to_check_relative [of "str ''./b''"] by simp
  show "shell_path (str ''./b'') = str ''/b''" unfolding shell_path_def p canonical_path_def demo_path by simp
  show "path_components (str ''/b'') = [str ''b'']" by (simp add: path_components_def normalise_from_def c_str_def)
qed

theorem command_executed_witness:
  "\<exists>k'. try_execute_command pio_io demo_run 0x9000 (Some (str '' ./b x'')) demo_kernel = Some (1, k') \<and>
     last_exit_code k' = 8 \<and> process_list k' = 0"
proof -
  have vol: "volume prompt 12 (fsys demo_kernel) = demo_vol" by (simp add: demo_kernel_def)
  have app: "has_application 12 demo_vol {1, 2, 3} {1, 2, 3} (shell_path (str ''./b'')) demo_app"
    unfolding demo_command(3) by (rule demo_application [OF demo_command(4)]) (simp_all add: c_str_def)
  have out: "outside (0x9000 + of_nat q)" if "q < 128" for q
  proof -
    have e: "0x9000 + of_nat q - KMALLOC_HEAP_START = of_nat (q + 0xFF009000)" by (simp add: KMALLOC_HEAP_START_def)
    have u: "unat (of_nat (q + 0xFF009000) :: u32) = q + 0xFF009000" using that by (intro unat_of_nat32) simp
    show ?thesis unfolding outside_def e u by simp
  qed
  have check: "count_list (c_str (path_to_check (str ''./b''))) slash < 128" "length (c_str (path_to_check (str ''./b''))) + 2 < 256"
    unfolding demo_command(2) by (simp_all add: c_str_def)
  have small: "0 \<notin> set (str '' ./b x'')" "length (str ''./b'') \<le> 127" "[str ''x''] = take 30 (map (take 511) [str ''x''])"
    "(0x9000 :: u32) \<noteq> 0"
    "4 * Suc (length [str ''x'']) + 16 + span (map (\<lambda>w. Cell False False (w @ [0])) (str ''./b'' # [str ''x''])) \<le> length demo_app"
    "span [] + 268 + span (map (\<lambda>w. Cell False False (w @ [0])) [str ''x'']) + 320 + 2 * (length demo_app + 12) < 2 ^ 26"
    by simp_all
  show ?thesis
    using command_executed [OF pio.ata_drive_axioms demo_kernel_ok(1) vol demo_command(1) small(1,2,3) check app demo_free_slot [unfolded free_slot_first]
        demo_kernel_ok(3) _ small(4) out small(5,6) demo_run_stays]
    by (auto simp: demo_run_def demo_kernel_def)
qed

end
