(* ===== verification/FsDirBytes.thy ===== *)
theory FsDirBytes imports FsWalk begin

text \<open>
  A directory as a function of the bytes of its file: the slots are decoded from the contents,
  so what is known about the contents of files carries over to directories. Appending the bytes
  of an entry appends its name to the directory.
\<close>

section \<open>Slots\<close>

text \<open>The position of a slot in the file; a slot does not cross a block, eight bytes of which stay unused.\<close>

definition slot_pos :: "nat \<Rightarrow> nat" where
  "slot_pos k = 512 * (k div 7) + 72 * (k mod 7)"

definition slot :: "vol \<Rightarrow> ipo_inode \<Rightarrow> nat \<Rightarrow> dir_entry" where
  "slot v n k = dec_dir_entry (contents v n (slot_pos k) DIR_ENTRY_SIZE)"

lemma slot_pos_div [simp]: "slot_pos k div 512 = k div 7" "slot_pos k mod 512 = 72 * (k mod 7)"
proof -
  have "72 * (k mod 7) < 512" using mod_less_divisor [of 7 k] by linarith
  then show "slot_pos k div 512 = k div 7" "slot_pos k mod 512 = 72 * (k mod 7)" by (simp_all add: slot_pos_def)
qed

lemma slot_pos_fits: "slot_pos k mod 512 + 72 \<le> 512"
  using mod_less_divisor [of 7 k] by simp

lemma slot_pos_less: "j < k \<Longrightarrow> slot_pos j + 72 \<le> slot_pos k"
proof -
  assume "j < k"
  have m: "j mod 7 < 7" by simp
  show ?thesis
  proof (cases "j div 7 = k div 7")
    case True
    then have "j mod 7 < k mod 7" using \<open>j < k\<close> div_mult_mod_eq [of j 7] div_mult_mod_eq [of k 7] by linarith
    then show ?thesis using True by (simp add: slot_pos_def)
  next
    case False
    then have "j div 7 < k div 7" using \<open>j < k\<close> div_le_mono [of j k 7] by linarith
    then have "512 * (j div 7) + 512 \<le> 512 * (k div 7)" by linarith
    then show ?thesis using m unfolding slot_pos_def by linarith
  qed
qed

lemma slot_pos_bound: "k div 7 < MAX_FILE_BLOCKS \<Longrightarrow> slot_pos k + 72 \<le> MAX_FILE_BYTES"
proof -
  assume "k div 7 < MAX_FILE_BLOCKS"
  then have "512 * Suc (k div 7) \<le> 512 * MAX_FILE_BLOCKS" by (intro mult_le_mono2) simp
  moreover have "72 * (k mod 7) + 72 \<le> 512" using mod_less_divisor [of 7 k] by linarith
  ultimately show ?thesis unfolding slot_pos_def by simp
qed

text \<open>Where the slot has a block, it is the entry in the block; elsewhere it is not in use.\<close>

lemma slot_unmapped:
  assumes "ptr v n (node_of (k div 7)) = 0"
  shows "d_inode (slot v n k) = 0"
proof -
  have "contents v n (slot_pos k) 72 = replicate 72 0"
  proof (rule nth_equalityI)
    fix i
    assume "i < length (contents v n (slot_pos k) 72)"
    then have i: "i < 72" by simp
    have "k mod 7 < 7" by simp
    then have "512 * (k div 7) \<le> slot_pos k + i" "slot_pos k + i < 512 * (k div 7) + 512"
      using i unfolding slot_pos_def by linarith+
    then have "(slot_pos k + i) div 512 = k div 7" by (intro div_nat_eqI) (simp_all add: mult.commute)
    then show "contents v n (slot_pos k) 72 ! i = replicate 72 0 ! i"
      using i assms by (simp add: contents_def byte_at_def)
  qed simp
  then show ?thesis by (simp add: slot_def dec_dir_entry_def)
qed

lemma slot_mapped:
  assumes "good N v" and "file_ok v n" and "slot_block v n k \<noteq> 0"
  shows "slot_entry v n k = slot v n k"
proof -
  have k: "k div 7 < MAX_FILE_BLOCKS" and p: "slot_block v n k = ptr v n (node_of (k div 7))"
    using assms(3) by (simp_all add: slot_block_def split: if_splits)
  have "slot_pos k < MAX_FILE_BYTES" using slot_pos_bound [OF k] by simp
  then have m: "mapped v n (slot_pos k)" using assms(3) p by (simp add: mapped_def)
  have u: "unat (of_nat (k mod 7) :: u32) = k mod 7"
    by (rule unat_of_nat32, rule less_trans [OF mod_less_divisor]) simp_all
  show ?thesis
    using chunk_contents [OF assms(1,2) m slot_pos_fits]
    by (simp only: slot_entry_def slot_def entry_in_def FsDir.entry_offset_def p u slot_pos_div mult.commute)
qed

lemma slot_entry_in:
  assumes "good N v" and "file_ok v n" and "slot_block v n k \<noteq> 0" and "k < 2 ^ 32"
  shows "entry_in (blk v (slot_block v n k)) (of_nat k mod 7) = slot v n k"
  using slot_mapped [OF assms(1-3)] by (simp add: slot_entry_def slot_index(3) [OF assms(4)])

text \<open>The directory and its well-formedness, on the slots.\<close>

definition listing :: "(nat \<Rightarrow> dir_entry) \<Rightarrow> nat \<Rightarrow> (bytes \<times> u32) list" where
  "listing e m = concat (map (\<lambda>k. if d_inode (e k) = 0 then [] else [(entry_name (e k), d_inode (e k))]) [0..<m])"

lemma listing_Suc:
  "listing e (Suc m) = listing e m @ (if d_inode (e m) = 0 then [] else [(entry_name (e m), d_inode (e m))])"
  by (simp add: listing_def)

lemma listing_cong: "(\<And>k. k < m \<Longrightarrow> e k = f k) \<Longrightarrow> listing e m = listing f m"
  by (induction m) (simp_all add: listing_Suc, simp add: listing_def)

definition fits :: "ipo_inode \<Rightarrow> bool" where
  "fits n \<longleftrightarrow> unat (entry_count n) \<le> 7 * MAX_FILE_BLOCKS"

lemma fits_slot: "fits n \<Longrightarrow> k < unat (entry_count n) \<Longrightarrow> k div 7 < MAX_FILE_BLOCKS"
  by (simp add: fits_def less_mult_imp_div_less mult.commute)

lemma directory_listing:
  assumes "good N v" and "file_ok v n" and "fits n"
  shows "directory v n = listing (slot v n) (unat (entry_count n))"
proof -
  have "(if slot_block v n k = 0 \<or> d_inode (slot_entry v n k) = 0 then [] else [(entry_name (slot_entry v n k), d_inode (slot_entry v n k))]) =
      (if d_inode (slot v n k) = 0 then [] else [(entry_name (slot v n k), d_inode (slot v n k))])"
    if "k < unat (entry_count n)" for k
    using slot_mapped [OF assms(1,2), of k] slot_unmapped [of v n k] fits_slot [OF assms(3) that]
    by (cases "slot_block v n k = 0") (simp_all add: slot_block_def)
  then show ?thesis
    unfolding directory_def slots_from_def listing_def by (intro arg_cong [where f = concat] map_cong) simp_all
qed

lemma wf_directory_slots:
  assumes "good N v" and "file_ok v n" and "fits n"
  shows "wf_directory v n \<longleftrightarrow> (\<forall>k < unat (entry_count n). wf_entry (slot v n k))"
proof -
  have "(slot_block v n k \<noteq> 0 \<longrightarrow> wf_entry (slot_entry v n k)) \<longleftrightarrow> wf_entry (slot v n k)" if "k < unat (entry_count n)" for k
    using slot_mapped [OF assms(1,2), of k] slot_unmapped [of v n k] fits_slot [OF assms(3) that]
    by (cases "slot_block v n k = 0") (simp_all add: slot_block_def wf_entry_def)
  then show ?thesis unfolding wf_directory_def by metis
qed

section \<open>Same bytes, same directory\<close>

lemma slot_cong:
  assumes "\<And>i. i < MAX_FILE_BYTES \<Longrightarrow> byte_at v' n' i = byte_at v n i" and "k div 7 < MAX_FILE_BLOCKS"
  shows "slot v' n' k = slot v n k"
proof -
  have "contents v' n' (slot_pos k) 72 = contents v n (slot_pos k) 72"
    unfolding contents_def using assms(1) slot_pos_bound [OF assms(2)] by (intro map_cong) simp_all
  then show ?thesis by (simp add: slot_def)
qed

lemma directory_cong:
  assumes "good N v" and "file_ok v n" and "good N v'" and "file_ok v' n'" and "fits n" and "i_size n' = i_size n"
    and "\<And>i. i < MAX_FILE_BYTES \<Longrightarrow> byte_at v' n' i = byte_at v n i"
  shows "directory v' n' = directory v n" and "wf_directory v' n' = wf_directory v n" and "fits n'"
proof -
  have c: "entry_count n' = entry_count n" using assms(6) by (simp add: entry_count_def)
  show f: "fits n'" using assms(5) c by (simp add: fits_def)
  have e: "slot v' n' k = slot v n k" if "k < unat (entry_count n)" for k
    by (rule slot_cong [OF assms(7) fits_slot [OF assms(5) that]])
  show "directory v' n' = directory v n"
    unfolding directory_listing [OF assms(1,2,5)] directory_listing [OF assms(3,4) f] c by (rule listing_cong [OF e])
  show "wf_directory v' n' = wf_directory v n"
    unfolding wf_directory_slots [OF assms(1,2,5)] wf_directory_slots [OF assms(3,4) f] c using e by auto
qed

section \<open>Appending an entry\<close>

lemma contents_overwrite:
  assumes "\<And>i. i < MAX_FILE_BYTES \<Longrightarrow> byte_at v' n' i = overwrite pos bs (byte_at v n) i" and "p + len \<le> MAX_FILE_BYTES"
  shows "p = pos \<Longrightarrow> len = length bs \<Longrightarrow> contents v' n' p len = bs"
    and "p + len \<le> pos \<Longrightarrow> contents v' n' p len = contents v n p len"
proof -
  show "contents v' n' p len = bs" if "p = pos" "len = length bs"
    using that assms by (intro nth_equalityI) (simp_all add: contents_def overwrite_def)
  show "contents v' n' p len = contents v n p len" if "p + len \<le> pos"
    unfolding contents_def using assms that by (intro map_cong) (simp_all add: overwrite_def)
qed

lemma entry_count_Suc:
  assumes "unat (entry_count n) < 7 * MAX_FILE_BLOCKS" and "i_size n' = i_size n + 72"
  shows "unat (entry_count n') = Suc (unat (entry_count n))"
proof -
  have d: "unat (entry_count n) = unat (i_size n) div 72" by (simp add: entry_count_def unat_div)
  have "unat (i_size n) < 72 * (7 * MAX_FILE_BLOCKS)"
    using assms(1) unfolding d by (simp add: div_less_iff_less_mult mult.commute)
  then have "unat (i_size n + 72) = unat (i_size n) + 72" by (simp add: unat_word_ariths)
  then show ?thesis using assms(2) by (simp add: entry_count_def unat_div)
qed

lemma directory_append:
  assumes "good N v" and "file_ok v n" and "good N v'" and "file_ok v' n'"
    and k: "unat (entry_count n) < 7 * MAX_FILE_BLOCKS" and size: "i_size n' = i_size n + 72"
    and b: "\<And>i. i < MAX_FILE_BYTES \<Longrightarrow>
      byte_at v' n' i = overwrite (slot_pos (unat (entry_count n))) (enc_dir_entry e) (byte_at v n) i"
    and e: "wf_dir_entry e" "d_inode e \<noteq> 0"
  shows "directory v' n' = directory v n @ [(entry_name e, d_inode e)]"
    and "wf_directory v n \<Longrightarrow> wf_entry e \<Longrightarrow> wf_directory v' n'" and "fits n'"
proof -
  let ?k = "unat (entry_count n)"
  have fits: "fits n" using k by (simp add: fits_def)
  note c = entry_count_Suc [OF k size]
  show f: "fits n'" using k c by (simp add: fits_def)
  have len: "length (enc_dir_entry e) = 72" using length_enc_dir_entry [OF e(1)] by simp
  have bound: "slot_pos j + 72 \<le> MAX_FILE_BYTES" if "j \<le> ?k" for j
    using that k by (intro slot_pos_bound) (simp add: less_mult_imp_div_less mult.commute)
  have new: "slot v' n' ?k = e"
    using contents_overwrite(1) [OF b bound refl] len e(1) by (simp add: slot_def dec_enc_dir_entry)
  have old: "slot v' n' j = slot v n j" if "j < ?k" for j
    using contents_overwrite(2) [OF b bound slot_pos_less [OF that]] that by (simp add: slot_def)
  show "directory v' n' = directory v n @ [(entry_name e, d_inode e)]"
    unfolding directory_listing [OF assms(1,2) fits] directory_listing [OF assms(3,4) f] c listing_Suc new
    using e(2) listing_cong [OF old] by simp
  show "wf_directory v' n'" if "wf_directory v n" "wf_entry e"
    unfolding wf_directory_slots [OF assms(3,4) f] c
    using that wf_directory_slots [OF assms(1,2) fits] new old by (auto simp: less_Suc_eq)
qed

text \<open>The entry \<open>dir_add_entry\<close> makes for a valid name.\<close>

lemma valid_name:
  assumes "is_valid_filename (Some name)" and "0 \<notin> set name"
  shows "name \<noteq> []" and "length name < 64" and "str_len name = length name"
  using assms by (auto simp: is_valid_filename_def byte0_def Let_def str_len_c_str split: if_splits)

lemma new_entry_ok:
  assumes "is_valid_filename (Some name)" and "0 \<notin> set name"
  shows "entry_name (new_entry i type name) = name" and "d_inode (new_entry i type name) = i"
    and "wf_dir_entry (new_entry i type name)" and "wf_entry (new_entry i type name)"
proof -
  note n = valid_name [OF assms]
  have "d_name (new_entry i type name) = (name @ replicate (64 - length name) 0)[length name := 0]"
    using n by (simp add: new_entry_def Let_def patch_def)
  also have "\<dots> = name @ 0 # replicate (63 - length name) 0"
    using n(2) replicate_Suc [of "63 - length name" "0 :: u8"] Suc_diff_le [of "length name" 63]
    by (simp only: list_update_append) simp
  finally have d: "d_name (new_entry i type name) = name @ 0 # replicate (63 - length name) 0" .
  then show "entry_name (new_entry i type name) = name" using assms(2) by (simp add: entry_name_def)
  moreover have "unat (d_name_len (new_entry i type name)) = length name"
    using n by (simp add: new_entry_def Let_def unat_of_nat)
  ultimately show "wf_entry (new_entry i type name)" using n by (simp add: wf_entry_def)
  show "d_inode (new_entry i type name) = i" by (simp add: new_entry_def Let_def)
  show "wf_dir_entry (new_entry i type name)"
    using d n(2) by (simp add: wf_dir_entry_def) (simp add: new_entry_def Let_def)
qed

text \<open>How the loops over a directory get the block of a slot.\<close>

context fs_store begin

lemma runs_slot_block:
  assumes "good N v" and "file_ok v n" and "k < 2 ^ 32" and "k div 7 < MAX_FILE_BLOCKS"
  shows "runs v (get_data_block_for_inode io n (of_nat k div 7) False)
    (if slot_block v n k = 0 then -1 else int (unat (slot_block v n k)), n) v"
  using runs_get_data_block_lookup [OF assms(1,2), of "of_nat k div 7"] assms(4)
  by (cases "ptr v n (node_of (k div 7)) = 0") (simp_all add: slot_index(2) [OF assms(3)] block_of_def ptr_int_def slot_block_def)

end

end
