(* ===== verification/FsCreate.thy ===== *)
theory FsCreate imports FsDirBytes begin

text \<open>
  Creating a file: a fresh inode is marked and cleared, and an entry with its name is appended to
  the directory at the end of the walk. The other files, the contents of all files and every path
  that led somewhere before are kept.
\<close>

section \<open>Volumes with the same files\<close>

text \<open>
  The bitmap of the blocks, the data blocks and the inodes \<open>I\<close> are the same; the rest may differ.
\<close>

definition same_files :: "nat \<Rightarrow> u32 set \<Rightarrow> vol \<Rightarrow> vol \<Rightarrow> bool" where
  "same_files N I v v' \<longleftrightarrow> same_globals v v' \<and> good N v \<and> good N v' \<and>
     (\<forall>p. data_block (v_sb v) p \<or> bitmap_area (v_sb v) p \<longrightarrow> blk v' p = blk v p) \<and>
     (\<forall>i\<in>I. inode_at v' i = inode_at v i)"

lemma same_filesD:
  assumes "same_files N I v v'"
  shows "v_sb v' = v_sb v" and "good N v" and "good N v'"
    and "data_block (v_sb v) p \<Longrightarrow> blk v' p = blk v p" and "bitmap_area (v_sb v) p \<Longrightarrow> blk v' p = blk v p"
    and "i \<in> I \<Longrightarrow> inode_at v' i = inode_at v i"
  using assms by (auto simp: same_files_def same_globals_def)

lemma same_files_allocated:
  assumes "same_files N I v v'"
  shows "allocated v' p = allocated v p"
proof -
  note S = same_filesD [OF assms]
  have "blk v' (bit_block (block_bitmap_start (v_sb v)) (p - data_blocks_start (v_sb v))) =
      blk v (bit_block (block_bitmap_start (v_sb v)) (p - data_blocks_start (v_sb v)))" if "data_block (v_sb v) p"
    by (rule S(5) [OF bitmap_area_bit [OF goodD(1) [OF S(2)] that]])
  then show ?thesis by (auto simp: allocated_def bit_at_def S(1))
qed

lemma same_files_file:
  assumes "same_files N I v v'" and ok: "file_ok v n"
  shows "in_range x \<Longrightarrow> ptr v' n x = ptr v n x" and "file_ok v' n"
    and "i < MAX_FILE_BYTES \<Longrightarrow> byte_at v' n i = byte_at v n i"
proof -
  note S = same_filesD [OF assms(1)]
  have keep: "blk v' (ptr v n y) = blk v (ptr v n y)" if "in_range y" "ptr v n y \<noteq> 0" for y
    using file_ok_allocated [OF ok that] by (intro S(4)) (simp add: allocated_def)
  show P: "ptr v' n x = ptr v n x" if "in_range x" for x
    by (rule ptr_cong [OF keep that])
  show "file_ok v' n" using ok P same_files_allocated [OF assms(1)] unfolding file_ok_def by metis
  show "byte_at v' n i = byte_at v n i" if "i < MAX_FILE_BYTES"
    using P [OF node_of_byte [OF that]] keep [OF node_of_byte [OF that]] by (simp add: byte_at_def Let_def)
qed

lemma same_files_files_ok:
  assumes S: "same_files N I v v'" and F: "files_ok N v I"
  shows "files_ok N v' I"
proof -
  note D = same_filesD [OF S]
  have f: "in_table (v_sb v) i" "file_ok v (inode_at v i)" if "i \<in> I" for i using F that by (simp_all add: files_ok_def)
  have "apart v' (inode_at v i) (inode_at v j)" if "i \<in> I" "j \<in> I" "i \<noteq> j" for i j
    using F that same_files_file(1) [OF S f(2) [OF that(1)]] same_files_file(1) [OF S f(2) [OF that(2)]]
    unfolding files_ok_def apart_def by metis
  then show ?thesis
    unfolding files_ok_def using D(1,3,6) f same_files_file(2) [OF S f(2)] by metis
qed

text \<open>An inode that owns no block is apart from every other.\<close>

lemma ptr_zero_inode:
  assumes "in_range x"
  shows "ptr v (zero_inode\<lparr>mode := m, links_count := l\<rparr>) x = 0"
  using assms by (cases x) (auto simp: zero_inode_def nth_Cons' less_Suc_eq numeral_eq_Suc)

lemma files_ok_insert:
  assumes F: "files_ok N v I" and i: "in_table (v_sb v) i" "inode_at v i = zero_inode\<lparr>mode := m, links_count := l\<rparr>"
  shows "files_ok N v (insert i I)"
proof -
  note Z = ptr_zero_inode [where v = v and m = m and l = l]
  have "wf_inode (zero_inode\<lparr>mode := m, links_count := l\<rparr>)" by (simp add: wf_inode_def zero_inode_def)
  then have "file_ok v (inode_at v i)" by (auto simp: file_ok_def i(2) Z)
  moreover have "apart v (inode_at v i) n" for n by (auto simp: apart_def i(2) Z)
  moreover from this have "apart v n (inode_at v i)" for n by (rule apart_sym)
  ultimately show ?thesis using F i(1) unfolding files_ok_def by blast
qed

section \<open>Taking an inode\<close>

text \<open>The inodes in use are marked in the inode bitmap.\<close>

definition marked :: "vol \<Rightarrow> u32 set \<Rightarrow> bool" where
  "marked v I \<longleftrightarrow> (\<forall>i\<in>I. bit_at v (inode_bitmap_start (v_sb v)) (i - 1))"

text \<open>The blocks of the inode bitmap are no others.\<close>

lemma inode_bit_outside:
  assumes "layout N b" and "in_table b i"
  shows "\<not> data_block b (bit_block (inode_bitmap_start b) (i - 1))"
    and "\<not> bitmap_area b (bit_block (inode_bitmap_start b) (i - 1))"
    and "unat (bit_block (inode_bitmap_start b) (i - 1)) < N"
    and "in_table b j \<Longrightarrow> bit_block (inode_bitmap_start b) (i - 1) \<noteq> inode_block b j"
proof -
  have i: "unat (i - 1) < unat (inode_count b)"
  proof -
    have "i \<noteq> 0" "unat i \<le> unat (inode_count b)" using assms(2) by (auto simp: in_table_def word_le_nat_alt)
    then show ?thesis using unat_gt_0 [of i] by (simp add: unat_minus_one)
  qed
  note u = inode_bit_block [OF assms(1) i]
  have l: "unat (block_bitmap_start b) \<le> unat (inode_table_start b)" "unat (inode_table_start b) \<le> unat (data_blocks_start b)"
      "unat (data_blocks_start b) \<le> N"
    using assms(1) by (auto simp: layout_def)
  show "\<not> data_block b (bit_block (inode_bitmap_start b) (i - 1))"
    and "\<not> bitmap_area b (bit_block (inode_bitmap_start b) (i - 1))"
    and "unat (bit_block (inode_bitmap_start b) (i - 1)) < N"
    using u l by (auto simp: data_block_def bitmap_area_def word_le_nat_alt)
  show "bit_block (inode_bitmap_start b) (i - 1) \<noteq> inode_block b j" if "in_table b j"
    using unat_inode_block [OF assms(1) that] u l by auto
qed

lemma same_files_refl: "good N v \<Longrightarrow> same_files N I v v"
  by (simp add: same_files_def same_globals_def)

lemma same_files_trans: "same_files N I u v \<Longrightarrow> same_files N I v w \<Longrightarrow> same_files N I u w"
  unfolding same_files_def same_globals_def by metis

lemma same_files_put_inode:
  assumes "good N v" and "in_table (v_sb v) i" and "wf_inode x" and "i \<notin> I" and "\<And>j. j \<in> I \<Longrightarrow> in_table (v_sb v) j"
  shows "same_files N I v (put_inode i x v)"
proof -
  note B = inode_block_not_data [OF goodD(1) [OF assms(1)] assms(2)]
  have len: "length (blk v (inode_block (v_sb v) i)) = 512" using goodD(2) [OF assms(1)] B(3) by (simp add: sized_def)
  have "inode_at (put_inode i x v) j = inode_at v j" if "j \<in> I" for j
    using inode_at_put_inode [OF in_table_nonzero [OF assms(2)] in_table_nonzero [OF assms(5) [OF that]] assms(3) len]
      that assms(4) by auto
  moreover have "blk (put_inode i x v) p = blk v p" if "data_block (v_sb v) p \<or> bitmap_area (v_sb v) p" for p
    using B that by (intro blk_put_inode) auto
  ultimately show ?thesis
    using assms(1) good_put_inode [OF assms(1-3)] by (simp add: same_files_def same_globals_def)
qed

lemma good_set_bit: "good N v \<Longrightarrow> good N (set_bit_at st i b v)"
  by (auto simp: good_def sized_def set_bit_at_def Let_def)

lemma same_files_mark:
  assumes "good N v" and "in_table (v_sb v) i" and "\<And>j. j \<in> I \<Longrightarrow> in_table (v_sb v) j"
  shows "same_files N I v (set_bit_at (inode_bitmap_start (v_sb v)) (i - 1) b v)"
proof -
  note O = inode_bit_outside [OF goodD(1) [OF assms(1)] assms(2)]
  have "inode_at (set_bit_at (inode_bitmap_start (v_sb v)) (i - 1) b v) j = inode_at v j" if "j \<in> I" for j
    using O(4) [OF assms(3) [OF that]] by (simp add: inode_at_def)
  moreover have "blk (set_bit_at (inode_bitmap_start (v_sb v)) (i - 1) b v) p = blk v p"
    if "data_block (v_sb v) p \<or> bitmap_area (v_sb v) p" for p
    using O(1,2) that by (intro blk_set_bit_at) auto
  ultimately show ?thesis
    using assms(1) good_set_bit [OF assms(1)] by (simp add: same_files_def same_globals_def)
qed

lemma marked_mark:
  assumes "good N v" and "in_table (v_sb v) i" and "marked v I"
  shows "marked (set_bit_at (inode_bitmap_start (v_sb v)) (i - 1) True v) (insert i I)"
proof -
  have "length (blk v (bit_block (inode_bitmap_start (v_sb v)) (i - 1))) = 512"
    using inode_bit_outside(3) [OF goodD(1) [OF assms(1)] assms(2)] goodD(2) [OF assms(1)] by (simp add: sized_def)
  then show ?thesis using assms(3) by (auto simp: marked_def)
qed

text \<open>Marks depend on the blocks of the inode bitmap only.\<close>

lemma marked_cong:
  assumes "good N v" and "v_sb v' = v_sb v" and "\<And>i. i \<in> I \<Longrightarrow> in_table (v_sb v) i" and "marked v I"
    and "\<And>p. \<not> data_block (v_sb v) p \<Longrightarrow> \<not> bitmap_area (v_sb v) p \<Longrightarrow> (\<And>j. in_table (v_sb v) j \<Longrightarrow> p \<noteq> inode_block (v_sb v) j) \<Longrightarrow>
      blk v' p = blk v p"
  shows "marked v' I"
proof -
  have "blk v' (bit_block (inode_bitmap_start (v_sb v)) (i - 1)) = blk v (bit_block (inode_bitmap_start (v_sb v)) (i - 1))"
    if "i \<in> I" for i
    by (rule assms(5)) (use inode_bit_outside [OF goodD(1) [OF assms(1)] assms(3) [OF that]] in auto)
  then show ?thesis using assms(2,4) by (simp add: marked_def bit_at_def)
qed

text \<open>The volume after an inode was taken for a new file.\<close>

definition new_inode :: "u8 \<Rightarrow> ipo_inode" where
  "new_inode type = zero_inode\<lparr>mode := ucast type, links_count := 1\<rparr>"

definition inode_taken :: "u32 \<Rightarrow> u8 \<Rightarrow> vol \<Rightarrow> vol" where
  "inode_taken i type v =
     put_inode i (new_inode type) (put_inode i zero_inode (set_bit_at (inode_bitmap_start (v_sb v)) (i - 1) True v))"

lemma wf_new_inode [simp]: "wf_inode (new_inode type)"
  by (simp add: new_inode_def wf_inode_def zero_inode_def)

lemma inode_taken:
  fixes type :: u8
  assumes F: "files_ok N v I" and i: "in_table (v_sb v) i" "i \<notin> I" and M: "marked v I"
  defines "v' \<equiv> inode_taken i type v"
  shows "same_files N I v v'" and "inode_at v' i = new_inode type" and "files_ok N v' (insert i I)"
    and "marked v' (insert i I)"
proof -
  have G: "good N v" and tab: "\<And>j. j \<in> I \<Longrightarrow> in_table (v_sb v) j" using F by (simp_all add: files_ok_def)
  define v1 where "v1 = set_bit_at (inode_bitmap_start (v_sb v)) (i - 1) True v"
  define v2 where "v2 = put_inode i zero_inode v1"
  have sb: "v_sb v1 = v_sb v" "v_sb v2 = v_sb v" by (simp_all add: v1_def v2_def)
  have v': "v' = put_inode i (new_inode type) v2" by (simp add: v'_def inode_taken_def v1_def v2_def)
  have S1: "same_files N I v v1" unfolding v1_def by (rule same_files_mark [OF G i(1) tab])
  have S2: "same_files N I v1 v2"
    unfolding v2_def by (rule same_files_put_inode [OF same_filesD(3) [OF S1]]) (use i tab sb in simp_all)
  have S3: "same_files N I v2 v'"
    unfolding v' by (rule same_files_put_inode [OF same_filesD(3) [OF S2]]) (use i tab sb in simp_all)
  show S: "same_files N I v v'" using same_files_trans [OF S1 same_files_trans [OF S2 S3]] .
  have "length (blk v2 (inode_block (v_sb v2) i)) = 512"
    using inode_block_not_data(3) [OF goodD(1) [OF G] i(1)] goodD(2) [OF same_filesD(3) [OF S2]] sb by (simp add: sized_def)
  then show n: "inode_at v' i = new_inode type"
    using inode_at_put_inode [OF in_table_nonzero [OF i(1)] in_table_nonzero [OF i(1)] wf_new_inode] by (simp add: v')
  show "files_ok N v' (insert i I)"
    by (rule files_ok_insert [OF same_files_files_ok [OF S F]]) (use n i(1) sb in \<open>simp_all add: v' new_inode_def\<close>)
  have m1: "marked v1 (insert i I)" unfolding v1_def by (rule marked_mark [OF G i(1) M])
  show "marked v' (insert i I)"
    by (rule marked_cong [OF same_filesD(3) [OF S1] _ _ m1]) (use i tab sb in \<open>auto simp: v' v2_def\<close>)
qed

section \<open>Adding an entry\<close>

text \<open>The bytes of an entry went to the first slot after the directory, and nothing else happened to it.\<close>

definition entry_added :: "vol \<Rightarrow> u32 \<Rightarrow> dir_entry \<Rightarrow> vol \<Rightarrow> bool" where
  "entry_added v d e v' \<longleftrightarrow>
     (let n = inode_at v d; n' = inode_at v' d in
       (\<forall>i < MAX_FILE_BYTES. byte_at v' n' i = overwrite (slot_pos (unat (entry_count n))) (enc_dir_entry e) (byte_at v n) i) \<and>
       i_size n' = i_size n + 72 \<and> mode n' = mode n \<and> links_count n' = links_count n)"

text \<open>What \<open>dir_add_entry\<close> does once it has asked for the block of the slot.\<close>

definition store_entry :: "'d machine \<Rightarrow> u32 \<Rightarrow> dir_entry \<Rightarrow> u32 \<Rightarrow> int \<Rightarrow> ipo_inode \<Rightarrow> ('d fs, bool) state" where
  "store_entry io d e j phys n =
     (if phys < 0 then State_Monad.return False
      else do {
        buf0 \<leftarrow> uninit_block io;
        (ok, buf) \<leftarrow> block_read io (word_of_int phys) buf0;
        if \<not> ok then State_Monad.return False
        else do {
          ok2 \<leftarrow> block_write io (word_of_int phys) (patch (FsDir.entry_offset j) (enc_dir_entry e) buf);
          if \<not> ok2 then State_Monad.return False
          else do {
            _ \<leftarrow> write_inode io d (n\<lparr>i_size := i_size n + 72\<rparr>);
            State_Monad.return True
          }
        }
      })"

text \<open>The outcomes: the entry is added, or the slot has no block and can get none.\<close>

definition table_kept :: "vol \<Rightarrow> vol \<Rightarrow> bool" where
  "table_kept v v' \<longleftrightarrow> (\<forall>p. \<not> data_block (v_sb v) p \<and> \<not> bitmap_area (v_sb v) p \<and>
     (\<forall>j. in_table (v_sb v) j \<longrightarrow> p \<noteq> inode_block (v_sb v) j) \<longrightarrow> blk v' p = blk v p)"

definition added :: "nat \<Rightarrow> u32 set \<Rightarrow> vol \<Rightarrow> u32 \<Rightarrow> dir_entry \<Rightarrow> vol \<Rightarrow> bool" where
  "added N I v d e v' \<longleftrightarrow> files_ok N v' I \<and> same_globals v v' \<and> entry_added v d e v' \<and> others_kept I v d v' \<and>
     unat (entry_count (inode_at v d)) < 7 * MAX_FILE_BLOCKS \<and> table_kept v v'"

definition no_slot :: "vol \<Rightarrow> u32 \<Rightarrow> vol \<Rightarrow> bool" where
  "no_slot v d v' \<longleftrightarrow> slot_block v (inode_at v d) (unat (entry_count (inode_at v d))) = 0 \<and> same_globals v v' \<and>
     (volume_full v' \<or> 7 * MAX_FILE_BLOCKS \<le> unat (entry_count (inode_at v d)))"

context fs_store begin

lemma runs_dir_add_start:
  assumes G: "good N v" and tab: "in_table (v_sb v) d" and dir: "mode (inode_at v d) AND 1 \<noteq> 0"
    and ok: "file_ok v (inode_at v d)" "wf_directory v (inode_at v d)" and free: "lookup v d name = None"
    and name: "is_valid_filename (Some name)" "0 \<notin> set name"
    and get: "runs v (get_data_block_for_inode io (inode_at v d) (entry_count (inode_at v d) div 7) True) (r, n1) v1"
    and tail: "runs v1 (store_entry io d (new_entry i type name) (entry_count (inode_at v d) mod 7) r n1) res w"
  shows "runs v (dir_add_entry io d name i type) res w"
proof -
  have "find_slot v (inode_at v d) name 0 (unat (entry_count (inode_at v d))) = None"
    using free dir find_slot_lookup [of v "inode_at v d" name 0 "unat (entry_count (inode_at v d))"] by (simp add: lookup_def directory_def)
  then have find: "runs v (dir_find_entry io d name) None v"
    using runs_dir_find_entry [OF G tab name(2)] ok dir by simp
  show ?thesis
    unfolding dir_add_entry_def
    by (rule evals_bind [OF runs_read_inode [OF tab goodD(1) [OF G]]])
       (simp only: option.case dir name(1) if_False not_True_eq_False, rule evals_bind [OF find],
        simp only: Let_def if_False simp_thms, rule evals_bind [OF get],
        simp only: prod.case tail [unfolded store_entry_def])
qed

text \<open>With the block of the slot there, the entry goes into it and the inode is written back.\<close>

lemma runs_store_entry:
  fixes e :: dir_entry
  assumes F: "files_ok N v I" and d: "d \<in> I" and e: "wf_dir_entry e"
    and G: "good N v1" and g: "grow (path_to (node_of (unat (entry_count (inode_at v d)) div 7))) v (inode_at v d) v1 n1"
    and k: "unat (entry_count (inode_at v d)) < 7 * MAX_FILE_BLOCKS"
    and q: "q = ptr v1 n1 (node_of (unat (entry_count (inode_at v d)) div 7))" "q \<noteq> 0"
  shows "\<exists>v'. runs v1 (store_entry io d e (entry_count (inode_at v d) mod 7) (int (unat q)) n1) True v' \<and> added N I v d e v'"
proof -
  let ?n = "inode_at v d" and ?e = "enc_dir_entry e"
  let ?k = "unat (entry_count ?n)" and ?j = "entry_count ?n mod 7"
  let ?w = "set_blk q (patch (FsDir.entry_offset ?j) ?e (blk v1 q)) v1" and ?s = "n1\<lparr>i_size := i_size n1 + 72\<rparr>"
  have tab: "in_table (v_sb v) d" and ok: "file_ok v ?n" using F d by (simp_all add: files_ok_def)
  have kb: "?k div 7 < MAX_FILE_BLOCKS" using k by (simp add: less_mult_imp_div_less mult.commute)
  have off: "FsDir.entry_offset ?j = 72 * (?k mod 7)" by (simp add: FsDir.entry_offset_def unat_mod)
  have "72 * (?k mod 7) + 72 \<le> 512" using slot_pos_fits [of ?k] by simp
  then have fit: "FsDir.entry_offset ?j + length ?e \<le> 512" unfolding off length_enc_dir_entry [OF e] .
  note ok1 = grow_file_ok [OF g]
  note ql = allocated_length(1,2) [OF G file_ok_allocated [OF ok1 node_of_in_range [OF kb] q(2) [unfolded q(1)]], folded q(1)]
  note set = set_file_block [OF G ok1 kb q(2) [unfolded q(1)] fit, folded q(1)]
  have ext: "extends v ?n ?w n1" by (rule extends_trans [OF grow_extends [OF g] set(1)])
  note U = files_update [OF F d ext set(2), where s = "i_size n1 + 72"]
  have sb: "v_sb v1 = v_sb v" using growD(1) [OF g] by (simp add: same_globals_def)
  have attr: "mode n1 = mode ?n" "i_size n1 = i_size ?n" "links_count n1 = links_count ?n"
    using growD(2) [OF g] by (simp_all add: same_attributes_def)
  have plen: "length (patch (FsDir.entry_offset ?j) ?e (blk v1 q)) = 512" using ql(2) fit by simp
  have wf: "wf_inode ?s" using ok1 by (simp add: file_ok_def wf_inode_def)
  have wi: "runs ?w (write_inode io d ?s) True (put_inode d ?s ?w)"
    by (rule runs_write_inode [OF _ goodD(1) [OF set(2)] wf]) (use tab sb in simp)
  have run: "runs v1 (store_entry io d e ?j (int (unat q)) n1) True (put_inode d ?s ?w)"
    unfolding store_entry_def
    by (auto intro!: runs_uninit evals_bind [OF store_read [OF ql(1)]]
      evals_bind [OF store_write [OF ql(1) plen]] evals_bind [OF wi] evals_return)
  have "slot_pos ?k = 512 * (?k div 7) + FsDir.entry_offset ?j" by (simp add: slot_pos_def off)
  then have "entry_added v d e (put_inode d ?s ?w)"
    using U(1,4) set(4) byte_at_grow [OF g ok] attr unfolding entry_added_def Let_def by (simp add: overwrite_def)
  moreover have "others_kept I v d (put_inode d ?s ?w)" using U(6,7) by (simp add: others_kept_def)
  moreover have "table_kept v (put_inode d ?s ?w)"
    unfolding table_kept_def using extendsD(8) [OF ext] tab sb by simp
  ultimately show ?thesis using run U(2,3) k by (auto simp: added_def)
qed

lemma runs_dir_add_entry:
  assumes F: "files_ok N v I" and d: "d \<in> I" and wf: "wf_directory v (inode_at v d)"
    and dir: "mode (inode_at v d) AND 1 \<noteq> 0" and free: "lookup v d name = None"
    and name: "is_valid_filename (Some name)" "0 \<notin> set name"
  shows "\<exists>r v'. runs v (dir_add_entry io d name i type) r v' \<and>
    (if r then added N I v d (new_entry i type name) v'
     else no_slot v d v' \<and> good N v' \<and> (\<forall>j. in_table (v_sb v) j \<longrightarrow> inode_at v' j = inode_at v j))"
proof -
  let ?n = "inode_at v d"
  let ?k = "unat (entry_count ?n)"
  have G: "good N v" and tab: "in_table (v_sb v) d" and ok: "file_ok v ?n" using F d by (simp_all add: files_ok_def)
  note start = runs_dir_add_start [OF G tab dir ok wf free name]
  have u: "unat (entry_count ?n div 7) = ?k div 7" by (simp add: unat_div)
  show ?thesis
  proof (cases "?k < 7 * MAX_FILE_BLOCKS")
    case False
    then have over: "MAX_FILE_BLOCKS \<le> ?k div 7" by (simp add: less_eq_div_iff_mult_less_eq mult.commute)
    then have "MAX_FILE_BLOCKS \<le> unat (entry_count ?n div 7)" using u by simp
    from start [OF runs_get_data_block_beyond [OF this]] have "runs v (dir_add_entry io d name i type) False v"
      by (simp add: store_entry_def evals_return)
    then show ?thesis using G False over by (auto simp: no_slot_def same_globals_def slot_block_def intro!: exI [of _ False])
  next
    case True
    then have kb: "?k div 7 < MAX_FILE_BLOCKS" by (simp add: less_mult_imp_div_less mult.commute)
    obtain r v1 n1 where get: "runs v (get_data_block_for_inode io ?n (entry_count ?n div 7) True) (r, n1) v1" "good N v1"
      "grow (path_to (node_of (?k div 7))) v ?n v1 n1" "got v1 n1 (node_of (?k div 7)) r"
      using get_data_block_grows [OF G ok, of "entry_count ?n div 7"] kb u by (auto simp: maps_to_def)
    show ?thesis
    proof (cases "ptr v1 n1 (node_of (?k div 7)) = 0")
      case full: True
      then have r: "r = -1" "volume_full v1" using get(4) by (simp_all add: got_def)
      have "ptr v ?n (node_of (?k div 7)) = 0" using growD(4) [OF get(3) node_of_in_range [OF kb]] full by metis
      then have "no_slot v d v1" using growD(1) [OF get(3)] r(2) by (simp add: no_slot_def slot_block_def)
      moreover have "runs v (dir_add_entry io d name i type) False v1"
        by (rule start [OF get(1)]) (simp add: store_entry_def r evals_return)
      moreover have "inode_at v1 j = inode_at v j" if "in_table (v_sb v) j" for j
        by (rule inode_at_extends [OF grow_extends [OF get(3)] goodD(1) [OF G] that])
      ultimately show ?thesis using get(2) by (auto intro!: exI [of _ False])
    next
      case False
      then have r: "r = int (unat (ptr v1 n1 (node_of (?k div 7))))" using get(4) by (simp add: got_def)
      from runs_store_entry [OF F d new_entry_ok(3) [OF name] get(2,3) True refl False] obtain v' where
        "runs v1 (store_entry io d (new_entry i type name) (entry_count ?n mod 7) r n1) True v'"
        and a: "added N I v d (new_entry i type name) v'" unfolding r by blast
      from start [OF get(1) this(1)] a show ?thesis by (auto intro!: exI [of _ True])
    qed
  qed
qed

end

end
