(* ===== verification/FsCreateProps.thy ===== *)
theory FsCreateProps imports FsCreate FsWalkProps begin

text \<open>
  \<open>ipo_fs_create\<close> on a well-formed volume: what it refuses, and what the volume is after it.
\<close>

section \<open>Well-formed volumes\<close>

definition is_dir :: "vol \<Rightarrow> u32 \<Rightarrow> bool" where
  "is_dir v i \<longleftrightarrow> mode (inode_at v i) AND 1 \<noteq> 0"

text \<open>Files apart from each other, directories of distinct names that lead to them, and every inode marked as in use.\<close>

definition volume_ok :: "nat \<Rightarrow> vol \<Rightarrow> u32 set \<Rightarrow> bool" where
  "volume_ok N v I \<longleftrightarrow> files_ok N v I \<and> tree_ok N v I \<and> marked v I \<and> 
     (\<forall>i\<in>I. is_dir v i \<longrightarrow> fits (inode_at v i) \<and> distinct (map fst (directory v (inode_at v i))))"

lemma volume_okD:
  assumes "volume_ok N v I"
  shows "files_ok N v I" and "tree_ok N v I" and "marked v I" and "good N v" and "1 \<in> I"
    and "i \<in> I \<Longrightarrow> in_table (v_sb v) i" and "i \<in> I \<Longrightarrow> file_ok v (inode_at v i)"
    and "i \<in> I \<Longrightarrow> is_dir v i \<Longrightarrow> wf_directory v (inode_at v i)"
    and "i \<in> I \<Longrightarrow> is_dir v i \<Longrightarrow> snd ` set (directory v (inode_at v i)) \<subseteq> I"
    and "i \<in> I \<Longrightarrow> is_dir v i \<Longrightarrow> fits (inode_at v i)"
    and "i \<in> I \<Longrightarrow> is_dir v i \<Longrightarrow> distinct (map fst (directory v (inode_at v i)))"
  using assms by (auto simp: volume_ok_def tree_ok_def files_ok_def is_dir_def)

lemma volume_okI:
  assumes "files_ok N v I" and "marked v I" and "1 \<in> I"
    and "\<And>i. i \<in> I \<Longrightarrow> is_dir v i \<Longrightarrow> wf_directory v (inode_at v i) \<and> snd ` set (directory v (inode_at v i)) \<subseteq> I \<and>
      fits (inode_at v i) \<and> distinct (map fst (directory v (inode_at v i)))"
  shows "volume_ok N v I"
  using assms by (auto simp: volume_ok_def tree_ok_def files_ok_def is_dir_def)

section \<open>The new file\<close>

text \<open>A file \<open>i\<close> called \<open>name\<close> came into the directory \<open>d\<close>, and the files \<open>I\<close> are as they were.\<close>

definition created :: "u32 set \<Rightarrow> vol \<Rightarrow> u32 \<Rightarrow> bytes \<Rightarrow> u32 \<Rightarrow> u8 \<Rightarrow> vol \<Rightarrow> bool" where
  "created I v d name i type v' \<longleftrightarrow> i \<notin> I \<and> inode_at v' i = new_inode type \<and>
     directory v' (inode_at v' d) = directory v (inode_at v d) @ [(name, i)] \<and>
     mode (inode_at v' d) = mode (inode_at v d) \<and> links_count (inode_at v' d) = links_count (inode_at v d) \<and>
     others_kept I v d v' \<and> same_globals v v'"

lemma empty_directory: "entry_count (new_inode type) = 0" "directory v (new_inode type) = []" "wf_directory v (new_inode type)"
    "fits (new_inode type)"
  by (simp_all add: entry_count_def new_inode_def zero_inode_def directory_def wf_directory_def fits_def)

lemma created_volume:
  assumes V: "volume_ok N v I" and d: "d \<in> I" "is_dir v d" and i: "in_table (v_sb v) i" "i \<notin> I"
    and name: "is_valid_filename (Some name)" "0 \<notin> set name" and free: "lookup v d name = None"
    and A: "added N (insert i I) (inode_taken i type v) d (new_entry i type name) v'"
  shows "volume_ok N v' (insert i I)" and "created I v d name i type v'"
proof -
  let ?w = "inode_taken i type v" and ?J = "insert i I"
  note V' = volume_okD [OF V]
  note T = inode_taken [OF V'(1) i V'(3), where type = type]
  note S = same_filesD [OF T(1)] same_files_file [OF T(1)]
  have F: "files_ok N v' ?J" and sg: "same_globals ?w v'" and E: "entry_added ?w d (new_entry i type name) v'"
    and K: "others_kept ?J ?w d v'" and k: "unat (entry_count (inode_at ?w d)) < 7 * MAX_FILE_BLOCKS" and tk: "table_kept ?w v'"
    using A by (simp_all add: added_def)
  have G: "good N v'" and ok': "file_ok v' (inode_at v' j)" if "j \<in> ?J" for j
    using F that unfolding files_ok_def by blast+
  have id: "i \<noteq> d" using d(1) i(2) by auto
  note n = new_entry_ok [OF name, of i type]
  have wd: "inode_at ?w d = inode_at v d" by (rule S(6) [OF d(1)])
  note fd = V'(7) [OF d(1)]
  have old: "inode_at v' j = inode_at v j" "\<And>k. k < MAX_FILE_BYTES \<Longrightarrow> byte_at v' (inode_at v' j) k = byte_at v (inode_at v j) k"
    if "j \<in> I" "j \<noteq> d" for j
  proof -
    have K': "inode_at v' j = inode_at ?w j" "\<And>k. k < MAX_FILE_BYTES \<Longrightarrow> byte_at v' (inode_at v' j) k = byte_at ?w (inode_at ?w j) k"
      using K that unfolding others_kept_def by blast+
    show "inode_at v' j = inode_at v j" using K'(1) S(6) [OF that(1)] by simp
    show "byte_at v' (inode_at v' j) k = byte_at v (inode_at v j) k" if k: "k < MAX_FILE_BYTES" for k
      using K'(2) [OF k] S(6) [OF \<open>j \<in> I\<close>] S(9) [OF V'(7) [OF \<open>j \<in> I\<close>] k] by simp
  qed
  have new: "inode_at v' i = new_inode type" using K T(2) id by (simp add: others_kept_def)
  have w: "directory ?w (inode_at v d) = directory v (inode_at v d)" "wf_directory ?w (inode_at v d)"
    using directory_cong [OF S(2) fd S(3) S(8) [OF fd] V'(10) [OF d] refl S(9) [OF fd]] V'(8) [OF d] by simp_all
  have dd: "directory v' (inode_at v' d) = directory v (inode_at v d) @ [(name, i)]"
    "wf_directory v' (inode_at v' d)" "fits (inode_at v' d)"
    and attr: "mode (inode_at v' d) = mode (inode_at v d)" "links_count (inode_at v' d) = links_count (inode_at v d)"
    using directory_append [OF S(3) S(8) [OF fd] G ok', of d d, OF _ _ k [unfolded wd] _ _ n(3)]
      E d(1) w n in_table_nonzero [OF i(1)] by (simp_all add: entry_added_def Let_def wd)
  show "created I v d name i type v'"
    using i(2) new dd(1) attr old sg same_filesD(1) [OF T(1)] T(1)
    by (auto simp: created_def others_kept_def same_globals_def same_files_def)
  show "volume_ok N v' ?J"
  proof (rule volume_okI [OF F])
    show "marked v' ?J"
      by (rule marked_cong [OF S(3) _ _ T(4)])
         (use sg tk F in \<open>auto simp: same_globals_def files_ok_def table_kept_def\<close>)
    show "1 \<in> ?J" using V'(5) by simp
    fix j
    assume j: "j \<in> ?J" "is_dir v' j"
    consider "j = i" | "j = d" | "j \<in> I" "j \<noteq> d" using j(1) by blast
    then show "wf_directory v' (inode_at v' j) \<and> snd ` set (directory v' (inode_at v' j)) \<subseteq> ?J \<and>
        fits (inode_at v' j) \<and> distinct (map fst (directory v' (inode_at v' j)))"
    proof cases
      case 1
      then show ?thesis by (simp add: new empty_directory)
    next
      case 2
      have "name \<notin> fst ` set (directory v (inode_at v d))"
        using free d(2) by (simp add: lookup_def is_dir_def map_of_eq_None_iff)
      then show ?thesis using 2 dd V'(9,11) [OF d] by auto
    next
      case 3
      then have "is_dir v j" using j(2) old(1) by (simp add: is_dir_def)
      note D = V'(8,9,10,11) [OF 3(1) this]
      note c = directory_cong [OF S(2) V'(7) [OF 3(1)] G ok' D(3), OF j(1) j(1) _ old(2) [OF 3]]
      show ?thesis using c D old(1) [OF 3] by auto
    qed
  qed
qed

section \<open>The parent of a path\<close>

lemma length_split_on: "length (split_on x cs) = Suc (count_list cs x)"
proof (induction cs)
  case (Cons c cs)
  then show ?case using split_on_cases [of x cs] by auto
qed simp

lemma split_on_join:
  "(\<And>t. t \<in> set ts \<Longrightarrow> slash \<notin> set t) \<Longrightarrow> split_on slash (join_path ts) = [] # ts"
proof (induction ts)
  case (Cons t ts)
  have t: "slash \<notin> set t" using Cons.prems by simp
  have d: "dropWhile (\<lambda>x. x \<noteq> slash) (t @ join_path ts) = join_path ts"
    using t by (induction t) (cases ts, auto)
  have "split_on slash (t @ join_path ts) = t # (case join_path ts of [] \<Rightarrow> [] | _ # r \<Rightarrow> split_on slash r)"
    by (subst split_on_first) (simp only: takeWhile_component [OF t] d)
  moreover have "(case join_path ts of [] \<Rightarrow> [] | _ # r \<Rightarrow> split_on slash r) = ts"
    using Cons.IH Cons.prems by (cases ts) auto
  ultimately show ?case by simp
qed simp

lemma normalise_names:
  "(\<And>t. t \<in> set ts \<Longrightarrow> t \<noteq> [] \<and> t \<noteq> dot \<and> t \<noteq> dotdot) \<Longrightarrow> normalise ts st = st @ ts"
  by (induction ts arbitrary: st) simp_all

lemma normalise_no_dots: "t \<in> set (normalise ts st) \<Longrightarrow> t \<in> set st \<or> (t \<noteq> dot \<and> t \<noteq> dotdot)"
proof (induction ts arbitrary: st)
  case (Cons u ts)
  then show ?case
    using Cons.IH [of st] Cons.IH [of "butlast st"] Cons.IH [of "st @ [u]"] in_set_butlastD [of t st]
    by (auto split: if_splits)
qed simp

lemma count_normalise: "length (normalise ts st) \<le> length st + length ts"
proof (induction ts arbitrary: st)
  case (Cons t ts)
  show ?case using Cons.IH [of st] Cons.IH [of "butlast st"] Cons.IH [of "st @ [t]"] by auto
qed simp

lemma path_components_names: "t \<in> set (path_components p) \<Longrightarrow> t \<noteq> dot \<and> t \<noteq> dotdot"
  using normalise_no_dots [of t "map (take 63) (split_on slash (c_str p))" "[]"]
  by (simp add: path_components_def normalise_from_def del: str_Cons)

lemma length_components: "length (path_components p) \<le> Suc (count_list (c_str p) slash)"
  using count_normalise [of "map (take 63) (split_on slash (c_str p))" "[]"]
  by (simp add: path_components_def normalise_from_def length_split_on)

lemma path_components_join:
  assumes "\<And>t. t \<in> set ts \<Longrightarrow> t \<in> set (path_components p)"
  shows "path_components (join_path ts) = ts" and "c_str (join_path ts) = join_path ts"
proof -
  note ok = path_components_ok [OF assms] path_components_names [OF assms]
  show c: "c_str (join_path ts) = join_path ts"
    by (rule c_str_idem) (use ok(4) in \<open>auto simp: join_path_def\<close>)
  have sp: "split_on slash (join_path ts) = [] # ts" by (rule split_on_join) (rule ok(3))
  have "map (take 63) ts = ts"
  proof (rule map_idI)
    fix t
    assume "t \<in> set ts"
    then show "take 63 t = t" using ok(2) [of t] by simp
  qed
  moreover have "normalise ts [] = ts" using normalise_names [of ts "[]"] ok(1,5) by simp
  ultimately show "path_components (join_path ts) = ts"
    unfolding path_components_def normalise_from_def c sp by simp
qed

lemma count_join: "(\<And>t. t \<in> set ts \<Longrightarrow> slash \<notin> set t) \<Longrightarrow> count_list (join_path ts) slash = length ts"
  using length_split_on [of slash "join_path ts"] split_on_join [of ts] by simp

lemma split_last_join:
  assumes "slash \<notin> set t"
  shows "split_last (join_path ts @ slash # t) = Some (join_path ts, t)"
proof -
  have "takeWhile (\<lambda>x. x \<noteq> slash) (rev t @ slash # rev (join_path ts)) = rev t"
    using assms by (subst takeWhile_append2) auto
  then show ?thesis by (simp add: split_last_def Let_def)
qed

definition parent_of :: "vol \<Rightarrow> bytes \<Rightarrow> (u32 \<times> bytes) option" where
  "parent_of v p = (let ts = path_components p in
     if ts = [] then None else map_option (\<lambda>d. (d, last ts)) (walk v 1 (butlast ts)))"

context fs_store begin

lemma runs_path_resolve_parent:
  assumes T: "tree_ok N v D" and p: "count_list (c_str p) slash < 128" "length (c_str p) + 2 < 512"
  shows "runs v (path_resolve_parent io (Some p)) (parent_of v p) v"
proof (cases "path_components p = []")
  case True
  then show ?thesis
    using fs_canonicalize_path [OF p] str_cmp_eq_0 [of "canonical_path p" "str ''/''"]
    by (simp add: path_resolve_parent_def canonical_path_def parent_of_def Let_def evals_return)
next
  case False
  define us where "us = butlast (path_components p)"
  define t where "t = last (path_components p)"
  have ts: "path_components p = us @ [t]" using False by (simp add: us_def t_def)
  have sub: "x \<in> set us \<Longrightarrow> x \<in> set (path_components p)" for x by (simp add: ts)
  have "t \<in> set (path_components p)" by (simp add: ts)
  note ok = path_components_ok [OF this]
  let ?j = "join_path us @ slash # t"
  have join: "join_path (path_components p) = ?j" by (simp add: ts join_path_def)
  note can = fs_canonicalize_path [OF p, unfolded canonical_path_def if_not_P [OF False] join]
  have nul: "0 \<notin> set ?j" using path_components_ok(4) [of _ p] by (auto simp: join_path_def ts)
  have ne: "str_cmp ?j (str ''/'') \<noteq> 0"
  proof -
    have "?j \<noteq> [slash]" using ok(1) by (cases us) auto
    then show ?thesis using nul c_str_idem [of "[slash]"] c_str_idem [OF nul] by (simp add: str_cmp_eq_0)
  qed
  have len: "length (join_path us) + 2 < 512" "length ?j < 512"
    using length_path_components [of p] p(2) ok(1) by (cases t; simp add: join)+
  have cnt: "count_list (join_path us) slash < 128"
    using count_join [of us] path_components_ok(3) [OF sub] length_components [of p] p(1) by (simp add: ts)
  note c = path_components_join [where ts = us, OF sub]
  have res: "runs v (path_resolve io (Some (if join_path us = [] then str ''/'' else join_path us))) (walk v 1 us) v"
  proof (cases us)
    case Nil
    have r: "path_components (str ''/'') = []" "count_list (c_str (str ''/'')) slash < 128" "length (c_str (str ''/'')) + 2 < 512"
      by (simp_all add: path_components_def normalise_from_def c_str_def)
    show ?thesis using runs_path_resolve [OF T r(2,3)] r(1) Nil by simp
  next
    case (Cons u us')
    then show ?thesis using runs_path_resolve [OF T, of "join_path us"] len(1) cnt c by simp
  qed
  have "str_len ?j \<noteq> 0" using ok(1) by (simp only: str_len_c_str c_str_idem [OF nul]) simp
  moreover have "\<not> 512 \<le> length (join_path us)" "\<not> 64 \<le> length t" using len ok(2) by simp_all
  moreover have "parent_of v p = map_option (\<lambda>d. (d, t)) (walk v 1 us)" by (simp add: parent_of_def Let_def ts)
  ultimately show ?thesis
    unfolding path_resolve_parent_def can option.case if_not_P [OF ne] split_last_join [OF ok(3)]
    by (simp only: if_False option.case prod.case) (rule evals_bind [OF res evals_return])
qed

end

section \<open>Walks\<close>

lemma walk_append: "walk v d (ts @ us) = (case walk v d ts of None \<Rightarrow> None | Some x \<Rightarrow> walk v x us)"
  by (induction ts arbitrary: d) (auto split: option.splits)

lemma walk_mono:
  assumes T: "tree_ok N v I" and "\<And>x t j. x \<in> I \<Longrightarrow> lookup v x t = Some j \<Longrightarrow> lookup v' x t = Some j"
  shows "x \<in> I \<Longrightarrow> walk v x ts = Some j \<Longrightarrow> walk v' x ts = Some j"
proof (induction ts arbitrary: x)
  case (Cons t ts)
  obtain i where i: "lookup v x t = Some i" "walk v i ts = Some j" using Cons.prems(2) by (auto split: option.splits)
  then show ?case using assms(2) [OF Cons.prems(1) i(1)] Cons.IH [OF lookup_in_tree [OF T Cons.prems(1) i(1)]] by simp
qed simp

lemma created_lookup:
  assumes V: "volume_ok N v I" and V': "volume_ok N v' (insert i I)" and C: "created I v d name i type v'"
    and x: "x \<in> I" "lookup v x t = Some j"
  shows "lookup v' x t = Some j"
proof (cases "x = d")
  case True
  then show ?thesis using C x(2) by (auto simp: created_def lookup_def split: if_splits)
next
  case False
  have dir: "is_dir v x" using x(2) by (simp add: lookup_def is_dir_def split: if_splits)
  have o: "inode_at v' x = inode_at v x" "\<And>k. k < MAX_FILE_BYTES \<Longrightarrow> byte_at v' (inode_at v' x) k = byte_at v (inode_at v x) k"
    using C x(1) False unfolding created_def others_kept_def by blast+
  have "x \<in> insert i I" using x(1) by simp
  then have "directory v' (inode_at v' x) = directory v (inode_at v x)"
    using directory_cong(1) [OF volume_okD(4,7) [OF V] volume_okD(4,7) [OF V'] volume_okD(10) [OF V x(1) dir] _ o(2)] x(1) o(1) by simp
  then show ?thesis using x(2) o(1) by (auto simp: lookup_def split: if_splits)
qed

text \<open>The paths that led somewhere lead there still, and the path of the new file leads to it.\<close>

lemma created_walk:
  assumes V: "volume_ok N v I" and V': "volume_ok N v' (insert i I)" and C: "created I v d name i type v'"
    and p: "parent_of v p = Some (d, name)" and new: "is_dir v d" "lookup v d name = None"
  shows "walk v 1 ts = Some j \<Longrightarrow> walk v' 1 ts = Some j" and "walk v' 1 (path_components p) = Some i"
proof -
  note keep = walk_mono [OF volume_okD(2) [OF V] created_lookup [OF V V' C] volume_okD(5) [OF V]]
  show "walk v 1 ts = Some j \<Longrightarrow> walk v' 1 ts = Some j" by (rule keep)
  have ne: "path_components p \<noteq> []" and n: "name = last (path_components p)" and "walk v 1 (butlast (path_components p)) = Some d"
    using p by (auto simp: parent_of_def Let_def split: if_splits)
  moreover have "lookup v' d name = Some i"
    using C new by (simp add: created_def lookup_def is_dir_def map_add_def)
  ultimately have "walk v' 1 (butlast (path_components p) @ [last (path_components p)]) = Some i"
    using keep by (simp add: walk_append del: append_butlast_last_id)
  then show "walk v' 1 (path_components p) = Some i" using ne by simp
qed

section \<open>Creating\<close>

text \<open>The inode a creation takes: the first one that is not marked.\<close>

definition next_inode :: "vol \<Rightarrow> u32 option" where
  "next_inode v = map_option (\<lambda>k. of_nat (Suc k)) (first_clear v (inode_bitmap_start (v_sb v)) 0 (unat (inode_count (v_sb v))))"

text \<open>A path that cannot be created: no parent, no valid name, a name in use, or no inode left.\<close>

definition refused :: "vol \<Rightarrow> bytes \<Rightarrow> bool" where
  "refused v p \<longleftrightarrow> (case parent_of v p of
     None \<Rightarrow> True
   | Some (d, name) \<Rightarrow> \<not> is_valid_filename (Some name) \<or> lookup v d name \<noteq> None \<or> next_inode v = None)"

text \<open>Otherwise the file is there afterwards, unless its entry finds no slot.\<close>

definition creation :: "nat \<Rightarrow> u32 set \<Rightarrow> vol \<Rightarrow> u32 \<Rightarrow> bytes \<Rightarrow> u32 \<Rightarrow> u8 \<Rightarrow> int \<times> vol \<Rightarrow> bool" where
  "creation N I v d name i type r \<longleftrightarrow>
     (fst r = int (unat i) \<and> volume_ok N (snd r) (insert i I) \<and> created I v d name i type (snd r)) \<or>
     (fst r = -1 \<and> no_slot v d (snd r))"

context fs_store begin

lemma runs_take_inode:
  assumes L: "layout N (v_sb v)" and S: "unat (inode_count (v_sb v)) < 2 ^ 31"
    and T: "\<And>i. next_inode v = Some i \<Longrightarrow> in_table (v_sb v) i"
  shows "next_inode v = None \<Longrightarrow> runs v (allocate_inode io) (-1) v"
    and "next_inode v = Some i \<Longrightarrow> runs v (allocate_inode io) (int (unat i))
      (put_inode i zero_inode (set_bit_at (inode_bitmap_start (v_sb v)) (i - 1) True v))"
    and "next_inode v = Some i \<Longrightarrow> \<not> bit_at v (inode_bitmap_start (v_sb v)) (i - 1)"
proof -
  let ?c = "first_clear v (inode_bitmap_start (v_sb v)) 0 (unat (inode_count (v_sb v)))"
  have run: "runs v (allocate_inode io) (fst (inode_allocation v ?c)) (snd (inode_allocation v ?c))"
    by (rule runs_allocate_inode [OF L S]) (use T in \<open>simp add: next_inode_def\<close>)
  show "runs v (allocate_inode io) (-1) v" if "next_inode v = None"
    using run that by (simp add: next_inode_def inode_allocation_def)
  assume "next_inode v = Some i"
  then obtain k where k: "?c = Some k" "i = of_nat (Suc k)" by (auto simp: next_inode_def)
  note c = first_clear_Some [OF k(1)]
  have i: "unat i = Suc k" "i - 1 = of_nat k" using c S k(2) by (simp_all add: unat_of_nat32 del: of_nat_Suc) simp
  show "runs v (allocate_inode io) (int (unat i))
      (put_inode i zero_inode (set_bit_at (inode_bitmap_start (v_sb v)) (i - 1) True v))"
    using run k i by (simp add: inode_allocation_def)
  show "\<not> bit_at v (inode_bitmap_start (v_sb v)) (i - 1)" using c i by simp
qed

text \<open>Freeing the inode of an empty file clears its mark and leaves the blocks alone.\<close>

lemma runs_free_empty:
  assumes G: "good N v" and i: "in_table (v_sb v) i" "inode_at v i = new_inode type"
  shows "runs v (free_inode io i) True (put_inode i (new_inode type) (set_bit_at (inode_bitmap_start (v_sb v)) (i - 1) False v))"
proof -
  have ok: "\<not> (i = 0 \<or> inode_count (v_sb v) < i)" using i(1) by (auto simp: in_table_def)
  have n: "i_size (new_inode type) = 0" "indirect (new_inode type) = 0" by (simp_all add: new_inode_def zero_inode_def)
  have fd: "runs v (free_direct io 0 6 0 (new_inode type)) (new_inode type) v"
    by (simp add: eval_nat_numeral evals_return)
  have w: "runs (set_bit_at (inode_bitmap_start (v_sb v)) (i - 1) False v) (write_inode io i (new_inode type)) True
      (put_inode i (new_inode type) (set_bit_at (inode_bitmap_start (v_sb v)) (i - 1) False v))"
    by (rule runs_write_inode) (use i(1) goodD(1) [OF G] in simp_all)
  show ?thesis
    unfolding free_inode_def
    by (rule evals_bind [OF runs_sb], simp only: ok if_False, rule evals_bind [OF runs_read_inode [OF i(1) goodD(1) [OF G]]])
       (use fd n in \<open>auto simp: i(2) Let_def intro!: evals_bind [OF fd] evals_bind [OF evals_return]
          evals_bind [OF runs_bitmap_set [OF inode_bit_outside(3) [OF goodD(1) [OF G] i(1)]]] evals_bind [OF w] evals_return\<close>)
qed

lemma runs_create_refused:
  assumes V: "volume_ok N v I" and m: "v_mounted v" and p: "count_list (c_str p) slash < 128" "length (c_str p) + 2 < 512"
    and S: "unat (inode_count (v_sb v)) < 2 ^ 31" and T: "\<And>i. next_inode v = Some i \<Longrightarrow> in_table (v_sb v) i"
    and r: "refused v p"
  shows "runs v (ipo_fs_create io (Some p) type) (-1) v"
proof -
  note res = runs_path_resolve_parent [OF volume_okD(2) [OF V] p]
  show ?thesis
  proof (cases "parent_of v p")
    case None
    show ?thesis
      unfolding ipo_fs_create_def
      by (rule evals_bind [OF runs_mounted])
         (use None m in \<open>auto intro!: evals_bind [OF res] evals_return\<close>)
  next
    case (Some dn)
    then obtain d name where q: "parent_of v p = Some (d, name)" by (cases dn) auto
    have d: "d \<in> I" "0 \<notin> set name"
      using q walk_in_tree [OF volume_okD(2) [OF V] volume_okD(5) [OF V]] path_components_ok(4) [of name p]
      by (auto simp: parent_of_def Let_def split: if_splits)
    obtain f where f: "runs v (dir_find_entry io d name) f v" "map_option (\<lambda>(e, _, _). d_inode e) f = lookup v d name"
      using runs_lookup [OF volume_okD(2) [OF V] d] by blast
    note al = runs_take_inode(1) [OF goodD(1) [OF volume_okD(4) [OF V]] S T]
    show ?thesis
      unfolding ipo_fs_create_def
      by (intro evals_bind [OF runs_mounted])
         (use q m f r in \<open>auto simp: refused_def intro!: evals_bind [OF res] evals_bind [OF f(1)] evals_bind [OF al] evals_return\<close>)
  qed
qed

lemma new_inode_eq: "zero_inode\<lparr>mode := ucast type, i_size := 0, links_count := 1\<rparr> = new_inode type"
  by (simp add: new_inode_def zero_inode_def)

text \<open>The directory is the same in the volume in which the inode was taken.\<close>

lemma taken_directory:
  assumes V: "volume_ok N v I" and d: "d \<in> I" "is_dir v d" and S: "same_files N I v w"
  shows "inode_at w d = inode_at v d" and "wf_directory w (inode_at w d)" and "lookup w d name = lookup v d name"
    and "no_slot w d v' \<Longrightarrow> same_globals v' v'' \<Longrightarrow> volume_full v'' = volume_full v' \<Longrightarrow> no_slot v d v''"
proof -
  note D = volume_okD [OF V]
  note S' = same_filesD [OF S] same_files_file [OF S D(7) [OF d(1)]]
  show n: "inode_at w d = inode_at v d" by (rule S'(6) [OF d(1)])
  note c = directory_cong [OF S'(2) D(7) [OF d(1)] S'(3,8) D(10) [OF d] refl S'(9)]
  show "wf_directory w (inode_at w d)" using c(2) D(8) [OF d] n by simp
  show "lookup w d name = lookup v d name" using c(1) n by (simp add: lookup_def)
  have sb: "slot_block w (inode_at w d) k = slot_block v (inode_at v d) k" for k
    unfolding n slot_block_def by (simp add: S'(7) [OF node_of_in_range])
  have "same_globals v w" using S by (simp add: same_files_def)
  then show "no_slot v d v''" if "no_slot w d v'" "same_globals v' v''" "volume_full v'' = volume_full v'"
    using that sb unfolding no_slot_def same_globals_def n by auto
qed

lemma runs_create:
  assumes V: "volume_ok N v I" and m: "v_mounted v" and p: "count_list (c_str p) slash < 128" "length (c_str p) + 2 < 512"
    and S: "unat (inode_count (v_sb v)) < 2 ^ 31" and T: "\<And>i. next_inode v = Some i \<Longrightarrow> in_table (v_sb v) i"
    and q: "parent_of v p = Some (d, name)" and dir: "is_dir v d" and r: "\<not> refused v p" and i: "next_inode v = Some i"
  shows "\<exists>r. runs v (ipo_fs_create io (Some p) type) (fst r) (snd r) \<and> creation N I v d name i type r"
proof -
  let ?w = "inode_taken i type v"
  note D = volume_okD [OF V]
  have n: "is_valid_filename (Some name)" "lookup v d name = None" using r q by (simp_all add: refused_def)
  have d: "d \<in> I" "0 \<notin> set name"
    using q walk_in_tree [OF D(2,5)] path_components_ok(4) [of name p] by (auto simp: parent_of_def Let_def split: if_splits)
  note take = runs_take_inode(2,3) [OF goodD(1) [OF D(4)] S T i]
  have new: "i \<notin> I" using take(2) D(3) by (auto simp: marked_def)
  note tab = T [OF i]
  note W = inode_taken [OF D(1) tab new D(3), where type = type]
  note W' = taken_directory [OF V d(1) dir W(1)]
  note sb = same_filesD(1) [OF W(1)]
  have G: "good N ?w" by (rule same_filesD(3) [OF W(1)])
  obtain f where f: "runs v (dir_find_entry io d name) f v" "map_option (\<lambda>(e, _, _). d_inode e) f = lookup v d name"
    using runs_lookup [OF D(2) d] by blast
  then have find: "runs v (dir_find_entry io d name) None v" using n(2) by simp
  have wi: "runs (put_inode i zero_inode (set_bit_at (inode_bitmap_start (v_sb v)) (i - 1) True v))
      (write_inode io i (new_inode type)) True ?w"
    unfolding inode_taken_def by (rule runs_write_inode) (use tab goodD(1) [OF D(4)] in simp_all)
  from runs_dir_add_entry [OF W(3) _ W'(2) _ _ n(1) d(2), of i type] obtain ok v1 where
    add: "runs ?w (dir_add_entry io d name i type) ok v1"
    and out: "if ok then added N (insert i I) ?w d (new_entry i type name) v1
      else no_slot ?w d v1 \<and> good N v1 \<and> (\<forall>j. in_table (v_sb ?w) j \<longrightarrow> inode_at v1 j = inode_at ?w j)"
    using d(1) dir W'(1,3) n(2) by (auto simp: is_dir_def)
  have start: "runs v (ipo_fs_create io (Some p) type) res v'"
    if "runs v1 (if \<not> ok then do { _ \<leftarrow> free_inode io i; State_Monad.return (-1) } else State_Monad.return (int (unat i))) res v'"
    for res v'
    unfolding ipo_fs_create_def
    by (rule evals_bind [OF runs_mounted])
       (use m n(1) q that in \<open>auto simp: new_inode_eq intro!: evals_bind [OF runs_path_resolve_parent [OF D(2) p]] evals_bind [OF find]
         evals_bind [OF take(1)] evals_bind [OF wi] evals_bind [OF add]\<close>)
  show ?thesis
  proof (cases ok)
    case True
    then have A: "added N (insert i I) ?w d (new_entry i type name) v1" using out by simp
    have "runs v (ipo_fs_create io (Some p) type) (int (unat i)) v1" by (rule start) (simp add: True evals_return)
    then show ?thesis
      using created_volume [OF V d(1) dir tab new n(1) d(2) n(2) A] by (intro exI [of _ "(int (unat i), v1)"]) (simp add: creation_def)
  next
    case False
    then have no: "no_slot ?w d v1" "good N v1" "inode_at v1 i = new_inode type"
      using out W(2) tab sb by simp_all
    have sb1: "v_sb v1 = v_sb v" using no(1) sb by (simp add: no_slot_def same_globals_def)
    let ?v = "put_inode i (new_inode type) (set_bit_at (inode_bitmap_start (v_sb v1)) (i - 1) False v1)"
    have run: "runs v (ipo_fs_create io (Some p) type) (-1) ?v"
      by (rule start) (use False runs_free_empty [OF no(2) _ no(3)] tab sb1 in \<open>auto intro!: evals_return elim!: evals_bind\<close>)
    have S1: "same_files N {} v1 (set_bit_at (inode_bitmap_start (v_sb v1)) (i - 1) False v1)"
      by (rule same_files_mark [OF no(2)]) (use tab sb1 in simp_all)
    have "same_files N {} v1 ?v"
      by (rule same_files_trans [OF S1 same_files_put_inode [OF same_filesD(3) [OF S1]]]) (use tab sb1 in simp_all)
    then have "same_globals v1 ?v" "volume_full ?v = volume_full v1"
      using same_files_allocated [of N "{}" v1 ?v] by (simp_all add: same_files_def volume_full_def)
    then show ?thesis
      using run W'(4) [OF no(1)] by (intro exI [of _ "(-1, ?v)"]) (simp add: creation_def)
  qed
qed

end

section \<open>Properties\<close>

lemma demo_volume_ok: "volume_ok 12 demo_vol {1, 2, 3}"
proof -
  have m: "is_dir demo_vol 1" "\<not> is_dir demo_vol 2" "\<not> is_dir demo_vol 3"
    by (simp_all add: is_dir_def demo_inode_1 demo_inode_2 demo_inode_3) (simp_all add: demo_root_def demo_file_def demo_program_def)
  have "marked demo_vol {1, 2, 3}"
    by (simp add: marked_def bit_at_def demo_sb_def bit_block_def bit_byte_def bit_pos_def demo_block_def)
  moreover have "fits (inode_at demo_vol 1)" "distinct (map fst (directory demo_vol (inode_at demo_vol 1)))"
    by (simp_all add: fits_def demo_inode_1 demo_entries demo_directory)
  ultimately show ?thesis using demo_files_ok demo_tree m by (simp add: volume_ok_def)
qed

lemma demo_next_inode: "next_inode demo_vol = Some 4"
  by (simp add: next_inode_def first_clear_step bit_at_def demo_sb_def bit_block_def bit_byte_def bit_pos_def demo_block_def)

lemma demo_bounds:
  "fs_mounted demo_fs" "unat (inode_count (v_sb demo_vol)) < 2 ^ 31" "in_table (v_sb demo_vol) 4"
proof -
  show "fs_mounted demo_fs" by (simp add: demo_fs_def)
  show "unat (inode_count (v_sb demo_vol)) < 2 ^ 31" "in_table (v_sb demo_vol) 4"
    unfolding demo_vol_simps(1) by (simp_all add: demo_sb_def in_table_def)
qed

text \<open>
  C4. Creating a file: on a well-formed volume, for a path whose parent is a directory without
  an entry of that valid name, \<open>ipo_fs_create\<close> returns the first free inode number; the inode is
  empty and of the type asked for, the directory has the new name at its end and nothing else
  changed in it, every other file keeps its inode and its bytes, the volume is well formed with
  the new file in it, every path that led somewhere leads there still and the new path leads to
  the new file. It fails only when the entry needs a block and the volume is full, or the
  directory has as many entries as a file can hold.
\<close>

theorem ipo_fs_create_correct:
  assumes "ata_drive io view" and "attached view N s" and "v = volume view N s" and "volume_ok N v I" and "fs_mounted s"
    and "count_list (c_str p) slash < 128" and "length (c_str p) + 2 < 512"
    and "unat (inode_count (v_sb v)) < 2 ^ 31" and "next_inode v = Some i" and "in_table (v_sb v) i"
    and "parent_of v p = Some (d, name)" and "is_dir v d" and "\<not> refused v p"
  shows "\<exists>r s'. run_state (ipo_fs_create io (Some p) type) s = (r, s') \<and> attached view N s' \<and>
    ((r = int (unat i) \<and> volume_ok N (volume view N s') (insert i I) \<and> created I v d name i type (volume view N s') \<and>
      (\<forall>ts j. walk v 1 ts = Some j \<longrightarrow> walk (volume view N s') 1 ts = Some j) \<and>
      walk (volume view N s') 1 (path_components p) = Some i) \<or>
     (r = -1 \<and> no_slot v d (volume view N s')))"
proof -
  have m: "v_mounted v" using assms(3,5) by (simp add: volume_def)
  have "lookup v d name = None" using assms(11,13) by (simp add: refused_def)
  note walk = created_walk [OF assms(4) _ _ assms(11,12) this]
  have T: "in_table (v_sb v) j" if "next_inode v = Some j" for j using that assms(9,10) by simp
  obtain r where run: "evals (attached view N) (volume view N) v (ipo_fs_create io (Some p) type) (fst r) (snd r)"
    and c: "creation N I v d name i type r"
    using fs_store.runs_create [OF drive_store [OF assms(1)] assms(4) m assms(6-8) T assms(11-13,9)] by blast
  from evals_attached [OF run assms(2) assms(3) [symmetric]] obtain s' where
    s': "run_state (ipo_fs_create io (Some p) type) s = (fst r, s')" "attached view N s'" "volume view N s' = snd r" by blast
  show ?thesis
    by (rule exI [of _ "fst r"], rule exI [of _ s'], unfold s'(3))
       (use s' c walk in \<open>auto simp: creation_def\<close>)
qed

theorem ipo_fs_create_correct_witness:
  "\<exists>s'. run_state (ipo_fs_create pio_io (Some (str ''/./c'')) 2) demo_fs = (4, s') \<and>
    volume_ok 12 (volume prompt 12 s') {4, 1, 2, 3} \<and> walk (volume prompt 12 s') 1 [str ''c''] = Some 4"
proof -
  have c: "path_components (str ''/./c'') = [str ''c'']" by (simp add: path_components_def normalise_from_def c_str_def)
  have b: "count_list (c_str (str ''/./c'')) slash < 128" "length (c_str (str ''/./c'')) + 2 < 512" by (simp_all add: c_str_def)
  have p: "parent_of demo_vol (str ''/./c'') = Some (1, str ''c'')" unfolding parent_of_def c by simp
  have d: "is_dir demo_vol 1" by (simp add: is_dir_def demo_inode_1) (simp add: demo_root_def)
  have "lookup demo_vol 1 (str ''c'') = None" by (simp add: lookup_def demo_inode_1 demo_directory)
  moreover have "is_valid_filename (Some (str ''c''))"
    by (simp add: is_valid_filename_def byte0_def name_char_def)
  ultimately have r: "\<not> refused demo_vol (str ''/./c'')" unfolding refused_def p by (simp add: demo_next_inode)
  have "slot_block demo_vol demo_root 2 \<noteq> 0" by (simp add: demo_slot_block)
  then have "\<not> no_slot demo_vol 1 v" for v by (simp add: no_slot_def demo_inode_1 demo_entries)
  then show ?thesis
    using ipo_fs_create_correct [OF pio.ata_drive_axioms demo_attached refl demo_volume_ok demo_bounds(1) b demo_bounds(2) demo_next_inode demo_bounds(3) p d r, of 2]
      \<open>\<And>v. \<not> no_slot demo_vol 1 v\<close>
    unfolding c by auto
qed

text \<open>
  C31. A creation is refused, with \<open>-1\<close> and no change at all, when the path is the root or its
  parent does not exist, when the name is not valid or already in the directory, and when every
  inode is in use.
\<close>

theorem ipo_fs_create_refused:
  assumes "ata_drive io view" and "attached view N s" and "v = volume view N s" and "volume_ok N v I" and "fs_mounted s"
    and "count_list (c_str p) slash < 128" and "length (c_str p) + 2 < 512"
    and "unat (inode_count (v_sb v)) < 2 ^ 31" and "\<And>i. next_inode v = Some i \<Longrightarrow> in_table (v_sb v) i" and "refused v p"
  shows "\<exists>s'. run_state (ipo_fs_create io (Some p) type) s = (-1, s') \<and> attached view N s' \<and> volume view N s' = v"
proof -
  have m: "v_mounted v" using assms(3,5) by (simp add: volume_def)
  from evals_attached [OF fs_store.runs_create_refused [OF drive_store [OF assms(1)] assms(4) m assms(6-10)] assms(2) assms(3) [symmetric]]
  show ?thesis .
qed

theorem ipo_fs_create_refused_witness:
  "\<exists>s'. run_state (ipo_fs_create pio_io (Some (str ''/b'')) 2) demo_fs = (-1, s') \<and> volume prompt 12 s' = demo_vol"
proof -
  have c: "path_components (str ''/b'') = [str ''b'']" by (simp add: path_components_def normalise_from_def c_str_def)
  have b: "count_list (c_str (str ''/b'')) slash < 128" "length (c_str (str ''/b'')) + 2 < 512" by (simp_all add: c_str_def)
  have p: "parent_of demo_vol (str ''/b'') = Some (1, str ''b'')" unfolding parent_of_def c by simp
  have "lookup demo_vol 1 (str ''b'') = Some 3"
    by (simp add: lookup_def demo_inode_1 demo_directory) (simp add: demo_root_def)
  then have r: "refused demo_vol (str ''/b'')" unfolding refused_def p by simp
  show ?thesis
    using ipo_fs_create_refused [OF pio.ata_drive_axioms demo_attached refl demo_volume_ok demo_bounds(1) b demo_bounds(2) _ r] demo_next_inode demo_bounds(3) by auto
qed

end
