(* ===== verification/FsList.thy ===== *)
theory FsList imports FsCreateProps begin

text \<open>
  The listing of a directory: one line for every slot in use, the name with a slash after that of
  a directory, as many whole lines as the buffer holds, and a final NUL.
\<close>

section \<open>The text of a directory\<close>

definition live :: "vol \<Rightarrow> ipo_inode \<Rightarrow> nat \<Rightarrow> nat \<Rightarrow> dir_entry list" where
  "live v n k m = filter (\<lambda>e. d_inode e \<noteq> 0) (map (slot v n) [k..<k + m])"

definition entry_line :: "dir_entry \<Rightarrow> bytes" where
  "entry_line e = entry_name e @ (if ucast (d_type e) = IPO_INODE_TYPE_DIR then str ''/'' else []) @ [10]"

text \<open>The lines from position \<open>pos\<close> on that leave room for a slash, a line feed and a NUL.\<close>

primrec fitting_lines :: "int \<Rightarrow> dir_entry list \<Rightarrow> int \<Rightarrow> bytes" where
  "fitting_lines out_size [] pos = []"
| "fitting_lines out_size (e # es) pos =
     (if out_size \<le> pos + int (length (entry_name e)) + 3 then []
      else entry_line e @ fitting_lines out_size es (pos + int (length (entry_line e))))"

text \<open>The lines of the first \<open>n\<close> entries.\<close>

definition first_lines :: "nat \<Rightarrow> dir_entry list \<Rightarrow> bytes" where
  "first_lines n es = concat (map entry_line (take n es))"

lemma first_lines_Cons: "first_lines (Suc n) (e # es) = entry_line e @ first_lines n es"
  by (simp add: first_lines_def)

text \<open>The lines are written as long as a name and four bytes fit.\<close>

lemma fitting_lines_first:
  "\<exists>n \<le> length es. fitting_lines out_size es pos = first_lines n es \<and>
     (\<forall>m < n. pos + int (length (first_lines m es)) + int (length (entry_name (es ! m))) + 4 \<le> out_size) \<and>
     (n < length es \<longrightarrow> out_size < pos + int (length (first_lines n es)) + int (length (entry_name (es ! n))) + 4)"
proof (induction es arbitrary: pos)
  case (Cons e es)
  show ?case
  proof (cases "out_size \<le> pos + int (length (entry_name e)) + 3")
    case True
    then show ?thesis by (intro exI [of _ 0]) (simp add: first_lines_def)
  next
    case False
    let ?pos = "pos + int (length (entry_line e))"
    from Cons.IH [of ?pos] obtain n where n: "n \<le> length es" "fitting_lines out_size es ?pos = first_lines n es"
      "\<forall>m < n. ?pos + int (length (first_lines m es)) + int (length (entry_name (es ! m))) + 4 \<le> out_size"
      "n < length es \<longrightarrow> out_size < ?pos + int (length (first_lines n es)) + int (length (entry_name (es ! n))) + 4" by blast
    have "pos + int (length (first_lines m (e # es))) + int (length (entry_name ((e # es) ! m))) + 4 \<le> out_size" if "m < Suc n" for m
    proof (cases m)
      case 0
      then show ?thesis using False by (simp add: first_lines_def)
    next
      case (Suc l)
      then show ?thesis using n(3) that by (simp add: first_lines_Cons add.assoc)
    qed
    then show ?thesis using n(1,2,4) False by (intro exI [of _ "Suc n"]) (simp add: first_lines_Cons add.assoc)
  qed
qed (simp add: first_lines_def)

lemma first_lines_step:
  assumes "n < length es"
  shows "length (first_lines n es) + length (entry_name (es ! n)) + 1 \<le> length (first_lines (length es) es)"
proof -
  have "es = take n es @ es ! n # drop (Suc n) es" by (rule id_take_nth_drop [OF assms])
  then have "first_lines (length es) es = first_lines n es @ entry_line (es ! n) @ concat (map entry_line (drop (Suc n) es))"
    unfolding first_lines_def by (metis append.assoc concat.simps(2) concat_append list.map(2) map_append take_all_iff order_refl)
  then show ?thesis by (simp add: entry_line_def)
qed

definition live_entries :: "vol \<Rightarrow> ipo_inode \<Rightarrow> dir_entry list" where
  "live_entries v n = live v n 0 (unat (entry_count n))"

lemma live_0 [simp]: "live v n k 0 = []"
  by (simp add: live_def)

lemma live_Suc: "live v n k (Suc m) = (if d_inode (slot v n k) = 0 then [] else [slot v n k]) @ live v n (Suc k) m"
proof -
  have "[k..<k + Suc m] = k # [Suc k..<Suc k + m]" by (simp add: upt_conv_Cons)
  then show ?thesis unfolding live_def by (simp only: list.map filter.simps) simp
qed

lemma live_directory:
  assumes "good N v" and "file_ok v n" and "fits n"
  shows "map (\<lambda>e. (entry_name e, d_inode e)) (live_entries v n) = directory v n"
proof -
  have "map (\<lambda>e. (entry_name e, d_inode e)) (filter (\<lambda>e. d_inode e \<noteq> 0) (map f [0..<m])) = listing f m" for f m
    by (induction m) (simp_all add: listing_Suc, simp add: listing_def)
  then show ?thesis by (simp add: live_entries_def live_def directory_listing [OF assms])
qed

lemma length_entry_line: "length (entry_line e) \<le> length (entry_name e) + 2"
  by (simp add: entry_line_def)

lemma fitting_lines_bound: "pos < out_size \<Longrightarrow> pos + int (length (fitting_lines out_size es pos)) < out_size"
proof (induction es arbitrary: pos)
  case (Cons e es)
  show ?case
  proof (cases "out_size \<le> pos + int (length (entry_name e)) + 3")
    case False
    then have "pos + int (length (entry_line e)) < out_size" using length_entry_line [of e] by linarith
    from Cons.IH [OF this] show ?thesis using False by simp
  qed (use Cons.prems in simp)
qed simp

lemma put_bytes_Nil [simp]: "put_bytes pos [] out = out"
  by (auto simp: put_bytes_def fun_eq_iff)

lemma put_bytes_append: "put_bytes (pos + int (length a)) b (put_bytes pos a out) = put_bytes pos (a @ b) out"
proof
  fix i
  have "nat (i - pos) - length a = nat (i - (pos + int (length a)))" by linarith
  then show "put_bytes (pos + int (length a)) b (put_bytes pos a out) i = put_bytes pos (a @ b) out i"
    by (auto simp: put_bytes_def nth_append)
qed

lemma put_bytes_end: "(put_bytes pos a out)(pos + int (length a) := x) = put_bytes pos (a @ [x]) out"
proof -
  have "f(p := x) = put_bytes p [x] f" for f :: "int \<Rightarrow> u8" and p by (auto simp: put_bytes_def fun_eq_iff)
  then show ?thesis by (simp add: put_bytes_append)
qed

section \<open>The loop\<close>

text \<open>What the loop reads of a slot in use.\<close>

lemma entry_text:
  assumes "good N v" and "file_ok v n" and "slot_block v n k \<noteq> 0" and "wf_entry (slot v n k)" and "d_inode (slot v n k) \<noteq> 0"
    and "k < 2 ^ 32"
  defines "b \<equiv> blk v (slot_block v n k)" and "l \<equiv> d_name_len (slot v n k)"
  shows "take (unat l) (name_at b (of_nat k mod 7)) = entry_name (slot v n k)"
    and "unat l = length (entry_name (slot v n k))" and "l \<noteq> 0"
proof -
  have e: "entry_in b (of_nat k mod 7) = slot v n k"
    using slot_mapped [OF assms(1-3)] by (simp add: b_def slot_entry_def slot_index(3) [OF assms(6)])
  show l: "unat l = length (entry_name (slot v n k))" "l \<noteq> 0" using assms(4,5) by (auto simp: wf_entry_def l_def)
  have "c_str (name_at b (of_nat k mod 7)) = entry_name (slot v n k)"
    using name_at_entry [of b "of_nat k mod 7"] assms(4,5) e by simp
  then show "take (unat l) (name_at b (of_nat k mod 7)) = entry_name (slot v n k)"
    unfolding l(1) c_str_def by (metis takeWhile_eq_take)
qed

context fs_store begin

lemma runs_list_from:
  assumes G: "good N v" and ok: "file_ok v n" and wf: "\<And>i. k \<le> i \<Longrightarrow> i < k + m \<Longrightarrow> wf_entry (slot v n i)"
    and small: "k + m \<le> 7 * MAX_FILE_BLOCKS" and buf: "length buf = 512"
  shows "runs v (list_from io out_size m (of_nat k) n buf pos out)
    (end_listing out_size (pos + int (length (fitting_lines out_size (live v n k m) pos)))
      (put_bytes pos (fitting_lines out_size (live v n k m) pos) out)) v"
  using wf small buf
proof (induction m arbitrary: k buf pos out)
  case 0
  then show ?case by (simp add: evals_return)
next
  case (Suc m)
  have k: "k < 2 ^ 32" "k div 7 < MAX_FILE_BLOCKS" using Suc.prems(2) by (simp_all add: less_mult_imp_div_less mult.commute)
  let ?p = "slot_block v n k" and ?e = "slot v n k"
  note get = runs_slot_block [OF G ok k]
  have IH: "runs v (list_from io out_size m (of_nat k + 1) n b pos' out')
    (end_listing out_size (pos' + int (length (fitting_lines out_size (live v n (Suc k) m) pos')))
      (put_bytes pos' (fitting_lines out_size (live v n (Suc k) m) pos') out')) v" if "length b = 512" for b pos' out'
    using Suc.IH [of "Suc k" b pos' out'] Suc.prems that by (simp add: add.commute)
  show ?case
  proof (cases "?p = 0")
    case True
    then have "d_inode ?e = 0" using slot_unmapped k(2) by (simp add: slot_block_def)
    then show ?thesis
      unfolding list_from.simps Let_def
      by (intro evals_bind [OF get]) (use True IH [OF Suc.prems(3)] in \<open>simp add: live_Suc\<close>)
  next
    case False
    note al = allocated_length [OF G slot_block_allocated [OF ok False]]
    note rd = store_read [OF al(1) Suc.prems(3)]
    note e = slot_entry_in [OF G ok False k(1)]
    note w = Suc.prems(1) [of k, simplified]
    show ?thesis
    proof (cases "d_inode ?e = 0")
      case True
      then show ?thesis
        unfolding list_from.simps Let_def
        by (intro evals_bind [OF get]) (use False IH [OF al(2)] e in \<open>auto simp: live_Suc intro!: evals_bind [OF rd]\<close>)
    next
      case used: False
      note t = entry_text [OF G ok False w used k(1)]
      have line: "take (unat (d_name_len ?e)) (name_at (blk v ?p) (of_nat k mod 7)) @
        (if ucast (d_type ?e) = IPO_INODE_TYPE_DIR then str ''/'' else []) @ [10] = entry_line ?e"
        unfolding t(1) entry_line_def ..
      let ?pos = "pos + int (length (entry_line ?e))"
      have step: "runs v (list_from io out_size m (of_nat k + 1) n (blk v ?p) ?pos (put_bytes pos (entry_line ?e) out))
        (end_listing out_size (pos + int (length (entry_line ?e @ fitting_lines out_size (live v n (Suc k) m) ?pos)))
          (put_bytes pos (entry_line ?e @ fitting_lines out_size (live v n (Suc k) m) ?pos) out)) v"
        using IH [OF al(2), of ?pos "put_bytes pos (entry_line ?e) out"] by (simp add: put_bytes_append add.assoc)
      show ?thesis
        unfolding list_from.simps Let_def
        by (intro evals_bind [OF get])
           (use False step e used t(2,3) line in
             \<open>auto simp: live_Suc add.assoc simp del: str_Cons intro!: evals_bind [OF rd] evals_return\<close>)
    qed
  qed
qed

text \<open>The text \<open>ipo_fs_list_dir\<close> leaves in a buffer of \<open>out_size\<close> bytes.\<close>

lemma runs_ipo_fs_list_dir:
  assumes V: "volume_ok N v I" and p: "count_list (c_str p) slash < 128" "length (c_str p) + 2 < 512"
    and w: "walk v 1 (path_components p) = Some d" and dir: "is_dir v d" and size: "0 < out_size"
  defines "text_of \<equiv> fitting_lines out_size (live_entries v (inode_at v d)) 0"
  shows "runs v (ipo_fs_list_dir io (Some p) out out_size) (int (length text_of), put_bytes 0 (text_of @ [0]) out) v"
proof -
  note D = volume_okD [OF V]
  have d: "d \<in> I" by (rule walk_in_tree [OF D(2,5) w])
  have small: "0 + unat (entry_count (inode_at v d)) \<le> 7 * MAX_FILE_BLOCKS" using D(10) [OF d dir] by (simp add: fits_def)
  have wf: "wf_entry (slot v (inode_at v d) i)" if "i < 0 + unat (entry_count (inode_at v d))" for i
    using that D(8) [OF d dir] wf_directory_slots [OF D(4) D(7) [OF d] D(10) [OF d dir]] by simp
  have len: "0 + int (length text_of) < out_size" unfolding text_of_def by (rule fitting_lines_bound [OF size])
  have "runs v (list_from io out_size (unat (entry_count (inode_at v d))) (of_nat 0) (inode_at v d) b 0 out)
    (end_listing out_size (0 + int (length text_of)) (put_bytes 0 text_of out)) v" if "length b = 512" for b
    unfolding text_of_def live_entries_def by (rule runs_list_from [OF D(4) D(7) [OF d] wf small that])
  moreover have "end_listing out_size (0 + int (length text_of)) (put_bytes 0 text_of out) =
      (int (length text_of), put_bytes 0 (text_of @ [0]) out)"
    using len put_bytes_end [of 0 text_of out 0] by (simp add: end_listing_def)
  ultimately have loop: "runs v (list_from io out_size (unat (entry_count (inode_at v d))) 0 (inode_at v d) b 0 out)
    (int (length text_of), put_bytes 0 (text_of @ [0]) out) v" if "length b = 512" for b using that by simp
  show ?thesis
    unfolding ipo_fs_list_dir_def
    by (rule evals_bind [OF runs_path_resolve [OF D(2) p]])
       (use w dir in \<open>auto simp: is_dir_def intro!: evals_bind [OF runs_read_inode [OF D(6) [OF d] goodD(1) [OF D(4)]]] runs_uninit loop\<close>)
qed

end

section \<open>Property\<close>

text \<open>
  C33. The listing of a directory: into a buffer of at least one byte, \<open>ipo_fs_list_dir\<close> writes the
  lines of the first \<open>n\<close> entries of the directory in their order, each the name, a slash if it is a directory,
  and a line feed, then a NUL, and returns the length of this text, which is less than the size of the
  buffer. It goes on to a further entry exactly as long as its name and four bytes fit: the slash, the line
  feed, the NUL, and one byte that is never used; so a line that would just fit is left out, but
  a buffer with three bytes more than the text of all lines gets them all. No byte outside the buffer and
  nothing on the volume changes.
\<close>

theorem ipo_fs_list_dir_correct:
  assumes "ata_drive io view" and "attached view N s" and "v = volume view N s" and "volume_ok N v I"
    and "count_list (c_str p) slash < 128" and "length (c_str p) + 2 < 512"
    and "walk v 1 (path_components p) = Some d" and "is_dir v d" and "0 < out_size"
    and "es = live_entries v (inode_at v d)"
  shows "\<exists>n s'. n \<le> length es \<and>
    run_state (ipo_fs_list_dir io (Some p) out out_size) s =
      ((int (length (first_lines n es)), put_bytes 0 (first_lines n es @ [0]) out), s') \<and>
    int (length (first_lines n es)) < out_size \<and>
    (\<forall>m < n. int (length (first_lines m es)) + int (length (entry_name (es ! m))) + 4 \<le> out_size) \<and>
    (n < length es \<longrightarrow> out_size < int (length (first_lines n es)) + int (length (entry_name (es ! n))) + 4) \<and>
    (int (length (first_lines (length es) es)) + 3 \<le> out_size \<longrightarrow> n = length es) \<and>
    attached view N s' \<and> volume view N s' = v \<and>
    map (\<lambda>e. (entry_name e, d_inode e)) es = directory v (inode_at v d)"
proof -
  note D = volume_okD [OF assms(4)]
  have d: "d \<in> I" by (rule walk_in_tree [OF D(2,5) assms(7)])
  have dir: "map (\<lambda>e. (entry_name e, d_inode e)) es = directory v (inode_at v d)"
    unfolding assms(10) by (rule live_directory [OF D(4) D(7) [OF d] D(10) [OF d assms(8)]])
  have len: "0 + int (length (fitting_lines out_size es 0)) < out_size" by (rule fitting_lines_bound [OF assms(9)])
  obtain n where n: "n \<le> length es" "fitting_lines out_size es 0 = first_lines n es"
    "\<forall>m < n. 0 + int (length (first_lines m es)) + int (length (entry_name (es ! m))) + 4 \<le> out_size"
    "n < length es \<longrightarrow> out_size < 0 + int (length (first_lines n es)) + int (length (entry_name (es ! n))) + 4"
    using fitting_lines_first [where out_size = out_size and es = es and pos = 0] by blast
  have all: "n = length es" if "int (length (first_lines (length es) es)) + 3 \<le> out_size"
  proof (rule ccontr)
    assume "n \<noteq> length es"
    then have "n < length es" using n(1) by simp
    with n(4) first_lines_step [OF this] that show False by linarith
  qed
  from evals_attached [OF fs_store.runs_ipo_fs_list_dir [OF drive_store [OF assms(1)] assms(4-9)] assms(2) assms(3) [symmetric]]
  obtain s' where "run_state (ipo_fs_list_dir io (Some p) out out_size) s =
      ((int (length (first_lines n es)), put_bytes 0 (first_lines n es @ [0]) out), s')" "attached view N s'" "volume view N s' = v"
    unfolding assms(10) [symmetric] n(2) by blast
  then show ?thesis using n len all dir by (intro exI [of _ n] exI [of _ s']) simp
qed

theorem ipo_fs_list_dir_correct_witness:
  "\<exists>s' out'. run_state (ipo_fs_list_dir pio_io (Some (str ''/'')) (\<lambda>_. 0) 8) demo_fs = ((4, out'), s') \<and>
    map out' [0, 1, 2, 3, 4] = str ''a'' @ 10 # str ''b'' @ [10, 0]"
proof -
  have c: "path_components (str ''/'') = []" by (simp add: path_components_def normalise_from_def c_str_def)
  have b: "count_list (c_str (str ''/'')) slash < 128" "length (c_str (str ''/'')) + 2 < 512" "walk demo_vol 1 [] = Some 1"
    by (simp_all add: c_str_def)
  have d: "is_dir demo_vol 1" by (simp add: is_dir_def demo_inode_1) (simp add: demo_root_def)
  have "slot demo_vol demo_root 0 = demo_entry" "slot demo_vol demo_root (Suc 0) = demo_entry_b"
    using slot_mapped [OF demo_good demo_file_ok(1), of 0] slot_mapped [OF demo_good demo_file_ok(1), of "Suc 0"]
    by (simp_all add: demo_slot_block demo_slots)
  moreover have "d_inode demo_entry \<noteq> 0" "d_inode demo_entry_b \<noteq> 0" by (simp_all add: demo_entry_def demo_entry_b_def)
  ultimately have l: "live_entries demo_vol (inode_at demo_vol 1) = [demo_entry, demo_entry_b]"
    by (simp add: live_entries_def demo_inode_1 demo_entries numeral_2_eq_2 live_Suc)
  have "entry_line demo_entry = [97, 10]" "entry_line demo_entry_b = [98, 10]"
    by (simp_all add: entry_line_def demo_entries) (simp_all add: demo_entry_def demo_entry_b_def)
  then have all: "first_lines (length [demo_entry, demo_entry_b]) [demo_entry, demo_entry_b] = [97, 10, 98, 10]"
    by (simp add: first_lines_def)
  obtain n s' where n: "n = length [demo_entry, demo_entry_b]" and
    "run_state (ipo_fs_list_dir pio_io (Some (str ''/'')) (\<lambda>_. 0) 8) demo_fs =
      ((int (length (first_lines n [demo_entry, demo_entry_b])), put_bytes 0 (first_lines n [demo_entry, demo_entry_b] @ [0]) (\<lambda>_. 0)), s')"
    using ipo_fs_list_dir_correct [OF pio.ata_drive_axioms demo_attached refl demo_volume_ok b(1,2) _ d _ l [symmetric], of 8 "\<lambda>_. 0"] c b(3) all
    by fastforce
  then show ?thesis unfolding n all by (auto simp: put_bytes_def)
qed

end
