(* ===== verification/FsDelete.thy ===== *)
theory FsDelete imports FsCreateProps begin

text \<open>
  The two halves of a deletion: an inode is given back with the blocks it points to directly and
  through the single indirect block, and a slot of a directory is cleared.
\<close>

section \<open>Giving back blocks\<close>

definition unmark :: "u32 \<Rightarrow> vol \<Rightarrow> vol" where
  "unmark p v = set_bit_at (block_bitmap_start (v_sb v)) (p - data_blocks_start (v_sb v)) False v"

text \<open>
  The blocks \<open>ps\<close> were given back: they are the only ones whose mark changed, every data block
  has its contents still, and so has every block outside the block bitmap.
\<close>

definition unmarked :: "nat \<Rightarrow> u32 set \<Rightarrow> vol \<Rightarrow> vol \<Rightarrow> bool" where
  "unmarked N ps v v' \<longleftrightarrow> same_globals v v' \<and> good N v' \<and> (\<forall>p. allocated v' p \<longleftrightarrow> allocated v p \<and> p \<notin> ps) \<and>
     (\<forall>p. \<not> bitmap_area (v_sb v) p \<longrightarrow> blk v' p = blk v p)"

lemma unmarked_refl: "good N v \<Longrightarrow> unmarked N {} v v"
  by (simp add: unmarked_def same_globals_def)

lemma unmarked_trans: "unmarked N ps u v \<Longrightarrow> unmarked N qs v w \<Longrightarrow> unmarked N (ps \<union> qs) u w"
  unfolding unmarked_def same_globals_def by auto

lemma unmarked_unmark:
  assumes "good N v" and "data_block (v_sb v) p"
  shows "unmarked N {p} v (unmark p v)"
proof -
  let ?st = "block_bitmap_start (v_sb v)" and ?d = "data_blocks_start (v_sb v)"
  note L = goodD(1) [OF assms(1)]
  have len: "length (blk v (bit_block ?st (p - ?d))) = 512"
    using block_bit_block(2) [OF L data_block_index(1) [OF L assms(2)]] L goodD(2) [OF assms(1)] by (simp add: layout_def sized_def)
  have "allocated (unmark p v) q \<longleftrightarrow> allocated v q \<and> q \<noteq> p" for q
    using len by (auto simp: allocated_def unmark_def)
  moreover have "blk (unmark p v) q = blk v q" if "\<not> bitmap_area (v_sb v) q" for q
  proof -
    have "q \<noteq> bit_block ?st (p - ?d)" using bitmap_area_bit [OF L assms(2)] that by auto
    then show ?thesis by (simp add: unmark_def)
  qed
  ultimately show ?thesis using good_set_bit [OF assms(1)] by (simp add: unmarked_def same_globals_def unmark_def)
qed

lemma unmarked_data:
  assumes "unmarked N ps v v'" and "good N v"
  shows "v_sb v' = v_sb v" and "data_block (v_sb v) p \<Longrightarrow> blk v' p = blk v p"
  using assms data_not_bitmap [OF goodD(1) [OF assms(2)], of p] by (auto simp: unmarked_def same_globals_def)

text \<open>The blocks \<open>free_inode\<close> gives back: those of the double indirect tree are not among them.\<close>

definition freed_node :: "ipo_inode \<Rightarrow> node \<Rightarrow> bool" where
  "freed_node n x = (case x of Dir j \<Rightarrow> j < 6 \<and> j < unat ((i_size n + 511) div 512) | Ind \<Rightarrow> True | Ent j \<Rightarrow> j < 128 | _ \<Rightarrow> False)"

definition freed_blocks :: "vol \<Rightarrow> ipo_inode \<Rightarrow> u32 set" where
  "freed_blocks v n = {ptr v n x | x. freed_node n x \<and> ptr v n x \<noteq> 0}"

lemma freed_in_range: "freed_node n x \<Longrightarrow> in_range x"
  by (cases x) (simp_all add: freed_node_def)

lemma freed_blocks_cases:
  "freed_blocks v n = {direct n ! j | j. 0 \<le> j \<and> j < 6 \<and> j < unat ((i_size n + 511) div 512) \<and> direct n ! j \<noteq> 0} \<union>
     (if indirect n = 0 then {} else {rd32 (blk v (indirect n)) (4 * j) | j. 0 \<le> j \<and> j < 0 + 128 \<and> rd32 (blk v (indirect n)) (4 * j) \<noteq> 0} \<union>
       {indirect n})"
proof (rule set_eqI, rule iffI)
  fix p
  assume "p \<in> freed_blocks v n"
  then obtain x where "freed_node n x" "ptr v n x \<noteq> 0" "p = ptr v n x" by (auto simp: freed_blocks_def)
  then show "p \<in> {direct n ! j | j. 0 \<le> j \<and> j < 6 \<and> j < unat ((i_size n + 511) div 512) \<and> direct n ! j \<noteq> 0} \<union>
     (if indirect n = 0 then {} else {rd32 (blk v (indirect n)) (4 * j) | j. 0 \<le> j \<and> j < 0 + 128 \<and> rd32 (blk v (indirect n)) (4 * j) \<noteq> 0} \<union>
       {indirect n})"
    by (cases x) (auto simp: freed_node_def split: if_splits)
next
  fix p
  assume a: "p \<in> {direct n ! j | j. 0 \<le> j \<and> j < 6 \<and> j < unat ((i_size n + 511) div 512) \<and> direct n ! j \<noteq> 0} \<union>
     (if indirect n = 0 then {} else {rd32 (blk v (indirect n)) (4 * j) | j. 0 \<le> j \<and> j < 0 + 128 \<and> rd32 (blk v (indirect n)) (4 * j) \<noteq> 0} \<union>
       {indirect n})"
  then consider j where "p = ptr v n (Dir j)" "freed_node n (Dir j)" "p \<noteq> 0" | j where "p = ptr v n (Ent j)" "freed_node n (Ent j)" "p \<noteq> 0"
    | "p = ptr v n Ind" "freed_node n Ind" "p \<noteq> 0"
    by (auto simp: freed_node_def split: if_splits)
  then show "p \<in> freed_blocks v n" unfolding freed_blocks_def by cases blast+
qed

text \<open>The part of \<open>free_inode\<close> for the single indirect block.\<close>

definition free_indirect :: "'d machine \<Rightarrow> superblock \<Rightarrow> ipo_inode \<Rightarrow> ('d fs, ipo_inode) state" where
  "free_indirect io b n1 = (if indirect n1 \<noteq> 0 then do {
                       ibuf0 \<leftarrow> uninit_block io;
                       (_, ibuf) \<leftarrow> block_read io (indirect n1) ibuf0;
                       _ \<leftarrow> free_pointers io ibuf 128 0;
                       _ \<leftarrow> bitmap_set io (block_bitmap_start b) (indirect n1 - data_blocks_start b) False;
                       State_Monad.return (n1\<lparr>indirect := 0\<rparr>)
                     }
                     else State_Monad.return n1)"

text \<open>The state after \<open>free_inode\<close>: an inode goes back into the table and its mark is cleared.\<close>

definition inode_released :: "nat \<Rightarrow> vol \<Rightarrow> u32 \<Rightarrow> vol \<Rightarrow> bool" where
  "inode_released N v i v' \<longleftrightarrow> (\<exists>u n. unmarked N (freed_blocks v (inode_at v i)) v u \<and> wf_inode n \<and>
     v' = put_inode i n (set_bit_at (inode_bitmap_start (v_sb v)) (i - 1) False u))"

context fs_store begin

lemma runs_unmark:
  assumes "good N v" and "data_block (v_sb v) p"
  shows "runs v (bitmap_set io (block_bitmap_start (v_sb v)) (p - data_blocks_start (v_sb v)) False) True (unmark p v)"
proof -
  note L = goodD(1) [OF assms(1)]
  have "unat (bit_block (block_bitmap_start (v_sb v)) (p - data_blocks_start (v_sb v))) < N"
    using block_bit_block(2) [OF L data_block_index(1) [OF L assms(2)]] L by (simp add: layout_def)
  then show ?thesis unfolding unmark_def by (rule runs_bitmap_set)
qed

lemma runs_free_direct:
  assumes "good N v" and "wf_inode n" and "j + k = 6"
    and "\<And>i. j \<le> i \<Longrightarrow> i < 6 \<Longrightarrow> direct n ! i \<noteq> 0 \<Longrightarrow> data_block (v_sb v) (direct n ! i)"
  shows "\<exists>n' v'. runs v (free_direct io nb k (of_nat j) n) n' v' \<and> wf_inode n' \<and> indirect n' = indirect n \<and>
    unmarked N {direct n ! i | i. j \<le> i \<and> i < 6 \<and> i < unat nb \<and> direct n ! i \<noteq> 0} v v'"
  using assms
proof (induction k arbitrary: j n v)
  case 0
  then have e: "{direct n ! i | i. j \<le> i \<and> i < 6 \<and> i < unat nb \<and> direct n ! i \<noteq> 0} = {}" by auto
  show ?case
    unfolding e by (intro exI [of _ n] exI [of _ v]) (use 0 unmarked_refl [of N v] in \<open>simp add: evals_return\<close>)
next
  case (Suc k)
  have j: "j < 6" using Suc.prems(3) by simp
  then have u: "unat (of_nat j :: u32) = j" by (intro unat_of_nat32) simp
  let ?P = "\<lambda>j n. {direct n ! i | i. j \<le> i \<and> i < 6 \<and> i < unat nb \<and> direct n ! i \<noteq> (0 :: u32)}"
  show ?case
  proof (cases "j < unat nb")
    case False
    then have e: "?P j n = {}" by auto
    have "runs v (free_direct io nb (Suc k) (of_nat j) n) n v"
      using False u by (simp add: word_less_nat_alt evals_return)
    then show ?thesis unfolding e using Suc.prems(1,2) unmarked_refl [of N v] by blast
  next
    case True
    define p where "p = direct n ! j"
    define n1 where "n1 = n\<lparr>direct := (direct n)[j := 0]\<rparr>"
    define v1 where "v1 = (if p = 0 then v else unmark p v)"
    have len: "length (direct n) = 6" using Suc.prems(2) by (simp add: wf_inode_def)
    have n1: "wf_inode n1" "indirect n1 = indirect n" "\<And>i. i \<noteq> j \<Longrightarrow> direct n1 ! i = direct n ! i"
      using Suc.prems(2) by (simp_all add: n1_def wf_inode_def)
    have same: "p = 0 \<Longrightarrow> n1 = n" by (simp add: n1_def p_def list_update_same_conv len j)
    have d: "p \<noteq> 0 \<Longrightarrow> data_block (v_sb v) p" using Suc.prems(4) [of j] j by (simp add: p_def)
    have un: "unmarked N (if p = 0 then {} else {p}) v v1"
      using unmarked_unmark [OF Suc.prems(1) d] unmarked_refl [OF Suc.prems(1)] by (simp add: v1_def)
    have sb: "v_sb v1 = v_sb v" using un by (simp add: unmarked_def same_globals_def)
    have "good N v1" using un by (simp add: unmarked_def)
    from Suc.IH [OF this n1(1), of "Suc j"] obtain n' v' where
      r: "runs v1 (free_direct io nb k (of_nat (Suc j)) n1) n' v'" "wf_inode n'" "indirect n' = indirect n1" "unmarked N (?P (Suc j) n1) v1 v'"
      using Suc.prems(3,4) n1(3) sb by auto
    have e: "?P j n = (if p = 0 then {} else {p}) \<union> ?P (Suc j) n1"
    proof -
      have "?P (Suc j) n1 = ?P (Suc j) n" using n1(3) by (metis (no_types, lifting) Suc_n_not_le_n)
      moreover have "?P j n = (if p = 0 then {} else {p}) \<union> ?P (Suc j) n"
        using True j by (auto simp: p_def Suc_le_eq) (metis le_neq_implies_less)+
      ultimately show ?thesis by simp
    qed
    have run: "runs v (free_direct io nb (Suc k) (of_nat j) n) n' v'"
    proof -
      have lt: "(of_nat j :: u32) < nb" using True u by (simp add: word_less_nat_alt)
      have step: "runs v (if p \<noteq> 0 then do {
                  _ \<leftarrow> bitmap_set io (block_bitmap_start (v_sb v)) (p - data_blocks_start (v_sb v)) False;
                  State_Monad.return (n\<lparr>direct := (direct n)[j := 0]\<rparr>)
                }
                else State_Monad.return n) n1 v1"
        using same d by (auto simp: v1_def n1_def [symmetric] intro!: evals_bind [OF runs_unmark [OF Suc.prems(1)]] evals_return evals_cong [OF evals_return])
      show ?thesis
        unfolding free_direct.simps if_P [OF lt] Let_def u p_def [symmetric]
        by (intro evals_bind [OF runs_sb] evals_bind [OF step]) (use r(1) in \<open>simp add: add.commute\<close>)
    qed
    have "indirect n' = indirect n" using r(3) n1(2) by simp
    then show ?thesis unfolding e using run r(2) unmarked_trans [OF un r(4)] by blast
  qed
qed

lemma runs_free_pointers:
  assumes "good N v" and "\<And>i. j \<le> i \<Longrightarrow> i < j + k \<Longrightarrow> rd32 ibuf (4 * i) \<noteq> 0 \<Longrightarrow> data_block (v_sb v) (rd32 ibuf (4 * i))"
  shows "\<exists>v'. runs v (free_pointers io ibuf k j) () v' \<and>
    unmarked N {rd32 ibuf (4 * i) | i. j \<le> i \<and> i < j + k \<and> rd32 ibuf (4 * i) \<noteq> 0} v v'"
  using assms
proof (induction k arbitrary: j v)
  case 0
  have e: "{rd32 ibuf (4 * i) | i. j \<le> i \<and> i < j + 0 \<and> rd32 ibuf (4 * i) \<noteq> 0} = {}" by auto
  show ?case
    unfolding e by (intro exI [of _ v]) (use 0 unmarked_refl [of N v] in \<open>simp add: evals_return\<close>)
next
  case (Suc k)
  let ?P = "\<lambda>j k. {rd32 ibuf (4 * i) | i. j \<le> i \<and> i < j + k \<and> rd32 ibuf (4 * i) \<noteq> (0 :: u32)}"
  define p where "p = rd32 ibuf (4 * j)"
  define v1 where "v1 = (if p = 0 then v else unmark p v)"
  have d: "p \<noteq> 0 \<Longrightarrow> data_block (v_sb v) p" using Suc.prems(2) [of j] by (simp add: p_def)
  have un: "unmarked N (if p = 0 then {} else {p}) v v1"
    using unmarked_unmark [OF Suc.prems(1) d] unmarked_refl [OF Suc.prems(1)] by (simp add: v1_def)
  have sb: "v_sb v1 = v_sb v" using un by (simp add: unmarked_def same_globals_def)
  have "good N v1" using un by (simp add: unmarked_def)
  from Suc.IH [OF this, of "Suc j"] obtain v' where
    r: "runs v1 (free_pointers io ibuf k (Suc j)) () v'" "unmarked N (?P (Suc j) k) v1 v'"
    using Suc.prems(2) sb by auto
  have P: "?P j (Suc k) = (if p = 0 then {} else {p}) \<union> ?P (Suc j) k"
    by (auto simp: p_def Suc_le_eq) (metis le_neq_implies_less)+
  have step: "runs v (if p \<noteq> 0 then bitmap_set io (block_bitmap_start (v_sb v)) (p - data_blocks_start (v_sb v)) False
      else State_Monad.return True) True v1"
    using d by (auto simp: v1_def intro: runs_unmark [OF Suc.prems(1)] evals_return)
  have "runs v (free_pointers io ibuf (Suc k) j) () v'"
    unfolding free_pointers.simps Let_def p_def [symmetric]
    by (intro evals_bind [OF runs_sb] evals_bind [OF step]) (rule r(1))
  then show ?case unfolding P using unmarked_trans [OF un r(2)] by blast
qed

lemma runs_free_indirect:
  assumes G: "good N v" and n: "wf_inode n" and b: "b = v_sb v"
    and q: "indirect n \<noteq> 0 \<Longrightarrow> data_block b (indirect n)"
    and D: "\<And>j. indirect n \<noteq> 0 \<Longrightarrow> j < 128 \<Longrightarrow> rd32 (blk v (indirect n)) (4 * j) \<noteq> 0 \<Longrightarrow>
      data_block b (rd32 (blk v (indirect n)) (4 * j))"
  shows "\<exists>n' v'. runs v (free_indirect io b n) n' v' \<and> wf_inode n' \<and>
    unmarked N (if indirect n = 0 then {} else {rd32 (blk v (indirect n)) (4 * j) | j. 0 \<le> j \<and> j < 0 + 128 \<and> rd32 (blk v (indirect n)) (4 * j) \<noteq> 0} \<union>
       {indirect n}) v v'"
proof (cases "indirect n = 0")
  case True
  then have "runs v (free_indirect io b n) n v" by (simp add: free_indirect_def evals_return)
  then show ?thesis using True n unmarked_refl [OF G] by auto
next
  case False
  let ?q = "indirect n"
  have qd: "data_block b ?q" and qN: "unat ?q < N"
    using q [OF False] data_block_index(2) [OF goodD(1) [OF G]] b by simp_all
  have "data_block (v_sb v) (rd32 (blk v ?q) (4 * j))" if "j < 0 + 128" "rd32 (blk v ?q) (4 * j) \<noteq> 0" for j
    using D [OF False] that b by simp
  from runs_free_pointers [OF G this, of 0] obtain v2 where
    f: "runs v (free_pointers io (blk v ?q) 128 0) () v2"
      "unmarked N {rd32 (blk v ?q) (4 * j) | j. 0 \<le> j \<and> j < 0 + 128 \<and> rd32 (blk v ?q) (4 * j) \<noteq> 0} v v2" by auto
  have sb2: "v_sb v2 = b" "good N v2" using f(2) b by (simp_all add: unmarked_def same_globals_def)
  note u = runs_unmark [OF sb2(2), of ?q, unfolded sb2(1), OF qd] unmarked_unmark [OF sb2(2), of ?q, unfolded sb2(1), OF qd]
  have "runs v (free_indirect io b n) (n\<lparr>indirect := 0\<rparr>) (unmark ?q v2)"
    unfolding free_indirect_def
    using False by (auto intro!: runs_uninit evals_bind [OF store_read [OF qN]] evals_bind [OF f(1)] evals_bind [OF u(1)] evals_return)
  moreover have "wf_inode (n\<lparr>indirect := 0\<rparr>)" using n by (simp add: wf_inode_def)
  ultimately show ?thesis using unmarked_trans [OF f(2) u(2)] False by auto
qed

lemma runs_free_inode:
  assumes G: "good N v" and i: "in_table (v_sb v) i" and ok: "file_ok v (inode_at v i)"
  shows "\<exists>v'. runs v (free_inode io i) True v' \<and> inode_released N v i v'"
proof -
  let ?n = "inode_at v i"
  let ?nb = "(i_size ?n + 511) div 512"
  note L = goodD(1) [OF G]
  have D: "data_block (v_sb v) (ptr v ?n x)" if "in_range x" "ptr v ?n x \<noteq> 0" for x
    using file_ok_allocated [OF ok that] by (simp add: allocated_def)
  have wf: "wf_inode ?n" using ok by (simp add: file_ok_def)
  obtain n1 v1 where
    d: "runs v (free_direct io ?nb 6 0 ?n) n1 v1" "wf_inode n1" "indirect n1 = indirect ?n"
      "unmarked N {direct ?n ! j | j. 0 \<le> j \<and> j < 6 \<and> j < unat ?nb \<and> direct ?n ! j \<noteq> 0} v v1"
    using runs_free_direct [OF G wf, of 0 6 ?nb] D [of "Dir _"] by auto
  note U1 = unmarked_data [OF d(4) G]
  have G1: "good N v1" using d(4) by (simp add: unmarked_def)
  have b: "indirect ?n \<noteq> 0 \<Longrightarrow> blk v1 (indirect ?n) = blk v (indirect ?n)" using U1(2) D [of Ind] by simp
  have "\<exists>n2 v2. runs v1 (free_indirect io (v_sb v) n1) n2 v2 \<and> wf_inode n2 \<and> unmarked N (if indirect n1 = 0 then {}
     else {rd32 (blk v1 (indirect n1)) (4 * j) | j. 0 \<le> j \<and> j < 0 + 128 \<and> rd32 (blk v1 (indirect n1)) (4 * j) \<noteq> 0} \<union> {indirect n1}) v1 v2"
    by (rule runs_free_indirect [OF G1 d(2)]) (use U1(1) D [of Ind] D [of "Ent _"] b d(3) in auto)
  then obtain n2 v2 where s: "runs v1 (free_indirect io (v_sb v) n1) n2 v2" "wf_inode n2" "unmarked N (if indirect ?n = 0 then {}
     else {rd32 (blk v (indirect ?n)) (4 * j) | j. 0 \<le> j \<and> j < 0 + 128 \<and> rd32 (blk v (indirect ?n)) (4 * j) \<noteq> 0} \<union> {indirect ?n}) v1 v2"
    using b d(3) by (cases "indirect ?n = 0") auto
  note un = unmarked_trans [OF d(4) s(3), folded freed_blocks_cases]
  have sb2: "v_sb v2 = v_sb v" using un by (simp add: unmarked_def same_globals_def)
  let ?w = "set_bit_at (inode_bitmap_start (v_sb v)) (i - 1) False v2"
  have bs: "runs v2 (bitmap_set io (inode_bitmap_start (v_sb v)) (i - 1) False) True ?w"
    by (rule runs_bitmap_set [OF inode_bit_outside(3) [OF L i]])
  have w: "runs ?w (write_inode io i n2) True (put_inode i n2 ?w)"
    by (rule runs_write_inode [OF _ _ s(2)]) (use i L sb2 in simp_all)
  have ok': "\<not> (i = 0 \<or> inode_count (v_sb v) < i)" using i by (auto simp: in_table_def)
  have nb: "(i_size ?n + 512 - 1) div 512 = ?nb" by (simp add: add.commute)
  have "runs v (free_inode io i) True (put_inode i n2 ?w)"
    unfolding free_inode_def
    by (rule evals_bind [OF runs_sb], simp only: ok' if_False, rule evals_bind [OF runs_read_inode [OF i L]],
        simp only: option.case Let_def nb, rule evals_bind [OF d(1)], rule evals_bind [OF s(1) [unfolded free_indirect_def]],
        rule evals_bind [OF bs], rule evals_bind [OF w], rule evals_return)
  then show ?thesis using un s(2) unfolding inode_released_def by blast
qed

end

text \<open>The other files do not notice.\<close>

lemma inode_released:
  assumes F: "files_ok N v I" and i: "i \<in> I" and R: "inode_released N v i v'"
  shows "same_globals v v'" and "allocated v' p \<longleftrightarrow> allocated v p \<and> p \<notin> freed_blocks v (inode_at v i)"
    and "j \<in> I \<Longrightarrow> j \<noteq> i \<Longrightarrow> inode_at v' j = inode_at v j"
    and "j \<in> I \<Longrightarrow> j \<noteq> i \<Longrightarrow> k < MAX_FILE_BYTES \<Longrightarrow> byte_at v' (inode_at v j) k = byte_at v (inode_at v j) k"
    and "files_ok N v' (I - {i})" and "marked v I \<Longrightarrow> marked v' (I - {i})"
    and "\<not> bit_at v' (inode_bitmap_start (v_sb v')) (i - 1)"
proof -
  obtain u n where u: "unmarked N (freed_blocks v (inode_at v i)) v u" "wf_inode n"
    and v': "v' = put_inode i n (set_bit_at (inode_bitmap_start (v_sb v)) (i - 1) False u)"
    using R by (auto simp: inode_released_def)
  let ?w = "set_bit_at (inode_bitmap_start (v_sb v)) (i - 1) False u"
  have G: "good N v" "good N u" and tab: "\<And>j. j \<in> I \<Longrightarrow> in_table (v_sb v) j" and ok: "\<And>j. j \<in> I \<Longrightarrow> file_ok v (inode_at v j)"
    using F u(1) by (simp_all add: files_ok_def unmarked_def)
  have sb: "v_sb u = v_sb v" and sg: "same_globals v u" using u(1) by (simp_all add: unmarked_def same_globals_def)
  have S1: "same_files N (I - {i}) u ?w"
    using same_files_mark [OF G(2), of i "I - {i}" False] tab i sb by simp
  have S2: "same_files N (I - {i}) ?w v'"
    unfolding v' by (rule same_files_put_inode [OF same_filesD(3) [OF S1] _ u(2)]) (use tab i sb in simp_all)
  note S = same_files_trans [OF S1 S2]
  note S' = same_filesD [OF S]
  have sg': "same_globals u v'" using S by (simp add: same_files_def)
  show "same_globals v v'" using sg sg' by (simp add: same_globals_def)
  show al: "allocated v' p \<longleftrightarrow> allocated v p \<and> p \<notin> freed_blocks v (inode_at v i)" for p
    using same_files_allocated [OF S] u(1) by (simp add: unmarked_def)
  have data: "blk v' p = blk v p" if "data_block (v_sb v) p" for p
    using S'(4) unmarked_data(2) [OF u(1) G(1)] that sb by simp
  show at: "inode_at v' j = inode_at v j" if "j \<in> I" "j \<noteq> i" for j
  proof -
    have "blk u (inode_block (v_sb v) j) = blk v (inode_block (v_sb v) j)"
      using u(1) inode_block_not_data(2) [OF goodD(1) [OF G(1)] tab [OF that(1)]] by (simp add: unmarked_def)
    then have "inode_at u j = inode_at v j" by (simp add: inode_at_def sb)
    then show ?thesis using S'(6) that by simp
  qed
  have keep: "blk v' (ptr v (inode_at v j) x) = blk v (ptr v (inode_at v j) x)"
    if "j \<in> I" "in_range x" "ptr v (inode_at v j) x \<noteq> 0" for j x
    using file_ok_allocated [OF ok [OF that(1)] that(2,3)] by (intro data) (simp add: allocated_def)
  have P: "ptr v' (inode_at v j) x = ptr v (inode_at v j) x" if "j \<in> I" "in_range x" for j x
    by (rule ptr_cong [OF keep that(2)]) (use that in simp)
  show "byte_at v' (inode_at v j) k = byte_at v (inode_at v j) k" if "j \<in> I" "j \<noteq> i" "k < MAX_FILE_BYTES"
    using P [OF that(1) node_of_byte [OF that(3)]] keep [OF that(1) node_of_byte [OF that(3)]] by (simp add: byte_at_def Let_def)
  have ap: "apart v (inode_at v j) (inode_at v k)" if "j \<in> I" "k \<in> I" "j \<noteq> k" for j k
    using F that by (simp add: files_ok_def)
  have "file_ok v' (inode_at v j)" if j: "j \<in> I" "j \<noteq> i" for j
  proof -
    have "ptr v (inode_at v j) x \<notin> freed_blocks v (inode_at v i)" if "in_range x" "ptr v (inode_at v j) x \<noteq> 0" for x
      using ap [OF j(1) i j(2)] that freed_in_range unfolding apart_def freed_blocks_def by blast
    then show ?thesis using ok [OF j(1)] P [OF j(1)] al unfolding file_ok_def by metis
  qed
  moreover have "apart v' (inode_at v j) (inode_at v k)" if "j \<in> I" "k \<in> I" "j \<noteq> k" for j k
    using ap [OF that] P [OF that(1)] P [OF that(2)] unfolding apart_def by metis
  ultimately show "files_ok N v' (I - {i})"
    unfolding files_ok_def using S'(1,3) sb at tab by (simp add: set_diff_eq)
  have len: "length (blk u (bit_block (inode_bitmap_start (v_sb v)) (i - 1))) = 512"
    using inode_bit_outside(3) [OF goodD(1) [OF G(1)] tab [OF i]] goodD(2) [OF G(2)] by (simp add: sized_def)
  have bit: "bit_at v' (inode_bitmap_start (v_sb v)) (j - 1) \<longleftrightarrow> bit_at u (inode_bitmap_start (v_sb v)) (j - 1) \<and> j \<noteq> i" if "j \<in> I" for j
  proof -
    have "bit_block (inode_bitmap_start (v_sb v)) (j - 1) \<noteq> inode_block (v_sb ?w) i"
      using inode_bit_outside(4) [OF goodD(1) [OF G(1)] tab [OF that] tab [OF i]] sb by simp
    moreover have "j - 1 = i - 1 \<longleftrightarrow> j = i" by simp
    ultimately show ?thesis using len by (auto simp: v' put_inode_def)
  qed
  then show "\<not> bit_at v' (inode_bitmap_start (v_sb v')) (i - 1)" using i S'(1) sb by simp
  have "bit_at u (inode_bitmap_start (v_sb v)) (j - 1) = bit_at v (inode_bitmap_start (v_sb v)) (j - 1)" if "j \<in> I" for j
    using u(1) inode_bit_outside(2) [OF goodD(1) [OF G(1)] tab [OF that]] by (simp add: bit_at_def unmarked_def)
  then show "marked v I \<Longrightarrow> marked v' (I - {i})" using bit S'(1) sb by (auto simp: marked_def)
qed

section \<open>Clearing a slot\<close>

definition cleared :: "vol \<Rightarrow> ipo_inode \<Rightarrow> nat \<Rightarrow> vol" where
  "cleared v n k = set_blk (slot_block v n k)
     (patch (72 * (k mod 7)) (enc_dir_entry (cleared_entry (slot v n k))) (blk v (slot_block v n k))) v"

lemma wf_slot: "wf_dir_entry (slot v n k)"
  by (simp add: slot_def wf_dec_dir_entry)

lemma cleared_entry_simps [simp]:
  "d_inode (cleared_entry e) = 0" "wf_dir_entry e \<Longrightarrow> wf_dir_entry (cleared_entry e)" "wf_entry (cleared_entry e)"
  by (simp_all add: cleared_entry_def wf_dir_entry_def wf_entry_def)

lemma find_slot_SomeD:
  assumes "find_slot v n name k m = Some j"
  shows "k \<le> j" and "j < k + m" and "slot_block v n j \<noteq> 0" and "d_inode (slot_entry v n j) \<noteq> 0"
    and "entry_name (slot_entry v n j) = name"
    and "k \<le> i \<Longrightarrow> i < j \<Longrightarrow> slot_block v n i \<noteq> 0 \<Longrightarrow> d_inode (slot_entry v n i) \<noteq> 0 \<Longrightarrow> entry_name (slot_entry v n i) \<noteq> name"
proof -
  obtain l where l: "l < m" "[k..<k + m] ! l = j" "slot_block v n j \<noteq> 0" "d_inode (slot_entry v n j) \<noteq> 0" "entry_name (slot_entry v n j) = name"
    "\<forall>i < l. \<not> (slot_block v n ([k..<k + m] ! i) \<noteq> 0 \<and> d_inode (slot_entry v n ([k..<k + m] ! i)) \<noteq> 0 \<and>
       entry_name (slot_entry v n ([k..<k + m] ! i)) = name)"
    using assms unfolding find_slot_def find_Some_iff by auto
  then have j: "j = k + l" by simp
  show "k \<le> j" "j < k + m" "slot_block v n j \<noteq> 0" "d_inode (slot_entry v n j) \<noteq> 0" "entry_name (slot_entry v n j) = name"
    using l j by simp_all
  show "entry_name (slot_entry v n i) \<noteq> name" if "k \<le> i" "i < j" "slot_block v n i \<noteq> 0" "d_inode (slot_entry v n i) \<noteq> 0"
  proof -
    have "i - k < l" "[k..<k + m] ! (i - k) = i" using that(1,2) j l(1) by simp_all
    then show ?thesis using l(6) that(3,4) by metis
  qed
qed

context fs_store begin

lemma runs_remove_from:
  assumes G: "good N v" and ok: "file_ok v n" and wf: "\<And>i. k \<le> i \<Longrightarrow> i < k + m \<Longrightarrow> wf_entry (slot v n i)"
    and small: "k + m \<le> 7 * MAX_FILE_BLOCKS" and buf: "length buf = 512"
    and name: "0 \<notin> set name" "length name < 64" "name \<noteq> str ''.''" "name \<noteq> str ''..''"
    and f: "find_slot v n name k m = Some j"
    and t: "in_table (v_sb v) (d_inode (slot v n j))" "mode (inode_at v (d_inode (slot v n j))) AND IPO_INODE_FLAG_PROTECTED = 0"
  shows "runs v (remove_from io name m (of_nat k) n buf) True (cleared v n j)"
  using wf small buf f
proof (induction m arbitrary: k buf)
  case (Suc m)
  have k: "k < 2 ^ 32" "k div 7 < MAX_FILE_BLOCKS" using Suc.prems(2) by (simp_all add: less_mult_imp_div_less mult.commute)
  let ?p = "slot_block v n k" and ?e = "slot v n k"
  note get = runs_slot_block [OF G ok k]
  have IH: "runs v (remove_from io name m (of_nat k + 1) n b) True (cleared v n j)"
    if "find_slot v n name (Suc k) m = Some j" "length b = 512" for b
    using Suc.IH [of "Suc k" b] Suc.prems that by (simp add: add.commute)
  show ?case
  proof (cases "?p = 0")
    case True
    then show ?thesis
      unfolding remove_from.simps Let_def
      by (intro evals_bind [OF get]) (use True IH [OF _ Suc.prems(3)] Suc.prems(4) in \<open>simp add: find_slot_Suc\<close>)
  next
    case False
    note al = allocated_length [OF G slot_block_allocated [OF ok False]]
    note rd = store_read [OF al(1) Suc.prems(3)]
    note e = slot_entry_in [OF G ok False k(1)] slot_mapped [OF G ok False]
    note w = Suc.prems(1) [of k, simplified]
    have c: "c_str (name_at (blk v ?p) (of_nat k mod 7)) = entry_name ?e" if "d_inode ?e \<noteq> 0"
      using name_at_entry [of "blk v ?p" "of_nat k mod 7"] w that e(1) by simp
    have match: "str_ncmp (name_at (blk v ?p) (of_nat k mod 7)) name 64 = 0 \<longleftrightarrow> entry_name ?e = name" if "d_inode ?e \<noteq> 0"
      using w that name(1,2) by (simp add: str_ncmp_eq_0 c [OF that] wf_entry_def)
    show ?thesis
    proof (cases "d_inode ?e \<noteq> 0 \<and> entry_name ?e = name")
      case here: True
      then have j: "j = k" using Suc.prems(4) False e(2) by (simp add: find_slot_Suc)
      have dots: "str_cmp (name_at (blk v ?p) (of_nat k mod 7)) (str ''.'') \<noteq> 0" "str_cmp (name_at (blk v ?p) (of_nat k mod 7)) (str ''..'') \<noteq> 0"
        using c here name(3,4) c_str_idem [of "str ''.''"] c_str_idem [of "str ''..''"] by (simp_all add: str_cmp_eq_0)
      have off: "FsDir.entry_offset (of_nat k mod 7) = 72 * (k mod 7)" by (simp add: FsDir.entry_offset_def slot_index(1) [OF k(1)])
      let ?b = "patch (72 * (k mod 7)) (enc_dir_entry (cleared_entry ?e)) (blk v ?p)"
      have "72 * (k mod 7) + 72 \<le> 512" using slot_pos_fits [of k] by simp
      then have len: "length ?b = 512" using al(2) length_enc_dir_entry [OF cleared_entry_simps(2) [OF wf_slot]] by simp
      note tr = runs_read_inode [OF t(1) goodD(1) [OF G], unfolded j]
      have wr: "runs v (block_write io ?p ?b) True (cleared v n k)" unfolding cleared_def by (rule store_write [OF al(1) len])
      show ?thesis
        unfolding remove_from.simps Let_def j
        by (intro evals_bind [OF get])
           (use False here e(1) match dots t(2) in \<open>auto simp: off j simp del: str_Cons intro!: evals_bind [OF rd] evals_bind [OF tr] evals_bind [OF wr] evals_return\<close>)
    next
      case other: False
      then have "find_slot v n name (Suc k) m = Some j" using Suc.prems(4) e(2) by (simp add: find_slot_Suc split: if_splits)
      note IH' = IH [OF this al(2)]
      show ?thesis
        unfolding remove_from.simps Let_def
        by (intro evals_bind [OF get]) (use False other e(1) match IH' in \<open>auto intro!: evals_bind [OF rd]\<close>)
    qed
  qed
qed simp

end

section \<open>The directory after it\<close>

text \<open>A file is changed in place: the other files and the inode table are kept.\<close>

lemma files_step:
  assumes F: "files_ok N v I" and d: "d \<in> I" and e: "extends v (inode_at v d) w (inode_at v d)" and G: "good N w"
  shows "files_ok N w I" and "same_globals v w" and "i \<in> I \<Longrightarrow> inode_at w i = inode_at v i"
    and "i \<in> I \<Longrightarrow> i \<noteq> d \<Longrightarrow> k < MAX_FILE_BYTES \<Longrightarrow> byte_at w (inode_at v i) k = byte_at v (inode_at v i) k"
    and "i \<in> I \<Longrightarrow> i \<noteq> d \<Longrightarrow> in_range x \<Longrightarrow> ptr w (inode_at v i) x = ptr v (inode_at v i) x"
proof -
  have L: "layout N (v_sb v)" and tab: "\<And>i. i \<in> I \<Longrightarrow> in_table (v_sb v) i" and ok: "\<And>i. i \<in> I \<Longrightarrow> file_ok v (inode_at v i)"
    and ap: "\<And>i j. i \<in> I \<Longrightarrow> j \<in> I \<Longrightarrow> i \<noteq> j \<Longrightarrow> apart v (inode_at v i) (inode_at v j)"
    using F by (simp_all add: files_ok_def goodD)
  show sg: "same_globals v w" by (rule extendsD(1) [OF e])
  show at: "inode_at w i = inode_at v i" if "i \<in> I" for i by (rule inode_at_extends [OF e L tab [OF that]])
  note O = other_file [OF e ok ap [OF d] L]
  show "byte_at w (inode_at v i) k = byte_at v (inode_at v i) k" if "i \<in> I" "i \<noteq> d" "k < MAX_FILE_BYTES"
    using O(4) [OF that(1,1) _ that(3)] that(2) by simp
  show P: "ptr w (inode_at v i) x = ptr v (inode_at v i) x" if "i \<in> I" "i \<noteq> d" "in_range x" for i x
    using O(1) [OF that(1,1) _ that(3)] that(2) by simp
  have f: "file_ok w (inode_at v i)" if "i \<in> I" for i
    using extendsD(3) [OF e] O(2) [OF that that] by (cases "i = d") auto
  have ad: "apart w (inode_at v d) (inode_at v i)" if "i \<in> I" "i \<noteq> d" for i using O(3) [OF that(1,1)] that(2) by simp
  have "apart w (inode_at v i) (inode_at v j)" if "i \<in> I" "j \<in> I" "i \<noteq> j" for i j
  proof (cases "i = d \<or> j = d")
    case True
    then show ?thesis using ad that apart_sym by metis
  next
    case False
    then show ?thesis using ap [OF that] P that unfolding apart_def by metis
  qed
  then show "files_ok N w I"
    unfolding files_ok_def using G sg tab f at by (simp add: same_globals_def)
qed

lemma listing_remove:
  assumes "k < m" and "\<And>i. i < m \<Longrightarrow> i \<noteq> k \<Longrightarrow> f i = e i" and "d_inode (f k) = 0" and "d_inode (e k) \<noteq> 0"
    and "\<And>i. i < k \<Longrightarrow> d_inode (e i) \<noteq> 0 \<Longrightarrow> entry_name (e i) \<noteq> entry_name (e k)"
  shows "listing f m = remove1 (entry_name (e k), d_inode (e k)) (listing e m)"
  using assms
proof (induction m)
  case (Suc m)
  let ?x = "(entry_name (e k), d_inode (e k))"
  have "x \<in> set (listing e k) \<Longrightarrow> \<exists>i < k. d_inode (e i) \<noteq> 0 \<and> fst x = entry_name (e i)" for x
    by (auto simp: listing_def split: if_splits)
  from this [of ?x] have in_k: "?x \<notin> set (listing e k)" using Suc.prems(5) by (metis fst_conv)
  show ?case
  proof (cases "k = m")
    case True
    have "listing f m = listing e m" using Suc.prems(2) True by (intro listing_cong) simp
    then show ?thesis using Suc.prems(3,4) in_k True by (simp add: listing_Suc remove1_append)
  next
    case False
    then have k: "k < m" using Suc.prems(1) by simp
    have "?x \<in> set (listing e m)" using k Suc.prems(4) by (force simp: listing_def)
    moreover have "listing f m = remove1 ?x (listing e m)" using Suc.IH [OF k] Suc.prems by simp
    moreover have "f m = e m" using Suc.prems(2) False by simp
    ultimately show ?thesis by (simp add: listing_Suc remove1_append)
  qed
qed simp

lemma contents_overwrite_after:
  assumes "\<And>i. i < MAX_FILE_BYTES \<Longrightarrow> byte_at v' n' i = overwrite pos bs (byte_at v n) i" and "p + len \<le> MAX_FILE_BYTES"
    and "pos + length bs \<le> p"
  shows "contents v' n' p len = contents v n p len"
  unfolding contents_def using assms by (intro map_cong) (simp_all add: overwrite_def)

lemma cleared_directory:
  assumes F: "files_ok N v I" and d: "d \<in> I" and fits: "fits (inode_at v d)" and wf: "wf_directory v (inode_at v d)"
    and k: "find_slot v (inode_at v d) name 0 (unat (entry_count (inode_at v d))) = Some k"
  defines "n \<equiv> inode_at v d" and "w \<equiv> cleared v (inode_at v d) k"
  shows "files_ok N w I" and "same_globals v w" and "i \<in> I \<Longrightarrow> inode_at w i = inode_at v i"
    and "i \<in> I \<Longrightarrow> i \<noteq> d \<Longrightarrow> j < MAX_FILE_BYTES \<Longrightarrow> byte_at w (inode_at v i) j = byte_at v (inode_at v i) j"
    and "i \<in> I \<Longrightarrow> in_range x \<Longrightarrow> ptr w (inode_at v i) x = ptr v (inode_at v i) x"
    and "allocated w p = allocated v p"
    and "directory w n = remove1 (name, d_inode (slot v n k)) (directory v n)" and "wf_directory w n"
    and "\<And>p. \<not> data_block (v_sb v) p \<Longrightarrow> blk w p = blk v p"
proof -
  have G: "good N v" and ok: "file_ok v n" using F d by (simp_all add: files_ok_def n_def)
  note K = find_slot_SomeD [OF k, folded n_def]
  have kb: "k div 7 < MAX_FILE_BLOCKS" using fits_slot [OF fits, of k] K(2) by (simp add: n_def)
  have q: "slot_block v n k = ptr v n (node_of (k div 7))" using kb by (simp add: slot_block_def)
  have e: "slot_entry v n k = slot v n k" by (rule slot_mapped [OF G ok K(3)])
  let ?e = "cleared_entry (slot v n k)"
  have len: "length (enc_dir_entry ?e) = 72" using length_enc_dir_entry [OF cleared_entry_simps(2) [OF wf_slot]] .
  have fit: "72 * (k mod 7) + length (enc_dir_entry ?e) \<le> 512" using slot_pos_fits [of k] len by simp
  have w: "w = set_blk (ptr v n (node_of (k div 7))) (patch (72 * (k mod 7)) (enc_dir_entry ?e) (blk v (ptr v n (node_of (k div 7))))) v"
    by (simp add: w_def cleared_def n_def [symmetric] q)
  note set = set_file_block [OF G ok kb K(3) [unfolded q] fit, folded w]
  note step = files_step [OF F d set(1,2) [unfolded n_def]]
  show "files_ok N w I" "same_globals v w" "i \<in> I \<Longrightarrow> inode_at w i = inode_at v i"
    "i \<in> I \<Longrightarrow> i \<noteq> d \<Longrightarrow> j < MAX_FILE_BYTES \<Longrightarrow> byte_at w (inode_at v i) j = byte_at v (inode_at v i) j"
    using step(1-4) by simp_all
  show "i \<in> I \<Longrightarrow> in_range x \<Longrightarrow> ptr w (inode_at v i) x = ptr v (inode_at v i) x"
    using step(5) set(3) by (cases "i = d") (simp_all add: n_def)
  have qd: "data_block (v_sb v) (ptr v n (node_of (k div 7)))"
    using file_ok_allocated [OF ok node_of_in_range [OF kb] K(3) [unfolded q]] by (simp add: allocated_def)
  show "allocated w p = allocated v p" unfolding w by (rule allocated_set_blk [OF goodD(1) [OF G] qd])
  show "blk w p = blk v p" if "\<not> data_block (v_sb v) p" for p using qd that by (auto simp: w)
  have b: "byte_at w n i = overwrite (slot_pos k) (enc_dir_entry ?e) (byte_at v n) i" if "i < MAX_FILE_BYTES" for i
    using set(4) [OF that] by (simp add: slot_pos_def)
  have okw: "file_ok w n" using extendsD(3) [OF set(1)] .
  have bound: "slot_pos i + 72 \<le> MAX_FILE_BYTES" if "i < unat (entry_count n)" for i
    using fits_slot [OF fits, of i] that by (intro slot_pos_bound) (simp add: n_def)
  have new: "slot w n k = ?e"
    using contents_overwrite(1) [OF b bound refl] K(2) len dec_enc_dir_entry [OF cleared_entry_simps(2) [OF wf_slot [of v n k]]]
    by (simp add: slot_def)
  have old: "slot w n i = slot v n i" if i: "i < unat (entry_count n)" "i \<noteq> k" for i
  proof (cases "i < k")
    case True
    then show ?thesis using contents_overwrite(2) [OF b bound [OF i(1)] slot_pos_less] by (simp add: slot_def)
  next
    case False
    then show ?thesis using contents_overwrite_after [OF b bound [OF i(1)]] slot_pos_less [of k i] i len by (simp add: slot_def)
  qed
  note dl = directory_listing [OF G ok fits [folded n_def]] directory_listing [OF set(2) okw fits [folded n_def]]
  have "entry_name (slot v n i) \<noteq> name" if "i < k" "d_inode (slot v n i) \<noteq> 0" for i
  proof -
    have "slot_block v n i \<noteq> 0"
      using slot_unmapped [of v n i] that fits_slot [OF fits, of i] K(2) by (auto simp: slot_block_def n_def)
    then show ?thesis using K(6) [of i] that slot_mapped [OF G ok] by simp
  qed
  then show "directory w n = remove1 (name, d_inode (slot v n k)) (directory v n)"
    unfolding dl using listing_remove [of k "unat (entry_count n)" "slot w n" "slot v n"] K(2,4,5) old new e by simp
  show "wf_directory w n"
    using wf wf_directory_slots [OF G ok fits [folded n_def]] wf_directory_slots [OF set(2) okw fits [folded n_def]] old new
    by (simp add: n_def [symmetric]) (metis cleared_entry_simps(3))
qed

end
