(* ===== verification/FsDeleteProps.thy ===== *)
theory FsDeleteProps imports FsDelete begin

text \<open>
  \<open>ipo_fs_delete\<close> on a well-formed volume: which paths it refuses, and what the volume is after it.
\<close>

section \<open>What can be deleted\<close>

text \<open>The entry of a name in a directory.\<close>

definition named_entry :: "vol \<Rightarrow> u32 \<Rightarrow> bytes \<Rightarrow> dir_entry option" where
  "named_entry v d name = (if \<not> is_dir v d then None
     else map_option (slot v (inode_at v d)) (find_slot v (inode_at v d) name 0 (unat (entry_count (inode_at v d)))))"

definition deletable_entry :: "vol \<Rightarrow> dir_entry \<Rightarrow> bool" where
  "deletable_entry v e \<longleftrightarrow> mode (inode_at v (d_inode e)) AND IPO_INODE_FLAG_PROTECTED = 0 \<and>
     \<not> (ucast (d_type e) = IPO_INODE_TYPE_DIR \<and> 72 * 2 < i_size (inode_at v (d_inode e)))"

text \<open>No other entry names the file, the dots of the file itself aside.\<close>

definition only_name :: "u32 set \<Rightarrow> vol \<Rightarrow> u32 \<Rightarrow> bytes \<Rightarrow> u32 \<Rightarrow> bool" where
  "only_name I v d name i \<longleftrightarrow> i \<noteq> 1 \<and> i \<noteq> d \<and> i \<notin> snd ` set (remove1 (name, i) (directory v (inode_at v d))) \<and>
     (\<forall>x\<in>I. is_dir v x \<and> x \<noteq> d \<and> x \<noteq> i \<longrightarrow> i \<notin> snd ` set (directory v (inode_at v x)))"

text \<open>The file \<open>i\<close> is gone from the directory \<open>d\<close>, its blocks and its number are free again.\<close>

definition deleted :: "u32 set \<Rightarrow> vol \<Rightarrow> u32 \<Rightarrow> bytes \<Rightarrow> u32 \<Rightarrow> vol \<Rightarrow> bool" where
  "deleted I v d name i v' \<longleftrightarrow> inode_at v' d = inode_at v d \<and>
     directory v' (inode_at v' d) = remove1 (name, i) (directory v (inode_at v d)) \<and>
     others_kept (I - {i}) v d v' \<and> same_globals v v' \<and>
     (\<forall>p. allocated v' p \<longleftrightarrow> allocated v p \<and> p \<notin> freed_blocks v (inode_at v i)) \<and>
     \<not> bit_at v' (inode_bitmap_start (v_sb v')) (i - 1)"

lemma distinct_fst_remove1: "distinct (map fst xs) \<Longrightarrow> distinct (map fst (remove1 x xs))"
proof (induction xs)
  case (Cons y ys)
  have "fst ` set (remove1 x ys) \<subseteq> fst ` set ys" by (rule image_mono [OF set_remove1_subset])
  then show ?case using Cons by auto
qed simp

lemma map_of_remove1:
  "distinct (map fst xs) \<Longrightarrow> (a, b) \<in> set xs \<Longrightarrow> map_of (remove1 (a, b) xs) t = (if t = a then None else map_of xs t)"
proof (induction xs)
  case (Cons y ys)
  show ?case
  proof (cases "y = (a, b)")
    case True
    then show ?thesis using Cons.prems by (simp add: map_of_eq_None_iff)
  next
    case False
    then have m: "(a, b) \<in> set ys" using Cons.prems(2) by simp
    then have "a \<in> fst ` set ys" by (metis fst_conv image_eqI)
    then have "fst y \<noteq> a" using Cons.prems(1) by auto
    then show ?thesis using Cons.IH [OF _ m] Cons.prems(1) False by (cases y) (auto split: if_splits)
  qed
qed simp

lemma named_entryD:
  assumes V: "volume_ok N v I" and d: "d \<in> I" and e: "named_entry v d name = Some e"
  shows "is_dir v d" and "\<exists>k. find_slot v (inode_at v d) name 0 (unat (entry_count (inode_at v d))) = Some k \<and>
      slot v (inode_at v d) k = e \<and> slot_entry v (inode_at v d) k = e"
    and "(name, d_inode e) \<in> set (directory v (inode_at v d))" and "d_inode e \<in> I" and "lookup v d name = Some (d_inode e)"
proof -
  note D = volume_okD [OF V]
  show dir: "is_dir v d" using e by (simp add: named_entry_def split: if_splits)
  then obtain k where k: "find_slot v (inode_at v d) name 0 (unat (entry_count (inode_at v d))) = Some k" "slot v (inode_at v d) k = e"
    using e by (auto simp: named_entry_def)
  then have s: "slot_entry v (inode_at v d) k = e"
    using slot_mapped [OF D(4) D(7) [OF d] find_slot_SomeD(3) [OF k(1)]] by simp
  then show "\<exists>k. find_slot v (inode_at v d) name 0 (unat (entry_count (inode_at v d))) = Some k \<and>
      slot v (inode_at v d) k = e \<and> slot_entry v (inode_at v d) k = e" using k by blast
  have m: "map_of (directory v (inode_at v d)) name = Some (d_inode e)"
    using find_slot_lookup [of v "inode_at v d" name 0 "unat (entry_count (inode_at v d))"] k(1) s by (simp add: directory_def)
  then show "lookup v d name = Some (d_inode e)" using dir by (simp add: lookup_def is_dir_def)
  show "(name, d_inode e) \<in> set (directory v (inode_at v d))" using m by (rule map_of_SomeD)
  then show "d_inode e \<in> I" using D(9) [OF d dir] by force
qed

lemma deleted_volume:
  assumes V: "volume_ok N v I" and d: "d \<in> I" and e: "named_entry v d name = Some e" "only_name I v d name (d_inode e)"
    and k: "find_slot v (inode_at v d) name 0 (unat (entry_count (inode_at v d))) = Some k"
    and R: "inode_released N (cleared v (inode_at v d) k) (d_inode e) v'"
  shows "volume_ok N v' (I - {d_inode e})" and "deleted I v d name (d_inode e) v'"
proof -
  let ?i = "d_inode e" and ?w = "cleared v (inode_at v d) k" and ?J = "I - {d_inode e}"
  note D = volume_okD [OF V] and E = named_entryD [OF V d e(1)]
  have slot: "slot v (inode_at v d) k = e" using E(2) k by auto
  note C = cleared_directory [OF D(1) d D(10) [OF d E(1)] D(8) [OF d E(1)] k, unfolded slot]
  have i: "?i \<in> I" "?i \<noteq> 1" "?i \<noteq> d" using E(4) e(2) by (simp_all add: only_name_def)
  have sb: "v_sb ?w = v_sb v" using C(2) by (simp add: same_globals_def)
  have ib: "bit_at ?w (inode_bitmap_start (v_sb v)) (j - 1) = bit_at v (inode_bitmap_start (v_sb v)) (j - 1)" if "j \<in> I" for j
    using C(9) inode_bit_outside(1) [OF goodD(1) [OF D(4)] D(6) [OF that]] by (simp add: bit_at_def)
  have M: "marked ?w I" using D(3) ib sb by (simp add: marked_def)
  note R' = inode_released [OF C(1) i(1) R]
  have Gw: "good N ?w" "good N v'" using C(1) R'(5) by (simp_all add: files_ok_def)
  have freed: "freed_blocks ?w (inode_at ?w ?i) = freed_blocks v (inode_at v ?i)"
    using C(5) [OF i(1) freed_in_range] unfolding C(3) [OF i(1)] freed_blocks_def by metis
  have at: "inode_at v' j = inode_at v j" if "j \<in> ?J" for j using R'(3) [of j] C(3) [of j] that by simp
  have ok': "file_ok v' (inode_at v' j)" if "j \<in> ?J" for j using R'(5) that unfolding files_ok_def by blast
  have dJ: "d \<in> ?J" using d i(3) by simp
  have okd: "file_ok ?w (inode_at v d)" using C(1) C(3) [OF d] d unfolding files_ok_def by metis
  have bd: "byte_at v' (inode_at v' d) b = byte_at ?w (inode_at v d) b" if "b < MAX_FILE_BYTES" for b
    using R'(4) [OF d _ that] i(3) C(3) [OF d] at [OF dJ] by simp
  note cd = directory_cong [OF Gw(1) okd Gw(2) ok' [OF dJ] D(10) [OF d E(1)] _ bd]
  have dd: "directory v' (inode_at v' d) = remove1 (name, ?i) (directory v (inode_at v d))"
    "wf_directory v' (inode_at v' d)" "fits (inode_at v' d)"
    using cd at [OF dJ] C(7,8) by simp_all
  have old: "byte_at v' (inode_at v' j) b = byte_at v (inode_at v j) b" if "j \<in> ?J" "j \<noteq> d" "b < MAX_FILE_BYTES" for j b
    using R'(4) [of j b] C(3) [of j] C(4) [of j b] at [OF that(1)] that by simp
  show "deleted I v d name ?i v'"
    using at [OF dJ] dd(1) at old C(2) R'(1,2,7) C(6) freed by (simp add: deleted_def others_kept_def same_globals_def)
  show "volume_ok N v' ?J"
  proof (rule volume_okI [OF R'(5) R'(6) [OF M]])
    show "1 \<in> ?J" using D(5) i(2) by simp
    fix j
    assume j: "j \<in> ?J" "is_dir v' j"
    then have jd: "j \<in> I" "is_dir v j" using at [OF j(1)] by (simp_all add: is_dir_def)
    show "wf_directory v' (inode_at v' j) \<and> snd ` set (directory v' (inode_at v' j)) \<subseteq> ?J \<and>
        fits (inode_at v' j) \<and> distinct (map fst (directory v' (inode_at v' j)))"
    proof (cases "j = d")
      case True
      have sub: "set (remove1 (name, ?i) (directory v (inode_at v d))) \<subseteq> set (directory v (inode_at v d))" by (rule set_remove1_subset)
      have "?i \<notin> snd ` set (remove1 (name, ?i) (directory v (inode_at v d)))" using e(2) by (simp add: only_name_def)
      moreover have "snd ` set (remove1 (name, ?i) (directory v (inode_at v d))) \<subseteq> I"
        using image_mono [OF sub, of snd] D(9) [OF d E(1)] by (rule order_trans)
      ultimately have "snd ` set (directory v' (inode_at v' d)) \<subseteq> ?J" unfolding dd(1) by blast
      then show ?thesis using dd distinct_fst_remove1 [OF D(11) [OF d E(1)]] True by simp
    next
      case False
      note c = directory_cong [OF D(4) D(7) [OF jd(1)] Gw(2) ok' [OF j(1)] D(10) [OF jd] _ old [OF j(1) False]]
      have "?i \<notin> snd ` set (directory v (inode_at v j))" using e(2) jd j(1) False by (simp add: only_name_def)
      then have "snd ` set (directory v (inode_at v j)) \<subseteq> ?J" using D(9) [OF jd] by blast
      then show ?thesis using c at [OF j(1)] D(8,11) [OF jd] by simp
    qed
  qed
qed

section \<open>Walks\<close>

lemma deleted_lookup:
  assumes V: "volume_ok N v I" and V': "volume_ok N v' (I - {i})" and C: "deleted I v d name i v'"
    and n: "(name, i) \<in> set (directory v (inode_at v d))" "d \<in> I" "is_dir v d" and x: "x \<in> I" "x \<noteq> i"
  shows "lookup v' x t = (if x = d \<and> t = name then None else lookup v x t)"
proof (cases "x = d")
  case True
  note map_of_remove1 [OF volume_okD(11) [OF V n(2,3)] n(1), of t]
  then show ?thesis using C True n(3) by (auto simp: lookup_def deleted_def is_dir_def)
next
  case False
  have xJ: "x \<in> I - {i}" using x by simp
  have o: "inode_at v' x = inode_at v x" "\<And>k. k < MAX_FILE_BYTES \<Longrightarrow> byte_at v' (inode_at v' x) k = byte_at v (inode_at v x) k"
    using C xJ False unfolding deleted_def others_kept_def by blast+
  have "directory v' (inode_at v' x) = directory v (inode_at v x)" if "is_dir v x"
    using directory_cong(1) [OF volume_okD(4,7) [OF V] volume_okD(4,7) [OF V'] volume_okD(10) [OF V x(1) that] _ o(2)] xJ x(1) o(1) by simp
  then show ?thesis using o(1) False by (auto simp: lookup_def is_dir_def)
qed

text \<open>A deletion makes no new paths and takes only those away that lead through the file.\<close>

lemma deleted_walk:
  assumes V: "volume_ok N v I" and V': "volume_ok N v' (I - {i})" and C: "deleted I v d name i v'"
    and n: "(name, i) \<in> set (directory v (inode_at v d))" "d \<in> I" "is_dir v d"
  shows "walk v' 1 ts = Some j \<Longrightarrow> walk v 1 ts = Some j"
    and "parent_of v p = Some (d, name) \<Longrightarrow> walk v' 1 (path_components p) = None"
    and "\<not> is_dir v i \<Longrightarrow> walk v 1 ts = Some j \<Longrightarrow> j \<noteq> i \<Longrightarrow> walk v' 1 ts = Some j"
proof -
  note L = deleted_lookup [OF V V' C n]
  have one: "1 \<in> I - {i}" by (rule volume_okD(5) [OF V'])
  have "lookup v x t = Some k" if "x \<in> I - {i}" "lookup v' x t = Some k" for x t k
    using L [of x t] that by (auto split: if_splits)
  from walk_mono [OF volume_okD(2) [OF V'] this one]
  show w: "walk v' 1 ts = Some j \<Longrightarrow> walk v 1 ts = Some j" for ts j by simp
  show "walk v' 1 (path_components p) = None" if p: "parent_of v p = Some (d, name)"
  proof -
    have ne: "path_components p \<noteq> []" and nm: "name = last (path_components p)" and "walk v 1 (butlast (path_components p)) = Some d"
      using p by (auto simp: parent_of_def Let_def split: if_splits)
    then have "walk v' 1 (butlast (path_components p)) = None \<or> walk v' 1 (butlast (path_components p)) = Some d"
      using w by (cases "walk v' 1 (butlast (path_components p))") auto
    moreover have "lookup v' d name = None" if "walk v' 1 (butlast (path_components p)) = Some d"
      using L [of d name] walk_in_tree [OF volume_okD(2) [OF V'] one that] by simp
    ultimately have "walk v' 1 (butlast (path_components p) @ [last (path_components p)]) = None"
      using nm by (auto simp: walk_append simp del: append_butlast_last_id)
    then show ?thesis using ne by simp
  qed
  assume f: "\<not> is_dir v i"
  have "walk v x ts = Some j \<Longrightarrow> j \<noteq> i \<Longrightarrow> x \<in> I - {i} \<Longrightarrow> walk v' x ts = Some j" for x
  proof (induction ts arbitrary: x)
    case (Cons t ts)
    obtain y where y: "lookup v x t = Some y" "walk v y ts = Some j" using Cons.prems(1) by (auto split: option.splits)
    have "y \<noteq> i"
    proof
      assume "y = i"
      then have "ts = []" using y(2) f by (cases ts) (auto simp: lookup_def is_dir_def)
      then show False using y(2) \<open>y = i\<close> Cons.prems(2) by simp
    qed
    moreover have "y \<in> I" using lookup_in_tree [OF volume_okD(2) [OF V] _ y(1)] Cons.prems(3) by simp
    moreover have "\<not> (x = d \<and> t = name)"
    proof
      assume "x = d \<and> t = name"
      then have "map_of (directory v (inode_at v d)) name = Some y" using y(1) by (simp add: lookup_def split: if_splits)
      then show False using map_of_is_SomeI [OF volume_okD(11) [OF V n(2,3)] n(1)] \<open>y \<noteq> i\<close> by simp
    qed
    ultimately show ?case using L [of x t] y Cons by auto
  qed simp
  then show "walk v 1 ts = Some j \<Longrightarrow> j \<noteq> i \<Longrightarrow> walk v' 1 ts = Some j" using one by blast
qed

section \<open>Deleting\<close>

definition deletable :: "vol \<Rightarrow> bytes \<Rightarrow> bool" where
  "deletable v p \<longleftrightarrow> (case parent_of v p of
     None \<Rightarrow> False
   | Some (d, name) \<Rightarrow> (case named_entry v d name of None \<Rightarrow> False | Some e \<Rightarrow> deletable_entry v e))"

context fs_store begin

lemma runs_find_named:
  assumes V: "volume_ok N v I" and d: "d \<in> I" and name: "0 \<notin> set name"
  shows "\<exists>r. runs v (dir_find_entry io d name) r v \<and> map_option fst r = named_entry v d name"
proof -
  note D = volume_okD [OF V]
  let ?k = "find_slot v (inode_at v d) name 0 (unat (entry_count (inode_at v d)))"
  have "file_ok v (inode_at v d) \<and> wf_directory v (inode_at v d)" if "mode (inode_at v d) AND 1 \<noteq> 0"
    using D(7,8) [OF d] that by (simp add: is_dir_def)
  from runs_dir_find_entry [OF D(4) D(6) [OF d] name this] have
    run: "runs v (dir_find_entry io d name) (if mode (inode_at v d) AND 1 = 0 then None else map_option (found_at v (inode_at v d)) ?k) v" .
  have "slot_entry v (inode_at v d) k = slot v (inode_at v d) k" if "?k = Some k" for k
    by (rule slot_mapped [OF D(4) D(7) [OF d] find_slot_SomeD(3) [OF that]])
  then have "map_option fst (if mode (inode_at v d) AND 1 = 0 then None else map_option (found_at v (inode_at v d)) ?k) = named_entry v d name"
    by (cases ?k) (simp_all add: named_entry_def is_dir_def found_at_def)
  then show ?thesis using run by blast
qed

lemma runs_delete_start:
  assumes V: "volume_ok N v I" and m: "v_mounted v" and p: "count_list (c_str p) slash < 128" "length (c_str p) + 2 < 512"
    and q: "parent_of v p = Some (d, name)" and e: "named_entry v d name = Some e" "deletable_entry v e"
    and rest: "runs v (do { ok \<leftarrow> dir_remove_entry io d name;
        if \<not> ok then State_Monad.return False else do { _ \<leftarrow> free_inode io (d_inode e); State_Monad.return True } }) r v'"
  shows "runs v (ipo_fs_delete io (Some p)) r v'"
proof -
  note D = volume_okD [OF V]
  have d: "d \<in> I" "0 \<notin> set name"
    using q walk_in_tree [OF D(2,5)] path_components_ok(4) [of name p] by (auto simp: parent_of_def Let_def split: if_splits)
  obtain f where f: "runs v (dir_find_entry io d name) f v" "map_option fst f = Some e"
    using runs_find_named [OF V d] e(1) by auto
  note rd = runs_read_inode [OF D(6) [OF named_entryD(4) [OF V d(1) e(1)]] goodD(1) [OF D(4)]]
  have full: "runs v (if ucast (d_type e) = IPO_INODE_TYPE_DIR then do {
        din \<leftarrow> read_inode io (d_inode e);
        State_Monad.return (case din of None \<Rightarrow> False | Some d \<Rightarrow> 72 * 2 < i_size d)
      } else State_Monad.return False) False v"
    using e(2) by (auto simp: deletable_entry_def intro!: evals_bind [OF rd] evals_return evals_cong [OF evals_return])
  show ?thesis
    unfolding ipo_fs_delete_def
    by (rule evals_bind [OF runs_mounted])
       (use m q f(2) e(2) full rest in \<open>auto simp: deletable_entry_def intro!: evals_bind [OF runs_path_resolve_parent [OF D(2) p]]
         evals_bind [OF f(1)] evals_bind [OF rd] evals_bind [OF full]\<close>)
qed

lemma runs_delete:
  assumes V: "volume_ok N v I" and m: "v_mounted v" and p: "count_list (c_str p) slash < 128" "length (c_str p) + 2 < 512"
    and q: "parent_of v p = Some (d, name)" and e: "named_entry v d name = Some e" "deletable_entry v e"
    and only: "only_name I v d name (d_inode e)"
  shows "\<exists>v'. runs v (ipo_fs_delete io (Some p)) True v' \<and> volume_ok N v' (I - {d_inode e}) \<and> deleted I v d name (d_inode e) v'"
proof -
  note D = volume_okD [OF V]
  have d: "d \<in> I" and t: "name \<in> set (path_components p)"
    using q walk_in_tree [OF D(2,5)] by (auto simp: parent_of_def Let_def split: if_splits)
  note name = path_components_ok(4,2) [OF t]
  have dots: "name \<noteq> str ''.''" "name \<noteq> str ''..''" using path_components_names [OF t] by simp_all
  note E = named_entryD [OF V d e(1)]
  obtain k where k: "find_slot v (inode_at v d) name 0 (unat (entry_count (inode_at v d))) = Some k" and slot: "slot v (inode_at v d) k = e"
    using E(2) by blast
  let ?n = "inode_at v d" and ?w = "cleared v (inode_at v d) k"
  note fits = D(10) [OF d E(1)]
  have "wf_entry (slot v ?n i)" if "i < 0 + unat (entry_count ?n)" for i
    using D(8) [OF d E(1)] that unfolding wf_directory_slots [OF D(4) D(7) [OF d] fits] by simp
  moreover have "0 + unat (entry_count ?n) \<le> 7 * MAX_FILE_BLOCKS" using fits by (simp add: fits_def)
  moreover have "in_table (v_sb v) (d_inode (slot v ?n k))" "mode (inode_at v (d_inode (slot v ?n k))) AND IPO_INODE_FLAG_PROTECTED = 0"
    using D(6) [OF E(4)] e(2) slot by (simp_all add: deletable_entry_def)
  ultimately have "runs v (remove_from io name (unat (entry_count ?n)) 0 ?n buf) True ?w" if "length buf = 512" for buf
    using runs_remove_from [OF D(4) D(7) [OF d], where k = 0 and m = "unat (entry_count ?n)" and buf = buf and name = name and j = k] name dots k that by simp
  then have rm: "runs v (dir_remove_entry io d name) True ?w"
    unfolding dir_remove_entry_def
    by (intro evals_bind [OF runs_read_inode [OF D(6) [OF d] goodD(1) [OF D(4)]]]) (simp add: runs_uninit)
  note C = cleared_directory [OF D(1) d fits D(8) [OF d E(1)] k, unfolded slot]
  have "good N ?w" "in_table (v_sb ?w) (d_inode e)" "file_ok ?w (inode_at ?w (d_inode e))"
    using C(1) E(4) by (simp_all add: files_ok_def)
  from runs_free_inode [OF this] obtain v' where v': "runs ?w (free_inode io (d_inode e)) True v'" "inode_released N ?w (d_inode e) v'" by blast
  have "runs v (ipo_fs_delete io (Some p)) True v'"
    by (rule runs_delete_start [OF V m p q e], rule evals_bind [OF rm])
       (auto intro!: evals_bind [OF v'(1)] evals_return)
  then show ?thesis using deleted_volume [OF V d e(1) only k v'(2)] by blast
qed

lemma runs_delete_refused:
  assumes V: "volume_ok N v I" and m: "v_mounted v" and p: "count_list (c_str p) slash < 128" "length (c_str p) + 2 < 512"
    and n: "\<not> deletable v p"
  shows "runs v (ipo_fs_delete io (Some p)) False v"
proof -
  note D = volume_okD [OF V]
  note res = runs_path_resolve_parent [OF D(2) p]
  show ?thesis
  proof (cases "parent_of v p")
    case None
    show ?thesis
      unfolding ipo_fs_delete_def
      by (rule evals_bind [OF runs_mounted])
         (use None m in \<open>auto intro!: evals_bind [OF res] evals_return\<close>)
  next
    case (Some dn)
    then obtain d name where q: "parent_of v p = Some (d, name)" by (cases dn) auto
    have d: "d \<in> I" "0 \<notin> set name"
      using q walk_in_tree [OF D(2,5)] path_components_ok(4) [of name p] by (auto simp: parent_of_def Let_def split: if_splits)
    obtain f where f: "runs v (dir_find_entry io d name) f v" "map_option fst f = named_entry v d name"
      using runs_find_named [OF V d] by blast
    show ?thesis
    proof (cases f)
      case None
      show ?thesis
        unfolding ipo_fs_delete_def
        by (rule evals_bind [OF runs_mounted])
           (use None m q in \<open>auto intro!: evals_bind [OF res] evals_bind [OF f(1)] evals_return\<close>)
    next
      case (Some r)
      obtain e a b where f_eq: "f = Some (e, a, b)" using Some by (cases r) auto
      then have e1: "named_entry v d name = Some e" using f(2) by simp
      then have e: "named_entry v d name = Some e" "\<not> deletable_entry v e" using n q by (simp_all add: deletable_def)
      note rd = runs_read_inode [OF D(6) [OF named_entryD(4) [OF V d(1) e(1)]] goodD(1) [OF D(4)]]
      show ?thesis
        unfolding ipo_fs_delete_def
        by (rule evals_bind [OF runs_mounted])
           (use m q f_eq e in \<open>auto simp: deletable_entry_def intro!: evals_bind [OF res] evals_bind [OF f(1)]
             evals_bind [OF rd] evals_return\<close>)
    qed
  qed
qed

end

section \<open>Properties\<close>

lemma demo_deletable:
  "parent_of demo_vol (str ''/b'') = Some (1, str ''b'')" "named_entry demo_vol 1 (str ''b'') = Some demo_entry_b"
  "d_inode demo_entry_b = 3" "deletable_entry demo_vol demo_entry_b" "only_name {1, 2, 3} demo_vol 1 (str ''b'') 3"
proof -
  have c: "path_components (str ''/b'') = [str ''b'']" by (simp add: path_components_def normalise_from_def c_str_def)
  show "parent_of demo_vol (str ''/b'') = Some (1, str ''b'')" unfolding parent_of_def c by simp
  show i: "d_inode demo_entry_b = 3" by (simp add: demo_entry_b_def)
  have dir: "is_dir demo_vol 1" "\<not> is_dir demo_vol 2" "\<not> is_dir demo_vol 3"
    by (simp_all add: is_dir_def demo_inode_1 demo_inode_2 demo_inode_3) (simp_all add: demo_root_def demo_file_def demo_program_def)
  have "find_slot demo_vol demo_root (str ''b'') 0 2 = Some 1"
    by (simp add: find_slot_def upt_rec demo_slots demo_slot_block demo_entries i)
       (simp add: demo_entry_def)?
  moreover have "slot demo_vol demo_root 1 = demo_entry_b"
    using slot_mapped [OF demo_good demo_file_ok(1), of 1] by (simp add: demo_slot_block demo_slots)
  ultimately show "named_entry demo_vol 1 (str ''b'') = Some demo_entry_b"
    using dir(1) by (simp add: named_entry_def demo_inode_1 demo_entries)
  show "deletable_entry demo_vol demo_entry_b"
    unfolding deletable_entry_def i demo_inode_3 by (simp add: demo_program_def demo_entry_b_def)
  show "only_name {1, 2, 3} demo_vol 1 (str ''b'') 3"
    using dir by (simp add: only_name_def demo_inode_1 demo_directory)
qed

text \<open>
  C5. Deleting a file: on a well-formed volume, for a path to an entry that is neither protected
  nor a directory of more than two entries, and whose file no other entry names,
  \<open>ipo_fs_delete\<close> succeeds. The entry is gone from the directory and nothing else changed in it,
  every other file keeps its inode and its bytes, the blocks the file pointed to directly (as far
  as its size says) and through the single indirect block are free again and no others, and so is its number. The
  volume is well formed without the file: its path leads nowhere, no path is new, and every path
  to another file leads there still.
\<close>

theorem ipo_fs_delete_correct:
  assumes "ata_drive io view" and "attached view N s" and "v = volume view N s" and "volume_ok N v I" and "fs_mounted s"
    and "count_list (c_str p) slash < 128" and "length (c_str p) + 2 < 512"
    and "parent_of v p = Some (d, name)" and "named_entry v d name = Some e" and "deletable_entry v e"
    and "only_name I v d name (d_inode e)"
  shows "\<exists>s'. run_state (ipo_fs_delete io (Some p)) s = (True, s') \<and> attached view N s' \<and>
    volume_ok N (volume view N s') (I - {d_inode e}) \<and> deleted I v d name (d_inode e) (volume view N s') \<and>
    walk (volume view N s') 1 (path_components p) = None \<and>
    (\<forall>ts j. walk (volume view N s') 1 ts = Some j \<longrightarrow> walk v 1 ts = Some j) \<and>
    (\<forall>ts j. \<not> is_dir v (d_inode e) \<and> walk v 1 ts = Some j \<and> j \<noteq> d_inode e \<longrightarrow> walk (volume view N s') 1 ts = Some j)"
proof -
  have m: "v_mounted v" using assms(3,5) by (simp add: volume_def)
  have d: "d \<in> I" using assms(8) walk_in_tree [OF volume_okD(2,5) [OF assms(4)]] by (auto simp: parent_of_def Let_def split: if_splits)
  note E = named_entryD [OF assms(4) d assms(9)]
  obtain v' where run: "evals (attached view N) (volume view N) v (ipo_fs_delete io (Some p)) True v'"
    and v': "volume_ok N v' (I - {d_inode e})" "deleted I v d name (d_inode e) v'"
    using fs_store.runs_delete [OF drive_store [OF assms(1)] assms(4) m assms(6-11)] by blast
  from evals_attached [OF run assms(2) assms(3) [symmetric]] obtain s' where
    s': "run_state (ipo_fs_delete io (Some p)) s = (True, s')" "attached view N s'" "volume view N s' = v'" by blast
  note W = deleted_walk [OF assms(4) v' E(3) d E(1)]
  show ?thesis
    by (rule exI [of _ s'], unfold s'(3)) (use s'(1,2) v' W(1) W(2) [OF assms(8)] W(3) in simp)
qed

theorem ipo_fs_delete_correct_witness:
  "\<exists>s'. run_state (ipo_fs_delete pio_io (Some (str ''/b''))) demo_fs = (True, s') \<and>
    volume_ok 12 (volume prompt 12 s') {1, 2} \<and> walk (volume prompt 12 s') 1 [str ''b''] = None"
proof -
  have c: "path_components (str ''/b'') = [str ''b'']" by (simp add: path_components_def normalise_from_def c_str_def)
  have b: "count_list (c_str (str ''/b'')) slash < 128" "length (c_str (str ''/b'')) + 2 < 512" by (simp_all add: c_str_def)
  have J: "{1, 2, 3} - {d_inode demo_entry_b} = {1, 2}" by (auto simp: demo_deletable(3))
  note ipo_fs_delete_correct [OF pio.ata_drive_axioms demo_attached refl demo_volume_ok demo_bounds(1) b demo_deletable(1,2,4),
    unfolded demo_deletable(3) c]
  from this [OF demo_deletable(5)] show ?thesis using J unfolding demo_deletable(3) by metis
qed

text \<open>
  C32. A deletion is refused without any change when the path is the root, when it names nothing,
  when the file is protected and when it is a directory of more than two entries.
\<close>

theorem ipo_fs_delete_refused:
  assumes "ata_drive io view" and "attached view N s" and "v = volume view N s" and "volume_ok N v I" and "fs_mounted s"
    and "count_list (c_str p) slash < 128" and "length (c_str p) + 2 < 512" and "\<not> deletable v p"
  shows "\<exists>s'. run_state (ipo_fs_delete io (Some p)) s = (False, s') \<and> attached view N s' \<and> volume view N s' = v"
proof -
  have m: "v_mounted v" using assms(3,5) by (simp add: volume_def)
  from evals_attached [OF fs_store.runs_delete_refused [OF drive_store [OF assms(1)] assms(4) m assms(6-8)] assms(2) assms(3) [symmetric]]
  show ?thesis .
qed

theorem ipo_fs_delete_refused_witness:
  "\<exists>s'. run_state (ipo_fs_delete pio_io (Some (str ''/b/..''))) demo_fs = (False, s') \<and> volume prompt 12 s' = demo_vol"
proof -
  have c: "path_components (str ''/b/..'') = []" by (simp add: path_components_def normalise_from_def c_str_def)
  have b: "count_list (c_str (str ''/b/..'')) slash < 128" "length (c_str (str ''/b/..'')) + 2 < 512" by (simp_all add: c_str_def)
  have "\<not> deletable demo_vol (str ''/b/..'')" unfolding deletable_def parent_of_def c by simp
  from ipo_fs_delete_refused [OF pio.ata_drive_axioms demo_attached refl demo_volume_ok demo_bounds(1) b this]
  show ?thesis by blast
qed

end
