(* ===== verification/Apps.thy ===== *)
theory Apps imports StdioProps Ata CString begin

text \<open>
  Code whose only effect is text on the screen: the example application \<open>apps/hello/hello.c\<close> and the
  list of drives of \<open>ata.c\<close>. Printing is the format loop of \<open>Stdio\<close>, with \<open>None\<close> for undefined behaviour.
\<close>

section \<open>The code\<close>

text \<open>Several calls of \<open>printf\<close> in a row, their results ignored; \<open>None\<close> when one of them is undefined.\<close>

primrec print_all :: "'d machine \<Rightarrow> (bytes \<times> arg list) list \<Rightarrow> ('d tty, unit option) state" where
  "print_all io [] = State_Monad.return (Some ())"
| "print_all io (call # calls) = do {
     r \<leftarrow> printf io (fst call) (snd call);
     case r of None \<Rightarrow> State_Monad.return None | Some _ \<Rightarrow> print_all io calls
   }"

text \<open>The loop of \<open>main\<close>: the argument itself is the format.\<close>

primrec greet :: "'d machine \<Rightarrow> bytes list \<Rightarrow> ('d tty, int option) state" where
  "greet io [] = State_Monad.return (Some 0)"
| "greet io (arg # args) = do {
     r \<leftarrow> print_all io [(str ''Hello, '', []), (arg, []), (str ''!'' @ [10], [])];
     case r of None \<Rightarrow> State_Monad.return None | Some _ \<Rightarrow> greet io args
   }"

definition hello_main :: "'d machine \<Rightarrow> bytes list \<Rightarrow> ('d tty, int option) state" where
  "hello_main io argv =
     (if length argv = 1 then do {
        r \<leftarrow> printf io (str ''Hello, World!'' @ [10]) [];
        State_Monad.return (map_option (\<lambda>_. 0) r)
      }
      else greet io (tl argv))"

text \<open>\<open>ata_print_devices\<close>: the model and the serial number are read up to their NUL.\<close>

definition device_lines :: "nat \<Rightarrow> ata_device \<Rightarrow> (bytes \<times> arg list) list" where
  "device_lines i d =
     [(str ''Device %d:'' @ [10], [ArgInt (of_nat i)]),
      (str ''  Model: %s'' @ [10], [ArgPtr (Some (c_str (model d)))]),
      (str ''  Serial: %s'' @ [10], [ArgPtr (Some (c_str (serial d)))]),
      (str ''  Sectors: %llu'' @ [10], [ArgLong (capacity_sectors d)]),
      (str ''  Size: %llu MB'' @ [10], [ArgLong (capacity_sectors d div 2048)]),
      ([10], [])]"

definition ata_print_devices :: "'d machine \<Rightarrow> ata_device list \<Rightarrow> u8 \<Rightarrow> ('d tty, unit option) state" where
  "ata_print_devices io devices count = print_all io ((str ''=== ATA DEVICES ==='' @ [10], []) #
     concat (map (\<lambda>i. device_lines i (devices ! i)) [0..<unat count]))"

section \<open>The text\<close>

lemma printf_literal:
  assumes "0x25 \<notin> set cs"
  shows "printf io cs [] = State_Monad.bind (put_all (putchar io) cs) (\<lambda>_. State_Monad.return (Some (length cs)))"
proof -
  have "format_of (map Lit cs) = cs" "args_of (map Lit cs) = []" "text_of (map Lit cs) = cs"
    by (induction cs) (simp_all add: format_of_def args_of_def text_of_def)
  moreover have "list_all plain_piece (map Lit cs)" using assms by (auto simp: list_all_iff plain_piece_def)
  ultimately show ?thesis using format_pieces [of "map Lit cs" "putchar io" 0] by (simp add: printf_def)
qed

lemma printf_text:
  assumes "list_all plain_piece ps"
  shows "printf io (format_of ps) (args_of ps) =
    State_Monad.bind (put_all (putchar io) (text_of ps)) (\<lambda>_. State_Monad.return (Some (length (text_of ps))))"
  using format_pieces [OF assms, of "putchar io" 0] by (simp add: printf_def)

lemma print_all_text:
  assumes "\<And>ps. ps \<in> set pss \<Longrightarrow> list_all plain_piece ps"
  shows "print_all io (map (\<lambda>ps. (format_of ps, args_of ps)) pss) =
    State_Monad.bind (put_all (putchar io) (concat (map text_of pss))) (\<lambda>_. State_Monad.return (Some ()))"
  using assms
proof (induction pss)
  case (Cons ps pss)
  then show ?case using printf_text [of ps io] by (simp add: put_all_append)
qed simp

text \<open>The list of drives, whatever their number and capacity: the text of its lines, all numbers in full.\<close>

definition device_pieces :: "nat \<Rightarrow> ata_device \<Rightarrow> piece list list" where
  "device_pieces i d =
     [map Lit (str ''Device '') @ [Decimal (of_nat i), Lit 0x3A, Lit 10],
      map Lit (str ''  Model: '') @ [Text (c_str (model d)), Lit 10],
      map Lit (str ''  Serial: '') @ [Text (c_str (serial d)), Lit 10],
      map Lit (str ''  Sectors: '') @ [Unsigned64 (capacity_sectors d), Lit 10],
      map Lit (str ''  Size: '') @ [Unsigned64 (capacity_sectors d div 2048)] @ map Lit (str '' MB'') @ [Lit 10],
      [Lit 10]]"

lemma device_lines_pieces: "device_lines i d = map (\<lambda>ps. (format_of ps, args_of ps)) (device_pieces i d)"
  by (simp add: device_lines_def device_pieces_def format_of_def args_of_def)

lemma ata_print_devices_text:
  "ata_print_devices io devices count = State_Monad.bind (put_all (putchar io)
     (str ''=== ATA DEVICES ==='' @ [10] @
      concat (map (\<lambda>i. concat (map text_of (device_pieces i (devices ! i)))) [0..<unat count])))
   (\<lambda>_. State_Monad.return (Some ()))"
proof -
  let ?head = "map Lit (str ''=== ATA DEVICES ==='' @ [10])"
  let ?pss = "?head # concat (map (\<lambda>i. device_pieces i (devices ! i)) [0..<unat count])"
  have h: "format_of ?head = str ''=== ATA DEVICES ==='' @ [10]" "args_of ?head = []" "text_of ?head = str ''=== ATA DEVICES ==='' @ [10]"
    by (simp_all add: format_of_def args_of_def text_of_def)
  have "list_all plain_piece ps" if "ps \<in> set (device_pieces i d)" for i d ps
    using that by (auto simp: device_pieces_def plain_piece_def)
  then have "list_all plain_piece ps" if "ps \<in> set ?pss" for ps
    using that by (auto simp: plain_piece_def)
  note t = print_all_text [of ?pss io, OF this]
  have "concat (map (\<lambda>i. device_lines i (devices ! i)) [0..<unat count]) =
      map (\<lambda>ps. (format_of ps, args_of ps)) (concat (map (\<lambda>i. device_pieces i (devices ! i)) [0..<unat count]))"
    by (simp add: device_lines_pieces map_concat comp_def)
  moreover have "concat (map f (concat (map g js))) = concat (map (\<lambda>i. concat (map f (g i))) js)"
    for f :: "piece list \<Rightarrow> bytes" and g :: "nat \<Rightarrow> piece list list" and js
    by (induction js) simp_all
  ultimately show ?thesis
    using t unfolding ata_print_devices_def list.map h concat.simps(2) by (simp only: append_assoc)
qed

text \<open>A directive that needs an argument, with none passed, is undefined whatever the screen.\<close>

lemma format_undefined:
  assumes "0x25 \<notin> set pre" and "d \<in> set (str ''duxcs'')"
  shows "format_loop putc (pre @ 0x25 # d # rest) [] n =
    State_Monad.bind (put_all putc pre) (\<lambda>_. State_Monad.return None)"
  using assms
proof (induction pre arbitrary: n)
  case Nil
  then have "d \<noteq> 0x6C" by auto
  then show ?case using Nil(2) by (auto simp: directive_def)
qed simp

definition hello_text :: "bytes list \<Rightarrow> bytes" where
  "hello_text argv = (if length argv = 1 then str ''Hello, World!'' @ [10]
     else concat (map (\<lambda>arg. str ''Hello, '' @ arg @ str ''!'' @ [10]) (tl argv)))"

lemma greeting_literals:
  "0x25 \<notin> set (str ''Hello, '')" "0x25 \<notin> set (str ''!'' @ [10])" "0x25 \<notin> set (str ''Hello, World!'' @ [10])"
  by simp_all

lemma print_greeting:
  assumes "0x25 \<notin> set arg"
  shows "print_all io [(str ''Hello, '', []), (arg, []), (str ''!'' @ [10], [])] =
    State_Monad.bind (put_all (putchar io) (str ''Hello, '' @ arg @ str ''!'' @ [10])) (\<lambda>_. State_Monad.return (Some ()))"
  using greeting_literals(1,2) [THEN printf_literal, of io] printf_literal [OF assms, of io]
  by (simp add: put_all_append del: str_Cons)

lemma greet_text:
  "(\<And>a. a \<in> set args \<Longrightarrow> 0x25 \<notin> set a) \<Longrightarrow> greet io args =
     State_Monad.bind (put_all (putchar io) (concat (map (\<lambda>arg. str ''Hello, '' @ arg @ str ''!'' @ [10]) args)))
       (\<lambda>_. State_Monad.return (Some 0))"
proof (induction args)
  case (Cons a args)
  then show ?case using print_greeting [of a io] by (simp add: put_all_append del: print_all.simps str_Cons)
qed simp

lemma greet_append:
  "(\<And>a. a \<in> set args \<Longrightarrow> 0x25 \<notin> set a) \<Longrightarrow> greet io (args @ us) =
     State_Monad.bind (put_all (putchar io) (concat (map (\<lambda>arg. str ''Hello, '' @ arg @ str ''!'' @ [10]) args)))
       (\<lambda>_. greet io us)"
proof (induction args)
  case (Cons a args)
  then show ?case using print_greeting [of a io] by (simp add: put_all_append del: print_all.simps str_Cons)
qed simp

lemma greet_undefined:
  assumes "0x25 \<notin> set pre" and "d \<in> set (str ''duxcs'')"
  shows "greet io ((pre @ 0x25 # d # rest) # us) =
    State_Monad.bind (put_all (putchar io) (str ''Hello, '' @ pre)) (\<lambda>_. State_Monad.return None)"
  using printf_literal [OF greeting_literals(1), of io] format_undefined [OF assms, of "putchar io" rest 0, folded printf_def]
  by (simp add: put_all_append del: str_Cons)

section \<open>Properties\<close>

text \<open>
  C24. The example application: with no argument it prints a greeting of the world, and with
  arguments a line of greeting for each in order, and returns 0, as long as no argument has a percent sign. Each
  argument is a format, though: after such arguments, one with a directive that takes a value has
  its greeting printed up to that directive, and what follows is undefined, because no value was passed.
\<close>

theorem hello_greets:
  assumes "\<forall>a \<in> set (tl argv). 0x25 \<notin> set a" and "argv \<noteq> []" and "0x25 \<notin> set pre" and "d \<in> set (str ''duxcs'')"
  shows "hello_main io argv = State_Monad.bind (put_all (putchar io) (hello_text argv)) (\<lambda>_. State_Monad.return (Some 0)) \<and>
    hello_main io (argv @ [pre @ 0x25 # d # rest]) =
      State_Monad.bind (put_all (putchar io)
        (concat (map (\<lambda>arg. str ''Hello, '' @ arg @ str ''!'' @ [10]) (tl argv)) @ str ''Hello, '' @ pre))
      (\<lambda>_. State_Monad.return None)"
proof -
  have p: "0x25 \<notin> set a" if "a \<in> set (tl argv)" for a using assms(1) that by blast
  have "hello_main io argv = State_Monad.bind (put_all (putchar io) (hello_text argv)) (\<lambda>_. State_Monad.return (Some 0))"
  proof (cases "length argv = 1")
    case True
    then show ?thesis using printf_literal [OF greeting_literals(3), of io] by (simp add: hello_main_def hello_text_def del: str_Cons)
  next
    case False
    then show ?thesis using greet_text [OF p, where io = io] by (simp add: hello_main_def hello_text_def)
  qed
  moreover have "length (argv @ [pre @ 0x25 # d # rest]) \<noteq> 1" using assms(2) by simp
  ultimately show ?thesis
    using greet_append [OF p, where io = io and us = "[pre @ 0x25 # d # rest]"] greet_undefined [OF assms(3,4), where io = io and rest = rest and us = "[]"] assms(2)
    by (simp add: hello_main_def put_all_append del: greet.simps str_Cons)
qed

theorem hello_greets_witness:
  "hello_main crtc_io [str ''hello'', str ''Ann''] =
     State_Monad.bind (put_all (putchar crtc_io) (str ''Hello, Ann!'' @ [10])) (\<lambda>_. State_Monad.return (Some 0)) \<and>
   fst (run_state (hello_main crtc_io [str ''hello'', str ''Ann'', str ''50%s'']) demo_tty) = None"
proof -
  have "\<forall>a \<in> set (tl [str ''hello'', str ''Ann'']). 0x25 \<notin> set a" "[str ''hello'', str ''Ann''] \<noteq> []"
    "0x25 \<notin> set (str ''50'')" "0x73 \<in> set (str ''duxcs'')" by simp_all
  note h = hello_greets [OF this, of crtc_io "[]"]
  have none: "fst (run_state (State_Monad.bind m (\<lambda>_. State_Monad.return None)) t) = None" for m t
    by (cases "run_state m t") simp
  have "[str ''hello'', str ''Ann''] @ [str ''50'' @ 0x25 # 0x73 # []] = [str ''hello'', str ''Ann'', str ''50%s'']" by simp
  with h have "fst (run_state (hello_main crtc_io [str ''hello'', str ''Ann'', str ''50%s'']) demo_tty) = None"
    using none by metis
  moreover have "hello_text [str ''hello'', str ''Ann''] = str ''Hello, Ann!'' @ [10]" by (simp add: hello_text_def)
  ultimately show ?thesis using h by metis
qed

end
