(* ===== verification/Spec2Isabelle.thy ===== *)
theory Spec2Isabelle imports AtaProps FsProps KmallocProps ConsoleProps Sound Boot ShellProps FsList FsDeleteProps Apps begin

text \<open>
  IPO_OS is a small 32-bit x86 operating system in C. It finds its disks with an ATA driver, keeps a
  file system of its own on the first one, shows a scrolling text terminal with a command line, and
  runs applications that it loads from the file system into the kernel heap. This development models
  the C code of the repository operation by operation and proves what the parts promise each other.
  Paths below are relative to \<open>src/\<close>.

  \<^bold>\<open>How the parts interact.\<close> The driver moves sectors through ports (\<open>lib/c/driver/ata.c\<close>). The file
  system (\<open>lib/c/file_system\<close>) reads and writes its blocks through the driver: bitmaps, inodes, the
  block map of a file, directories, paths, and the public calls on descriptors. The terminal
  (\<open>lib/c/kernel/terminal.c\<close>, \<open>lib/c/system/vga.c\<close>, \<open>lib/c/stdio\<close>) turns characters into cells of the
  display and keys (\<open>lib/c/driver/keyboard.c\<close>, \<open>lib/c/driver/input\<close>) into command lines. A command line
  becomes a path and arguments; the process manager (\<open>lib/c/kernel/process.c\<close>) reads the file into
  blocks of the allocator (\<open>lib/c/memory/kmalloc.c\<close>) and calls it. The start-up script
  (\<open>lib/c/kernel/autorun.c\<close>) is a list of command lines. \<open>src/kernel/kernel32.c\<close> starts it all.

  \<^bold>\<open>Conventions.\<close> A C struct is a record, an array a list updated by index, a machine integer a word of
  its width. An operation on global state is a function in the state monad on the record of that
  state, with the failure value of the C code as its result; a loop that could run for ever is a
  \<open>partial_function (option)\<close>, so that not returning is the value \<open>None\<close>, and the properties say that a
  value is returned. Where C leaves a result undefined, so does the model: an argument that does not
  match its directive makes \<open>printf\<close> return \<open>None\<close>, an index out of bounds sets the \<open>fault\<close> flag of the
  terminal, and the negation of the smallest integer, which overflows, is an unspecified number
  (\<open>negated_long\<close>). Hardware is an unknown state with the port instructions as functions on it
  (\<open>Ioport\<close>); what a component relies on is a locale of documented behaviour, interpreted on an
  executable device, and the witnesses run on that device. Over a locale, \<open>evals\<close> (in \<open>Prelude\<close>) says
  that a run from any concrete state behind an abstract one returns a result and ends in a state
  behind another; the rules for it are collected in \<open>evals_rules\<close>, one per construct of the monad and
  one per verified operation, so that a caller's proof follows its code.

  \<^bold>\<open>Disk.\<close> \<open>Ata\<close> is the driver. \<open>AtaDevice\<close> states the protocol of a drive in the locale
  \<open>ata_drive\<close> (status, sector count and address registers, one word per read or write of the data
  port, a bounded number of busy polls), \<open>AtaProof\<close> shows that the polling loops end on it, and
  \<open>AtaProps\<close> that sectors are read and written exactly.

  \<^bold>\<open>File system.\<close> \<open>FsTypes\<close> holds the structures with their byte layout and the globals; \<open>FsBlock\<close>,
  \<open>FsInode\<close>, \<open>FsDir\<close>, \<open>FsPath\<close> and \<open>FsApi\<close> are \<open>ipo_block.c\<close> with \<open>ipo_bitmap.c\<close>, \<open>ipo_inode.c\<close>,
  \<open>ipo_dir.c\<close>, \<open>ipo_path.c\<close> and \<open>ipo_api.c\<close>. The locale \<open>fs_store\<close> of \<open>FsBlock\<close> is the interface between
  the blocks and the rest: block reads and writes act on a volume, the function from block numbers
  to bytes; every conforming drive gives one (\<open>sublocale\<close>). \<open>FsInodeSpec\<close> has the inode table as a
  function and allocation as the search for a clear bit; \<open>FsMap\<close> and \<open>FsMapProof\<close> the block map as a tree
  of pointers (direct, single, double indirect) that grows on the way to a block and takes exactly the
  blocks it needs there (\<open>grow\<close>); \<open>FsFile\<close> the contents of a
  file and what the block loops of reading and writing do to them; \<open>FsFiles\<close> several files whose trees
  are apart; \<open>FsLookup\<close> and \<open>FsWalk\<close> directories as name lists and resolution as a walk; \<open>FsDirBytes\<close>
  a directory as a function of the bytes of its file; \<open>FsCreate\<close> the volume after an inode was taken and an
  entry was added, and \<open>FsCreateProps\<close> the well-formed volume (\<open>volume_ok\<close>) that a creation keeps;
  \<open>FsDelete\<close> the volume after an inode was given back and a slot cleared, and \<open>FsDeleteProps\<close> that a deletion
  keeps it well formed and takes away the paths to the file only; \<open>FsList\<close> the text of a listing. \<open>FsProps\<close> and
  \<open>FsWalkProps\<close> state the properties of the C functions; \<open>FsDemo\<close> is the volume of the witnesses.

  \<^bold>\<open>Memory.\<close> \<open>CString\<close> has the string functions on a byte memory with 32-bit pointers; \<open>Kmalloc\<close> the
  allocator on the same memory, as a tiling of the heap by blocks with headers; \<open>KmallocProps\<close> its
  properties, with two faults of the code as theorems (a block that is used again cannot be freed, and
  a split with too small a remainder destroys the next header); \<open>HeapView\<close> the view of its clients, a list of cells with their bytes, and one lemma per
  operation: allocation at the end or in a free cell, stores, reads, freeing.

  \<^bold>\<open>Terminal.\<close> \<open>Vga\<close>, \<open>Terminal\<close>, \<open>Stdio\<close>, \<open>Keymap\<close> and \<open>Console\<close> are the code; the cursor
  registers are the locale \<open>crtc\<close>. \<open>TerminalView\<close> defines the abstract display (the lines above, on
  and below the screen, and the cursor) and shows that scrolling refines it; \<open>TerminalOutput\<close> does the
  same for characters and defines the reachable states; \<open>TerminalProps\<close>, \<open>StdioProps\<close>, \<open>KeymapProps\<close> and
  \<open>ConsoleProps\<close> hold the properties, from the numerals of \<open>itoa\<close> to the line that is executed.
  \<open>Sound\<close> is the timer and the speaker, with the locale \<open>pit\<close>, and the notes of \<open>sound.h\<close> with their tuning.
  \<open>Apps\<close> holds the code that only prints: the application \<open>apps/hello/hello.c\<close> and the list of drives of \<open>ata.c\<close>.

  \<^bold>\<open>Processes and shell.\<close> \<open>Process\<close> is \<open>process.c\<close> on the file system, the heap and the static
  variables together; a process structure lies in the heap at the offsets of \<open>process_t\<close>.
  \<open>ProcessProof\<close>, \<open>ProcessArgs\<close> and \<open>ProcessExec\<close> follow one execution through the cells of the heap: the
  structure, the image, its copy, the array and the strings of the arguments, the call, the clean-up.
  \<open>Shell\<close> has the command line and the script, \<open>Script\<close> shows that the script is the list of its
  commands, \<open>ShellArgs\<close> that the words of a line become the arguments, \<open>ProcessProps\<close> and
  \<open>ShellProps\<close> hold the properties. \<open>Boot\<close> is the order in which \<open>kmain\<close> starts the parts.

  \<^bold>\<open>Bounds and fuel.\<close> The polling loops have the bounds of the code (100000 polls). The walk to the root in
  \<open>is_descendant\<close> may not end on a damaged volume and has fuel. The string loops, the search for a free
  block, the loading loop and the loops of the clean-up are options; on the states the properties
  speak of they are shown to return, and the loading loop on every state. The properties of \<open>snprintf\<close>
  are for buffers of at most \<open>2 ^ 31\<close> bytes, because the code casts the room that is left to \<open>int\<close>.

  \<^bold>\<open>Not modelled.\<close> The boot sector, the entry code and the linker script are assembly; the example
  application is modelled by itself (its image is a parameter of the process manager); \<open>disk_editor.py\<close>,
  \<open>tools\<close> and the build files are not part of the kernel. Diagnostics printed inside the
  file system, the process manager and the script are left out, as they change no state but the
  screen, and so are the two screen calls of \<open>kmain\<close>; its endless loop is the sequence of console rounds.
  Null and undersized buffers of callers are outside the domain of a path or buffer argument. Paths
  and lines are passed as the bytes of their strings. A C string that is read from a disk block ends
  at the latest with the block. An application is a parameter: what happens in the loaded code is not
  modelled, and the properties about it assume that it returns and writes to no other block of the
  heap. They are about a heap none of whose cells is free, as it is before the first command: a later
  one may take its memory from cells that an earlier one freed, where the two faults of the
  allocator named above apply, so that neither the memory of the process is certain to be given back nor
  the headers behind it to be kept. The console takes the execution of a line as a parameter, because the terminal and the kernel
  are two separate states.
\<close>

end
